(* ===== verification/TOS_Prelude.thy ===== *)
theory TOS_Prelude
  imports Main "HOL-Library.Word"
begin

text \<open>
  Shared vocabulary of the development.  Go's fixed-width integers are words of the
  same width (\<open>byte\<close>, \<open>u64\<close>), the fixed arrays \<open>common.Hash\<close> ([32]byte) and
  \<open>common.Address\<close> ([20]byte) are words read big-endian, \<open>*big.Int\<close> is \<open>int\<close> and a
  slice is a list.  A Go function that returns \<open>(T, error)\<close> returns \<open>'e + 'a\<close>, with
  \<open>Inl\<close> for the error.  The theory holds the big-endian byte conversions behind
  \<open>big.Int.Bytes\<close>, \<open>big.Int.SetBytes\<close> and the fixed array views, and the generic lemmas
  on lists, sums and words that the component theories share.
\<close>

unbundle bit_operations_syntax

type_synonym byte = "8 word"
type_synonym bytes = "byte list"
type_synonym u64 = "64 word"
type_synonym hash = "256 word"
type_synonym address = "160 word"

named_theorems go_simps \<open>unfolding rules of the Go primitives of the model\<close>
named_theorems be_simps \<open>big-endian byte conversions\<close>

section \<open>Big-endian numbers\<close>

text \<open>\<open>big.Int.SetBytes\<close>: the natural number a byte slice denotes, most significant byte first.\<close>

definition be_val :: "bytes \<Rightarrow> nat" where
  "be_val bs = foldl (\<lambda>acc b. acc * 256 + unat b) 0 bs"

text \<open>\<open>big.Int.Bytes\<close>: the minimal big-endian representation, empty for zero.\<close>

fun be_min :: "nat \<Rightarrow> bytes" where
  "be_min n = (if n = 0 then [] else be_min (n div 256) @ [word_of_nat (n mod 256)])"

declare be_min.simps [simp del]

text \<open>A fixed array of \<open>k\<close> bytes holding a number, most significant byte first.\<close>

primrec be_fixed :: "nat \<Rightarrow> nat \<Rightarrow> bytes" where
  "be_fixed 0 n = []"
| "be_fixed (Suc k) n = be_fixed k (n div 256) @ [word_of_nat (n mod 256)]"

definition hash_bytes :: "hash \<Rightarrow> bytes" where
  "hash_bytes h = be_fixed 32 (unat h)"

definition address_bytes :: "address \<Rightarrow> bytes" where
  "address_bytes a = be_fixed 20 (unat a)"

lemma unat_byte_less [simp]: "unat (b :: byte) < 256"
  using unsigned_less [of b, where ?'a = nat] by simp

lemma byte_of_unat [simp]: "word_of_nat (unat b mod 256) = (b :: byte)"
  by (simp add: mod_less)

lemma be_val_Nil [simp, be_simps]: "be_val [] = 0"
  by (simp add: be_val_def)

lemma be_val_snoc [simp, be_simps]: "be_val (bs @ [b]) = be_val bs * 256 + unat b"
  by (simp add: be_val_def)

lemma be_val_singleton [simp, be_simps]: "be_val [b] = unat b"
  by (simp add: be_val_def)

lemma unat_byte_of_mod [simp]: "unat (word_of_nat (n mod 256) :: byte) = n mod 256"
  by (simp add: unat_of_nat)

lemma byte_of_unat_mod [simp]:
  "word_of_nat ((m * 256 + unat (b :: byte)) mod 256) = b"
  by (simp add: mod_mult_self3)

lemma be_min_0 [simp, be_simps]: "be_min 0 = []"
  by (subst be_min.simps) simp

lemma be_min_pos: "0 < n \<Longrightarrow> be_min n = be_min (n div 256) @ [word_of_nat (n mod 256)]"
  by (subst be_min.simps) simp

lemma be_min_eq_Nil_iff [simp, be_simps]: "be_min n = [] \<longleftrightarrow> n = 0"
  by (cases "n = 0") (simp_all add: be_min_pos)

lemma be_val_be_min [simp, be_simps]: "be_val (be_min n) = n"
proof (induction n rule: be_min.induct)
  case (1 n)
  then show ?case
    by (cases "n = 0") (simp_all add: be_min_pos)
qed

lemma hd_be_min_nonzero: "0 < n \<Longrightarrow> hd (be_min n) \<noteq> 0"
proof (induction n rule: be_min.induct)
  case (1 n)
  show ?case
  proof (cases "n div 256 = 0")
    case True
    with "1.prems" have "0 < n \<and> n < 256" by (simp add: div_eq_0_iff)
    then have "unat (word_of_nat n :: byte) \<noteq> 0" by (simp add: unat_of_nat)
    then have "(word_of_nat n :: byte) \<noteq> 0" by auto
    with True \<open>0 < n \<and> n < 256\<close> show ?thesis by (simp add: be_min_pos)
  next
    case False
    with "1" show ?thesis by (simp add: be_min_pos [of n] hd_append)
  qed
qed

lemma be_val_pos: "bs \<noteq> [] \<Longrightarrow> hd bs \<noteq> 0 \<Longrightarrow> 0 < be_val bs"
proof (induction bs rule: rev_induct)
  case (snoc b bs)
  then show ?case
    by (cases "bs = []") (auto simp: unat_gt_0)
qed simp

text \<open>Bytes without a leading zero are the minimal representation of their value.\<close>

lemma be_min_be_val: "(bs \<noteq> [] \<Longrightarrow> hd bs \<noteq> 0) \<Longrightarrow> be_min (be_val bs) = bs"
proof (induction bs rule: rev_induct)
  case (snoc b bs)
  show ?case
  proof (cases "bs = []")
    case True
    with snoc.prems have "b \<noteq> 0" by simp
    then have "0 < unat b" by (simp add: unat_gt_0)
    with True show ?thesis by (simp add: be_min_pos)
  next
    case False
    with snoc.prems have "hd bs \<noteq> 0" by simp
    with False have "0 < be_val bs" by (simp add: be_val_pos)
    with snoc.IH \<open>hd bs \<noteq> 0\<close> show ?thesis
      by (simp add: be_min_pos [of "be_val bs * 256 + unat b"])
  qed
qed simp

lemma length_be_min_le_iff: "length (be_min n) \<le> k \<longleftrightarrow> n < 256 ^ k"
proof (induction n arbitrary: k rule: be_min.induct)
  case (1 n)
  show ?case
  proof (cases "n = 0")
    case False
    then show ?thesis
    proof (cases k)
      case (Suc j)
      have "n < 256 ^ k \<longleftrightarrow> n div 256 < 256 ^ j"
        by (simp add: Suc div_less_iff_less_mult mult.commute)
      with "1"[OF False] False Suc show ?thesis by (simp add: be_min_pos)
    qed (simp add: be_min_pos)
  qed simp
qed

lemma length_be_fixed [simp, be_simps]: "length (be_fixed k n) = k"
  by (induction k arbitrary: n) simp_all

lemma be_fixed_Suc_front: "be_fixed (Suc k) n = word_of_nat (n div 256 ^ k mod 256) # be_fixed k n"
  by (induction k arbitrary: n) (simp_all add: div_mult2_eq)

lemma be_fixed_numeral:
  "be_fixed (numeral v) n =
     word_of_nat (n div 256 ^ pred_numeral v mod 256) # be_fixed (pred_numeral v) n"
  by (simp only: numeral_eq_Suc be_fixed_Suc_front)

lemma be_val_be_fixed: "be_val (be_fixed k n) = n mod 256 ^ k"
proof (induction k arbitrary: n)
  case (Suc k)
  then show ?case
    by (simp add: mod_mult2_eq [of n 256 "256 ^ k"] mult.commute)
qed simp

lemma be_fixed_be_val: "be_fixed (length bs) (be_val bs) = bs"
  by (induction bs rule: rev_induct) simp_all

lemma be_val_hash_bytes [simp, be_simps]: "be_val (hash_bytes h) = unat h"
  using unsigned_less [of h, where ?'a = nat] by (simp add: hash_bytes_def be_val_be_fixed)

lemma be_val_address_bytes [simp, be_simps]: "be_val (address_bytes a) = unat a"
  using unsigned_less [of a, where ?'a = nat] by (simp add: address_bytes_def be_val_be_fixed)

lemma length_hash_bytes [simp, be_simps]: "length (hash_bytes h) = 32"
  by (simp add: hash_bytes_def)

lemma length_address_bytes [simp, be_simps]: "length (address_bytes a) = 20"
  by (simp add: address_bytes_def)

lemma word_of_be_val_hash_bytes [simp, be_simps]: "(word_of_nat (be_val (hash_bytes h)) :: hash) = h"
  by simp

lemma hash_bytes_inject [simp]: "hash_bytes g = hash_bytes h \<longleftrightarrow> g = h"
  by (metis be_val_hash_bytes word_unat_eq_iff)

lemma address_bytes_inject [simp]: "address_bytes g = address_bytes h \<longleftrightarrow> g = h"
  by (metis be_val_address_bytes word_unat_eq_iff)

section \<open>Results\<close>

text \<open>Two results agree unless the first is an error: the shape of every early return.\<close>

definition res_bind :: "'e + 'a \<Rightarrow> ('a \<Rightarrow> 'e + 'b) \<Rightarrow> 'e + 'b" where
  "res_bind r f = (case r of Inl e \<Rightarrow> Inl e | Inr x \<Rightarrow> f x)"

lemma res_bind_simps [simp, go_simps]:
  "res_bind (Inl e) f = Inl e"
  "res_bind (Inr x) f = f x"
  by (simp_all add: res_bind_def)

lemma res_bind_eq_Inr_iff: "res_bind r f = Inr y \<longleftrightarrow> (\<exists>x. r = Inr x \<and> f x = Inr y)"
  by (cases r) simp_all

lemma res_bind_eq_InrE [elim]:
  assumes "res_bind r f = Inr y"
  obtains x where "r = Inr x" and "f x = Inr y"
  using assms by (auto simp: res_bind_eq_Inr_iff)

lemma res_bind_assoc: "res_bind (res_bind r f) g = res_bind r (\<lambda>x. res_bind (f x) g)"
  by (cases r) simp_all

lemma res_bind_cong [fundef_cong]:
  "r = r' \<Longrightarrow> (\<And>x. r' = Inr x \<Longrightarrow> f x = f' x) \<Longrightarrow> res_bind r f = res_bind r' f'"
  by (cases r') simp_all

text \<open>A loop over a slice whose body may fail, threading a state.\<close>

fun fold_res :: "('a \<Rightarrow> 's \<Rightarrow> 'e + 's) \<Rightarrow> 'a list \<Rightarrow> 's \<Rightarrow> 'e + 's" where
  "fold_res f [] s = Inr s"
| "fold_res f (x # xs) s = res_bind (f x s) (fold_res f xs)"

lemma fold_res_append: "fold_res f (xs @ ys) s = res_bind (fold_res f xs s) (fold_res f ys)"
proof (induction xs arbitrary: s)
  case (Cons x xs)
  show ?case by (cases "f x s") (simp_all add: Cons.IH)
qed simp

lemma fold_res_inv:
  assumes "fold_res f xs s = Inr t" and "P s"
    and "\<And>x s t. x \<in> set xs \<Longrightarrow> P s \<Longrightarrow> f x s = Inr t \<Longrightarrow> P t"
  shows "P t"
  using assms
proof (induction xs arbitrary: s)
  case (Cons x xs)
  from Cons.prems(1) obtain u where u: "f x s = Inr u" "fold_res f xs u = Inr t" by auto
  with Cons.prems(2,3) have "P u" by auto
  with u(2) Cons.prems(3) show ?case by (auto intro: Cons.IH)
qed simp

lemma fold_res_cong [fundef_cong]:
  assumes "xs = ys" and "s = t" and "\<And>x s. x \<in> set ys \<Longrightarrow> f x s = g x s"
  shows "fold_res f xs s = fold_res g ys t"
  using assms(3) unfolding assms(1,2)
proof (induction ys arbitrary: t)
  case (Cons y ys)
  then have "fold_res f ys = fold_res g ys" by (intro ext) simp
  with Cons.prems show ?case by simp
qed simp

section \<open>Words\<close>

lemma unat_drop_bit_div: "unat (drop_bit k w) = unat w div 2 ^ k"
  unfolding unat_drop_bit_eq by (rule drop_bit_eq_div)

lemma word_less_2p_iff: "k < LENGTH('a) \<Longrightarrow> (w :: 'a::len word) < 2 ^ k \<longleftrightarrow> unat w < 2 ^ k"
proof -
  assume "k < LENGTH('a)"
  then have "unat (2 ^ k :: 'a word) = 2 ^ k"
    using unsigned_of_nat [of "2 ^ k", where ?'b = 'a and ?'a = nat] by (simp add: take_bit_nat_eq_self)
  then show ?thesis by (simp add: word_less_nat_alt)
qed

lemma word_of_nat_unat_less:
  "n < 2 ^ LENGTH('a::len) \<Longrightarrow> unat (word_of_nat n :: 'a word) = n"
  by (simp add: unsigned_of_nat take_bit_nat_eq_self)

end
