(* ===== verification/RLP_Encode.thy ===== *)
theory RLP_Encode
  imports TOS_Prelude
begin

text \<open>
  The RLP encoder of \<open>src/devbase/rlp/encode.go\<close>.  The source encodes a value into an
  \<open>encbuf\<close>: string data goes to one flat buffer, every list leaves a \<open>listhead\<close> (offset into
  that buffer, payload size) whose bytes are only inserted by \<open>toBytes\<close> at the end.  The theory
  models that machinery operation by operation and proves it equal to the textbook recursive
  encoding \<open>enc\<close>.  The reflection dispatch of \<open>makeWriter\<close> is the datatype \<open>rlp_val\<close>: one
  constructor per writer function.
\<close>

section \<open>Values, errors, integers\<close>

datatype rlp_val =
    VRaw bytes                 \<comment> \<open>\<open>RawValue\<close>\<close>
  | VUint u64                  \<comment> \<open>any unsigned integer kind\<close>
  | VBool bool
  | VBigInt "int option"       \<comment> \<open>\<open>*big.Int\<close>, \<open>None\<close> for a nil pointer\<close>
  | VBytes bytes               \<comment> \<open>byte slices, byte arrays and strings\<close>
  | VNil                       \<comment> \<open>a nil interface\<close>
  | VList "rlp_val list"       \<comment> \<open>other slices, arrays and structs\<close>

datatype rlp_error =
    EOL | ErrExpectedString | ErrExpectedList | ErrCanonInt | ErrCanonSize | ErrElemTooLarge
  | ErrValueTooLarge | ErrMoreThanOneValue | ErrNotInList | ErrNotAtEOL | ErrUintOverflow
  | ErrUnexpectedEOF | IoEOF | ErrNegativeBigInt | ErrTooLong | ErrTooShort | ErrTooFewElements
  | ErrInvalidBool | OutOfFuel

definition putint :: "u64 \<Rightarrow> bytes" where
  "putint i =
     (if i < 2 ^ 8 then [ucast i]
      else if i < 2 ^ 16 then [ucast (drop_bit 8 i), ucast i]
      else if i < 2 ^ 24 then [ucast (drop_bit 16 i), ucast (drop_bit 8 i), ucast i]
      else if i < 2 ^ 32 then
        [ucast (drop_bit 24 i), ucast (drop_bit 16 i), ucast (drop_bit 8 i), ucast i]
      else if i < 2 ^ 40 then
        [ucast (drop_bit 32 i), ucast (drop_bit 24 i), ucast (drop_bit 16 i), ucast (drop_bit 8 i),
         ucast i]
      else if i < 2 ^ 48 then
        [ucast (drop_bit 40 i), ucast (drop_bit 32 i), ucast (drop_bit 24 i),
         ucast (drop_bit 16 i), ucast (drop_bit 8 i), ucast i]
      else if i < 2 ^ 56 then
        [ucast (drop_bit 48 i), ucast (drop_bit 40 i), ucast (drop_bit 32 i),
         ucast (drop_bit 24 i), ucast (drop_bit 16 i), ucast (drop_bit 8 i), ucast i]
      else
        [ucast (drop_bit 56 i), ucast (drop_bit 48 i), ucast (drop_bit 40 i),
         ucast (drop_bit 32 i), ucast (drop_bit 24 i), ucast (drop_bit 16 i),
         ucast (drop_bit 8 i), ucast i])"

function intsize :: "u64 \<Rightarrow> nat" where
  "intsize i = (if drop_bit 8 i = 0 then 1 else Suc (intsize (drop_bit 8 i)))"
  by pat_completeness auto
termination
proof (relation "measure unat")
  fix i :: u64
  assume "drop_bit 8 i \<noteq> 0"
  then have "i \<noteq> 0" by auto
  then have "0 < unat i" by (simp add: unat_gt_0)
  then have "unat i div 256 < unat i" by simp
  then show "(drop_bit 8 i, i) \<in> measure unat"
    by (simp add: unat_drop_bit_div)
qed simp

declare intsize.simps [simp del]

definition headsize :: "u64 \<Rightarrow> nat" where
  "headsize sz = (if sz < 56 then 1 else 1 + intsize sz)"

definition puthead :: "byte \<Rightarrow> byte \<Rightarrow> u64 \<Rightarrow> bytes" where
  "puthead smalltag largetag sz =
     (if sz < 56 then [smalltag + ucast sz]
      else let s = putint sz in (largetag + word_of_nat (length s)) # s)"

section \<open>The encoder buffer\<close>

record listhead =
  lh_offset :: nat
  lh_size :: nat

record encbuf =
  estr :: bytes
  lheads :: "listhead list"
  lhsize :: nat

definition listhead_encode :: "listhead \<Rightarrow> bytes" where
  "listhead_encode head = puthead 0xC0 0xF7 (word_of_nat (lh_size head))"

definition encbuf_reset :: encbuf where
  "encbuf_reset = \<lparr>estr = [], lheads = [], lhsize = 0\<rparr>"

definition append_str :: "bytes \<Rightarrow> encbuf \<Rightarrow> encbuf" where
  "append_str b w = w\<lparr>estr := estr w @ b\<rparr>"

definition encbuf_size :: "encbuf \<Rightarrow> nat" where
  "encbuf_size w = length (estr w) + lhsize w"

definition encodeStringHeader :: "nat \<Rightarrow> encbuf \<Rightarrow> encbuf" where
  "encodeStringHeader sz w =
     (if sz < 56 then append_str [0x80 + word_of_nat sz] w
      else let s = putint (word_of_nat sz)
           in append_str ((0xB7 + word_of_nat (length s)) # s) w)"

definition encodeString :: "bytes \<Rightarrow> encbuf \<Rightarrow> encbuf" where
  "encodeString b w =
     (case b of
        [x] \<Rightarrow> if x \<le> 0x7F then append_str [x] w
               else append_str b (encodeStringHeader (length b) w)
      | _ \<Rightarrow> append_str b (encodeStringHeader (length b) w))"

text \<open>\<open>list\<close> returns a pointer to the new head: its index in \<open>lheads\<close>.\<close>

definition encbuf_list :: "encbuf \<Rightarrow> nat \<times> encbuf" where
  "encbuf_list w =
     (length (lheads w),
      w\<lparr>lheads := lheads w @ [\<lparr>lh_offset = length (estr w), lh_size = lhsize w\<rparr>]\<rparr>)"

definition listEnd :: "nat \<Rightarrow> encbuf \<Rightarrow> encbuf" where
  "listEnd lh w =
     (let h = lheads w ! lh;
          sz = encbuf_size w - lh_offset h - lh_size h;
          w' = w\<lparr>lheads := (lheads w)[lh := h\<lparr>lh_size := sz\<rparr>]\<rparr>
      in if sz < 56 then w'\<lparr>lhsize := lhsize w' + 1\<rparr>
         else w'\<lparr>lhsize := lhsize w' + 1 + intsize (word_of_nat sz)\<rparr>)"

definition writeUint :: "u64 \<Rightarrow> encbuf \<Rightarrow> encbuf" where
  "writeUint i w =
     (if i = 0 then append_str [0x80] w
      else if i < 128 then append_str [ucast i] w
      else let s = putint i in append_str ((0x80 + word_of_nat (length s)) # s) w)"

definition writeBool :: "bool \<Rightarrow> encbuf \<Rightarrow> encbuf" where
  "writeBool b w = (if b then append_str [0x01] w else append_str [0x80] w)"

definition writeBigInt :: "int \<Rightarrow> encbuf \<Rightarrow> rlp_error + encbuf" where
  "writeBigInt i w =
     (if i < 0 then Inl ErrNegativeBigInt
      else if i = 0 then Inr (append_str [0x80] w)
      else Inr (encodeString (be_min (nat i)) w))"

definition writeBigIntPtr :: "int option \<Rightarrow> encbuf \<Rightarrow> rlp_error + encbuf" where
  "writeBigIntPtr p w =
     (case p of None \<Rightarrow> Inr (append_str [0x80] w) | Some i \<Rightarrow> writeBigInt i w)"

text \<open>The writers, chosen as \<open>makeWriter\<close> chooses them; slices and structs share the list bracket.\<close>

fun write_val :: "rlp_val \<Rightarrow> encbuf \<Rightarrow> rlp_error + encbuf" where
  "write_val (VRaw b) w = Inr (append_str b w)"
| "write_val (VUint i) w = Inr (writeUint i w)"
| "write_val (VBool b) w = Inr (writeBool b w)"
| "write_val (VBigInt p) w = writeBigIntPtr p w"
| "write_val (VBytes b) w = Inr (encodeString b w)"
| "write_val VNil w = Inr (append_str [0xC0] w)"
| "write_val (VList vs) w =
     (let (lh, w1) = encbuf_list w
      in res_bind (fold_res write_val vs w1) (\<lambda>w2. Inr (listEnd lh w2)))"

text \<open>
  \<open>toBytes\<close> allocates \<open>size()\<close> bytes and copies string data and headers into them: bytes that do
  not fit are dropped by \<open>copy\<close>, bytes never written stay zero.
\<close>

fun toBytes_loop :: "bytes \<Rightarrow> nat \<Rightarrow> listhead list \<Rightarrow> bytes" where
  "toBytes_loop str strpos [] = drop strpos str"
| "toBytes_loop str strpos (head # heads) =
     (let piece = take (lh_offset head - strpos) (drop strpos str)
      in piece @ listhead_encode head @ toBytes_loop str (strpos + length piece) heads)"

definition toBytes :: "encbuf \<Rightarrow> bytes" where
  "toBytes w =
     (let out = toBytes_loop (estr w) 0 (lheads w)
      in take (encbuf_size w) out @ replicate (encbuf_size w - length out) 0)"

definition EncodeToBytes :: "rlp_val \<Rightarrow> rlp_error + bytes" where
  "EncodeToBytes v = res_bind (write_val v encbuf_reset) (\<lambda>w. Inr (toBytes w))"

section \<open>Reference encoding\<close>

definition enc_head :: "byte \<Rightarrow> byte \<Rightarrow> nat \<Rightarrow> bytes" where
  "enc_head small large n =
     (if n < 56 then [small + word_of_nat n]
      else (large + word_of_nat (length (be_min n))) # be_min n)"

definition enc_str :: "bytes \<Rightarrow> bytes" where
  "enc_str b =
     (if length b = 1 \<and> hd b < 0x80 then b else enc_head 0x80 0xB7 (length b) @ b)"

definition enc_list :: "bytes \<Rightarrow> bytes" where
  "enc_list payload = enc_head 0xC0 0xF7 (length payload) @ payload"

fun enc :: "rlp_val \<Rightarrow> bytes" where
  "enc (VRaw b) = b"
| "enc (VUint i) = enc_str (be_min (unat i))"
| "enc (VBool b) = enc_str (if b then [1] else [])"
| "enc (VBigInt p) = enc_str (case p of None \<Rightarrow> [] | Some i \<Rightarrow> be_min (nat i))"
| "enc (VBytes b) = enc_str b"
| "enc VNil = enc_list []"
| "enc (VList vs) = enc_list (concat (map enc vs))"

fun encodable :: "rlp_val \<Rightarrow> bool" where
  "encodable (VBigInt (Some i)) = (0 \<le> i)"
| "encodable (VList vs) = (\<forall>v \<in> set vs. encodable v)"
| "encodable _ = True"

section \<open>Integer writing is the minimal big-endian form\<close>

lemma be_min_eq_be_fixed: "256 ^ k \<le> n \<Longrightarrow> n < 256 ^ Suc k \<Longrightarrow> be_min n = be_fixed (Suc k) n"
proof (induction k arbitrary: n)
  case 0
  then show ?case by (simp add: be_min_pos)
next
  case (Suc k)
  have "256 ^ k \<le> n div 256" using div_le_mono [OF Suc.prems(1), of 256] by simp
  moreover have "n div 256 < 256 ^ Suc k"
    using Suc.prems(2) by (simp add: div_less_iff_less_mult mult.commute)
  ultimately have "be_min (n div 256) = be_fixed (Suc k) (n div 256)" by (rule Suc.IH)
  moreover have "0 < n" using Suc.prems(1) by (auto intro: Nat.gr0I)
  ultimately show ?case by (simp add: be_min_pos)
qed

lemma ucast_drop_bit_byte:
  "(ucast (drop_bit j (i :: u64)) :: byte) = word_of_nat (unat i div 2 ^ j mod 256)"
proof -
  have "unat (ucast (drop_bit j i) :: byte) = unat (word_of_nat (unat i div 2 ^ j mod 256) :: byte)"
    by (simp add: unsigned_ucast_eq unat_drop_bit_div take_bit_eq_mod)
  then show ?thesis by (simp add: word_unat_eq_iff)
qed

lemma ucast_byte: "(ucast (i :: u64) :: byte) = word_of_nat (unat i mod 256)"
  using ucast_drop_bit_byte [of 0 i] by simp

lemma putint_fixed:
  "putint i =
     (if unat i < 2 ^ 8 then be_fixed 1 (unat i) else if unat i < 2 ^ 16 then be_fixed 2 (unat i)
      else if unat i < 2 ^ 24 then be_fixed 3 (unat i)
      else if unat i < 2 ^ 32 then be_fixed 4 (unat i)
      else if unat i < 2 ^ 40 then be_fixed 5 (unat i)
      else if unat i < 2 ^ 48 then be_fixed 6 (unat i)
      else if unat i < 2 ^ 56 then be_fixed 7 (unat i) else be_fixed 8 (unat i))"
proof -
  have less: "(8::nat) < 64" "(16::nat) < 64" "(24::nat) < 64" "(32::nat) < 64" "(40::nat) < 64"
    "(48::nat) < 64" "(56::nat) < 64"
    by simp_all
  note byte_simps = ucast_byte unat_drop_bit_div be_fixed_numeral
  have c: "i < 2 ^ k \<longleftrightarrow> unat i < 2 ^ k" if "k < 64" for k
    by (rule word_less_2p_iff) (simp add: that)
  have l: "[ucast i] = be_fixed 1 (unat i)"
    "[ucast (drop_bit 8 i), ucast i] = be_fixed 2 (unat i)"
    "[ucast (drop_bit 16 i), ucast (drop_bit 8 i), ucast i] = be_fixed 3 (unat i)"
    "[ucast (drop_bit 24 i), ucast (drop_bit 16 i), ucast (drop_bit 8 i), ucast i] =
       be_fixed 4 (unat i)"
    by (simp_all add: byte_simps)
  have l': "[ucast (drop_bit 32 i), ucast (drop_bit 24 i), ucast (drop_bit 16 i),
       ucast (drop_bit 8 i), ucast i] = be_fixed 5 (unat i)"
    "[ucast (drop_bit 40 i), ucast (drop_bit 32 i), ucast (drop_bit 24 i), ucast (drop_bit 16 i),
       ucast (drop_bit 8 i), ucast i] = be_fixed 6 (unat i)"
    "[ucast (drop_bit 48 i), ucast (drop_bit 40 i), ucast (drop_bit 32 i), ucast (drop_bit 24 i),
       ucast (drop_bit 16 i), ucast (drop_bit 8 i), ucast i] = be_fixed 7 (unat i)"
    "[ucast (drop_bit 56 i), ucast (drop_bit 48 i), ucast (drop_bit 40 i), ucast (drop_bit 32 i),
       ucast (drop_bit 24 i), ucast (drop_bit 16 i), ucast (drop_bit 8 i), ucast i] =
       be_fixed 8 (unat i)"
    by (simp_all add: byte_simps)
  show ?thesis
    unfolding putint_def l [symmetric] l' [symmetric]
    by (simp only: c [OF less(1)] c [OF less(2)] c [OF less(3)] c [OF less(4)]
        c [OF less(5)] c [OF less(6)] c [OF less(7)])
qed

lemma be_min_fixed: "256 ^ (k - 1) \<le> n \<Longrightarrow> n < 256 ^ k \<Longrightarrow> 0 < k \<Longrightarrow> be_min n = be_fixed k n"
  using be_min_eq_be_fixed [of "k - 1" n] by simp

lemma putint_eq: "i \<noteq> 0 \<Longrightarrow> putint i = be_min (unat i)"
proof -
  assume "i \<noteq> 0"
  then have pos: "Suc 0 \<le> unat i" by (simp add: unat_gt_0 Suc_le_eq)
  have lt: "unat i < 256 ^ 8" using unsigned_less [of i, where ?'a = nat] by simp
  note k = be_min_fixed [of 1] be_min_fixed [of 2] be_min_fixed [of 3] be_min_fixed [of 4]
    be_min_fixed [of 5] be_min_fixed [of 6] be_min_fixed [of 7] be_min_fixed [of 8]
  show ?thesis
    using pos lt unfolding putint_fixed by (simp add: k del: be_fixed.simps)
qed

lemma intsize_eq: "i \<noteq> 0 \<Longrightarrow> intsize i = length (be_min (unat i))"
proof (induction i rule: intsize.induct)
  case (1 i)
  then have pos: "0 < unat i" by (simp add: unat_gt_0)
  have shift: "drop_bit 8 i = 0 \<longleftrightarrow> unat i div 256 = 0"
    using unat_drop_bit_div [of 8 i] by (simp add: word_unat_eq_iff)
  show ?case
  proof (cases "drop_bit 8 i = 0")
    case True
    with shift pos show ?thesis by (simp add: intsize.simps [of i] be_min_pos [of "unat i"])
  next
    case False
    with "1.IH" have "intsize (drop_bit 8 i) = length (be_min (unat i div 256))"
      by (simp add: unat_drop_bit_div)
    with False pos show ?thesis by (simp add: intsize.simps [of i] be_min_pos [of "unat i"])
  qed
qed

lemma puthead_eq:
  assumes "n < 2 ^ 64"
  shows "puthead small large (word_of_nat n) = enc_head small large n"
proof -
  have n: "unat (word_of_nat n :: u64) = n"
    using assms by (simp add: word_of_nat_unat_less)
  then have lt: "(word_of_nat n :: u64) < 56 \<longleftrightarrow> n < 56" by (simp add: word_less_nat_alt)
  have small: "(ucast (word_of_nat n :: u64) :: byte) = word_of_nat n" if "n < 56"
    using that n by (simp add: ucast_byte)
  show ?thesis
  proof (cases "n < 56")
    case False
    then have "(word_of_nat n :: u64) \<noteq> 0" using n by (metis unsigned_0 not_less zero_less_numeral)
    with False n lt show ?thesis by (simp add: puthead_def enc_head_def putint_eq Let_def)
  qed (simp add: puthead_def enc_head_def lt small)
qed

lemma length_puthead:
  "n < 2 ^ 64 \<Longrightarrow>
   length (enc_head small large n) = (if n < 56 then 1 else 1 + intsize (word_of_nat n))"
proof -
  assume a: "n < 2 ^ 64"
  then have n: "unat (word_of_nat n :: u64) = n" by (simp add: word_of_nat_unat_less)
  show ?thesis
  proof (cases "n < 56")
    case False
    then have "(word_of_nat n :: u64) \<noteq> 0" using n by (metis unsigned_0 not_less zero_less_numeral)
    with False n show ?thesis by (simp add: enc_head_def intsize_eq)
  qed (simp add: enc_head_def)
qed

section \<open>The buffer machinery refines the reference encoding\<close>

text \<open>
  \<open>emits w w' out\<close>: between the buffer states \<open>w\<close> and \<open>w'\<close> the bytes \<open>out\<close> were written, as string
  data \<open>s\<close> with list heads \<open>hs\<close> at offsets relative to \<open>s\<close>.
\<close>

fun heads_ok :: "nat \<Rightarrow> nat \<Rightarrow> listhead list \<Rightarrow> bool" where
  "heads_ok p n [] = (p \<le> n)"
| "heads_ok p n (h # hs) = (p \<le> lh_offset h \<and> heads_ok (lh_offset h) n hs)"

definition shift_heads :: "nat \<Rightarrow> listhead list \<Rightarrow> listhead list" where
  "shift_heads k hs = map (\<lambda>h. h\<lparr>lh_offset := k + lh_offset h\<rparr>) hs"

definition emits :: "encbuf \<Rightarrow> encbuf \<Rightarrow> bytes \<Rightarrow> bool" where
  "emits w w' out \<longleftrightarrow>
     (\<exists>s hs l. estr w' = estr w @ s \<and> lheads w' = lheads w @ shift_heads (length (estr w)) hs \<and>
        lhsize w' = lhsize w + l \<and> heads_ok 0 (length s) hs \<and> toBytes_loop s 0 hs = out \<and>
        length out = length s + l)"

lemma shift_heads_simps [simp]:
  "shift_heads k [] = []"
  "shift_heads k (h # hs) = h\<lparr>lh_offset := k + lh_offset h\<rparr> # shift_heads k hs"
  "shift_heads k (hs @ hs') = shift_heads k hs @ shift_heads k hs'"
  "shift_heads j (shift_heads k hs) = shift_heads (j + k) hs"
  by (simp_all add: shift_heads_def add.assoc)

lemma heads_ok_le: "heads_ok p n hs \<Longrightarrow> p \<le> n"
  by (induction hs arbitrary: p) fastforce+

lemma heads_ok_shift: "heads_ok (k + p) (k + n) (shift_heads k hs) \<longleftrightarrow> heads_ok p n hs"
  by (induction hs arbitrary: p) simp_all

lemma heads_ok_append:
  "heads_ok p m hs \<Longrightarrow> heads_ok m n hs' \<Longrightarrow> heads_ok p n (hs @ hs')"
proof (induction hs arbitrary: p)
  case Nil
  then show ?case by (cases hs') auto
qed simp

lemma listhead_encode_shift [simp]: "listhead_encode (h\<lparr>lh_offset := k\<rparr>) = listhead_encode h"
  by (simp add: listhead_encode_def)

lemma toBytes_loop_shift:
  "heads_ok p (length s) hs \<Longrightarrow>
   toBytes_loop (a @ s) (length a + p) (shift_heads (length a) hs) = toBytes_loop s p hs"
proof (induction hs arbitrary: p)
  case (Cons h hs)
  then have "lh_offset h \<le> length s" by (auto dest: heads_ok_le)
  with Cons show ?case by (simp add: Let_def)
qed simp

lemma toBytes_loop_append:
  "heads_ok p (length s) hs \<Longrightarrow> heads_ok 0 (length s') hs' \<Longrightarrow>
   toBytes_loop (s @ s') p (hs @ shift_heads (length s) hs') =
     toBytes_loop s p hs @ toBytes_loop s' 0 hs'"
proof (induction hs arbitrary: p)
  case Nil
  show ?case
  proof (cases hs')
    case (Cons h hs'')
    with Nil have h: "lh_offset h \<le> length s'" by (auto dest: heads_ok_le)
    then have "length s + lh_offset h - p = (length s - p) + lh_offset h" using Nil by simp
    with Cons h Nil show ?thesis
      using toBytes_loop_shift [of "lh_offset h" s' hs'' s] by (simp add: Let_def)
  qed (use Nil in simp)
next
  case (Cons h hs)
  then have "lh_offset h \<le> length s" by (auto dest: heads_ok_le)
  with Cons show ?case by (simp add: Let_def)
qed

lemma emits_append_str [intro]: "emits w (append_str b w) b"
  unfolding emits_def append_str_def by (intro exI [of _ b] exI [of _ "[]"] exI [of _ 0]) simp

lemma emits_refl [intro]: "emits w w []"
  unfolding emits_def by (intro exI [of _ "[]"] exI [of _ 0]) simp

lemma emits_trans:
  assumes "emits w w1 o1" and "emits w1 w2 o2"
  shows "emits w w2 (o1 @ o2)"
proof -
  from assms(1) obtain s hs l where 1: "estr w1 = estr w @ s"
    "lheads w1 = lheads w @ shift_heads (length (estr w)) hs" "lhsize w1 = lhsize w + l"
    "heads_ok 0 (length s) hs" "toBytes_loop s 0 hs = o1" "length o1 = length s + l"
    unfolding emits_def by blast
  from assms(2) obtain s' hs' l' where 2: "estr w2 = estr w1 @ s'"
    "lheads w2 = lheads w1 @ shift_heads (length (estr w1)) hs'" "lhsize w2 = lhsize w1 + l'"
    "heads_ok 0 (length s') hs'" "toBytes_loop s' 0 hs' = o2" "length o2 = length s' + l'"
    unfolding emits_def by blast
  have "heads_ok (length s) (length (s @ s')) (shift_heads (length s) hs')"
    using heads_ok_shift [of "length s" 0 "length s'" hs'] 2(4) by simp
  with 1 2 show ?thesis
    unfolding emits_def
    by (intro exI [of _ "s @ s'"] exI [of _ "hs @ shift_heads (length s) hs'"] exI [of _ "l + l'"])
       (simp add: toBytes_loop_append heads_ok_append)
qed

lemma emits_list:
  assumes "encbuf_list w = (lh, w1)" and "emits w1 w2 payload" and "length payload < 2 ^ 64"
  shows "emits w (listEnd lh w2) (enc_list payload)"
proof -
  from assms(2) obtain s hs l where e: "estr w2 = estr w1 @ s"
    "lheads w2 = lheads w1 @ shift_heads (length (estr w1)) hs" "lhsize w2 = lhsize w1 + l"
    "heads_ok 0 (length s) hs" "toBytes_loop s 0 hs = payload" "length payload = length s + l"
    unfolding emits_def by blast
  define n where "n = length payload"
  define h where "h = \<lparr>lh_offset = 0, lh_size = n\<rparr>"
  have w1: "lh = length (lheads w)" "estr w1 = estr w" "lhsize w1 = lhsize w"
    "lheads w1 = lheads w @ [\<lparr>lh_offset = length (estr w), lh_size = lhsize w\<rparr>]"
    using assms(1) by (auto simp: encbuf_list_def)
  have head: "listhead_encode h = enc_head 0xC0 0xF7 n"
    using assms(3) by (simp add: h_def n_def listhead_encode_def puthead_eq)
  have len: "length (enc_head 0xC0 0xF7 n) = (if n < 56 then 1 else 1 + intsize (word_of_nat n))"
    using assms(3) by (simp add: n_def length_puthead)
  show ?thesis
    unfolding emits_def
  proof (intro exI [of _ s] exI [of _ "h # hs"]
      exI [of _ "l + length (enc_head 0xC0 0xF7 n)"] conjI)
    show "length (enc_list payload) = length s + (l + length (enc_head 0xC0 0xF7 n))"
      using e(6) by (simp add: enc_list_def n_def)
    show "toBytes_loop s 0 (h # hs) = enc_list payload"
      using head e(5) by (simp add: h_def enc_list_def n_def)
    show "lhsize (listEnd lh w2) = lhsize w + (l + length (enc_head 0xC0 0xF7 n))"
      using e w1 len by (simp add: listEnd_def Let_def encbuf_size_def nth_append n_def)
  qed (use e w1 in \<open>simp_all add: listEnd_def Let_def encbuf_size_def nth_append list_update_append h_def n_def\<close>)
qed

lemma emits_encodeStringHeader:
  "n < 2 ^ 64 \<Longrightarrow> emits w (encodeStringHeader n w) (enc_head 0x80 0xB7 n)"
  using puthead_eq [of n "0x80" "0xB7"]
  by (auto simp: encodeStringHeader_def enc_head_def puthead_def Let_def word_less_nat_alt
      word_of_nat_unat_less putint_eq word_unat_eq_iff split: if_splits)

lemma enc_head_not_Nil [simp]: "enc_head small large n \<noteq> []"
  by (simp add: enc_head_def)

lemma byte_less_128_iff: "(x :: byte) < 0x80 \<longleftrightarrow> x \<le> 0x7F"
  by (auto simp: word_less_nat_alt word_le_nat_alt)

lemma emits_encodeString: "length (enc_str b) < 2 ^ 64 \<Longrightarrow> emits w (encodeString b w) (enc_str b)"
proof -
  assume len: "length (enc_str b) < 2 ^ 64"
  show ?thesis
  proof (cases "length b = 1 \<and> hd b < 0x80")
    case True
    then obtain x where "b = [x]" by (cases b) auto
    with True show ?thesis by (auto simp: encodeString_def enc_str_def byte_less_128_iff)
  next
    case False
    then have "enc_str b = enc_head 0x80 0xB7 (length b) @ b" by (auto simp: enc_str_def)
    then have "length b < 2 ^ 64" using len by simp
    then have "emits w (append_str b (encodeStringHeader (length b) w))
      (enc_head 0x80 0xB7 (length b) @ b)"
      by (rule emits_trans [OF emits_encodeStringHeader emits_append_str])
    with False show ?thesis
      by (auto simp: encodeString_def enc_str_def byte_less_128_iff split: list.splits)
  qed
qed

lemma enc_VUint:
  "enc (VUint i) =
     (if i = 0 then [0x80] else if i < 128 then [ucast i]
      else (0x80 + word_of_nat (length (putint i))) # putint i)"
proof (cases "i < 128")
  case True
  then have lt: "unat i < 128" by (simp add: word_less_nat_alt)
  show ?thesis
  proof (cases "i = 0")
    case False
    then have "0 < unat i" by (simp add: unat_gt_0)
    with lt be_min_pos [of "unat i"] have "be_min (unat i) = [ucast i]" by simp
    moreover have "(ucast i :: byte) < 0x80"
      using lt by (simp add: word_less_nat_alt unsigned_ucast_eq take_bit_eq_mod)
    ultimately show ?thesis using True False by (simp add: enc_str_def)
  qed (simp add: enc_str_def enc_head_def)
next
  case False
  then have big: "128 \<le> unat i" and nz: "i \<noteq> 0" by (auto simp: word_less_nat_alt)
  have le: "length (be_min (unat i)) \<le> 8"
    using unsigned_less [of i, where ?'a = nat] by (simp add: length_be_min_le_iff)
  have single: "\<not> (length (be_min (unat i)) = 1 \<and> hd (be_min (unat i)) < 0x80)"
  proof
    assume a: "length (be_min (unat i)) = 1 \<and> hd (be_min (unat i)) < 0x80"
    then obtain x where x: "be_min (unat i) = [x]" by (cases "be_min (unat i)") auto
    then have "unat i = unat x" using be_val_be_min [of "unat i"] by simp
    with a x big show False by (simp add: word_less_nat_alt)
  qed
  with le False nz show ?thesis
    unfolding enc.simps enc_str_def by (simp add: enc_head_def putint_eq)
qed

lemma emits_writeUint: "emits w (writeUint i w) (enc (VUint i))"
  unfolding enc_VUint writeUint_def by (auto simp: Let_def)

lemma enc_list_less: "length (enc_list p) < 2 ^ 64 \<Longrightarrow> length p < 2 ^ 64"
  by (simp add: enc_list_def)

lemma length_concat_enc_le: "v \<in> set vs \<Longrightarrow> length (enc v) \<le> length (concat (map enc vs))"
  by (induction vs) auto

lemma enc_writeBigInt:
  "length (enc (VBigInt p)) < 2 ^ 64 \<Longrightarrow> encodable (VBigInt p) \<Longrightarrow>
   \<exists>w'. writeBigIntPtr p w = Inr w' \<and> emits w w' (enc (VBigInt p))"
proof (cases p)
  case (Some i)
  assume a: "length (enc (VBigInt p)) < 2 ^ 64" "encodable (VBigInt p)"
  then have "emits w (encodeString (be_min (nat i)) w) (enc (VBigInt p))"
    using Some by (simp add: emits_encodeString)
  with a Some show ?thesis
    by (auto simp: writeBigIntPtr_def writeBigInt_def enc_str_def enc_head_def)
qed (auto simp: writeBigIntPtr_def enc_str_def enc_head_def)

lemma write_val_emits:
  "length (enc v) < 2 ^ 64 \<Longrightarrow> encodable v \<Longrightarrow> \<exists>w'. write_val v w = Inr w' \<and> emits w w' (enc v)"
proof (induction v w rule: write_val.induct)
  case (7 vs w)
  obtain lh w1 where w1: "encbuf_list w = (lh, w1)" by fastforce
  have len: "length (concat (map enc vs)) < 2 ^ 64"
    by (rule enc_list_less) (use "7.prems"(1) in simp)
  have step: "\<exists>w'. write_val v u = Inr w' \<and> emits u w' (enc v)" if "v \<in> set vs" for v u
    using "7.IH" [OF w1 [symmetric] refl that] "7.prems"(2) length_concat_enc_le [OF that] len
      that by fastforce
  have "\<exists>w2. fold_res write_val us u = Inr w2 \<and> emits u w2 (concat (map enc us))"
    if "set us \<subseteq> set vs" for us u
    using that
  proof (induction us arbitrary: u)
    case (Cons v us)
    then obtain u' where "write_val v u = Inr u'" "emits u u' (enc v)" using step [of v u] by auto
    moreover obtain w2 where "fold_res write_val us u' = Inr w2" "emits u' w2 (concat (map enc us))"
      using Cons by fastforce
    ultimately show ?case by (auto intro: emits_trans)
  qed auto
  then obtain w2 where "fold_res write_val vs w1 = Inr w2" "emits w1 w2 (concat (map enc vs))"
    by blast
  with w1 len show ?case by (simp add: emits_list)
next
  case (2 i w)
  show ?case using emits_writeUint [of w i] by auto
next
  case (3 b w)
  show ?case by (auto simp: writeBool_def enc_str_def enc_head_def)
next
  case (4 p w)
  then show ?case by (simp only: write_val.simps enc_writeBigInt)
next
  case (5 b w)
  then show ?case using emits_encodeString [of b w] by simp
next
  case (6 w)
  show ?case by (auto simp: enc_list_def enc_head_def)
qed auto

lemma toBytes_emits: "emits encbuf_reset w out \<Longrightarrow> toBytes w = out"
  by (auto simp: emits_def encbuf_reset_def toBytes_def encbuf_size_def shift_heads_def)

lemma write_val_result:
  "if encodable v then \<exists>w'. write_val v w = Inr w' else write_val v w = Inl ErrNegativeBigInt"
proof (induction v w rule: write_val.induct)
  case (7 vs w)
  obtain lh w1 where w1: "encbuf_list w = (lh, w1)" by fastforce
  note IH = "7.IH" [OF w1 [symmetric] refl]
  have "if \<forall>v \<in> set us. encodable v then \<exists>w'. fold_res write_val us u = Inr w'
      else fold_res write_val us u = Inl ErrNegativeBigInt" if "set us \<subseteq> set vs" for us u
    using that
  proof (induction us arbitrary: u)
    case (Cons v us)
    then have "if encodable v then \<exists>w'. write_val v u = Inr w'
        else write_val v u = Inl ErrNegativeBigInt" using IH by simp
    moreover note Cons.IH Cons.prems
    ultimately show ?case by (cases "encodable v"; cases "write_val v u") (auto split: if_splits)
  qed simp
  from this [of vs w1] w1 show ?case by (auto split: if_splits)
qed (auto simp: writeBigIntPtr_def writeBigInt_def split: option.splits)

lemma EncodeToBytes_enc:
  assumes "encodable v" and "length (enc v) < 2 ^ 64"
  shows "EncodeToBytes v = Inr (enc v)"
proof -
  obtain w where "write_val v encbuf_reset = Inr w" "emits encbuf_reset w (enc v)"
    using assms write_val_emits by blast
  then show ?thesis by (simp add: EncodeToBytes_def toBytes_emits)
qed

text \<open>
  C22.  The encoder with its deferred list heads is the textbook RLP encoding: a value built of byte strings,
  unsigned integers, booleans, big integers (nil ones too), raw values, nil interfaces and lists encodes to
  \<open>enc v\<close> if none of its big integers is negative, and is refused with the encoder's error otherwise.  Booleans are encoded as the integers 0 and 1 by
  \<open>writeBool\<close>; the comment of \<open>Encode\<close>, which calls them unsupported, is wrong.
\<close>

theorem EncodeToBytes_eq_reference:
  assumes "length (enc v) < 2 ^ 64"
  shows "EncodeToBytes v = (if encodable v then Inr (enc v) else Inl ErrNegativeBigInt)"
proof (cases "encodable v")
  case True
  with assms show ?thesis by (simp add: EncodeToBytes_enc)
next
  case False
  with write_val_result [of v encbuf_reset] show ?thesis by (simp add: EncodeToBytes_def)
qed

theorem EncodeToBytes_eq_reference_witness:
  "EncodeToBytes (VList [VUint 1024, VBytes [7], VBool True, VBigInt None]) =
     Inr [0xC6, 0x82, 4, 0, 7, 1, 0x80]
   \<and> EncodeToBytes (VBigInt (Some (- 1))) = Inl ErrNegativeBigInt"
  using EncodeToBytes_eq_reference [of "VList [VUint 1024, VBytes [7], VBool True, VBigInt None]"]
    EncodeToBytes_eq_reference [of "VBigInt (Some (- 1))"]
  by (simp add: enc_list_def enc_str_def enc_head_def be_min_pos [of 1024] be_min_pos [of 4])

end
