(* ===== verification/RLP_Raw.thy ===== *)
theory RLP_Raw
  imports RLP_Encode
begin

text \<open>
  The slice-based RLP reader of \<open>src/devbase/rlp/raw.go\<close>: \<open>readKind\<close>, \<open>readSize\<close>, \<open>Split\<close> and its
  typed variants, \<open>CountValues\<close>.  Sizes are \<open>uint64\<close>, as in the source.  The main result is that
  \<open>Split\<close> accepts exactly the canonical encodings and takes them apart.
\<close>

datatype Kind = KByte | KString | KList

definition be_u64 :: "bytes \<Rightarrow> u64" where
  "be_u64 bs = foldl (\<lambda>s x. push_bit 8 s OR ucast x) 0 bs"

definition readSize :: "bytes \<Rightarrow> byte \<Rightarrow> rlp_error + u64" where
  "readSize b slen =
     (if unat slen > length b then Inl ErrUnexpectedEOF
      else let s = (if 1 \<le> unat slen \<and> unat slen \<le> 8 then be_u64 (take (unat slen) b) else 0)
           in if s < 56 \<or> b ! 0 = 0 then Inl ErrCanonSize else Inr s)"

definition readKind :: "bytes \<Rightarrow> rlp_error + Kind \<times> u64 \<times> u64" where
  "readKind buf =
     (case buf of
        [] \<Rightarrow> Inl ErrUnexpectedEOF
      | b # buf1 \<Rightarrow>
          res_bind
            (if b < 0x80 then Inr (KByte, 0, 1)
             else if b < 0xB8 then
               (let contentsize = ucast (b - 0x80)
                in if contentsize = (1 :: u64) \<and> length buf > 1 \<and> buf ! 1 < 128 then Inl ErrCanonSize
                   else Inr (KString, 1, contentsize))
             else if b < 0xC0 then
               res_bind (readSize buf1 (b - 0xB7)) (\<lambda>cs. Inr (KString, ucast (b - 0xB7) + 1, cs))
             else if b < 0xF8 then Inr (KList, 1, ucast (b - 0xC0))
             else
               res_bind (readSize buf1 (b - 0xF7)) (\<lambda>cs. Inr (KList, ucast (b - 0xF7) + 1, cs)))
            (\<lambda>(k, tagsize, contentsize).
               if contentsize > word_of_nat (length buf) - tagsize then Inl ErrValueTooLarge
               else Inr (k, tagsize, contentsize)))"

definition Split :: "bytes \<Rightarrow> rlp_error + Kind \<times> bytes \<times> bytes" where
  "Split b =
     res_bind (readKind b)
       (\<lambda>(k, ts, cs). Inr (k, take (unat cs) (drop (unat ts) b), drop (unat (ts + cs)) b))"

definition SplitString :: "bytes \<Rightarrow> rlp_error + bytes \<times> bytes" where
  "SplitString b =
     res_bind (Split b)
       (\<lambda>(k, content, rest). if k = KList then Inl ErrExpectedString else Inr (content, rest))"

definition SplitList :: "bytes \<Rightarrow> rlp_error + bytes \<times> bytes" where
  "SplitList b =
     res_bind (Split b)
       (\<lambda>(k, content, rest). if k \<noteq> KList then Inl ErrExpectedList else Inr (content, rest))"

lemma readKind_progress:
  assumes "readKind b = Inr (k, ts, cs)"
  shows "b \<noteq> [] \<and> (unat ts + unat cs = 0 \<longrightarrow> False)"
proof -
  have "unat (ucast x + 1 :: u64) \<noteq> 0" for x :: byte
  proof -
    have "unat (ucast x :: u64) < 256"
      using unat_byte_less [of x] by (simp add: unsigned_ucast_eq take_bit_nat_eq_self del: unat_byte_less)
    then show ?thesis using unat_add_lem [of "ucast x :: u64" 1] by simp
  qed
  with assms show ?thesis
    by (cases b) (auto simp: readKind_def res_bind_eq_Inr_iff Let_def split: if_splits)
qed

definition ListSize :: "u64 \<Rightarrow> u64" where
  "ListSize contentSize = word_of_nat (headsize contentSize) + contentSize"

text \<open>The counting loop drops one value per round; \<open>readKind_progress\<close> is why it ends.\<close>

function CountValues_loop :: "bytes \<Rightarrow> nat \<Rightarrow> rlp_error + nat" where
  "CountValues_loop b i =
     (if b = [] then Inr i
      else case readKind b of
             Inl e \<Rightarrow> Inl e
           | Inr (k, tagsize, sz) \<Rightarrow> CountValues_loop (drop (unat tagsize + unat sz) b) (Suc i))"
  by pat_completeness auto
termination
  by (relation "measure (\<lambda>(b, i). length b)") (use readKind_progress in auto)

definition CountValues :: "bytes \<Rightarrow> rlp_error + nat" where
  "CountValues b = CountValues_loop b 0"

section \<open>Size fields\<close>

lemma push_bit_OR_byte: "push_bit 8 (s :: u64) OR ucast (x :: byte) = s * 256 + ucast x"
proof -
  have "push_bit 8 s AND ucast x = 0"
    by (rule bit_word_eqI) (auto simp: bit_and_iff bit_push_bit_iff bit_ucast_iff dest: bit_imp_le_length)
  then have "push_bit 8 s OR ucast x = push_bit 8 s + ucast x"
    by (simp add: disjunctive_add_eq_or)
  then show ?thesis by (simp add: push_bit_eq_mult)
qed

lemma be_u64_eq: "be_u64 bs = word_of_nat (be_val bs)"
  by (induction bs rule: rev_induct) (simp_all add: be_u64_def be_val_def push_bit_OR_byte)

lemma be_val_less: "be_val bs < 256 ^ length bs"
proof (induction bs rule: rev_induct)
  case (snoc b bs)
  then have "be_val bs + 1 \<le> 256 ^ length bs" by simp
  then have "(be_val bs + 1) * 256 \<le> 256 ^ length bs * 256" by (rule mult_le_mono1)
  then show ?case using unat_byte_less [of b] by (simp del: unat_byte_less)
qed simp

lemma unat_be_u64: "length bs \<le> 8 \<Longrightarrow> unat (be_u64 bs) = be_val bs"
proof -
  assume "length bs \<le> 8"
  then have "(256 :: nat) ^ length bs \<le> 256 ^ 8" by (rule power_increasing) simp
  with be_val_less [of bs] have "be_val bs < 2 ^ 64" by simp
  then show ?thesis by (simp add: be_u64_eq word_of_nat_unat_less)
qed

lemma readSize_Inr_iff:
  assumes "1 \<le> unat slen" and "unat slen \<le> 8"
  shows "readSize b slen = Inr s \<longleftrightarrow>
    (\<exists>rest. b = be_min (unat s) @ rest \<and> 56 \<le> unat s \<and> length (be_min (unat s)) = unat slen)"
proof
  assume r: "readSize b slen = Inr s"
  then have len: "unat slen \<le> length b" and s: "s = be_u64 (take (unat slen) b)"
    and c: "\<not> s < 56" "b ! 0 \<noteq> 0"
    using assms by (auto simp: readSize_def Let_def split: if_splits)
  have "b \<noteq> []" using assms len by auto
  then have t: "take (unat slen) b \<noteq> []" "hd (take (unat slen) b) \<noteq> 0"
    using assms c(2) by (auto simp: hd_conv_nth)
  have "unat s = be_val (take (unat slen) b)" unfolding s using assms len by (intro unat_be_u64) simp
  then have "be_min (unat s) = take (unat slen) b" using t by (simp add: be_min_be_val)
  then show "\<exists>rest. b = be_min (unat s) @ rest \<and> 56 \<le> unat s \<and> length (be_min (unat s)) = unat slen"
    using c(1) len by (intro exI [of _ "drop (unat slen) b"]) (simp add: word_less_nat_alt)
next
  assume "\<exists>rest. b = be_min (unat s) @ rest \<and> 56 \<le> unat s \<and> length (be_min (unat s)) = unat slen"
  then obtain rest where b: "b = be_min (unat s) @ rest" "56 \<le> unat s"
    "length (be_min (unat s)) = unat slen" by blast
  then have "b ! 0 \<noteq> 0"
    using hd_be_min_nonzero [of "unat s"] assms(1) by (simp add: nth_append hd_conv_nth)
  moreover have "be_u64 (take (unat slen) b) = s" using b by (simp add: be_u64_eq)
  ultimately show "readSize b slen = Inr s"
    using b assms by (simp add: readSize_def word_less_nat_alt)
qed

section \<open>Split accepts exactly the canonical encodings\<close>

primrec kind_head :: "Kind \<Rightarrow> nat \<Rightarrow> bytes" where
  "kind_head KByte n = []"
| "kind_head KString n = enc_head 0x80 0xB7 n"
| "kind_head KList n = enc_head 0xC0 0xF7 n"

primrec kind_ok :: "Kind \<Rightarrow> bytes \<Rightarrow> bool" where
  "kind_ok KByte c = (length c = 1 \<and> hd c < 0x80)"
| "kind_ok KString c = (\<not> (length c = 1 \<and> hd c < 0x80))"
| "kind_ok KList c = True"

lemma unat_tag_sub: "t \<le> b \<Longrightarrow> unat (b - t) = unat b - unat (t :: byte)"
  by (simp add: unat_sub)

lemma unat_ucast_byte_u64 [simp]: "unat (ucast (b :: byte) :: u64) = unat b"
  using less_trans [OF unat_byte_less [of b], of "2 ^ 64"]
  by (simp add: unsigned_ucast_eq take_bit_nat_eq_self)

lemma unat_byte_Suc: "unat (ucast (b :: byte) + 1 :: u64) = unat b + 1"
proof -
  have "unat (ucast b :: u64) + unat (1 :: u64) < 2 ^ 64"
    using unat_byte_less [of b] by (simp del: unat_byte_less)
  then show ?thesis using unat_add_lem [of "ucast b :: u64" 1] by simp
qed

lemma readKind_long:
  assumes size: "readSize buf1 (b - t) = Inr cs" and b: "t < b" "unat b \<le> unat t + 8"
  shows "unat (ucast (b - t) + 1 :: u64) = Suc (length (be_min (unat cs)))"
    and "take (Suc (length (be_min (unat cs)))) (b # buf1) =
      (t + word_of_nat (length (be_min (unat cs)))) # be_min (unat cs)"
    and "56 \<le> unat cs" and "length (be_min (unat cs)) \<le> length buf1"
proof -
  have u: "unat (b - t) = unat b - unat t" using b(1) by (simp add: unat_tag_sub)
  moreover have "unat t < unat b" using b(1) by (simp add: word_less_nat_alt)
  ultimately have "1 \<le> unat (b - t)" "unat (b - t) \<le> 8" using b(2) by simp_all
  with size obtain rest where r: "buf1 = be_min (unat cs) @ rest" "56 \<le> unat cs"
    "length (be_min (unat cs)) = unat (b - t)"
    by (auto simp: readSize_Inr_iff)
  then have "t + word_of_nat (length (be_min (unat cs))) = b" by simp
  with r show "unat (ucast (b - t) + 1 :: u64) = Suc (length (be_min (unat cs)))"
    "take (Suc (length (be_min (unat cs)))) (b # buf1) =
      (t + word_of_nat (length (be_min (unat cs)))) # be_min (unat cs)"
    "56 \<le> unat cs" "length (be_min (unat cs)) \<le> length buf1"
    by (simp_all add: unat_byte_Suc)
qed

lemma length_minus_tag:
  assumes "length buf < 2 ^ 64" and "unat ts \<le> length buf"
  shows "\<not> cs > (word_of_nat (length buf) - ts :: u64) \<longleftrightarrow> unat ts + unat cs \<le> length buf"
proof -
  have "unat (word_of_nat (length buf) :: u64) = length buf"
    using assms(1) by (simp add: word_of_nat_unat_less)
  moreover from this have "unat (word_of_nat (length buf) - ts) = length buf - unat ts"
    using assms(2) by (simp add: unat_sub word_le_nat_alt)
  ultimately show ?thesis using assms(2) by (auto simp: word_less_nat_alt not_less)
qed

lemma readKind_Inr:
  assumes "length buf < 2 ^ 64" and "readKind buf = Inr (k, ts, cs)"
  shows "unat ts + unat cs \<le> length buf \<and> take (unat ts) buf = kind_head k (unat cs) \<and>
    (k = KByte \<longrightarrow> ts = 0 \<and> cs = 1 \<and> hd buf < 0x80) \<and>
    (k = KString \<longrightarrow> 1 \<le> unat ts \<and> \<not> (cs = 1 \<and> buf ! unat ts < 0x80)) \<and> (k = KList \<longrightarrow> 1 \<le> unat ts)"
proof -
  from assms(2) obtain b buf1 where buf: "buf = b # buf1"
    by (cases buf) (simp_all add: readKind_def)
  note fit = length_minus_tag [OF assms(1)]
  have nat: "\<And>c :: byte. b < c \<longleftrightarrow> unat b < unat c" by (simp add: word_less_nat_alt)
  consider "b < 0x80" | "\<not> b < 0x80" "b < 0xB8" | "\<not> b < 0xB8" "b < 0xC0"
    | "\<not> b < 0xC0" "b < 0xF8" | "\<not> b < 0xF8" by blast
  then show ?thesis
  proof cases
    case 1
    then have "k = KByte \<and> ts = 0 \<and> cs = 1" "\<not> cs > word_of_nat (length buf) - ts"
      using assms(2) by (auto simp: readKind_def buf split: if_splits)
    with 1 fit [of ts cs] buf show ?thesis by simp
  next
    case 2
    have "k = KString \<and> ts = 1 \<and> cs = ucast (b - 0x80)" "\<not> cs > word_of_nat (length buf) - ts"
      "\<not> (cs = 1 \<and> length buf > 1 \<and> buf ! 1 < 128)"
      using assms(2) 2 by (auto simp: readKind_def buf Let_def split: if_splits)
    moreover have "unat (b - 0x80) = unat b - 128" using 2 by (simp add: unat_tag_sub)
    ultimately show ?thesis
      using 2 fit [of ts cs] buf by (auto simp: enc_head_def nat)
  next
    case 3
    then obtain cs' where r: "readSize buf1 (b - 0xB7) = Inr cs'"
      "k = KString \<and> ts = ucast (b - 0xB7) + 1 \<and> cs = cs'" "\<not> cs > word_of_nat (length buf) - ts"
      using assms(2) by (auto simp: readKind_def buf nat res_bind_eq_Inr_iff split: if_splits)
    moreover have "0xB7 < b" "unat b \<le> unat (0xB7 :: byte) + 8"
      using 3 by (simp_all add: word_less_nat_alt)
    note long = readKind_long [OF r(1) this]
    ultimately show ?thesis
      using fit [of ts cs] buf by (auto simp: enc_head_def)
  next
    case 4
    have "k = KList \<and> ts = 1 \<and> cs = ucast (b - 0xC0)" "\<not> cs > word_of_nat (length buf) - ts"
      using assms(2) 4 by (auto simp: readKind_def buf nat split: if_splits)
    moreover have "unat (b - 0xC0) = unat b - 192" using 4 by (simp add: unat_tag_sub)
    ultimately show ?thesis
      using 4 fit [of ts cs] buf by (auto simp: enc_head_def nat)
  next
    case 5
    then obtain cs' where r: "readSize buf1 (b - 0xF7) = Inr cs'"
      "k = KList \<and> ts = ucast (b - 0xF7) + 1 \<and> cs = cs'" "\<not> cs > word_of_nat (length buf) - ts"
      using assms(2) by (auto simp: readKind_def buf nat res_bind_eq_Inr_iff split: if_splits)
    moreover have "0xF7 < b" "unat b \<le> unat (0xF7 :: byte) + 8"
      using 5 unat_byte_less [of b] by (simp_all add: word_less_nat_alt del: unat_byte_less)
    note long = readKind_long [OF r(1) this]
    ultimately show ?thesis
      using fit [of ts cs] buf by (auto simp: enc_head_def)
  qed
qed

lemma unat_tag_add: "unat t + n < 256 \<Longrightarrow> unat ((t :: byte) + word_of_nat n) = unat t + n"
proof -
  assume a: "unat t + n < 256"
  then have "unat (word_of_nat n :: byte) = n" by (simp add: word_of_nat_unat_less)
  with a show ?thesis using unat_add_lem [of t "word_of_nat n"] by simp
qed

lemma readSize_be_min:
  assumes "56 \<le> n" and "n < 2 ^ 64" and "unat slen = length (be_min n)"
  shows "readSize (be_min n @ rest) slen = Inr (word_of_nat n)"
proof -
  have u: "unat (word_of_nat n :: u64) = n" using assms(2) by (simp add: word_of_nat_unat_less)
  have "length (be_min n) \<le> 8" using assms(2) by (simp add: length_be_min_le_iff)
  moreover have "1 \<le> length (be_min n)" using assms(1) by (simp add: Suc_le_eq)
  ultimately show ?thesis using assms u by (subst readSize_Inr_iff) auto
qed

lemma readKind_kind_head:
  assumes len: "length (kind_head k (length c) @ c @ r) < 2 ^ 64" and ok: "kind_ok k c"
  shows "readKind (kind_head k (length c) @ c @ r) =
    Inr (k, word_of_nat (length (kind_head k (length c))), word_of_nat (length c))"
proof -
  define n where "n = length c"
  define m where "m = length (be_min n)"
  define buf where "buf = kind_head k n @ c @ r"
  have n: "n < 2 ^ 64" using len by (simp add: n_def)
  then have un: "unat (word_of_nat n :: u64) = n" by (simp add: word_of_nat_unat_less)
  have m: "m \<le> 8" using n by (simp add: m_def length_be_min_le_iff)
  have mpos: "56 \<le> n \<Longrightarrow> 0 < m" by (simp add: m_def)
  have fit: "\<not> word_of_nat n > (word_of_nat (length buf) - ts :: u64)"
    if "unat ts = length (kind_head k n)" for ts
    using that len length_minus_tag [of buf ts "word_of_nat n"] un by (simp add: buf_def n_def)
  have size: "readSize (be_min n @ c @ r) t = Inr (word_of_nat n)" if "unat t = m" "56 \<le> n" for t
    using that n by (simp add: m_def readSize_be_min)
  have "Suc m < 2 ^ LENGTH(64)" using m by simp
  then have "unat (word_of_nat (Suc m) :: u64) = Suc m" by (rule word_of_nat_unat_less)
  note um = this
  have bm: "(ucast (word_of_nat m :: byte) :: u64) = word_of_nat m"
    using m by (simp add: word_unat_eq_iff word_of_nat_unat_less)
  have tg: "(ucast (word_of_nat m :: byte) + 1 :: u64) = word_of_nat (Suc m)"
    by (simp add: bm add.commute)
  have szm: "readSize (be_min n @ c @ r) (word_of_nat m) = Inr (word_of_nat n)" if "\<not> n < 56"
    using that m by (intro size) (simp_all add: word_of_nat_unat_less)
  show ?thesis
  proof (cases k)
    case KByte
    then obtain x where "c = [x]" "x < 0x80" using ok by (cases c) auto
    with KByte len fit [of 0] show ?thesis by (simp add: readKind_def buf_def n_def)
  next
    case KString
    show ?thesis
    proof (cases "n < 56")
      case True
      have t: "unat (0x80 + word_of_nat n :: byte) = 128 + n" using True by (simp add: unat_tag_add)
      have cs: "(ucast (word_of_nat n :: byte) :: u64) = word_of_nat n"
        using True by (simp add: word_unat_eq_iff word_of_nat_unat_less)
      have "\<not> (n = 1 \<and> (c @ r) ! 0 < 0x80)"
        using ok KString by (auto simp: n_def nth_append hd_conv_nth)
      moreover have "(word_of_nat n :: u64) = 1 \<Longrightarrow> n = 1" using un by simp
      ultimately have nc: "(word_of_nat n :: u64) = 1 \<Longrightarrow> \<not> (c @ r) ! 0 < 0x80" by blast
      have buf: "buf = (0x80 + word_of_nat n) # c @ r" using KString True by (simp add: buf_def enc_head_def)
      have "\<not> (0x80 + word_of_nat n :: byte) < 0x80" "(0x80 + word_of_nat n :: byte) < 0xB8"
        using t True by (simp_all add: word_less_nat_alt)
      moreover have "buf ! 1 = (c @ r) ! 0" by (simp add: buf)
      with nc have "\<not> ((word_of_nat n :: u64) = 1 \<and> length buf > 1 \<and> buf ! 1 < 128)" by metis
      moreover have "\<not> word_of_nat n > (word_of_nat (length buf) - 1 :: u64)"
        using fit [of 1] KString True by (simp add: enc_head_def)
      ultimately have "readKind buf = Inr (KString, 1, word_of_nat n)"
        using cs unfolding readKind_def by (simp only: buf list.case if_False if_True Let_def
            add_diff_cancel_left' res_bind_simps prod.case)
      then show ?thesis using KString True by (simp add: buf enc_head_def flip: n_def)
    next
      case False
      then have t: "unat (0xB7 + word_of_nat m :: byte) = 183 + m" "0 < m"
        using m mpos by (simp_all add: unat_tag_add)
      have buf: "buf = (0xB7 + word_of_nat m) # be_min n @ c @ r"
        using KString False by (simp add: buf_def enc_head_def m_def)
      have c: "\<not> (0xB7 + word_of_nat m :: byte) < 0x80" "\<not> (0xB7 + word_of_nat m :: byte) < 0xB8"
        "(0xB7 + word_of_nat m :: byte) < 0xC0"
        using t m by (simp_all add: word_less_nat_alt)
      have "\<not> word_of_nat n > (word_of_nat (length buf) - word_of_nat (Suc m) :: u64)"
        using fit [of "word_of_nat (Suc m)"] um KString False by (simp add: enc_head_def m_def)
      with c tg szm [OF False] have "readKind buf = Inr (KString, word_of_nat (Suc m), word_of_nat n)"
        unfolding readKind_def by (simp only: buf list.case if_False if_True
            add_diff_cancel_left' res_bind_simps prod.case)
      then show ?thesis using KString False by (simp add: buf enc_head_def m_def flip: n_def)
    qed
  next
    case KList
    show ?thesis
    proof (cases "n < 56")
      case True
      have t: "unat (0xC0 + word_of_nat n :: byte) = 192 + n" using True by (simp add: unat_tag_add)
      have cs: "(ucast (word_of_nat n :: byte) :: u64) = word_of_nat n"
        using True by (simp add: word_unat_eq_iff word_of_nat_unat_less)
      show ?thesis
        using True t cs fit [of 1] KList
        by (simp add: readKind_def buf_def enc_head_def word_less_nat_alt flip: n_def)
    next
      case False
      then have t: "unat (0xF7 + word_of_nat m :: byte) = 247 + m" "0 < m"
        using m mpos by (simp_all add: unat_tag_add)
      have buf: "buf = (0xF7 + word_of_nat m) # be_min n @ c @ r"
        using KList False by (simp add: buf_def enc_head_def m_def)
      have c: "\<not> (0xF7 + word_of_nat m :: byte) < 0x80" "\<not> (0xF7 + word_of_nat m :: byte) < 0xB8"
        "\<not> (0xF7 + word_of_nat m :: byte) < 0xC0" "\<not> (0xF7 + word_of_nat m :: byte) < 0xF8"
        using t m by (simp_all add: word_less_nat_alt)
      have "\<not> word_of_nat n > (word_of_nat (length buf) - word_of_nat (Suc m) :: u64)"
        using fit [of "word_of_nat (Suc m)"] um KList False by (simp add: enc_head_def m_def)
      with c tg szm [OF False] have "readKind buf = Inr (KList, word_of_nat (Suc m), word_of_nat n)"
        unfolding readKind_def by (simp only: buf list.case if_False if_True
            add_diff_cancel_left' res_bind_simps prod.case)
      then show ?thesis using KList False by (simp add: buf enc_head_def m_def flip: n_def)
    qed
  qed
qed

text \<open>
  C23.  On inputs shorter than \<open>2 ^ 64\<close> bytes \<open>Split\<close> succeeds exactly on a canonical header followed by
  its content, and returns the kind, the content and what follows: non-minimal sizes, single bytes
  with a header and truncated values are all refused.
\<close>

theorem Split_iff_canonical:
  assumes "length b < 2 ^ 64"
  shows "Split b = Inr (k, c, r) \<longleftrightarrow> kind_ok k c \<and> b = kind_head k (length c) @ c @ r"
proof
  assume "Split b = Inr (k, c, r)"
  then obtain ts cs where rk: "readKind b = Inr (k, ts, cs)"
    and c: "c = take (unat cs) (drop (unat ts) b)" and r: "r = drop (unat (ts + cs)) b"
    by (auto simp: Split_def res_bind_eq_Inr_iff)
  note f = readKind_Inr [OF assms rk]
  then have sum: "unat (ts + cs) = unat ts + unat cs"
    using assms unat_add_lem [of ts cs] by simp
  then have "b = take (unat ts) b @ c @ r"
    by (simp add: c r add.commute flip: drop_drop)
  moreover have lc: "length c = unat cs" using f by (auto simp: c)
  moreover have "kind_ok k c"
  proof (cases "unat cs = 1")
    case True
    then have "unat ts < length b" and "cs = 1" using f by (auto simp: word_unat_eq_iff)
    then have "hd c = b ! unat ts" by (simp add: c True hd_drop_conv_nth)
    with f lc \<open>cs = 1\<close> \<open>unat ts < length b\<close> show ?thesis
      by (cases k) (auto simp: hd_conv_nth)
  next
    case False
    with f lc show ?thesis by (cases k) auto
  qed
  ultimately show "kind_ok k c \<and> b = kind_head k (length c) @ c @ r" using f by simp
next
  assume a: "kind_ok k c \<and> b = kind_head k (length c) @ c @ r"
  define h where "h = kind_head k (length c)"
  have len: "length h + length c + length r < 2 ^ 64" using a assms by (simp add: h_def)
  then have u: "unat (word_of_nat (length h) :: u64) = length h"
    "unat (word_of_nat (length c) :: u64) = length c"
    "unat (word_of_nat (length h) + word_of_nat (length c) :: u64) = length h + length c"
    using word_of_nat_unat_less [of "length h + length c", where ?'a = 64]
    by (simp_all add: word_of_nat_unat_less)
  show "Split b = Inr (k, c, r)"
    using readKind_kind_head [of k c r] a assms u by (simp add: Split_def flip: h_def)
qed

theorem Split_iff_canonical_witness:
  "Split [0x82, 4, 0, 9] = Inr (KString, [4, 0], [9])
   \<and> (\<forall>r. Split [0x81, 5] \<noteq> Inr (KString, [5], r))"
  using Split_iff_canonical [of "[0x82, 4, 0, 9]" KString "[4, 0]" "[9]"]
    Split_iff_canonical [of "[0x81, 5]" KString "[5]"]
  by (simp add: enc_head_def)

end
