(* ===== verification/RLP_Stream.thy ===== *)
theory RLP_Stream
  imports RLP_Raw
begin

text \<open>
  The streaming RLP decoder of \<open>src/devbase/rlp/decode.go\<close> over an in-memory reader.  \<open>Stream\<close> keeps
  the unread input, the remaining input limit, the stack of open lists and the cached kind of the
  value ahead.  \<open>decode\<close> dispatches on a type descriptor the way \<open>makeDecoder\<close> dispatches on a
  \<open>reflect.Type\<close>.  \<open>wrapStreamError\<close> and \<open>addErrorContext\<close> only decorate an error with type names and
  are left out: an error keeps its class.  The main result is the round trip with the encoder.
\<close>

section \<open>The stream\<close>

record Stream =
  rdr :: bytes
  remaining :: u64
  limited :: bool
  skind :: "Kind option"       \<comment> \<open>\<open>None\<close> is the source's \<open>-1\<close>: re-arm \<open>Kind\<close>\<close>
  ssize :: u64
  byteval :: byte
  kinderr :: "rlp_error option"
  stack :: "(u64 \<times> u64) list"  \<comment> \<open>\<open>listpos{pos, size}\<close>, innermost list first\<close>

type_synonym 'a reader = "Stream \<Rightarrow> (rlp_error + 'a) \<times> Stream"

definition s_bind :: "(rlp_error + 'a) \<times> Stream \<Rightarrow> ('a \<Rightarrow> 'b reader) \<Rightarrow> (rlp_error + 'b) \<times> Stream" where
  "s_bind r f = (case r of (Inl e, s) \<Rightarrow> (Inl e, s) | (Inr x, s) \<Rightarrow> f x s)"

definition NewStream :: "bytes \<Rightarrow> u64 \<Rightarrow> Stream" where
  "NewStream b inputLimit =
     \<lparr>rdr = b, remaining = (if inputLimit > 0 then inputLimit else word_of_nat (length b)),
      limited = True, skind = None, ssize = 0, byteval = 0, kinderr = None, stack = []\<rparr>"

definition willRead :: "u64 \<Rightarrow> unit reader" where
  "willRead n s0 =
     (let s = s0\<lparr>skind := None\<rparr>;
          limit = (\<lambda>s. if limited s then
                     if n > remaining s then (Inl ErrValueTooLarge, s)
                     else (Inr (), s\<lparr>remaining := remaining s - n\<rparr>)
                   else (Inr (), s))
      in case stack s of
           [] \<Rightarrow> limit s
         | (pos, sz) # outer \<Rightarrow>
             if n > sz - pos then (Inl ErrElemTooLarge, s)
             else limit (s\<lparr>stack := (pos + n, sz) # outer\<rparr>))"

definition readByte :: "byte reader" where
  "readByte s =
     s_bind (willRead 1 s)
       (\<lambda>_ s. case rdr s of [] \<Rightarrow> (Inl ErrUnexpectedEOF, s) | b # r \<Rightarrow> (Inr b, s\<lparr>rdr := r\<rparr>))"

definition readFull :: "nat \<Rightarrow> bytes reader" where
  "readFull n s =
     s_bind (willRead (word_of_nat n) s)
       (\<lambda>_ s. if length (rdr s) < n then (Inl ErrUnexpectedEOF, s\<lparr>rdr := []\<rparr>)
              else (Inr (take n (rdr s)), s\<lparr>rdr := drop n (rdr s)\<rparr>))"

definition readUint :: "byte \<Rightarrow> u64 reader" where
  "readUint sz s =
     (if sz = 0 then (Inr 0, s\<lparr>skind := None\<rparr>)
      else if sz = 1 then s_bind (readByte s) (\<lambda>b s. (Inr (ucast b), s))
      else s_bind (readFull (unat sz) s)
             (\<lambda>b s. if hd b = 0 then (Inl ErrCanonSize, s) else (Inr (be_u64 b), s)))"

text \<open>\<open>readKind\<close> returns a kind and a size also next to an error; the caller stores all three.\<close>

definition s_readKind :: "Stream \<Rightarrow> (Kind \<times> u64 \<times> rlp_error option) \<times> Stream" where
  "s_readKind s0 =
     (case readByte s0 of
        (Inl e, s) \<Rightarrow>
          ((KByte, 0,
            Some (if stack s = [] \<and> (e = ErrUnexpectedEOF \<or> e = ErrValueTooLarge) then IoEOF else e)), s)
      | (Inr b, s1) \<Rightarrow>
          (let s = s1\<lparr>byteval := 0\<rparr>;
               long = (\<lambda>k t. case readUint (b - t) s of
                         (Inl e, s) \<Rightarrow> ((k, 0, Some e), s)
                       | (Inr sz, s) \<Rightarrow> ((k, sz, if sz < 56 then Some ErrCanonSize else None), s))
           in if b < 0x80 then ((KByte, 0, None), s\<lparr>byteval := b\<rparr>)
              else if b < 0xB8 then ((KString, ucast (b - 0x80), None), s)
              else if b < 0xC0 then long KString 0xB7
              else if b < 0xF8 then ((KList, ucast (b - 0xC0), None), s)
              else long KList 0xF7))"

text \<open>
  \<open>Kind\<close> reads the header of the value ahead once and caches it.  The bounds are checked after
  \<open>readKind\<close> has moved the position of the enclosing list past the header.
\<close>

definition s_Kind_read :: "(Kind \<times> u64) reader" where
  "s_Kind_read s1 =
     (case s_readKind s1 of
        ((k, sz, err), s) \<Rightarrow>
          (let err' = (if err \<noteq> None then err
                       else case stack s of
                              [] \<Rightarrow> if limited s \<and> sz > remaining s then Some ErrValueTooLarge else None
                            | (pos, lsz) # _ \<Rightarrow> if sz > lsz - pos then Some ErrElemTooLarge else None);
               s' = s\<lparr>skind := Some k, ssize := sz, kinderr := err'\<rparr>
           in case err' of None \<Rightarrow> (Inr (k, sz), s') | Some e \<Rightarrow> (Inl e, s')))"

definition s_Kind :: "(Kind \<times> u64) reader" where
  "s_Kind s0 =
     (case skind s0 of
        Some k \<Rightarrow> (case kinderr s0 of None \<Rightarrow> (Inr (k, ssize s0), s0) | Some e \<Rightarrow> (Inl e, s0))
      | None \<Rightarrow>
          (let s1 = s0\<lparr>kinderr := None\<rparr>
           in case stack s1 of
                [] \<Rightarrow> s_Kind_read s1
              | (pos, sz) # _ \<Rightarrow> if pos = sz then (Inl EOL, s1) else s_Kind_read s1))"

definition s_Bytes :: "bytes reader" where
  "s_Bytes s0 =
     s_bind (s_Kind s0)
       (\<lambda>(k, sz) s. case k of
          KByte \<Rightarrow> (Inr [byteval s], s\<lparr>skind := None\<rparr>)
        | KString \<Rightarrow>
            s_bind (readFull (unat sz) s)
              (\<lambda>b s. if sz = 1 \<and> b ! 0 < 128 then (Inl ErrCanonSize, s) else (Inr b, s))
        | KList \<Rightarrow> (Inl ErrExpectedString, s))"

definition s_Raw :: "bytes reader" where
  "s_Raw s0 =
     s_bind (s_Kind s0)
       (\<lambda>(k, sz) s.
          if k = KByte then (Inr [byteval s], s\<lparr>skind := None\<rparr>)
          else s_bind (readFull (unat sz) s)
                 (\<lambda>b s. (Inr ((if k = KString then puthead 0x80 0xB7 sz else puthead 0xC0 0xF7 sz) @ b), s)))"

definition s_uint :: "nat \<Rightarrow> u64 reader" where
  "s_uint maxbits s0 =
     s_bind (s_Kind s0)
       (\<lambda>(k, sz) s. case k of
          KByte \<Rightarrow> if byteval s = 0 then (Inl ErrCanonInt, s)
                   else (Inr (ucast (byteval s)), s\<lparr>skind := None\<rparr>)
        | KString \<Rightarrow>
            if sz > word_of_nat (maxbits div 8) then (Inl ErrUintOverflow, s)
            else (case readUint (ucast sz) s of
                    (Inl e, s) \<Rightarrow> (Inl (if e = ErrCanonSize then ErrCanonInt else e), s)
                  | (Inr v, s) \<Rightarrow> if sz > 0 \<and> v < 128 then (Inl ErrCanonSize, s) else (Inr v, s))
        | KList \<Rightarrow> (Inl ErrExpectedString, s))"

definition s_Bool :: "bool reader" where
  "s_Bool s =
     s_bind (s_uint 8 s)
       (\<lambda>num s. if num = 0 then (Inr False, s) else if num = 1 then (Inr True, s)
                else (Inl ErrInvalidBool, s))"

definition s_List :: "u64 reader" where
  "s_List s0 =
     s_bind (s_Kind s0)
       (\<lambda>(k, sz) s. if k \<noteq> KList then (Inl ErrExpectedList, s)
                    else (Inr sz, s\<lparr>stack := (0, sz) # stack s, skind := None, ssize := 0\<rparr>))"

definition s_ListEnd :: "unit reader" where
  "s_ListEnd s =
     (case stack s of
        [] \<Rightarrow> (Inl ErrNotInList, s)
      | (pos, sz) # outer \<Rightarrow>
          if pos \<noteq> sz then (Inl ErrNotAtEOL, s)
          else (Inr (),
                s\<lparr>stack := (case outer of [] \<Rightarrow> [] | (p, z) # ps \<Rightarrow> (p + sz, z) # ps),
                  skind := None, ssize := 0\<rparr>))"

section \<open>Typed decoding\<close>

datatype rlp_type =
    TUint nat            \<comment> \<open>an unsigned integer kind, with its width in bits\<close>
  | TBool
  | TBigInt              \<comment> \<open>\<open>*big.Int\<close>\<close>
  | TBytes               \<comment> \<open>\<open>[]byte\<close> and \<open>string\<close>\<close>
  | TByteArray nat       \<comment> \<open>\<open>[n]byte\<close>\<close>
  | TSlice rlp_type
  | TStruct "rlp_type list"

definition decodeUint :: "nat \<Rightarrow> rlp_val reader" where
  "decodeUint bits s = s_bind (s_uint bits s) (\<lambda>n s. (Inr (VUint n), s))"

definition decodeBool :: "rlp_val reader" where
  "decodeBool s = s_bind (s_Bool s) (\<lambda>b s. (Inr (VBool b), s))"

definition decodeBigInt :: "rlp_val reader" where
  "decodeBigInt s =
     s_bind (s_Bytes s)
       (\<lambda>b s. if length b > 0 \<and> b ! 0 = 0 then (Inl ErrCanonInt, s)
              else (Inr (VBigInt (Some (int (be_val b)))), s))"

definition decodeByteSlice :: "rlp_val reader" where
  "decodeByteSlice s = s_bind (s_Bytes s) (\<lambda>b s. (Inr (VBytes b), s))"

text \<open>For a single-byte value the error of \<open>s.Uint()\<close> is discarded and \<open>0\<close> is stored.\<close>

definition decodeByteArray :: "nat \<Rightarrow> rlp_val reader" where
  "decodeByteArray vlen s0 =
     s_bind (s_Kind s0)
       (\<lambda>(k, sz) s. case k of
          KByte \<Rightarrow> if vlen = 0 then (Inl ErrTooLong, s) else if vlen > 1 then (Inl ErrTooShort, s)
                   else (case s_uint 64 s of
                           (Inl _, s) \<Rightarrow> (Inr (VBytes [0]), s)
                         | (Inr bv, s) \<Rightarrow> (Inr (VBytes [ucast bv]), s))
        | KString \<Rightarrow>
            if word_of_nat vlen < sz then (Inl ErrTooLong, s)
            else if word_of_nat vlen > sz then (Inl ErrTooShort, s)
            else s_bind (readFull vlen s)
                   (\<lambda>b s. if sz = 1 \<and> b ! 0 < 128 then (Inl ErrCanonSize, s)
                          else (Inr (VBytes b), s))
        | KList \<Rightarrow> (Inl ErrExpectedString, s))"

text \<open>
  The element loop runs until the element decoder reports \<open>EOL\<close>.  Every element takes at least one
  byte of input, so a budget of one round per unread byte and one for the final \<open>EOL\<close> is enough.
\<close>

fun decodeSliceElems :: "nat \<Rightarrow> rlp_val reader \<Rightarrow> rlp_val list reader" where
  "decodeSliceElems 0 elemdec s = (Inl OutOfFuel, s)"
| "decodeSliceElems (Suc fuel) elemdec s =
     (case elemdec s of
        (Inl e, s') \<Rightarrow> if e = EOL then (Inr [], s') else (Inl e, s')
      | (Inr v, s') \<Rightarrow> s_bind (decodeSliceElems fuel elemdec s') (\<lambda>vs s. (Inr (v # vs), s)))"

definition decodeListSlice :: "rlp_val reader \<Rightarrow> rlp_val reader" where
  "decodeListSlice elemdec s0 =
     s_bind (s_List s0)
       (\<lambda>sz s. if sz = 0 then s_bind (s_ListEnd s) (\<lambda>_ s. (Inr (VList []), s))
               else s_bind (decodeSliceElems (Suc (length (rdr s))) elemdec s)
                      (\<lambda>vs s. s_bind (s_ListEnd s) (\<lambda>_ s. (Inr (VList vs), s))))"

fun decodeFields :: "rlp_val reader list \<Rightarrow> rlp_val list reader" where
  "decodeFields [] s = (Inr [], s)"
| "decodeFields (d # ds) s =
     (case d s of
        (Inl e, s') \<Rightarrow> (Inl (if e = EOL then ErrTooFewElements else e), s')
      | (Inr v, s') \<Rightarrow> s_bind (decodeFields ds s') (\<lambda>vs s. (Inr (v # vs), s)))"

definition decodeStruct :: "rlp_val reader list \<Rightarrow> rlp_val reader" where
  "decodeStruct fs s0 =
     s_bind (s_List s0)
       (\<lambda>_ s. s_bind (decodeFields fs s)
          (\<lambda>vs s. s_bind (s_ListEnd s) (\<lambda>_ s. (Inr (VList vs), s))))"

fun decode :: "rlp_type \<Rightarrow> rlp_val reader" where
  "decode (TUint bits) = decodeUint bits"
| "decode TBool = decodeBool"
| "decode TBigInt = decodeBigInt"
| "decode TBytes = decodeByteSlice"
| "decode (TByteArray n) = decodeByteArray n"
| "decode (TSlice t) = decodeListSlice (decode t)"
| "decode (TStruct ts) = decodeStruct (map decode ts)"

definition DecodeBytes :: "rlp_type \<Rightarrow> bytes \<Rightarrow> rlp_error + rlp_val" where
  "DecodeBytes t b =
     (case decode t (NewStream b (word_of_nat (length b))) of
        (Inl e, s) \<Rightarrow> Inl e
      | (Inr v, s) \<Rightarrow> if length (rdr s) > 0 then Inl ErrMoreThanOneValue else Inr v)"

section \<open>Values of a type\<close>

fun has_type :: "rlp_type \<Rightarrow> rlp_val \<Rightarrow> bool"
  and has_types :: "rlp_type list \<Rightarrow> rlp_val list \<Rightarrow> bool" where
  "has_type (TUint bits) (VUint i) = (8 dvd bits \<and> bits \<le> 64 \<and> unat i < 2 ^ bits)"
| "has_type TBool (VBool b) = True"
| "has_type TBigInt (VBigInt p) = True"
| "has_type TBytes (VBytes b) = True"
| "has_type (TByteArray n) (VBytes b) = (length b = n \<and> b \<noteq> [0])"
| "has_type (TSlice t) (VList vs) = (\<forall>v \<in> set vs. has_type t v)"
| "has_type (TStruct ts) (VList vs) = has_types ts vs"
| "has_type _ _ = False"
| "has_types [] [] = True"
| "has_types (t # ts) (v # vs) = (has_type t v \<and> has_types ts vs)"
| "has_types _ _ = False"

lemma fixed_not_zero [simp]: "hash_bytes h \<noteq> [0]" "address_bytes a \<noteq> [0]" "1 < k \<Longrightarrow> be_fixed k n \<noteq> [0]"
  by (auto dest!: arg_cong [of _ _ length])

text \<open>What decoding gives back: a nil big integer is written as zero.\<close>

fun canon :: "rlp_val \<Rightarrow> rlp_val" where
  "canon (VBigInt p) = VBigInt (Some (case p of None \<Rightarrow> 0 | Some i \<Rightarrow> i))"
| "canon (VList vs) = VList (map canon vs)"
| "canon v = v"

section \<open>Reading what the encoder wrote\<close>

text \<open>
  \<open>eat n s\<close> is the stream after \<open>n\<close> bytes; \<open>room n s\<close> says that the input limit and the enclosing list
  leave that much.  \<open>after n s s'\<close> ignores the scratch fields.
\<close>

definition bump :: "nat \<Rightarrow> (u64 \<times> u64) list \<Rightarrow> (u64 \<times> u64) list" where
  "bump n st = (case st of [] \<Rightarrow> [] | (p, z) # ps \<Rightarrow> (p + word_of_nat n, z) # ps)"

definition eat :: "nat \<Rightarrow> Stream \<Rightarrow> Stream" where
  "eat n s = s\<lparr>rdr := drop n (rdr s), skind := None,
     remaining := (if limited s then remaining s - word_of_nat n else remaining s),
     stack := bump n (stack s)\<rparr>"

definition room :: "nat \<Rightarrow> Stream \<Rightarrow> bool" where
  "room n s \<longleftrightarrow> (limited s \<longrightarrow> n \<le> unat (remaining s)) \<and>
     (case stack s of [] \<Rightarrow> True | (p, z) # _ \<Rightarrow> unat p + n \<le> unat z)"

definition same :: "Stream \<Rightarrow> Stream \<Rightarrow> bool" where
  "same s t \<longleftrightarrow> rdr s = rdr t \<and> remaining s = remaining t \<and> limited s = limited t \<and>
     skind s = skind t \<and> stack s = stack t"

abbreviation after :: "nat \<Rightarrow> Stream \<Rightarrow> Stream \<Rightarrow> bool" where
  "after n s s' \<equiv> same (eat n s) s'"

lemma s_bind_simps [simp]:
  "s_bind (Inl e, s) f = (Inl e, s)" "s_bind (Inr x, s) f = f x s"
  by (simp_all add: s_bind_def)

lemma same_refl [simp]: "same s s"
  by (simp add: same_def)

lemma same_trans: "same s t \<Longrightarrow> same t u \<Longrightarrow> same s u"
  by (simp add: same_def)

lemma same_eat: "same s t \<Longrightarrow> same (eat n s) (eat n t)"
  by (simp add: same_def eat_def)

lemma eat_0: "skind s = None \<Longrightarrow> eat 0 s = s"
  by (simp add: eat_def bump_def split: list.splits)

lemma eat_eat [simp]: "eat m (eat n s) = eat (n + m) s"
  by (simp add: eat_def bump_def algebra_simps split: list.splits)

lemma eat_skind [simp]: "eat n (s\<lparr>skind := k\<rparr>) = eat n s"
  by (simp add: eat_def)

lemma eat_sel [simp]:
  "rdr (eat n s) = drop n (rdr s)" "skind (eat n s) = None" "limited (eat n s) = limited s"
  "stack (eat n s) = bump n (stack s)"
  by (simp_all add: eat_def)

lemma after_trans: "after m s s1 \<Longrightarrow> after n s1 s2 \<Longrightarrow> after (m + n) s s2"
  using same_eat [of "eat m s" s1 n] same_trans by fastforce

lemma room_same: "same s t \<Longrightarrow> room n s \<longleftrightarrow> room n t"
  by (simp add: room_def same_def)

lemma room_less: "room n s \<Longrightarrow> limited s \<Longrightarrow> n < 2 ^ 64"
  using unsigned_less [of "remaining s", where ?'a = nat] by (simp add: room_def)

lemma unat_minus_of_nat:
  "n \<le> unat (w :: u64) \<Longrightarrow> unat (w - word_of_nat n) = unat w - n"
proof -
  assume a: "n \<le> unat w"
  have "unat w < 2 ^ 64" using unsigned_less [of w, where ?'a = nat] by simp
  with a have "unat (word_of_nat n :: u64) = n" by (simp add: word_of_nat_unat_less)
  with a show ?thesis by (simp add: unat_sub word_le_nat_alt)
qed

lemma unat_plus_of_nat:
  "unat w + n \<le> unat (z :: u64) \<Longrightarrow> unat (w + word_of_nat n :: u64) = unat w + n"
proof -
  assume a: "unat w + n \<le> unat z"
  have "unat z < 2 ^ 64" using unsigned_less [of z, where ?'a = nat] by simp
  with a have "unat (word_of_nat n :: u64) = n" "unat w + n < 2 ^ 64"
    by (simp_all add: word_of_nat_unat_less)
  then show ?thesis using unat_add_lem [of w "word_of_nat n"] by simp
qed

lemma list_room_eat:
  "unat (w :: u64) + (m + n) \<le> unat (z :: u64) \<Longrightarrow> unat (w + word_of_nat m) + n \<le> unat z"
  using unat_plus_of_nat [of w m z] by simp

lemma room_eat: "room (m + n) s \<Longrightarrow> room n (eat m s)"
  by (auto simp: room_def eat_def bump_def unat_minus_of_nat list_room_eat split: list.splits)

lemma room_mono: "room n s \<Longrightarrow> m \<le> n \<Longrightarrow> room m s"
  by (auto simp: room_def split: list.splits)

lemma willRead_room:
  assumes "room n s" and "n < 2 ^ 64"
  shows "willRead (word_of_nat n) s = (Inr (), (eat n s)\<lparr>rdr := rdr s\<rparr>)"
proof -
  have n: "unat (word_of_nat n :: u64) = n" using assms(2) by (simp add: word_of_nat_unat_less)
  have "\<not> word_of_nat n > z - p" if "unat p + n \<le> unat z" for p z :: u64
  proof -
    have "unat (z - p) = unat z - unat p" using that by (simp add: unat_sub word_le_nat_alt)
    with that n show ?thesis by (simp add: word_less_nat_alt)
  qed
  with assms n show ?thesis
    by (cases "stack s")
      (auto simp: willRead_def room_def eat_def bump_def Let_def word_less_nat_alt)
qed

lemma readByte_room: "room 1 s \<Longrightarrow> rdr s = b # r \<Longrightarrow> readByte s = (Inr b, eat 1 s)"
  using willRead_room [of 1 s] by (simp add: readByte_def eat_def)

lemma readFull_room:
  "room (length c) s \<Longrightarrow> length c < 2 ^ 64 \<Longrightarrow> rdr s = c @ r \<Longrightarrow>
   readFull (length c) s = (Inr c, eat (length c) s)"
  using willRead_room [of "length c" s] by (simp add: readFull_def eat_def)

lemma readUint_room:
  assumes "room (length (be_min n)) s" and "0 < n" and "n < 2 ^ 64" and "rdr s = be_min n @ r"
  shows "readUint (word_of_nat (length (be_min n))) s = (Inr (word_of_nat n), eat (length (be_min n)) s)"
proof -
  define m where "m = length (be_min n)"
  have m: "0 < m" "m \<le> 8" using assms(2,3) by (simp_all add: m_def length_be_min_le_iff)
  then have u: "unat (word_of_nat m :: byte) = m" by (simp add: word_of_nat_unat_less)
  then have m0: "(word_of_nat m :: byte) \<noteq> 0" "(word_of_nat m :: byte) = 1 \<longleftrightarrow> m = 1"
    using m by (auto simp: word_unat_eq_iff)
  show ?thesis
  proof (cases "m = 1")
    case True
    then obtain x where x: "be_min n = [x]" by (cases "be_min n") (auto simp: m_def)
    then have "n = unat x" using be_val_be_min [of n] by simp
    with x assms(1,4) show ?thesis by (simp add: readUint_def readByte_room)
  next
    case False
    have "readFull m s = (Inr (be_min n), eat m s)"
      using assms m readFull_room [of "be_min n" s r] by (simp add: m_def)
    moreover have "hd (be_min n) \<noteq> 0" using assms(2) by (rule hd_be_min_nonzero)
    ultimately show ?thesis
      using m0 False u by (simp add: readUint_def be_u64_eq flip: m_def)
  qed
qed

lemma s_readKind_head:
  assumes ok: "kind_ok k c" and rd: "rdr s = kind_head k (length c) @ c @ r" and k: "k \<noteq> KByte"
    and room: "room (length (kind_head k (length c))) s" and len: "length c < 2 ^ 64"
  shows "\<exists>x. s_readKind s = ((k, word_of_nat (length c), None), (eat (length (kind_head k (length c))) s)\<lparr>byteval := x\<rparr>)"
proof -
  define n where "n = length c"
  define m where "m = length (be_min n)"
  define t :: "byte \<times> byte" where "t = (if k = KString then (0x80, 0xB7) else (0xC0, 0xF7))"
  have head: "kind_head k n = enc_head (fst t) (snd t) n" using k by (cases k) (simp_all add: t_def)
  have room1: "room 1 s" using room by (rule room_mono) (simp add: head enc_head_def flip: n_def)
  show ?thesis
  proof (cases "n < 56")
    case True
    define b where "b = fst t + word_of_nat n"
    have ub: "unat b = unat (fst t) + n" using True by (simp add: b_def t_def unat_tag_add)
    have rb: "readByte s = (Inr b, eat 1 s)"
      using room1 rd True by (simp add: readByte_room head enc_head_def b_def flip: n_def)
    have "(ucast (b - fst t) :: u64) = word_of_nat n"
      using True by (simp add: b_def word_unat_eq_iff word_of_nat_unat_less)
    with rb ub True k show ?thesis
      by (cases k) (auto simp: s_readKind_def t_def head enc_head_def word_less_nat_alt simp flip: n_def)
  next
    case False
    define b where "b = snd t + word_of_nat m"
    have "c \<noteq> []" using False by (auto simp: n_def)
    with len have m: "0 < m" "m \<le> 8" by (simp_all add: m_def n_def length_be_min_le_iff)
    have ub: "unat b = unat (snd t) + m" using m by (simp add: b_def t_def unat_tag_add)
    have rb: "readByte s = (Inr b, eat 1 s)"
      using room1 rd False by (simp add: readByte_room head enc_head_def b_def m_def flip: n_def)
    define s1 where "s1 = (eat 1 s)\<lparr>byteval := 0\<rparr>"
    have "room m (eat 1 s)"
      using room False by (intro room_eat) (simp add: head enc_head_def m_def flip: n_def)
    then have "room m s1" using room_same [of "eat 1 s" s1 m] by (simp add: s1_def same_def)
    moreover have "rdr s1 = be_min n @ c @ r"
      using rd False by (simp add: s1_def head enc_head_def flip: n_def)
    ultimately have ru: "readUint (word_of_nat m) s1 = (Inr (word_of_nat n), eat m s1)"
      using readUint_room [of n s1 "c @ r"] \<open>c \<noteq> []\<close> len by (simp add: m_def n_def)
    have big: "\<not> (word_of_nat n :: u64) < 56"
      using False len by (simp add: word_less_nat_alt word_of_nat_unat_less n_def)
    have bt: "b - snd t = word_of_nat m" by (simp add: b_def)
    have "eat m s1 = (eat (Suc m) s)\<lparr>byteval := 0\<rparr>"
      by (simp add: s1_def eat_def bump_def algebra_simps split: list.splits)
    with rb ub m ru big bt False k show ?thesis
      by (cases k) (auto simp: s_readKind_def t_def head enc_head_def word_less_nat_alt s1_def m_def
          simp flip: n_def)
  qed
qed

text \<open>The state \<open>Kind\<close> leaves behind: the header is consumed and its description cached.\<close>

definition headed :: "Kind \<Rightarrow> nat \<Rightarrow> Stream \<Rightarrow> Stream \<Rightarrow> bool" where
  "headed k h s s' \<longleftrightarrow> same ((eat h s)\<lparr>skind := Some k\<rparr>) s' \<and> kinderr s' = None"

lemma headed_eat: "headed k h s s' \<Longrightarrow> after (h + n) s (eat n s')"
  using same_eat [of "(eat h s)\<lparr>skind := Some k\<rparr>" s' n] by (simp add: headed_def)

lemma headed_rdr: "headed k h s s' \<Longrightarrow> rdr s' = drop h (rdr s)"
  by (simp add: headed_def same_def eat_def)

lemma headed_room: "headed k h s s' \<Longrightarrow> room (h + n) s \<Longrightarrow> room n s'"
  using room_eat [of h n s] by (simp add: headed_def same_def room_def)

lemma not_EOL: "room n s \<Longrightarrow> 0 < n \<Longrightarrow> stack s = (p, z) # ps \<Longrightarrow> p \<noteq> z"
  by (auto simp: room_def)

lemma s_Kind_unread:
  "skind s = None \<Longrightarrow> room n s \<Longrightarrow> 0 < n \<Longrightarrow> s_Kind s = s_Kind_read (s\<lparr>kinderr := None\<rparr>)"
  by (auto simp: s_Kind_def Let_def dest: not_EOL split: list.splits)

lemma s_Kind_head:
  assumes "kind_ok k c" and "rdr s = kind_head k (length c) @ c @ r" and "k \<noteq> KByte"
    and room: "room (length (kind_head k (length c)) + length c) s" and "length c < 2 ^ 64"
    and "skind s = None"
  shows "\<exists>s'. s_Kind s = (Inr (k, word_of_nat (length c)), s') \<and>
    headed k (length (kind_head k (length c))) s s' \<and> ssize s' = word_of_nat (length c)"
proof -
  define h where "h = length (kind_head k (length c))"
  define s0 where "s0 = s\<lparr>kinderr := None\<rparr>"
  have hpos: "0 < h" using assms(3) by (cases k) (simp_all add: h_def)
  have room0: "room (h + length c) s0" using room by (simp add: s0_def room_def h_def)
  then have "room h s0" by (rule room_mono) simp
  then obtain x where rk: "s_readKind s0 = ((k, word_of_nat (length c), None), (eat h s0)\<lparr>byteval := x\<rparr>)"
    using s_readKind_head [of k c s0 r] assms by (auto simp: s0_def h_def)
  have "room (length c) (eat h s0)" using room0 by (rule room_eat)
  moreover have "unat (word_of_nat (length c) :: u64) = length c"
    using assms(5) by (simp add: word_of_nat_unat_less)
  moreover have "unat (z - p) = unat z - unat p" if "unat p + length c \<le> unat z" for p z :: u64
    using that by (simp add: unat_sub word_le_nat_alt)
  ultimately have "s_Kind_read s0 = (Inr (k, word_of_nat (length c)),
      (eat h s0)\<lparr>byteval := x, skind := Some k, ssize := word_of_nat (length c), kinderr := None\<rparr>)"
    using rk by (auto simp: s_Kind_read_def room_def word_less_nat_alt Let_def split: list.splits)
  moreover have "s_Kind s = s_Kind_read s0"
    using s_Kind_unread [OF assms(6) room] hpos by (simp add: s0_def h_def)
  ultimately show ?thesis
    by (simp add: headed_def same_def s0_def eat_def h_def)
qed

lemma s_Kind_byte:
  assumes "x < 0x80" and "rdr s = x # r" and "room 1 s" and "skind s = None"
  shows "\<exists>s'. s_Kind s = (Inr (KByte, 0), s') \<and> headed KByte 1 s s' \<and> byteval s' = x"
proof -
  define s0 where "s0 = s\<lparr>kinderr := None\<rparr>"
  have "readByte s0 = (Inr x, eat 1 s0)"
    using assms by (intro readByte_room) (simp_all add: s0_def room_def)
  moreover have "s_Kind s = s_Kind_read s0"
    using s_Kind_unread [OF assms(4,3)] by (simp add: s0_def)
  ultimately show ?thesis
    using assms(1) by (auto simp: s_Kind_read_def s_readKind_def Let_def headed_def same_def s0_def
        eat_def split: list.splits)
qed

lemma s_Bytes_enc_str:
  assumes "rdr s = enc_str b @ r" and "room (length (enc_str b)) s" and "skind s = None"
    and "length b < 2 ^ 64"
  shows "\<exists>s'. s_Bytes s = (Inr b, s') \<and> after (length (enc_str b)) s s'"
proof (cases "length b = 1 \<and> hd b < 0x80")
  case True
  then obtain x where b: "b = [x]" "x < 0x80" by (cases b) auto
  then obtain s' where s': "s_Kind s = (Inr (KByte, 0), s')" "headed KByte 1 s s'" "byteval s' = x"
    using s_Kind_byte [of x s r] assms by (auto simp: enc_str_def)
  from s'(2) have "same (eat 1 s) (s'\<lparr>skind := None\<rparr>)" by (simp add: headed_def same_def)
  with s' b show ?thesis by (simp add: s_Bytes_def enc_str_def)
next
  case False
  define h where "h = length (kind_head KString (length b))"
  have enc: "enc_str b = kind_head KString (length b) @ b" using False by (auto simp: enc_str_def)
  then obtain s' where s': "s_Kind s = (Inr (KString, word_of_nat (length b)), s')"
    "headed KString h s s'"
    using s_Kind_head [of KString b s r] False assms by (auto simp: h_def)
  have "readFull (length b) s' = (Inr b, eat (length b) s')"
    using headed_rdr [OF s'(2)] headed_room [OF s'(2), of "length b"] assms enc
    by (intro readFull_room [of b s' r]) (simp_all add: h_def)
  moreover have u: "unat (word_of_nat (length b) :: u64) = length b"
    using assms(4) by (simp add: word_of_nat_unat_less)
  moreover have "\<not> ((word_of_nat (length b) :: u64) = 1 \<and> b ! 0 < 128)"
    using False u by (metis hd_conv_nth length_0_conv unsigned_1 zero_neq_one)
  ultimately show ?thesis
    using s' headed_eat [OF s'(2), of "length b"] enc by (auto simp: s_Bytes_def h_def)
qed

lemma s_uint_enc:
  assumes "rdr s = enc (VUint i) @ r" and "room (length (enc (VUint i))) s" and "skind s = None"
    and "unat i < 256 ^ (bits div 8)" and "bits \<le> 64"
  shows "\<exists>s'. s_uint bits s = (Inr i, s') \<and> after (length (enc (VUint i))) s s'"
proof (cases "0 < unat i \<and> unat i < 128")
  case True
  then have i: "i \<noteq> 0" "i < 128" by (auto simp: word_less_nat_alt)
  have u: "unat (ucast i :: byte) = unat i"
    using True by (simp add: unsigned_ucast_eq take_bit_eq_mod)
  have e: "enc (VUint i) = [ucast i]" unfolding enc_VUint using i by simp
  then obtain s' where s': "s_Kind s = (Inr (KByte, 0), s')" "headed KByte 1 s s'" "byteval s' = ucast i"
    using s_Kind_byte [of "ucast i" s r] assms u True by (auto simp: word_less_nat_alt)
  have "(ucast i :: byte) \<noteq> 0" using u True by (auto simp: word_unat_eq_iff)
  moreover have "(ucast (ucast i :: byte) :: u64) = i" using u by (simp add: word_unat_eq_iff)
  moreover have "same (eat 1 s) (s'\<lparr>skind := None\<rparr>)" using s'(2) by (simp add: headed_def same_def)
  ultimately show ?thesis using s' e by (simp add: s_uint_def)
next
  case False
  define c where "c = be_min (unat i)"
  have c: "\<not> (length c = 1 \<and> hd c < 0x80)"
  proof
    assume a: "length c = 1 \<and> hd c < 0x80"
    then obtain x where "c = [x]" by (cases c) auto
    then have "unat i = unat x" "0 < unat i"
      using be_val_be_min [of "unat i"] be_min_eq_Nil_iff [of "unat i"]
      by (auto simp: c_def simp del: be_min_eq_Nil_iff be_val_be_min)
    with a False \<open>c = [x]\<close> show False by (simp add: word_less_nat_alt)
  qed
  have len: "length c \<le> bits div 8" using assms(4) by (simp add: c_def length_be_min_le_iff)
  then have len8: "length c \<le> 8" using assms(5) by simp
  then have u: "unat (word_of_nat (length c) :: u64) = length c"
    "unat (word_of_nat (length c) :: byte) = length c"
    "unat (word_of_nat (bits div 8) :: u64) = bits div 8"
    using assms(5) by (simp_all add: word_of_nat_unat_less)
  have e: "enc (VUint i) = kind_head KString (length c) @ c" using c by (auto simp: enc_str_def c_def)
  define h where "h = length (kind_head KString (length c))"
  obtain s' where s': "s_Kind s = (Inr (KString, word_of_nat (length c)), s')" "headed KString h s s'"
    using s_Kind_head [of KString c s r] c assms e len8 by (auto simp: h_def)
  have fit: "\<not> (word_of_nat (length c) :: u64) > word_of_nat (bits div 8)"
    using u len by (simp add: word_less_nat_alt)
  have uc: "(ucast (word_of_nat (length c) :: u64) :: byte) = word_of_nat (length c)"
    using u len8 by (simp add: word_unat_eq_iff unsigned_ucast_eq take_bit_eq_mod)
  have "readUint (word_of_nat (length c)) s' = (Inr i, eat (length c) s')"
  proof (cases "i = 0")
    case True
    then have "c = []" by (simp add: c_def)
    then show ?thesis using True by (simp add: readUint_def eat_def bump_def split: list.splits)
  next
    case False
    have "room (length c) s'" using headed_room [OF s'(2), of "length c"] assms(2) e by (simp add: h_def)
    moreover have "unat i < 2 ^ 64" using unsigned_less [of i, where ?'a = nat] by simp
    moreover have "rdr s' = c @ r" using headed_rdr [OF s'(2)] assms(1) e by (simp add: h_def)
    ultimately show ?thesis
      using readUint_room [of "unat i" s' r] False by (simp add: c_def unat_gt_0)
  qed
  moreover have "\<not> ((word_of_nat (length c) :: u64) > 0 \<and> i < 128)"
    using False u by (auto simp: word_less_nat_alt c_def)
  ultimately show ?thesis
    using s' fit uc headed_eat [OF s'(2), of "length c"] e
    by (auto simp: s_uint_def h_def)
qed

text \<open>Opening a list and closing it again.\<close>

definition opened :: "nat \<Rightarrow> nat \<Rightarrow> Stream \<Rightarrow> Stream \<Rightarrow> bool" where
  "opened h n s s1 \<longleftrightarrow> same ((eat h s)\<lparr>stack := (0, word_of_nat n) # bump h (stack s)\<rparr>) s1"

lemma s_List_enc_list:
  assumes "rdr s = enc_list p @ r" and "room (length (enc_list p)) s" and "skind s = None"
    and "length p < 2 ^ 64"
  shows "\<exists>s1. s_List s = (Inr (word_of_nat (length p)), s1) \<and>
    opened (length (enc_list p) - length p) (length p) s s1"
proof -
  have enc: "enc_list p = kind_head KList (length p) @ p" by (simp add: enc_list_def)
  then obtain s' where s': "s_Kind s = (Inr (KList, word_of_nat (length p)), s')"
    "headed KList (length (kind_head KList (length p))) s s'"
    using s_Kind_head [of KList p s r] assms by auto
  then show ?thesis
    using enc by (auto simp: s_List_def opened_def headed_def same_def eat_def)
qed

lemma opened_after:
  assumes "opened h n s s1" and "after n s1 s2"
  shows "\<exists>s3. s_ListEnd s2 = (Inr (), s3) \<and> after (h + n) s s3"
proof -
  have "rdr s1 = drop h (rdr s)" "rdr s2 = drop n (rdr s1)"
    using assms by (simp_all add: opened_def same_def)
  then have "drop (h + n) (rdr s) = rdr s2" by (simp add: add.commute)
  with assms show ?thesis
    by (auto simp: opened_def same_def s_ListEnd_def eat_def bump_def algebra_simps
        split: list.splits)
qed

lemma opened_room:
  assumes "opened h n s s1" and "room (h + n) s" and "n < 2 ^ 64"
  shows "room n s1"
proof -
  have "room n ((eat h s)\<lparr>stack := (0, word_of_nat n) # bump h (stack s)\<rparr>)"
    using room_eat [OF assms(2)] assms(3) by (simp add: room_def eat_def word_of_nat_unat_less)
  then show ?thesis using assms(1) room_same by (simp add: opened_def)
qed

lemma opened_sel:
  "opened h n s s1 \<Longrightarrow> rdr s1 = drop h (rdr s) \<and> skind s1 = None \<and> stack s1 = (0, word_of_nat n) # bump h (stack s)"
  by (simp add: opened_def same_def)

section \<open>Round trip\<close>

definition reads :: "rlp_type \<Rightarrow> rlp_val \<Rightarrow> bool" where
  "reads t v \<longleftrightarrow>
     (\<forall>s r. rdr s = enc v @ r \<and> room (length (enc v)) s \<and> skind s = None \<and> length (enc v) < 2 ^ 64 \<longrightarrow>
        (\<exists>s'. decode t s = (Inr (canon v), s') \<and> after (length (enc v)) s s'))"

lemma s_Kind_EOL:
  "skind s = None \<Longrightarrow> stack s = (p, p) # ps \<Longrightarrow> s_Kind s = (Inl EOL, s\<lparr>kinderr := None\<rparr>)"
  by (simp add: s_Kind_def)

lemma decode_EOL:
  "skind s = None \<Longrightarrow> stack s = (p, p) # ps \<Longrightarrow> decode t s = (Inl EOL, s\<lparr>kinderr := None\<rparr>)"
  by (cases t) (simp_all add: decodeUint_def s_uint_def decodeBool_def s_Bool_def decodeBigInt_def
      s_Bytes_def decodeByteSlice_def decodeByteArray_def decodeListSlice_def s_List_def
      decodeStruct_def s_Kind_EOL)

lemma enc_str_not_Nil [simp]: "enc_str b \<noteq> []"
  by (auto simp: enc_str_def)

lemma enc_not_Nil: "has_type t v \<Longrightarrow> enc v \<noteq> []"
  by (cases t; cases v) (auto simp: enc_list_def split: option.splits)

lemma length_enc_str: "length b \<le> length (enc_str b)"
  by (simp add: enc_str_def)

lemma after_skind: "after n s s' \<Longrightarrow> skind s' = None"
  by (simp add: same_def)

lemma after_rdr: "after n s s' \<Longrightarrow> rdr s' = drop n (rdr s)"
  by (simp add: same_def)

lemma after_room: "after m s s' \<Longrightarrow> room (m + n) s \<Longrightarrow> room n s'"
  using room_same room_eat by blast

lemma readsD:
  "reads t v \<Longrightarrow> rdr s = enc v @ r \<Longrightarrow> room (length (enc v)) s \<Longrightarrow> skind s = None \<Longrightarrow>
   length (enc v) < 2 ^ 64 \<Longrightarrow>
   \<exists>s'. decode t s = (Inr (canon v), s') \<and> after (length (enc v)) s s'"
  unfolding reads_def by blast

text \<open>One step along a concatenation: what is true of the stream before an element and after it.\<close>

lemma after_concat:
  assumes "after (length c) s s'" and "rdr s = c @ cs @ r" and "room (length c + n) s"
  shows "rdr s' = cs @ r" and "room n s'" and "skind s' = None"
  using after_rdr [OF assms(1)] after_room [OF assms(1,3)] after_skind [OF assms(1)] assms(2)
  by simp_all

lemma decodeSliceElems_reads:
  assumes "\<forall>v \<in> set vs. reads t v" and "rdr s = concat (map enc vs) @ r"
    and "room (length (concat (map enc vs))) s" and "skind s = None"
    and "stack s = (p, z) # ps" and "unat z = unat p + length (concat (map enc vs))"
    and "length vs < fuel" and "length (concat (map enc vs)) < 2 ^ 64"
  shows "\<exists>s'. decodeSliceElems fuel (decode t) s = (Inr (map canon vs), s') \<and>
     after (length (concat (map enc vs))) s s'"
  using assms
proof (induction vs arbitrary: s p fuel)
  case Nil
  then have "z = p" by (simp add: word_unat_eq_iff)
  with Nil obtain f where "fuel = Suc f" "decode t s = (Inl EOL, s\<lparr>kinderr := None\<rparr>)"
    using decode_EOL by (cases fuel) auto
  with Nil show ?case by (simp add: eat_0 same_def)
next
  case (Cons v vs)
  then obtain f where f: "fuel = Suc f" "length vs < f" by (cases fuel) auto
  let ?c = "enc v" and ?cs = "concat (map enc vs)"
  have rdr: "rdr s = ?c @ ?cs @ r" and room: "room (length ?c + length ?cs) s" using Cons.prems by simp_all
  have "room (length ?c) s" using room by (rule room_mono) simp
  then obtain s1 where s1: "decode t s = (Inr (canon v), s1)" "after (length ?c) s s1"
    using readsD [of t v s "?cs @ r"] Cons.prems rdr by auto
  have st: "stack s1 = (p + word_of_nat (length ?c), z) # ps"
    using s1(2) Cons.prems(5) by (simp add: same_def bump_def)
  have "unat (p + word_of_nat (length ?c)) = unat p + length ?c"
    using Cons.prems(6) by (intro unat_plus_of_nat [where z = z]) simp
  then obtain s2 where "decodeSliceElems f (decode t) s1 = (Inr (map canon vs), s2)"
    "after (length ?cs) s1 s2"
    using Cons.IH [of s1 "p + word_of_nat (length ?c)" f] after_concat [OF s1(2) rdr room] st f Cons.prems
    by auto
  with s1 f show ?case using after_trans by fastforce
qed

lemma decodeFields_reads:
  assumes "list_all2 reads ts vs" and "rdr s = concat (map enc vs) @ r"
    and "room (length (concat (map enc vs))) s" and "skind s = None"
    and "length (concat (map enc vs)) < 2 ^ 64"
  shows "\<exists>s'. decodeFields (map decode ts) s = (Inr (map canon vs), s') \<and>
     after (length (concat (map enc vs))) s s'"
  using assms
proof (induction ts vs arbitrary: s rule: list_all2_induct)
  case Nil
  then show ?case by (simp add: eat_0)
next
  case (Cons t ts v vs)
  let ?c = "enc v" and ?cs = "concat (map enc vs)"
  have rdr: "rdr s = ?c @ ?cs @ r" and room: "room (length ?c + length ?cs) s" using Cons.prems by simp_all
  have "room (length ?c) s" using room by (rule room_mono) simp
  then obtain s1 where s1: "decode t s = (Inr (canon v), s1)" "after (length ?c) s s1"
    using readsD [of t v s "?cs @ r"] Cons.hyps Cons.prems rdr by auto
  then obtain s2 where "decodeFields (map decode ts) s1 = (Inr (map canon vs), s2)"
    "after (length ?cs) s1 s2"
    using Cons.IH [of s1] after_concat [OF s1(2) rdr room] Cons.prems by auto
  with s1 show ?case using after_trans by fastforce
qed

lemma length_concat_enc: "\<forall>v \<in> set vs. has_type t v \<Longrightarrow> length vs \<le> length (concat (map enc vs))"
  by (induction vs) (auto dest!: enc_not_Nil simp: Suc_le_eq simp flip: length_greater_0_conv)

lemma length_enc_list: "length p \<le> length (enc_list p)"
  by (simp add: enc_list_def)

lemma reads_slice:
  assumes el: "\<forall>v \<in> set vs. reads t v \<and> has_type t v"
  shows "reads (TSlice t) (VList vs)"
  unfolding reads_def
proof (intro allI impI, elim conjE)
  fix s r
  define p where "p = concat (map enc vs)"
  define h where "h = length (enc_list p) - length p"
  assume s: "rdr s = enc (VList vs) @ r" "room (length (enc (VList vs))) s" "skind s = None"
    "length (enc (VList vs)) < 2 ^ 64"
  have hp: "h + length p = length (enc_list p)" using length_enc_list [of p] by (simp add: h_def)
  have lp: "length p < 2 ^ 64" using s(4) length_enc_list [of p] by (simp add: p_def)
  obtain s1 where s1: "s_List s = (Inr (word_of_nat (length p)), s1)" "opened h (length p) s s1"
    using s_List_enc_list [of s p r] s lp by (auto simp: p_def h_def)
  note sel = opened_sel [OF s1(2)]
  have room1: "room (length p) s1" using opened_room [OF s1(2)] s(2) hp lp by (simp add: p_def)
  have rdr1: "rdr s1 = p @ r" using sel s(1) by (simp add: h_def enc_list_def flip: p_def)
  have zero: "word_of_nat (length p) = (0 :: u64) \<longleftrightarrow> vs = []"
    using lp length_concat_enc [of vs t] el
    by (auto simp: p_def word_unat_eq_iff word_of_nat_unat_less simp del: concat_eq_Nil_conv)
  have "length vs < Suc (length (rdr s1))"
    using length_concat_enc [of vs t] el rdr1 by (simp add: p_def)
  then obtain s2 where s2: "decodeSliceElems (Suc (length (rdr s1))) (decode t) s1 = (Inr (map canon vs), s2)"
    "after (length p) s1 s2"
    using decodeSliceElems_reads [of vs t s1 r 0 "word_of_nat (length p)" "bump h (stack s)"]
      el rdr1 room1 sel lp unfolding p_def by (auto simp: word_of_nat_unat_less simp del: decodeSliceElems.simps)
  have "after 0 s1 s1" using sel by (simp add: eat_0)
  then obtain s3 where "(if vs = [] then s_ListEnd s1 else s_ListEnd s2) = (Inr (), s3)"
    "after (h + length p) s s3"
    using opened_after [of h 0 s s1 s1] opened_after [OF s1(2) s2(2)] s1(2)
    by (cases "vs = []") (auto simp: p_def)
  with s1 s2 zero hp show "\<exists>s'. decode (TSlice t) s = (Inr (canon (VList vs)), s') \<and> after (length (enc (VList vs))) s s'"
    by (auto simp: decodeListSlice_def simp flip: p_def split: if_splits)
qed

lemma reads_struct:
  assumes "list_all2 reads ts vs"
  shows "reads (TStruct ts) (VList vs)"
  unfolding reads_def
proof (intro allI impI, elim conjE)
  fix s r
  define p where "p = concat (map enc vs)"
  define h where "h = length (enc_list p) - length p"
  assume s: "rdr s = enc (VList vs) @ r" "room (length (enc (VList vs))) s" "skind s = None"
    "length (enc (VList vs)) < 2 ^ 64"
  have hp: "h + length p = length (enc_list p)" using length_enc_list [of p] by (simp add: h_def)
  have lp: "length p < 2 ^ 64" using s(4) length_enc_list [of p] by (simp add: p_def)
  obtain s1 where s1: "s_List s = (Inr (word_of_nat (length p)), s1)" "opened h (length p) s s1"
    using s_List_enc_list [of s p r] s lp by (auto simp: p_def h_def)
  have "room (length p) s1" using opened_room [OF s1(2)] s(2) hp lp by (simp add: p_def)
  moreover have "rdr s1 = p @ r" "skind s1 = None"
    using opened_sel [OF s1(2)] s(1) by (simp_all add: h_def enc_list_def flip: p_def)
  ultimately obtain s2 where s2: "decodeFields (map decode ts) s1 = (Inr (map canon vs), s2)"
    "after (length p) s1 s2"
    using decodeFields_reads [OF assms, of s1 r] lp by (auto simp: p_def)
  with opened_after [OF s1(2) s2(2)] s1 hp
  show "\<exists>s'. decode (TStruct ts) s = (Inr (canon (VList vs)), s') \<and> after (length (enc (VList vs))) s s'"
    by (auto simp: decodeStruct_def simp flip: p_def)
qed

lemma reads_uint: "has_type (TUint bits) (VUint i) \<Longrightarrow> reads (TUint bits) (VUint i)"
proof -
  assume "has_type (TUint bits) (VUint i)"
  then have "8 dvd bits" and b: "bits \<le> 64" "unat i < 2 ^ bits" by simp_all
  then have "(2::nat) ^ bits = 256 ^ (bits div 8)" by (auto simp: power_mult elim!: dvdE)
  with b show ?thesis
    using s_uint_enc by (fastforce simp: reads_def decodeUint_def simp del: enc.simps)
qed

lemma reads_bool: "reads TBool (VBool b)"
proof -
  have e: "enc (VBool b) = enc (VUint (if b then 1 else 0))" by (simp add: be_min_pos [of "Suc 0"])
  show ?thesis
    unfolding reads_def e
    using s_uint_enc [of _ "if b then 1 else 0" _ 8]
    by (fastforce simp: decodeBool_def s_Bool_def simp del: enc.simps)
qed

lemma reads_str:
  assumes "enc v = enc_str b"
    and "\<And>s s'. s_Bytes s = (Inr b, s') \<Longrightarrow> decode t s = (Inr (canon v), s')"
  shows "reads t v"
  unfolding reads_def assms(1)
  using s_Bytes_enc_str [of _ b] length_enc_str [of b] assms(2) by (meson order_le_less_trans)

lemma reads_bigint:
  assumes "encodable (VBigInt q)"
  shows "reads TBigInt (VBigInt q)"
proof -
  define n where "n = (case q of None \<Rightarrow> 0 | Some i \<Rightarrow> nat i)"
  have e: "enc (VBigInt q) = enc_str (be_min n)" by (simp add: n_def split: option.split)
  have c: "canon (VBigInt q) = VBigInt (Some (int n))" using assms by (cases q) (simp_all add: n_def)
  have "\<not> (0 < length (be_min n) \<and> be_min n ! 0 = 0)"
    using hd_be_min_nonzero [of n] by (cases "n = 0") (simp_all add: hd_conv_nth)
  then show ?thesis by (intro reads_str [OF e]) (simp add: decodeBigInt_def c del: canon.simps)
qed

lemma reads_bytes: "reads TBytes (VBytes b)"
  by (rule reads_str [of _ b]) (simp_all add: decodeByteSlice_def)

lemma reads_one_byte:
  assumes "x < 0x80" "x \<noteq> 0"
  shows "reads (TByteArray 1) (VBytes [x])"
  unfolding reads_def
proof (intro allI impI, elim conjE)
  fix s r
  assume s: "rdr s = enc (VBytes [x]) @ r" "room (length (enc (VBytes [x]))) s" "skind s = None"
  have e: "enc_str [x] = [x]" using assms(1) by (simp add: enc_str_def)
  obtain s' where s': "s_Kind s = (Inr (KByte, 0), s')" "headed KByte 1 s s'" "byteval s' = x"
    using s_Kind_byte [of x s r] s e assms(1) by auto
  have "skind s' = Some KByte" "kinderr s' = None" using s'(2) by (simp_all add: headed_def same_def)
  then have "s_uint 64 s' = (Inr (ucast x), s'\<lparr>skind := None\<rparr>)" using s'(3) assms(2) by (simp add: s_uint_def s_Kind_def)
  moreover have "(ucast (ucast x :: u64) :: byte) = x" by (rule ucast_up_ucast_id) (simp add: is_up)
  moreover have "same (eat 1 s) (s'\<lparr>skind := None\<rparr>)" using s'(2) by (simp add: headed_def same_def)
  ultimately show "\<exists>s'. decode (TByteArray 1) s = (Inr (canon (VBytes [x])), s') \<and> after (length (enc (VBytes [x]))) s s'"
    using s'(1) e by (simp add: decodeByteArray_def)
qed

lemma reads_long_array:
  assumes "\<not> (length b = 1 \<and> hd b < 0x80)"
  shows "reads (TByteArray (length b)) (VBytes b)"
  unfolding reads_def
proof (intro allI impI, elim conjE)
  fix s r
  assume s: "rdr s = enc (VBytes b) @ r" "room (length (enc (VBytes b))) s" "skind s = None"
    "length (enc (VBytes b)) < 2 ^ 64"
  define h where "h = length (kind_head KString (length b))"
  have enc: "enc_str b = kind_head KString (length b) @ b" using assms by (auto simp: enc_str_def)
  have lb: "length b < 2 ^ 64" using s(4) length_enc_str [of b] by simp
  obtain s' where s': "s_Kind s = (Inr (KString, word_of_nat (length b)), s')" "headed KString h s s'"
    using s_Kind_head [of KString b s r] s lb enc assms by (auto simp: h_def)
  have "readFull (length b) s' = (Inr b, eat (length b) s')"
    using headed_rdr [OF s'(2)] headed_room [OF s'(2), of "length b"] s lb enc
    by (intro readFull_room [of b s' r]) (simp_all add: h_def)
  moreover have "\<not> ((word_of_nat (length b) :: u64) = 1 \<and> b ! 0 < 128)"
  proof
    assume a: "(word_of_nat (length b) :: u64) = 1 \<and> b ! 0 < 128"
    then have "length b = 1" using lb by (simp add: word_unat_eq_iff word_of_nat_unat_less)
    with a assms show False by (cases b) auto
  qed
  ultimately show "\<exists>s'. decode (TByteArray (length b)) s = (Inr (canon (VBytes b)), s') \<and>
      after (length (enc (VBytes b))) s s'"
    using s' headed_eat [OF s'(2), of "length b"] enc by (auto simp: decodeByteArray_def h_def)
qed

lemma reads_byte_array: "b \<noteq> [0] \<Longrightarrow> reads (TByteArray (length b)) (VBytes b)"
proof (cases "length b = 1 \<and> hd b < 0x80")
  case True
  moreover assume "b \<noteq> [0]"
  ultimately obtain x where "b = [x]" "x < 0x80" "x \<noteq> 0" by (cases b) auto
  then show ?thesis using reads_one_byte by simp
qed (rule reads_long_array)

lemma reads_has_type:
  "has_type t v \<Longrightarrow> encodable v \<Longrightarrow> reads t v"
  "has_types ts vs \<Longrightarrow> \<forall>v \<in> set vs. encodable v \<Longrightarrow> list_all2 reads ts vs"
  by (induction t v and ts vs rule: has_type_has_types.induct)
    (auto intro: reads_slice reads_struct reads_bool reads_bytes reads_bigint reads_byte_array reads_uint
      simp del: encodable.simps(1))

section \<open>Type soundness\<close>

text \<open>
  The values of the Go type that \<open>t\<close> describes: integers within their bits, arrays of their length, structs
  with their fields.
\<close>

fun shape :: "rlp_type \<Rightarrow> rlp_val \<Rightarrow> bool"
  and shapes :: "rlp_type list \<Rightarrow> rlp_val list \<Rightarrow> bool" where
  "shape (TUint bits) (VUint i) = (8 dvd bits \<and> 0 < bits \<and> bits \<le> 64 \<longrightarrow> unat i < 2 ^ bits)"
| "shape TBool (VBool b) = True"
| "shape TBigInt (VBigInt (Some i)) = (0 \<le> i)"
| "shape TBytes (VBytes b) = True"
| "shape (TByteArray n) (VBytes b) = (length b = n)"
| "shape (TSlice t) (VList vs) = (\<forall>v \<in> set vs. shape t v)"
| "shape (TStruct ts) (VList vs) = shapes ts vs"
| "shape _ _ = False"
| "shapes [] [] = True"
| "shapes (t # ts) (v # vs) = (shape t v \<and> shapes ts vs)"
| "shapes _ _ = False"

lemma s_bind_eq_Inr_iff:
  "s_bind r f = (Inr y, s) \<longleftrightarrow> (\<exists>x t. r = (Inr x, t) \<and> f x t = (Inr y, s))"
  by (auto simp: s_bind_def split: prod.splits sum.splits)

lemma readFull_length: "readFull n s = (Inr b, s') \<Longrightarrow> length b = n"
  by (auto simp: readFull_def s_bind_eq_Inr_iff split: if_splits)

lemma be_u64_less: "length b \<le> k \<Longrightarrow> k \<le> 8 \<Longrightarrow> unat (be_u64 b) < 256 ^ k"
proof -
  assume k: "length b \<le> k" "k \<le> 8"
  then have "unat (be_u64 b) < 256 ^ length b" using be_val_less [of b] by (simp add: unat_be_u64)
  also have "(256 :: nat) ^ length b \<le> 256 ^ k" using k(1) by (rule power_increasing) simp
  finally show ?thesis .
qed

lemma readUint_less:
  assumes "readUint sz s = (Inr i, s')" "unat sz \<le> k" "k \<le> 8" "0 < k"
  shows "unat i < 256 ^ k"
proof -
  consider "sz = 0" "i = 0" | b :: byte where "i = ucast b"
    | b where "readFull (unat sz) s = (Inr b, s')" "i = be_u64 b"
    using assms(1) by (auto simp: readUint_def s_bind_eq_Inr_iff split: if_splits)
  then show ?thesis
  proof cases
    case (2 b)
    have "(256 :: nat) ^ 1 \<le> 256 ^ k" using assms(4) by (intro power_increasing) simp_all
    then show ?thesis using unat_byte_less [of b] 2 by (simp del: unat_byte_less)
  next
    case (3 b)
    then show ?thesis using be_u64_less [of b k] assms(2,3) readFull_length by fastforce
  qed simp
qed

lemma s_uint_less:
  assumes "s_uint bits s = (Inr i, s')" "8 dvd bits" "0 < bits" "bits \<le> 64"
  shows "unat i < 2 ^ bits"
proof -
  obtain k where k: "bits = 8 * k" using assms(2) by (elim dvdE)
  have k8: "k \<le> 8" "0 < k" using assms(3,4) k by simp_all
  have pow: "(2 :: nat) ^ bits = 256 ^ k" by (simp add: k power_mult)
  have one: "(256 :: nat) ^ 1 \<le> 256 ^ k" using k8(2) by (intro power_increasing) simp_all
  obtain K sz s1 where head: "s_Kind s = (Inr (K, sz), s1)" using assms(1) by (auto simp: s_uint_def s_bind_eq_Inr_iff)
  consider b :: byte where "i = ucast b" | "readUint (ucast (sz :: u64)) s1 = (Inr i, s')" "\<not> sz > word_of_nat k"
    using assms(1) k by (cases K) (auto simp: s_uint_def s_bind_eq_Inr_iff head split: prod.splits sum.splits if_splits)
  then show ?thesis
  proof cases
    case (1 b)
    then show ?thesis using one unat_byte_less [of b] by (simp add: pow del: unat_byte_less)
  next
    case 2
    have "unat sz \<le> k" using 2(2) k8(1) by (simp add: not_less word_le_nat_alt word_of_nat_unat_less)
    then have "unat (ucast sz :: byte) \<le> k" using k8(1) by (simp add: unsigned_ucast_eq take_bit_eq_mod)
    then show ?thesis unfolding pow using readUint_less [OF 2(1) _ k8] by blast
  qed
qed

lemma decodeSliceElems_shape:
  assumes "\<And>v s s'. elemdec s = (Inr v, s') \<Longrightarrow> P v"
  shows "decodeSliceElems fuel elemdec s = (Inr vs, s') \<Longrightarrow> \<forall>v \<in> set vs. P v"
proof (induction fuel arbitrary: s vs)
  case (Suc fuel)
  then show ?case
    using assms by (fastforce simp: s_bind_eq_Inr_iff split: prod.splits sum.splits if_splits)
qed simp

lemma decodeByteArray_shape: "decodeByteArray n s = (Inr v, s') \<Longrightarrow> shape (TByteArray n) v"
proof -
  assume a: "decodeByteArray n s = (Inr v, s')"
  then obtain k sz s1 where "s_Kind s = (Inr (k, sz), s1)"
    by (auto simp: decodeByteArray_def s_bind_eq_Inr_iff)
  with a show ?thesis
    by (cases k) (auto simp: decodeByteArray_def s_bind_eq_Inr_iff split: prod.splits sum.splits if_splits
        dest: readFull_length)
qed

lemma decodeFields_shape:
  assumes "\<And>t v s s'. t \<in> set ts \<Longrightarrow> decode t s = (Inr v, s') \<Longrightarrow> shape t v"
  shows "decodeFields (map decode ts) s = (Inr vs, s') \<Longrightarrow> shapes ts vs"
  using assms
proof (induction ts arbitrary: s vs)
  case (Cons t ts)
  then show ?case by (fastforce simp: s_bind_eq_Inr_iff split: prod.splits sum.splits)
qed simp

lemma decode_shape: "decode t s = (Inr v, s') \<Longrightarrow> shape t v"
proof (induction t arbitrary: s v s')
  case (TByteArray n)
  then show ?case using decodeByteArray_shape by simp
next
  case (TSlice t)
  from TSlice.prems consider "v = VList []"
    | f s1 vs s2 where "decodeSliceElems f (decode t) s1 = (Inr vs, s2)" "v = VList vs"
    by (auto simp: decodeListSlice_def s_bind_eq_Inr_iff simp del: decodeSliceElems.simps split: if_splits)
  then show ?case
    using decodeSliceElems_shape [of "decode t" "shape t"] TSlice.IH by cases auto
next
  case (TStruct ts)
  then show ?case
    using decodeFields_shape [of ts] by (auto simp: decodeStruct_def s_bind_eq_Inr_iff)
next
  case (TUint bits)
  then show ?case by (auto simp: decodeUint_def s_bind_eq_Inr_iff dest: s_uint_less)
qed (auto simp: decodeBool_def decodeBigInt_def decodeByteSlice_def s_bind_eq_Inr_iff
    split: if_splits)

lemma DecodeBytes_shape: "DecodeBytes t b = Inr v \<Longrightarrow> shape t v"
  by (auto simp: DecodeBytes_def split: prod.splits sum.splits if_splits dest: decode_shape)

section \<open>Round-trip theorem\<close>

lemma DecodeBytes_enc:
  assumes "has_type t v" and "encodable v" and "length (enc v) < 2 ^ 64"
  shows "DecodeBytes t (enc v) = Inr (canon v)"
proof -
  define s where "s = NewStream (enc v) (word_of_nat (length (enc v)))"
  have "room (length (enc v)) s" "rdr s = enc v @ []" "skind s = None"
    using assms(3) by (simp_all add: s_def NewStream_def room_def word_of_nat_unat_less)
  then obtain s' where "decode t s = (Inr (canon v), s')" "after (length (enc v)) s s'"
    using readsD [OF reads_has_type(1) [OF assms(1,2)]] assms(3) by blast
  then show ?thesis using after_rdr [of "length (enc v)" s s']
    by (simp add: DecodeBytes_def s_def NewStream_def)
qed

text \<open>
  C10.  Decoding what the encoder wrote gives the value back: for every type descriptor and every
  encodable value of it that does not contain the one-byte array holding zero, \<open>DecodeBytes\<close> consumes the
  whole encoding and returns the value, a nil big integer having become zero.  The exception is a fault of
  \<open>decodeByteArray\<close> (\<open>one_zero_byte_fails\<close>).
\<close>

theorem DecodeBytes_EncodeToBytes:
  assumes "has_type t v" and "encodable v" and "length (enc v) < 2 ^ 64"
    and "EncodeToBytes v = Inr b"
  shows "DecodeBytes t b = Inr (canon v)"
  using EncodeToBytes_enc [OF assms(2,3)] DecodeBytes_enc [OF assms(1-3)] assms(4) by simp

theorem DecodeBytes_EncodeToBytes_witness:
  "DecodeBytes (TStruct [TUint 64, TSlice TBytes, TBigInt]) [0xC7, 0x82, 4, 0, 0xC2, 5, 0x80, 0x80] =
     Inr (VList [VUint 1024, VList [VBytes [5], VBytes []], VBigInt (Some 0)])"
proof -
  let ?v = "VList [VUint 1024, VList [VBytes [5], VBytes []], VBigInt None]"
  have e: "enc ?v = [0xC7, 0x82, 4, 0, 0xC2, 5, 0x80, 0x80]"
    by (simp add: enc_list_def enc_str_def enc_head_def be_min_pos [of 1024] be_min_pos [of 4])
  show ?thesis
    using DecodeBytes_EncodeToBytes [of "TStruct [TUint 64, TSlice TBytes, TBigInt]" ?v "enc ?v"]
    by (simp only: e, simp add: EncodeToBytes_enc e del: enc.simps)
qed

text \<open>
  The one value that does not come back: \<open>decodeByteArray\<close> discards the error of \<open>Uint\<close> for a zero byte and
  leaves the byte to be read again by the next field.
\<close>

lemma one_zero_byte_fails:
  "EncodeToBytes (VList [VBytes [0], VBytes [5]]) = Inr [0xC2, 0, 5]"
  "\<exists>e. DecodeBytes (TStruct [TByteArray 1, TByteArray 1]) [0xC2, 0, 5] = Inl e"
proof -
  show "EncodeToBytes (VList [VBytes [0], VBytes [5]]) = Inr [0xC2, 0, 5]" by code_simp
  have "DecodeBytes (TStruct [TByteArray 1, TByteArray 1]) [0xC2, 0, 5] = Inl ErrNotAtEOL" by code_simp
  then show "\<exists>e. DecodeBytes (TStruct [TByteArray 1, TByteArray 1]) [0xC2, 0, 5] = Inl e" by blast
qed

end
