(* ===== verification/RLP_Canonical.thy ===== *)
theory RLP_Canonical
  imports RLP_Stream
begin

text \<open>
  The decoder of \<open>src/devbase/rlp/decode.go\<close> read backwards: whatever it accepts for a type is a value of the
  type, and the bytes it took are the ones the encoder writes for that value.  So a value has one encoding, and
  block and transaction hashes cannot be varied by encoding the same contents differently.
\<close>

section \<open>What a successful read took\<close>

text \<open>\<open>fit s\<close>: the position of the enclosing list is within its size.  \<open>took c s s'\<close>: exactly the bytes \<open>c\<close> were read.\<close>

definition fit :: "Stream \<Rightarrow> bool" where
  "fit s \<longleftrightarrow> length (rdr s) < 2 ^ 64 \<and> (case stack s of [] \<Rightarrow> True | (p, z) # _ \<Rightarrow> p \<le> z)"

definition took :: "bytes \<Rightarrow> Stream \<Rightarrow> Stream \<Rightarrow> bool" where
  "took c s s' \<longleftrightarrow> rdr s = c @ rdr s' \<and> room (length c) s \<and> after (length c) s s'"

lemma room_add: "room m s \<Longrightarrow> room n (eat m s) \<Longrightarrow> room (m + n) s"
  by (auto simp: room_def eat_def bump_def unat_minus_of_nat unat_plus_of_nat split: list.splits)

lemma room_0: "fit s \<Longrightarrow> room 0 s"
  by (auto simp: fit_def room_def word_le_nat_alt split: list.splits)

lemma took_room: "took c s s' \<Longrightarrow> room (length c + n) s \<longleftrightarrow> room n s'"
  using room_add [of "length c" s n] room_eat [of "length c" n s] room_same unfolding took_def by blast

lemma took_fit: "took c s s' \<Longrightarrow> fit s \<Longrightarrow> fit s'"
  using unat_plus_of_nat
  by (auto simp: took_def fit_def same_def room_def bump_def word_le_nat_alt split: list.splits)

lemma took_Nil: "skind s = None \<Longrightarrow> fit s \<Longrightarrow> took [] s s"
  by (simp add: took_def room_0 eat_0)

lemma took_same: "took c s s' \<Longrightarrow> same s' t \<Longrightarrow> took c s t"
  unfolding took_def using same_trans by (auto simp: same_def)

lemma took_trans: "took c s s1 \<Longrightarrow> took d s1 s2 \<Longrightarrow> took (c @ d) s s2"
  using took_room [of c s s1 "length d"] after_trans [of "length c" s s1 "length d" s2] by (simp add: took_def)

lemma took_sel:
  "took c s s' \<Longrightarrow> skind s' = None \<and> rdr s = c @ rdr s' \<and> stack s' = bump (length c) (stack s)"
  by (simp add: took_def same_def)

lemma took_eat: "room (length c) s \<Longrightarrow> rdr s = c @ r \<Longrightarrow> took c s (eat (length c) s)"
  by (simp add: took_def)

lemma willRead_took:
  assumes "willRead n s = (Inr (), s1)" and "fit s"
  shows "room (unat n) s \<and> s1 = (eat (unat n) s)\<lparr>rdr := rdr s\<rparr>"
proof -
  have "unat p + unat n \<le> unat z" if "p \<le> z" "\<not> n > z - p" for p z :: u64
    using that unat_sub [of p z] by (simp add: word_le_nat_alt word_less_nat_alt)
  with assms have r: "room (unat n) s"
    by (auto simp: willRead_def room_def fit_def Let_def word_less_nat_alt not_less split: list.splits if_splits)
  have "unat n < 2 ^ 64" using unsigned_less [of n, where ?'a = nat] by simp
  from willRead_room [OF r this] assms(1) r show ?thesis by simp
qed

lemma readByte_took:
  assumes "readByte s = (Inr b, s1)" and "fit s"
  shows "took [b] s s1 \<and> s1 = eat 1 s"
proof -
  obtain t r where t: "willRead 1 s = (Inr (), t)" "rdr t = b # r" "s1 = t\<lparr>rdr := r\<rparr>"
    using assms(1) by (force simp: readByte_def s_bind_eq_Inr_iff neq_Nil_conv split: list.splits)
  from willRead_took [OF t(1) assms(2)] have "room 1 s" "t = (eat 1 s)\<lparr>rdr := rdr s\<rparr>" by simp_all
  moreover from this t(2,3) have "s1 = eat 1 s" by (cases s) (simp add: eat_def)
  ultimately show ?thesis using t(2) took_eat [of "[b]" s r] by simp
qed

lemma readFull_took:
  assumes "readFull n s = (Inr c, s1)" and "fit s"
  shows "took c s s1 \<and> length c = n"
proof -
  obtain t where t: "willRead (word_of_nat n) s = (Inr (), t)" "n \<le> length (rdr t)" "c = take n (rdr t)" "s1 = t\<lparr>rdr := drop n (rdr t)\<rparr>"
    using assms(1) by (auto simp: readFull_def s_bind_eq_Inr_iff split: if_splits)
  define m where "m = unat (word_of_nat n :: u64)"
  from willRead_took [OF t(1) assms(2)] have r: "room m s" "t = (eat m s)\<lparr>rdr := rdr s\<rparr>" by (simp_all add: m_def)
  with t(2) assms(2) have n: "n < 2 ^ 64" by (simp add: fit_def)
  then have "m = n" by (simp add: m_def word_of_nat_unat_less)
  with r t show ?thesis by (auto simp: took_def eat_def same_def)
qed

lemma readUint_took:
  assumes "readUint sz s = (Inr i, s1)" and "fit s" and "sz \<noteq> 0" and "unat sz \<le> 8"
  shows "\<exists>c. took c s s1 \<and> length c = unat sz \<and> be_val c = unat i \<and> (1 < unat sz \<longrightarrow> hd c \<noteq> 0)"
proof (cases "sz = 1")
  case True
  with assms(1) obtain b where "readByte s = (Inr b, s1)" "i = ucast b" by (auto simp: readUint_def s_bind_eq_Inr_iff)
  then show ?thesis using conjunct1 [OF readByte_took [OF \<open>readByte s = (Inr b, s1)\<close> assms(2)]] True
    by (intro exI [of _ "[b]"]) simp
next
  case False
  with assms(1,3) obtain c where c: "readFull (unat sz) s = (Inr c, s1)" "hd c \<noteq> 0" "i = be_u64 c"
    by (auto simp: readUint_def s_bind_eq_Inr_iff split: if_splits)
  with readFull_took [OF c(1) assms(2)] unat_be_u64 [of c] assms(4) show ?thesis by (intro exI [of _ c]) simp
qed

text \<open>The header: what \<open>readKind\<close> read is the canonical head of the kind and size it reports.\<close>

lemma s_readKind_took:
  assumes "s_readKind s = ((k, sz, None), s1)" and "fit s"
  shows "if k = KByte then byteval s1 < 0x80 \<and> took [byteval s1] s s1 \<and> sz = 0 else took (kind_head k (unat sz)) s s1"
proof -
  obtain b t where b: "readByte s = (Inr b, t)"
    using assms(1) by (cases "readByte s"; cases "fst (readByte s)") (auto simp: s_readKind_def)
  note tk = readByte_took [OF b assms(2)]
  define t0 where "t0 = t\<lparr>byteval := 0\<rparr>"
  have t0: "took [b] s t0" by (rule took_same [OF conjunct1 [OF tk]]) (simp add: same_def t0_def)
  have fit0: "fit t0" using took_fit [OF t0 assms(2)] .
  have long: "took (enc_head lo hi (unat sz)) s s1"
    if "readUint (b - hi) t0 = (Inr sz, s1)" "\<not> sz < 56" "hi < b" "unat b \<le> unat hi + 8" for lo hi
  proof -
    have u: "unat (b - hi) = unat b - unat hi" using that(3) by (simp add: unat_tag_sub)
    have nz: "b - hi \<noteq> 0" using that(3) by simp
    have le: "unat (b - hi) \<le> 8" using that(4) u by simp
    note ru = readUint_took [OF that(1) fit0 nz le]
    obtain c where c: "took c t0 s1" "length c = unat (b - hi)" "be_val c = unat sz" "1 < unat (b - hi) \<longrightarrow> hd c \<noteq> 0"
      using ru by auto
    have hd: "hd c \<noteq> 0"
    proof (cases "1 < unat (b - hi)")
      case False
      with c(2) nz have "length c = 1" by (simp add: word_unat_eq_iff)
      then obtain x where "c = [x]" by (cases c) auto
      with c(3) that(2) show ?thesis by (auto simp: word_less_nat_alt)
    qed (use c(4) in simp)
    have "c \<noteq> []" using c(2) nz by (auto simp: word_unat_eq_iff)
    then have cm: "be_min (unat sz) = c" using be_min_be_val [of c] c(3) hd by simp
    have "hi + word_of_nat (length c) = b" using c(2) by simp
    then have "enc_head lo hi (unat sz) = b # c" using that(2) cm by (simp add: enc_head_def word_less_nat_alt)
    with took_trans [OF t0 c(1)] show ?thesis by simp
  qed
  have short: "enc_head lo hi (unat (ucast (b - lo) :: u64)) = [b]" if "lo \<le> b" "unat b < unat lo + 56" for lo hi
  proof -
    have "unat (b - lo) < 56" using that by (simp add: unat_tag_sub)
    then show ?thesis by (simp add: enc_head_def)
  qed
  consider "b < 0x80" | "0x80 \<le> b" "b < 0xB8" | "0xB8 \<le> b" "b < 0xC0" | "0xC0 \<le> b" "b < 0xF8" | "0xF8 \<le> b"
    by fastforce
  then show ?thesis
  proof cases
    case 1
    with assms(1) have "k = KByte" "sz = 0" "s1 = t0\<lparr>byteval := b\<rparr>" by (auto simp: s_readKind_def b t0_def Let_def)
    with 1 took_same [OF t0, of s1] show ?thesis by (simp add: same_def)
  next
    case 2
    then have "\<not> b < 0x80" by simp
    with 2 assms(1) have "k = KString" "sz = ucast (b - 0x80)" "s1 = t0" by (auto simp: s_readKind_def b t0_def Let_def)
    with short [of "0x80" "0xB7"] 2 t0 show ?thesis by (simp add: word_less_nat_alt)
  next
    case 3
    then have "\<not> b < 0x80" "\<not> b < 0xB8" by (simp_all add: word_less_nat_alt word_le_nat_alt)
    with 3 assms(1) have "k = KString" "readUint (b - 0xB7) t0 = (Inr sz, s1)" "\<not> sz < 56"
      by (auto simp: s_readKind_def b Let_def simp flip: t0_def split: prod.splits sum.splits if_splits)
    with long [of "0xB7" "0x80"] 3 show ?thesis by (simp add: word_less_nat_alt word_le_nat_alt)
  next
    case 4
    then have "\<not> b < 0x80" "\<not> b < 0xB8" "\<not> b < 0xC0" by (simp_all add: word_less_nat_alt word_le_nat_alt)
    with 4 assms(1) have "k = KList" "sz = ucast (b - 0xC0)" "s1 = t0" by (auto simp: s_readKind_def b t0_def Let_def)
    with short [of "0xC0" "0xF7"] 4 t0 show ?thesis by (simp add: word_less_nat_alt)
  next
    case 5
    then have "\<not> b < 0x80" "\<not> b < 0xB8" "\<not> b < 0xC0" "\<not> b < 0xF8" by (simp_all add: word_less_nat_alt word_le_nat_alt)
    with 5 assms(1) have "k = KList" "readUint (b - 0xF7) t0 = (Inr sz, s1)" "\<not> sz < 56"
      by (auto simp: s_readKind_def b Let_def simp flip: t0_def split: prod.splits sum.splits if_splits)
    with long [of "0xF7" "0xC0"] 5 show ?thesis using unat_byte_less [of b] by (simp add: word_less_nat_alt word_le_nat_alt)
  qed
qed

text \<open>What \<open>Kind\<close> leaves: the head is read, the contents are ahead and fit into the enclosing list.\<close>

definition seen :: "Kind \<Rightarrow> u64 \<Rightarrow> Stream \<Rightarrow> Stream \<Rightarrow> bool" where
  "seen k sz s s1 \<longleftrightarrow> skind s1 = Some k \<and> kinderr s1 = None \<and> fit s1 \<and>
     took (if k = KByte then [byteval s1] else kind_head k (unat sz)) s (s1\<lparr>skind := None\<rparr>) \<and>
     (k = KByte \<longrightarrow> sz = 0 \<and> byteval s1 < 0x80) \<and>
     (case stack s1 of [] \<Rightarrow> True | (p, z) # _ \<Rightarrow> unat p + unat sz \<le> unat z)"

lemma took_skind [simp]: "took c (s\<lparr>skind := k\<rparr>) s' \<longleftrightarrow> took c s s'"
  by (simp add: took_def room_def)

lemma fit_skind [simp]: "fit (s\<lparr>skind := k\<rparr>) \<longleftrightarrow> fit s"
  by (simp add: fit_def)

lemma took_kinderr: "took c (s\<lparr>kinderr := e\<rparr>) s' \<longleftrightarrow> took c s s'"
  by (simp add: took_def room_def same_def eat_def)

lemma s_Kind_read_took:
  assumes "s_Kind_read s = (Inr (k, sz), s1)" and "fit s"
  shows "seen k sz s s1"
proof -
  obtain t where t: "s_readKind s = ((k, sz, None), t)" "s1 = t\<lparr>skind := Some k, ssize := sz, kinderr := None\<rparr>"
    and b: "case stack t of [] \<Rightarrow> True | (p, z) # _ \<Rightarrow> \<not> sz > z - p"
    using assms(1) by (auto simp: s_Kind_read_def Let_def split: prod.splits option.splits list.splits if_splits)
  define c where "c = (if k = KByte then [byteval t] else kind_head k (unat sz))"
  have c: "took c s t" "k = KByte \<longrightarrow> byteval t < 0x80 \<and> sz = 0"
    using s_readKind_took [OF t(1) assms(2)] by (auto simp: c_def split: if_splits)
  have f: "fit t" using took_fit [OF c(1) assms(2)] .
  have "took c s (s1\<lparr>skind := None\<rparr>)" using took_same [OF c(1)] took_sel [OF c(1)] by (simp add: same_def t(2))
  moreover have "unat p + unat sz \<le> unat z" if "p \<le> z" "\<not> sz > z - p" for p z :: u64
    using that unat_sub [of p z] by (simp add: word_le_nat_alt word_less_nat_alt)
  ultimately show ?thesis using c(2) f b by (auto simp: seen_def t(2) c_def fit_def split: list.splits)
qed

lemma s_Kind_took:
  assumes "s_Kind s = (Inr (k, sz), s1)" and "skind s = None" and "fit s"
  shows "seen k sz s s1"
proof -
  have "s_Kind_read (s\<lparr>kinderr := None\<rparr>) = (Inr (k, sz), s1)"
    using assms(1,2) by (auto simp: s_Kind_def Let_def split: list.splits if_splits)
  moreover have "fit (s\<lparr>kinderr := None\<rparr>)" using assms(3) by (simp add: fit_def)
  ultimately have "seen k sz (s\<lparr>kinderr := None\<rparr>) s1" by (rule s_Kind_read_took)
  then show ?thesis by (simp add: seen_def took_kinderr)
qed

section \<open>Strings and integers\<close>

lemma enc_str_single: "x < 0x80 \<Longrightarrow> enc_str [x] = [x]"
  by (simp add: enc_str_def)

lemma enc_str_head: "\<not> (length b = 1 \<and> hd b < 0x80) \<Longrightarrow> enc_str b = kind_head KString (length b) @ b"
  by (auto simp: enc_str_def)

lemma seen_byte: "seen KByte sz s s1 \<Longrightarrow> took (enc_str [byteval s1]) s (s1\<lparr>skind := None\<rparr>)"
  by (simp add: seen_def enc_str_single)

lemma seen_string:
  assumes "seen KString sz s s1" and "took b s1 s2" and "length b = unat sz" and "\<not> (sz = 1 \<and> b ! 0 < 128)"
  shows "took (enc_str b) s s2"
proof -
  have "took (kind_head KString (unat sz)) s (s1\<lparr>skind := None\<rparr>)" using assms(1) by (simp add: seen_def)
  with assms(2) have "took (kind_head KString (length b) @ b) s s2" using took_trans assms(3) by fastforce
  moreover have "\<not> (length b = 1 \<and> hd b < 0x80)"
    using assms(3,4) by (cases b) (auto simp: word_unat_eq_iff)
  ultimately show ?thesis by (simp add: enc_str_head)
qed

lemma seen_fit: "seen k sz s s1 \<Longrightarrow> fit s1"
  by (simp add: seen_def)

lemma s_Bytes_took:
  assumes "s_Bytes s = (Inr b, s')" and "skind s = None" and "fit s"
  shows "took (enc_str b) s s'"
proof -
  obtain k sz s1 where k: "s_Kind s = (Inr (k, sz), s1)" using assms(1) by (auto simp: s_Bytes_def s_bind_eq_Inr_iff)
  note seen = s_Kind_took [OF k assms(2,3)]
  show ?thesis
  proof (cases k)
    case KByte
    with assms(1) k have "b = [byteval s1]" "s' = s1\<lparr>skind := None\<rparr>" by (simp_all add: s_Bytes_def)
    with seen_byte seen KByte show ?thesis by simp
  next
    case KString
    with assms(1) k have r: "readFull (unat sz) s1 = (Inr b, s')" "\<not> (sz = 1 \<and> b ! 0 < 128)"
      by (auto simp: s_Bytes_def s_bind_eq_Inr_iff split: if_splits)
    with seen_string [of sz s s1 b s'] readFull_took [OF r(1) seen_fit [OF seen]] seen KString show ?thesis by simp
  qed (use assms(1) k in \<open>simp add: s_Bytes_def\<close>)
qed

lemma s_uint_took:
  assumes "s_uint bits s = (Inr i, s')" and "skind s = None" and "fit s" and "bits \<le> 64"
  shows "took (enc (VUint i)) s s'"
proof -
  obtain k sz s1 where k: "s_Kind s = (Inr (k, sz), s1)" using assms(1) by (auto simp: s_uint_def s_bind_eq_Inr_iff)
  note seen = s_Kind_took [OF k assms(2,3)]
  show ?thesis
  proof (cases k)
    case KByte
    with assms(1) k have "byteval s1 \<noteq> 0" "i = ucast (byteval s1)" "s' = s1\<lparr>skind := None\<rparr>"
      by (auto simp: s_uint_def split: if_splits)
    moreover from this have "be_min (unat i) = [byteval s1]" using be_min_be_val [of "[byteval s1]"] by simp
    ultimately show ?thesis using seen_byte seen KByte by simp
  next
    case KString
    with assms(1) k have sz: "\<not> sz > word_of_nat (bits div 8)" and r: "readUint (ucast sz) s1 = (Inr i, s')" "\<not> (sz > 0 \<and> i < 128)"
      by (auto simp: s_uint_def split: prod.splits sum.splits if_splits)
    have b8: "bits div 8 \<le> 8" using assms(4) by simp
    then have "unat sz \<le> 8" using sz by (simp add: not_less word_le_nat_alt word_of_nat_unat_less)
    then have u: "unat (ucast sz :: byte) = unat sz" "unat sz \<le> 8" by (simp_all add: unsigned_ucast_eq take_bit_eq_mod)
    show ?thesis
    proof (cases "sz = 0")
      case True
      then have "i = 0" "s' = s1\<lparr>skind := None\<rparr>" using r(1) by (simp_all add: readUint_def)
      then show ?thesis using seen KString True by (simp add: seen_def enc_str_def)
    next
      case False
      then have "unat (ucast sz :: byte) \<noteq> 0" unfolding u(1) by (simp add: unat_gt_0)
      then have z: "(ucast sz :: byte) \<noteq> 0" "sz > 0" using False by (metis unsigned_0, simp add: word_neq_0_conv)
      obtain c where c: "took c s1 s'" "length c = unat sz" "be_val c = unat i" "1 < unat sz \<longrightarrow> hd c \<noteq> 0"
        using readUint_took [OF r(1) seen_fit [OF seen] z(1)] u by auto
      have i: "128 \<le> unat i" using r(2) z(2) by (simp add: word_less_nat_alt)
      have one: "\<exists>x. c = [x] \<and> 128 \<le> unat x" if "length c = 1"
        using that c(3) i by (cases c) auto
      have "hd c \<noteq> 0"
      proof (cases "1 < unat sz")
        case False
        with z(2) c(2) have "length c = 1" by (simp add: word_less_nat_alt)
        with one show ?thesis by force
      qed (use c(4) in simp)
      moreover have "c \<noteq> []" using c(3) i by auto
      ultimately have "be_min (unat i) = c" using be_min_be_val [of c] c(3) by simp
      moreover have "\<not> (sz = 1 \<and> c ! 0 < 128)" using one c(2) by (auto simp: word_less_nat_alt)
      ultimately show ?thesis using seen_string [of sz s s1 c s'] seen KString c(1,2) by simp
    qed
  qed (use assms(1) k in \<open>simp add: s_uint_def\<close>)
qed

lemma decodeBigInt_took:
  assumes "decodeBigInt s = (Inr v, s')" and "skind s = None" and "fit s"
  shows "took (enc v) s s'"
proof -
  obtain b where b: "s_Bytes s = (Inr b, s')" "\<not> (length b > 0 \<and> b ! 0 = 0)" "v = VBigInt (Some (int (be_val b)))"
    using assms(1) by (auto simp: decodeBigInt_def s_bind_eq_Inr_iff split: if_splits)
  then have "be_min (be_val b) = b" by (intro be_min_be_val) (simp add: hd_conv_nth)
  with s_Bytes_took [OF b(1) assms(2,3)] b(3) show ?thesis by simp
qed

lemma decodeBool_took:
  assumes "decodeBool s = (Inr v, s')" and "skind s = None" and "fit s"
  shows "took (enc v) s s'"
proof -
  obtain i where i: "s_uint 8 s = (Inr i, s')" "v = VBool (i = 1)" "i = 0 \<or> i = 1"
    using assms(1) by (auto simp: decodeBool_def s_Bool_def s_bind_eq_Inr_iff split: if_splits)
  then have "enc v = enc (VUint i)" by (auto simp: be_min_pos [of "Suc 0"])
  with s_uint_took [OF i(1) assms(2,3)] show ?thesis by simp
qed

text \<open>The one-byte array: a byte other than zero is read by \<open>Uint\<close>, which takes it from the cached kind.\<close>

lemma decodeByteArray_took:
  assumes "decodeByteArray n s = (Inr (VBytes b), s')" and "skind s = None" and "fit s" and "b \<noteq> [0]"
  shows "took (enc_str b) s s'"
proof -
  obtain k sz s1 where k: "s_Kind s = (Inr (k, sz), s1)" using assms(1) by (auto simp: decodeByteArray_def s_bind_eq_Inr_iff)
  note seen = s_Kind_took [OF k assms(2,3)]
  show ?thesis
  proof (cases k)
    case KByte
    have "s_Kind s1 = (Inr (KByte, ssize s1), s1)" using seen KByte by (simp add: seen_def s_Kind_def)
    then have u: "s_uint 64 s1 = (if byteval s1 = 0 then (Inl ErrCanonInt, s1) else (Inr (ucast (byteval s1)), s1\<lparr>skind := None\<rparr>))"
      by (simp add: s_uint_def)
    have "ucast (ucast (byteval s1) :: u64) = byteval s1" by (rule ucast_up_ucast_id) (simp add: is_up)
    with assms(1,4) k KByte u have "b = [byteval s1]" "s' = s1\<lparr>skind := None\<rparr>"
      by (auto simp: decodeByteArray_def split: if_splits)
    with seen_byte seen KByte show ?thesis by simp
  next
    case KString
    with assms(1) k have r: "readFull n s1 = (Inr b, s')" "\<not> (sz = 1 \<and> b ! 0 < 128)" "sz = word_of_nat n"
      by (auto simp: decodeByteArray_def s_bind_eq_Inr_iff split: if_splits)
    note rf = readFull_took [OF r(1) seen_fit [OF seen]]
    have "length b < 2 ^ 64" using rf took_sel [of b s1 s'] seen_fit [OF seen] by (simp add: fit_def)
    then have "length b = unat sz" using rf r(3) by (simp add: word_of_nat_unat_less)
    with seen_string [of sz s s1 b s'] rf r(2) seen KString show ?thesis by simp
  qed (use assms(1) k in \<open>simp add: decodeByteArray_def\<close>)
qed

section \<open>Lists\<close>

text \<open>The end of a list is reported before anything is read.\<close>

lemma willRead_not_EOL: "fst (willRead n s) \<noteq> Inl EOL"
  by (auto simp: willRead_def Let_def split: list.splits)

lemma s_bind_EOL: "s_bind r f = (Inl EOL, s') \<Longrightarrow> fst r \<noteq> Inl EOL \<Longrightarrow> \<exists>x t. r = (Inr x, t) \<and> f x t = (Inl EOL, s')"
  by (auto simp: s_bind_def split: prod.splits sum.splits)

lemma readByte_not_EOL: "readByte s \<noteq> (Inl EOL, s')"
  using s_bind_EOL [OF _ willRead_not_EOL] by (fastforce simp: readByte_def split: list.splits)

lemma readFull_not_EOL: "readFull n s \<noteq> (Inl EOL, s')"
  using s_bind_EOL [OF _ willRead_not_EOL] by (fastforce simp: readFull_def split: if_splits)

lemma readUint_not_EOL: "readUint sz s \<noteq> (Inl EOL, s')"
  using readByte_not_EOL readFull_not_EOL
  by (auto simp: readUint_def s_bind_def split: prod.splits sum.splits if_splits)

lemma s_readKind_not_EOL: "s_readKind s \<noteq> ((k, sz, Some EOL), s')"
  using readByte_not_EOL readUint_not_EOL
  by (auto simp: s_readKind_def Let_def split: prod.splits sum.splits if_splits)

lemma s_Kind_read_not_EOL: "s_Kind_read s \<noteq> (Inl EOL, s')"
  using s_readKind_not_EOL
  by (auto simp: s_Kind_read_def Let_def split: prod.splits option.splits list.splits if_splits)

lemma s_Kind_EOL_same: "s_Kind s = (Inl EOL, s') \<Longrightarrow> skind s = None \<Longrightarrow> same s s'"
  using s_Kind_read_not_EOL by (auto simp: s_Kind_def same_def Let_def split: list.splits if_splits)

lemma s_uint_EOL: "s_uint bits s = (Inl EOL, s') \<Longrightarrow> s_Kind s = (Inl EOL, s')"
  using readUint_not_EOL
  by (auto simp: s_uint_def s_bind_def split: prod.splits sum.splits if_splits Kind.splits)

lemma s_Bytes_EOL: "s_Bytes s = (Inl EOL, s') \<Longrightarrow> s_Kind s = (Inl EOL, s')"
  using readFull_not_EOL
  by (auto simp: s_Bytes_def s_bind_def split: prod.splits sum.splits if_splits Kind.splits)

lemma s_List_EOL: "s_List s = (Inl EOL, s') \<Longrightarrow> s_Kind s = (Inl EOL, s')"
  by (auto simp: s_List_def s_bind_def split: prod.splits sum.splits if_splits)

lemma s_ListEnd_not_EOL: "s_ListEnd s \<noteq> (Inl EOL, s')"
  by (auto simp: s_ListEnd_def split: list.splits prod.splits if_splits)

lemma decodeSliceElems_not_EOL: "decodeSliceElems fuel d s \<noteq> (Inl EOL, s')"
proof (induction fuel arbitrary: s)
  case (Suc fuel)
  then show ?case by (auto simp: s_bind_def split: prod.splits sum.splits if_splits)
qed simp

lemma decodeFields_not_EOL: "decodeFields ds s \<noteq> (Inl EOL, s')"
proof (induction ds arbitrary: s)
  case (Cons d ds)
  then show ?case by (auto simp: s_bind_def split: prod.splits sum.splits if_splits)
qed simp

lemma decode_EOL_same: "decode t s = (Inl EOL, s') \<Longrightarrow> skind s = None \<Longrightarrow> same s s'"
proof -
  assume d: "decode t s = (Inl EOL, s')" and n: "skind s = None"
  have "s_Kind s = (Inl EOL, s')"
  proof (cases t)
    case (TSlice u)
    with d show ?thesis using s_List_EOL s_ListEnd_not_EOL decodeSliceElems_not_EOL
      by (auto simp: decodeListSlice_def s_bind_def simp del: decodeSliceElems.simps split: prod.splits sum.splits if_splits)
  next
    case (TStruct ts)
    with d show ?thesis using s_List_EOL s_ListEnd_not_EOL decodeFields_not_EOL
      by (auto simp: decodeStruct_def s_bind_def split: prod.splits sum.splits if_splits)
  next
    case (TByteArray m)
    with d show ?thesis using readFull_not_EOL
      by (auto simp: decodeByteArray_def s_bind_def split: prod.splits sum.splits if_splits Kind.splits)
  qed (use d in \<open>auto simp: decodeUint_def decodeBool_def s_Bool_def decodeBigInt_def decodeByteSlice_def s_bind_def
      split: prod.splits sum.splits if_splits dest: s_uint_EOL s_Bytes_EOL\<close>)
  with n show ?thesis using s_Kind_EOL_same by blast
qed

text \<open>A list that was opened, read to its end and closed.\<close>

abbreviation inside :: "u64 \<Rightarrow> Stream \<Rightarrow> Stream" where
  "inside sz s \<equiv> s\<lparr>stack := (0, sz) # stack s, skind := None, ssize := 0\<rparr>"

lemma s_List_took:
  assumes "s_List s = (Inr sz, s1)" and "skind s = None" and "fit s"
  shows "\<exists>s0. seen KList sz s s0 \<and> s1 = inside sz s0 \<and> fit s1"
proof -
  obtain s0 where s0: "s_Kind s = (Inr (KList, sz), s0)" "s1 = inside sz s0"
    using assms(1) by (auto simp: s_List_def s_bind_eq_Inr_iff split: if_splits)
  from s_Kind_took [OF s0(1) assms(2,3)] s0(2) show ?thesis by (auto simp: seen_def fit_def)
qed

lemma ListEnd_took:
  assumes seen: "seen KList sz s s0" and p: "took p (inside sz s0) s2" and e: "s_ListEnd s2 = (Inr (), s3)"
  shows "took (enc_list p) s s3"
proof -
  have st: "stack s2 = (word_of_nat (length p), sz) # stack s0" using took_sel [OF p] by (simp add: bump_def)
  have "length p < 2 ^ 64" using seen took_sel [OF p] by (simp add: seen_def fit_def)
  moreover have z: "word_of_nat (length p) = sz" using e st by (auto simp: s_ListEnd_def split: if_splits)
  ultimately have lp: "length p = unat sz" by (auto simp: word_of_nat_unat_less)
  have room: "room (length p) s0"
    using p seen lp by (auto simp: took_def room_def seen_def split: list.splits)
  have "same (eat (length p) s0) s3"
    using p e st z by (auto simp: took_def s_ListEnd_def same_def eat_def bump_def split: list.splits)
  moreover have "rdr s0 = p @ rdr s3" using p e st z by (auto simp: took_def s_ListEnd_def)
  ultimately have "took p (s0\<lparr>skind := None\<rparr>) s3" using room by (simp add: took_def [of p s0])
  moreover have "took (enc_head 0xC0 0xF7 (length p)) s (s0\<lparr>skind := None\<rparr>)" using seen lp by (simp add: seen_def)
  ultimately show ?thesis unfolding enc_list_def by (rule took_trans [rotated])
qed

definition takes :: "rlp_type \<Rightarrow> rlp_val \<Rightarrow> bool" where
  "takes t v \<longleftrightarrow> (\<forall>s s'. decode t s = (Inr v, s') \<and> skind s = None \<and> fit s \<longrightarrow> took (enc v) s s')"

lemma takesD: "takes t v \<Longrightarrow> decode t s = (Inr v, s') \<Longrightarrow> skind s = None \<Longrightarrow> fit s \<Longrightarrow> took (enc v) s s'"
  unfolding takes_def by blast

lemma took_next: "took c s s' \<Longrightarrow> fit s \<Longrightarrow> skind s' = None \<and> fit s'"
  using took_fit took_sel by blast

lemma decodeSliceElems_took:
  assumes "decodeSliceElems fuel (decode t) s = (Inr vs, s')" and "\<forall>v \<in> set vs. takes t v" and "skind s = None" and "fit s"
  shows "took (concat (map enc vs)) s s'"
  using assms
proof (induction fuel arbitrary: s vs)
  case (Suc fuel)
  show ?case
  proof (cases "decode t s")
    case (Pair r s1)
    show ?thesis
    proof (cases r)
      case (Inl e)
      with Suc.prems(1) Pair have "e = EOL" "vs = []" "s' = s1" by (simp_all split: if_splits)
      with decode_EOL_same [of t s s1] Pair Inl Suc.prems(3,4) took_same [OF took_Nil] show ?thesis by simp
    next
      case (Inr v)
      with Suc.prems(1) Pair obtain ws where ws: "decodeSliceElems fuel (decode t) s1 = (Inr ws, s')" "vs = v # ws"
        by (auto simp: s_bind_eq_Inr_iff)
      have tk: "took (enc v) s s1" using takesD [of t v s s1] Suc.prems ws(2) Pair Inr by simp
      from Suc.IH [OF ws(1)] took_next [OF tk] Suc.prems(2,4) ws(2) took_trans [OF tk] show ?thesis by simp
    qed
  qed
qed simp

lemma decodeFields_took:
  assumes "decodeFields (map decode ts) s = (Inr vs, s')" and "list_all2 takes ts vs" and "skind s = None" and "fit s"
  shows "took (concat (map enc vs)) s s'"
  using assms
proof (induction ts arbitrary: s vs)
  case Nil
  then show ?case using took_Nil by simp
next
  case (Cons t ts)
  then obtain v ws s1 where v: "decode t s = (Inr v, s1)" "decodeFields (map decode ts) s1 = (Inr ws, s')" "vs = v # ws"
    by (auto simp: s_bind_eq_Inr_iff split: prod.splits sum.splits)
  have tk: "took (enc v) s s1" using takesD [of t v s s1] Cons.prems v by simp
  from Cons.IH [OF v(2)] took_next [OF tk] Cons.prems(2,4) v(3) took_trans [OF tk] show ?case by simp
qed

lemma takes_slice:
  assumes "\<forall>v \<in> set vs. takes t v"
  shows "takes (TSlice t) (VList vs)"
  unfolding takes_def
proof (intro allI impI, elim conjE)
  fix s s'
  assume d: "decode (TSlice t) s = (Inr (VList vs), s')" and s: "skind s = None" "fit s"
  obtain sz s1 where l: "s_List s = (Inr sz, s1)" using d by (auto simp: decodeListSlice_def s_bind_eq_Inr_iff)
  obtain s0 where s0: "seen KList sz s s0" "s1 = inside sz s0" "fit s1" using s_List_took [OF l s] by blast
  from d l consider "vs = []" "s_ListEnd s1 = (Inr (), s')"
    | s2 where "decodeSliceElems (Suc (length (rdr s1))) (decode t) s1 = (Inr vs, s2)" "s_ListEnd s2 = (Inr (), s')"
    by (auto simp: decodeListSlice_def s_bind_eq_Inr_iff simp del: decodeSliceElems.simps split: if_splits)
  then show "took (enc (VList vs)) s s'"
  proof cases
    case 1
    with ListEnd_took [OF s0(1), of "[]" s1 s'] took_Nil [of s1] s0(2,3) show ?thesis by simp
  next
    case (2 s2)
    have "took (concat (map enc vs)) s1 s2" using decodeSliceElems_took [OF 2(1) assms _ s0(3)] s0(2) by simp
    with ListEnd_took [OF s0(1) _ 2(2)] s0(2) show ?thesis by simp
  qed
qed

lemma takes_struct:
  assumes "list_all2 takes ts vs"
  shows "takes (TStruct ts) (VList vs)"
  unfolding takes_def
proof (intro allI impI, elim conjE)
  fix s s'
  assume d: "decode (TStruct ts) s = (Inr (VList vs), s')" and s: "skind s = None" "fit s"
  obtain sz s1 s2 where l: "s_List s = (Inr sz, s1)" "decodeFields (map decode ts) s1 = (Inr vs, s2)" "s_ListEnd s2 = (Inr (), s')"
    using d by (auto simp: decodeStruct_def s_bind_eq_Inr_iff)
  obtain s0 where s0: "seen KList sz s s0" "s1 = inside sz s0" "fit s1" using s_List_took [OF l(1) s] by blast
  have "took (concat (map enc vs)) s1 s2" using decodeFields_took [OF l(2) assms _ s0(3)] s0(2) by simp
  with ListEnd_took [OF s0(1) _ l(3)] s0(2) show "took (enc (VList vs)) s s'" by simp
qed

section \<open>The theorem\<close>

lemma takes_has_type:
  "has_type t v \<Longrightarrow> takes t v"
  "has_types ts vs \<Longrightarrow> list_all2 takes ts vs"
proof (induction t v and ts vs rule: has_type_has_types.induct)
  case (1 bits i)
  then show ?case using s_uint_took by (auto simp: takes_def decodeUint_def s_bind_eq_Inr_iff simp del: enc.simps)
next
  case (6 t vs)
  then show ?case by (simp add: takes_slice)
next
  case (7 ts vs)
  then show ?case by (simp add: takes_struct)
qed (auto simp: takes_def decodeByteSlice_def s_bind_eq_Inr_iff dest: s_Bytes_took decodeBool_took decodeBigInt_took decodeByteArray_took)

lemma shape_encodable:
  "shape t v \<Longrightarrow> encodable v"
  "shapes ts vs \<Longrightarrow> \<forall>v \<in> set vs. encodable v"
  by (induction t v and ts vs rule: shape_shapes.induct) auto

lemma DecodeBytes_took:
  assumes "DecodeBytes t b = Inr v" and "length b < 2 ^ 64" and "has_type t v"
  shows "b = enc v"
proof -
  define s where "s = NewStream b (word_of_nat (length b))"
  obtain s' where s': "decode t s = (Inr v, s')" "rdr s' = []"
    using assms(1) by (auto simp: DecodeBytes_def s_def split: prod.splits sum.splits if_splits)
  have "took (enc v) s s'"
    using takesD [OF takes_has_type(1) [OF assms(3)] s'(1)] assms(2) by (simp add: s_def NewStream_def fit_def)
  with took_sel [of "enc v" s s'] s'(2) show ?thesis by (simp add: s_def NewStream_def)
qed

text \<open>
  C40.  The decoder is type safe and accepts canonical encodings only.  Whatever bytes it accepts for a type
  descriptor, the result is a value of that type (integers within their width, arrays of their length, structs
  with their fields, big integers not negative, at every depth); and unless the value holds the one-byte array
  with a zero in it, the bytes are the ones the encoder writes for it.  So no two inputs decode to one value.
\<close>

theorem DecodeBytes_canonical:
  assumes "DecodeBytes t b = Inr v" and "length b < 2 ^ 64"
  shows "shape t v \<and> (has_type t v \<longrightarrow> EncodeToBytes v = Inr b)"
proof -
  have s: "shape t v" using DecodeBytes_shape [OF assms(1)] .
  moreover have "EncodeToBytes v = Inr b" if "has_type t v"
    using DecodeBytes_took [OF assms that] EncodeToBytes_enc [OF shape_encodable(1) [OF s]] assms(2) by simp
  ultimately show ?thesis by blast
qed

theorem DecodeBytes_canonical_witness:
  "DecodeBytes (TStruct [TUint 16, TByteArray 2]) [0xC6, 0x82, 4, 0, 0x82, 5, 7] = Inr (VList [VUint 1024, VBytes [5, 7]]) \<and>
   EncodeToBytes (VList [VUint 1024, VBytes [5, 7]]) = Inr [0xC6, 0x82, 4, 0, 0x82, 5, 7]"
proof -
  have d: "DecodeBytes (TStruct [TUint 16, TByteArray 2]) [0xC6, 0x82, 4, 0, 0x82, 5, 7] = Inr (VList [VUint 1024, VBytes [5, 7]])"
    by code_simp
  have "has_type (TStruct [TUint 16, TByteArray 2]) (VList [VUint 1024, VBytes [5, 7]])" by simp
  with d DecodeBytes_canonical [OF d] show ?thesis by simp
qed

text \<open>Padded integers, long forms of short sizes and long forms of single bytes are refused.\<close>

lemma not_canonical:
  "DecodeBytes (TUint 16) [0x82, 0, 5] = Inl ErrCanonInt" "DecodeBytes TBytes [0x81, 5] = Inl ErrCanonSize"
  "DecodeBytes TBytes [0xB8, 2, 5, 7] = Inl ErrCanonSize" "DecodeBytes (TSlice TBytes) [0xF8, 1, 5] = Inl ErrCanonSize"
  by code_simp+

end
