(* ===== verification/Chain_Utils.thy ===== *)
theory Chain_Utils
  imports RLP_Stream
begin

text \<open>
  The helpers of \<open>src/devbase/utils\<close> (proof-of-work difficulty and time slices), the constants of
  \<open>src/params/protocol_params.go\<close> the node's own code uses, the error values of the node, and the
  environment record: the cryptographic primitives, the clock and the genesis time, which the code
  reaches through library calls and package variables and the model takes as an argument.
\<close>

section \<open>Errors and environment\<close>

datatype err =
    Panic                 \<comment> \<open>a run-time panic: index out of range, nil dereference\<close>
  | RlpErr rlp_error
  | ErrInvalidSig
  | ErrSecp
  | ErrNotFound
  | ErrPut
  | Msg string
  | NoFuel                \<comment> \<open>not an error of the code: the model's bound on a loop was reached\<close>

record env =
  keccak :: "bytes \<Rightarrow> hash"               \<comment> \<open>\<open>sha3.NewKeccak256\<close>\<close>
  ecrecover :: "hash \<Rightarrow> bytes \<Rightarrow> err + bytes"  \<comment> \<open>\<open>crypto.Ecrecover\<close>, libsecp256k1\<close>
  now :: u64                              \<comment> \<open>\<open>utils.GetTimeStamp\<close>, milliseconds\<close>
  GenesisTime :: u64                      \<comment> \<open>the package variable \<open>types.GenesisTime\<close>\<close>

section \<open>Parameters\<close>

abbreviation (input) TimePeriod :: "'a::numeral" where "TimePeriod \<equiv> 1000"
abbreviation (input) MaxLinksNum :: nat where "MaxLinksNum \<equiv> 3"
abbreviation (input) MaxTransNum :: nat where "MaxTransNum \<equiv> 3"
abbreviation (input) ConfirmBlock :: u64 where "ConfirmBlock \<equiv> 8"
abbreviation (input) PayloadLenLimit :: nat where "PayloadLenLimit \<equiv> 1024 * 1024 * 1"
abbreviation (input) GasPriceMin :: int where "GasPriceMin \<equiv> 1000000000"
abbreviation (input) GlobalTosTotal :: int where "GlobalTosTotal \<equiv> 1000000000000000000000000000"
abbreviation (input) OneTos :: int where "OneTos \<equiv> 1000000000000000000"
abbreviation (input) MiningGasUsed :: u64 where "MiningGasUsed \<equiv> 21000"
abbreviation (input) TxGas :: u64 where "TxGas \<equiv> 21000"

section \<open>Big integers\<close>

text \<open>\<open>big.Int.Uint64\<close> keeps the low 64 bits of the magnitude.\<close>

definition big_Uint64 :: "int \<Rightarrow> u64" where
  "big_Uint64 x = word_of_int \<bar>x\<bar>"

section \<open>Proof of work\<close>

text \<open>\<open>CalculateWork\<close>: \<open>(2^128 - 1) / hash[16:28]\<close>, the slice read as a number, zero taken as one.\<close>

definition littleHash :: "hash \<Rightarrow> nat" where
  "littleHash h = be_val (take 12 (drop 16 (hash_bytes h)))"

definition CalculateWork :: "hash \<Rightarrow> int" where
  "CalculateWork h =
     (let little = (if littleHash h = 0 then 1 else int (littleHash h));
          den = 2 ^ 128 - 1
      in den div little)"

lemma littleHash_less: "littleHash h < 2 ^ 96"
  using be_val_less [of "take 12 (drop 16 (hash_bytes h))"] by (simp add: littleHash_def)

lemma CalculateWork_bounds: "2 ^ 32 \<le> CalculateWork h" "CalculateWork h < 2 ^ 128"
proof -
  define l :: int where "l = (if littleHash h = 0 then 1 else int (littleHash h))"
  have l: "1 \<le> l" "l < 2 ^ 96" using littleHash_less [of h] by (auto simp: l_def)
  have w: "CalculateWork h = (2 ^ 128 - 1) div l" by (simp add: CalculateWork_def l_def)
  have "(2 ^ 32 :: int) = (2 ^ 128 - 1) div (2 ^ 96 - 1)" by simp
  also have "\<dots> \<le> (2 ^ 128 - 1) div l" using l by (intro zdiv_mono2) simp_all
  finally show "2 ^ 32 \<le> CalculateWork h" by (simp add: w)
  have "(2 ^ 128 - 1) div l \<le> (2 ^ 128 - 1) div 1" using l by (intro zdiv_mono2) simp_all
  then show "CalculateWork h < 2 ^ 128" by (simp add: w)
qed

lemma CalculateWork_pos [simp]: "0 < CalculateWork h" "0 \<le> CalculateWork h"
  using CalculateWork_bounds(1) [of h] by simp_all

section \<open>Time slices\<close>

definition GetMainTime :: "u64 \<Rightarrow> u64" where
  "GetMainTime timeStamp = timeStamp div TimePeriod"

definition GetTOSTimeStamp :: "u64 \<Rightarrow> u64" where
  "GetTOSTimeStamp t =
     (let mTime = t div TimePeriod;
          sTime = t mod TimePeriod
      in mTime * 100000 + sTime)"

definition TOSTimeStampToTime :: "u64 \<Rightarrow> u64" where
  "TOSTimeStampToTime tosT =
     (let mTime = tosT div 100000;
          sTime = tosT mod 100000
      in mTime * TimePeriod + sTime)"

definition IsTheSameTimeSlice :: "u64 \<Rightarrow> u64 \<Rightarrow> bool" where
  "IsTheSameTimeSlice t1 t2 \<longleftrightarrow> GetMainTime t1 = GetMainTime t2"

definition TimeSliceDifference :: "u64 \<Rightarrow> u64 \<Rightarrow> u64" where
  "TimeSliceDifference t1 t2 = GetMainTime t1 - GetMainTime t2"

lemma unat_GetMainTime: "unat (GetMainTime t) = unat t div 1000"
  by (simp add: GetMainTime_def unat_div)

text \<open>
  The difference of two slices is the distance only when the first one is not the earlier: otherwise
  it wraps around to a number near \<open>2^64\<close>.
\<close>

lemma TimeSliceDifference_le:
  "unat t2 div 1000 \<le> unat t1 div 1000 \<Longrightarrow>
   unat (TimeSliceDifference t1 t2) = unat t1 div 1000 - unat t2 div 1000"
  by (simp add: TimeSliceDifference_def unat_sub word_le_nat_alt unat_GetMainTime)

lemma TimeSliceDifference_wraps:
  assumes "unat t1 div 1000 < unat t2 div 1000"
  shows "unat (TimeSliceDifference t1 t2) = 2 ^ 64 - (unat t2 div 1000 - unat t1 div 1000)"
  using assms by (simp add: TimeSliceDifference_def unat_sub_if' unat_GetMainTime)

end
