(* ===== verification/Block_Types.thy ===== *)
theory Block_Types
  imports Chain_Utils
begin

text \<open>
  The blocks of \<open>src/sdag/core/types\<close>: header, mutable information, and the three block kinds that
  implement the \<open>Block\<close> interface, with their RLP layout, hashing, signatures, difficulty, validation
  and wire decoding.  A pointer field that every constructor and decoder of the code fills
  (\<open>GasPrice\<close>, \<open>Amount\<close>, \<open>V\<close>, \<open>R\<close>, \<open>S\<close>) is an \<open>int\<close>; \<open>Difficulty\<close> and \<open>CumulativeDiff\<close>, which the
  code leaves nil, are options.  The \<open>atomic.Value\<close> caches are option fields.
\<close>

section \<open>Data\<close>

type_synonym BlockStatus = u64
type_synonym BlockType = u64

abbreviation (input) BLockNone :: BlockStatus where "BLockNone \<equiv> 1"
abbreviation (input) BlockVerify :: BlockStatus where "BlockVerify \<equiv> 2"
abbreviation (input) BlockTmpMaxDiff :: BlockStatus where "BlockTmpMaxDiff \<equiv> 4"
abbreviation (input) BlockConfirm :: BlockStatus where "BlockConfirm \<equiv> 8"
abbreviation (input) BlockApply :: BlockStatus where "BlockApply \<equiv> 16"
abbreviation (input) BlockTmpMain :: BlockStatus where "BlockTmpMain \<equiv> 32"
abbreviation (input) BlockMain :: BlockStatus where "BlockMain \<equiv> 64"

abbreviation (input) BlockTypeTx :: BlockType where "BlockTypeTx \<equiv> 1"
abbreviation (input) BlockTypeMiner :: BlockType where "BlockTypeMiner \<equiv> 2"
abbreviation (input) BlockTypeGenesis :: BlockType where "BlockTypeGenesis \<equiv> 3"

record BlockHeader =
  BType :: BlockType
  BTime :: u64
  GasPrice :: int
  GasLimit :: u64

record MutableInfo =
  Status :: BlockStatus
  ConfirmItsNumber :: u64
  Difficulty :: "int option"
  CumulativeDiff :: "int option"
  MaxLinkHash :: hash
  ConfirmItsIndex :: u64

record TxOut =
  Receiver :: address
  Amount :: int

record TxBlock =
  txHeader :: BlockHeader
  txLinks :: "hash list"
  AccountNonce :: u64
  Outs :: "TxOut list"
  Payload :: bytes
  txV :: int
  txR :: int
  txS :: int
  txSender :: "address option"
  txInfo :: MutableInfo
  txHash :: "hash option"

record MinerBlock =
  mbHeader :: BlockHeader
  mbLinks :: "hash list"
  Miner :: address
  Nonce :: u64             \<comment> \<open>\<open>BlockNonce\<close> is \<open>[8]byte\<close>, read big-endian\<close>
  mbV :: int
  mbR :: int
  mbS :: int
  mbSender :: "address option"
  mbInfo :: MutableInfo
  mbHash :: "hash option"

record GenesisBlock =
  gbHeader :: BlockHeader
  RootHash :: hash
  gbInfo :: MutableInfo
  gbHash :: "hash option"

datatype Block = BTx TxBlock | BMiner MinerBlock | BGenesis GenesisBlock

definition zeroInfo :: MutableInfo where
  "zeroInfo = \<lparr>Status = 0, ConfirmItsNumber = 0, Difficulty = None, CumulativeDiff = None,
     MaxLinkHash = 0, ConfirmItsIndex = 0\<rparr>"

section \<open>RLP layout\<close>

text \<open>
  The value \<open>rlp\<close> sees by reflection (\<open>\<dots>_val\<close>), the type descriptor it decodes into (\<open>\<dots>_type\<close>), and
  the struct filled from a decoded value (\<open>\<dots>_of\<close>).  The selectors give a default on values of another
  shape, which \<open>DecodeBytes\<close> never returns (\<open>DecodeBytes_shape\<close>).
\<close>

abbreviation hash_type :: rlp_type where "hash_type \<equiv> TByteArray 32"
abbreviation address_type :: rlp_type where "address_type \<equiv> TByteArray 20"

definition list_of :: "rlp_val \<Rightarrow> rlp_val list" where
  "list_of v = (case v of VList vs \<Rightarrow> vs | _ \<Rightarrow> [])"

definition uint_of :: "rlp_val \<Rightarrow> u64" where
  "uint_of v = (case v of VUint i \<Rightarrow> i | _ \<Rightarrow> 0)"

definition bigptr_of :: "rlp_val \<Rightarrow> int option" where
  "bigptr_of v = (case v of VBigInt p \<Rightarrow> p | _ \<Rightarrow> None)"

definition big_of :: "rlp_val \<Rightarrow> int" where
  "big_of v = (case bigptr_of v of Some i \<Rightarrow> i | None \<Rightarrow> 0)"

definition bytes_of :: "rlp_val \<Rightarrow> bytes" where
  "bytes_of v = (case v of VBytes b \<Rightarrow> b | _ \<Rightarrow> [])"

definition hash_of :: "rlp_val \<Rightarrow> hash" where
  "hash_of v = word_of_nat (be_val (bytes_of v))"

definition address_of :: "rlp_val \<Rightarrow> address" where
  "address_of v = word_of_nat (be_val (bytes_of v))"

definition fld :: "nat \<Rightarrow> rlp_val \<Rightarrow> rlp_val" where
  "fld i v = (if i < length (list_of v) then list_of v ! i else VNil)"

definition BlockHeader_val :: "BlockHeader \<Rightarrow> rlp_val" where
  "BlockHeader_val h = VList [VUint (BType h), VUint (BTime h), VBigInt (Some (GasPrice h)), VUint (GasLimit h)]"

definition BlockHeader_type :: rlp_type where
  "BlockHeader_type = TStruct [TUint 64, TUint 64, TBigInt, TUint 64]"

definition BlockHeader_of :: "rlp_val \<Rightarrow> BlockHeader" where
  "BlockHeader_of v =
     \<lparr>BType = uint_of (fld 0 v), BTime = uint_of (fld 1 v), GasPrice = big_of (fld 2 v),
      GasLimit = uint_of (fld 3 v)\<rparr>"

definition MutableInfo_val :: "MutableInfo \<Rightarrow> rlp_val" where
  "MutableInfo_val m =
     VList [VUint (Status m), VUint (ConfirmItsNumber m), VBigInt (Difficulty m),
       VBigInt (CumulativeDiff m), VBytes (hash_bytes (MaxLinkHash m)), VUint (ConfirmItsIndex m)]"

definition MutableInfo_type :: rlp_type where
  "MutableInfo_type = TStruct [TUint 64, TUint 64, TBigInt, TBigInt, hash_type, TUint 64]"

definition MutableInfo_of :: "rlp_val \<Rightarrow> MutableInfo" where
  "MutableInfo_of v =
     \<lparr>Status = uint_of (fld 0 v), ConfirmItsNumber = uint_of (fld 1 v), Difficulty = bigptr_of (fld 2 v),
      CumulativeDiff = bigptr_of (fld 3 v), MaxLinkHash = hash_of (fld 4 v),
      ConfirmItsIndex = uint_of (fld 5 v)\<rparr>"

definition TxOut_val :: "TxOut \<Rightarrow> rlp_val" where
  "TxOut_val out = VList [VBytes (address_bytes (Receiver out)), VBigInt (Some (Amount out))]"

definition TxOut_type :: rlp_type where
  "TxOut_type = TStruct [address_type, TBigInt]"

definition TxOut_of :: "rlp_val \<Rightarrow> TxOut" where
  "TxOut_of v = \<lparr>Receiver = address_of (fld 0 v), Amount = big_of (fld 1 v)\<rparr>"

definition links_val :: "hash list \<Rightarrow> rlp_val" where
  "links_val hs = VList (map (\<lambda>h. VBytes (hash_bytes h)) hs)"

text \<open>\<open>data(withSig)\<close>: the struct itself with its exported fields, or the list without the signature.\<close>

definition TxBlock_data :: "bool \<Rightarrow> TxBlock \<Rightarrow> rlp_val" where
  "TxBlock_data withSig tx =
     VList ([BlockHeader_val (txHeader tx), links_val (txLinks tx), VUint (AccountNonce tx),
             VList (map TxOut_val (Outs tx)), VBytes (Payload tx)] @
            (if withSig then [VBigInt (Some (txV tx)), VBigInt (Some (txR tx)), VBigInt (Some (txS tx))]
             else []))"

definition TxBlock_type :: rlp_type where
  "TxBlock_type = TStruct [BlockHeader_type, TSlice hash_type, TUint 64, TSlice TxOut_type, TBytes,
     TBigInt, TBigInt, TBigInt]"

definition TxBlock_of :: "rlp_val \<Rightarrow> TxBlock" where
  "TxBlock_of v =
     \<lparr>txHeader = BlockHeader_of (fld 0 v), txLinks = map hash_of (list_of (fld 1 v)),
      AccountNonce = uint_of (fld 2 v), Outs = map TxOut_of (list_of (fld 3 v)),
      Payload = bytes_of (fld 4 v), txV = big_of (fld 5 v), txR = big_of (fld 6 v), txS = big_of (fld 7 v),
      txSender = None, txInfo = zeroInfo, txHash = None\<rparr>"

definition MinerBlock_data :: "bool \<Rightarrow> MinerBlock \<Rightarrow> rlp_val" where
  "MinerBlock_data withSig mb =
     VList ([BlockHeader_val (mbHeader mb), links_val (mbLinks mb), VBytes (address_bytes (Miner mb)),
             VBytes (be_fixed 8 (unat (Nonce mb)))] @
            (if withSig then [VBigInt (Some (mbV mb)), VBigInt (Some (mbR mb)), VBigInt (Some (mbS mb))]
             else []))"

definition MinerBlock_type :: rlp_type where
  "MinerBlock_type = TStruct [BlockHeader_type, TSlice hash_type, address_type, TByteArray 8,
     TBigInt, TBigInt, TBigInt]"

definition MinerBlock_of :: "rlp_val \<Rightarrow> MinerBlock" where
  "MinerBlock_of v =
     \<lparr>mbHeader = BlockHeader_of (fld 0 v), mbLinks = map hash_of (list_of (fld 1 v)),
      Miner = address_of (fld 2 v), Nonce = word_of_nat (be_val (bytes_of (fld 3 v))),
      mbV = big_of (fld 4 v), mbR = big_of (fld 5 v), mbS = big_of (fld 6 v),
      mbSender = None, mbInfo = zeroInfo, mbHash = None\<rparr>"

definition GenesisBlock_data :: "GenesisBlock \<Rightarrow> rlp_val" where
  "GenesisBlock_data gb = VList [BlockHeader_val (gbHeader gb), VBytes (hash_bytes (RootHash gb))]"

definition GenesisBlock_type :: rlp_type where
  "GenesisBlock_type = TStruct [BlockHeader_type, hash_type]"

definition GenesisBlock_of :: "rlp_val \<Rightarrow> GenesisBlock" where
  "GenesisBlock_of v =
     \<lparr>gbHeader = BlockHeader_of (fld 0 v), RootHash = hash_of (fld 1 v), gbInfo = zeroInfo, gbHash = None\<rparr>"

section \<open>Hashing and signatures\<close>

text \<open>
  \<open>rlpHash\<close> ignores the error of \<open>rlp.Encode\<close>: then nothing was written to the hasher.  The \<open>GetRlp\<close>
  methods at most log it and return the nil slice.
\<close>

definition rlp_bytes :: "rlp_val \<Rightarrow> bytes" where
  "rlp_bytes x = (case EncodeToBytes x of Inr b \<Rightarrow> b | Inl _ \<Rightarrow> [])"

definition rlpHash :: "env \<Rightarrow> rlp_val \<Rightarrow> hash" where
  "rlpHash E x = keccak E (rlp_bytes x)"

definition secp256k1N :: int where
  "secp256k1N = 0xfffffffffffffffffffffffffffffffebaaedce6af48a03bbfd25e8cd0364141"

definition secp256k1halfN :: int where
  "secp256k1halfN = secp256k1N div 2"

definition ValidateSignatureValues :: "byte \<Rightarrow> int \<Rightarrow> int \<Rightarrow> bool \<Rightarrow> bool" where
  "ValidateSignatureValues v r s homestead =
     (if r < 1 \<or> s < 1 then False
      else if homestead \<and> s > secp256k1halfN then False
      else r < secp256k1N \<and> s < secp256k1N \<and> (v = 0 \<or> v = 1))"

text \<open>\<open>R\<close> and \<open>S\<close> are below \<open>2^256\<close> here, so their bytes fit the two 32-byte halves of the signature.\<close>

definition leftpad :: "nat \<Rightarrow> bytes \<Rightarrow> bytes" where
  "leftpad n b = replicate (n - length b) 0 @ b"

definition recoverPlain :: "env \<Rightarrow> hash \<Rightarrow> int \<Rightarrow> int \<Rightarrow> int \<Rightarrow> err + address" where
  "recoverPlain E sigHash R S Vb =
     (if 2 ^ 8 \<le> \<bar>Vb\<bar> then Inl ErrInvalidSig
      else let V = word_of_int Vb - 27 in
        if \<not> ValidateSignatureValues V R S False then Inl ErrInvalidSig
        else let sig = leftpad 32 (be_min (nat R)) @ leftpad 32 (be_min (nat S)) @ [V] in
          res_bind (ecrecover E sigHash sig)
            (\<lambda>pub. if length pub = 0 \<or> pub ! 0 \<noteq> 4 then Inl (Msg ''invalid public key'')
                   else Inr (ucast (keccak E (drop 1 pub)))))"

definition SignatureValues :: "bytes \<Rightarrow> err + int \<times> int \<times> int" where
  "SignatureValues sig =
     (if length sig \<noteq> 65 then Inl (Msg ''wrong size for signature'')
      else Inr (int (be_val (take 32 sig)), int (be_val (take 32 (drop 32 sig))),
                int (be_val [sig ! 64 + 27])))"

text \<open>\<open>crypto.Sign\<close> with the private key applied is the argument \<open>sign\<close>.\<close>

definition SignByHash :: "(hash \<Rightarrow> err + bytes) \<Rightarrow> hash \<Rightarrow> err + int \<times> int \<times> int" where
  "SignByHash sign h = res_bind (sign h) SignatureValues"

section \<open>Transaction blocks\<close>

definition TxBlock_GetRlp :: "TxBlock \<Rightarrow> bytes" where
  "TxBlock_GetRlp tx = rlp_bytes (TxBlock_data True tx)"

definition TxBlock_GetHash :: "env \<Rightarrow> TxBlock \<Rightarrow> hash \<times> TxBlock" where
  "TxBlock_GetHash E tx =
     (case txHash tx of
        Some h \<Rightarrow> (h, tx)
      | None \<Rightarrow> let v = rlpHash E (TxBlock_data True tx) in (v, tx\<lparr>txHash := Some v\<rparr>))"

definition TxBlock_GetDiff :: "env \<Rightarrow> TxBlock \<Rightarrow> int \<times> TxBlock" where
  "TxBlock_GetDiff E tx =
     (case Difficulty (txInfo tx) of
        Some d \<Rightarrow> (d, tx)
      | None \<Rightarrow> let (h, tx) = TxBlock_GetHash E tx; d = CalculateWork h
                in (d, tx\<lparr>txInfo := (txInfo tx)\<lparr>Difficulty := Some d\<rparr>\<rparr>))"

definition TxBlock_GetSender :: "env \<Rightarrow> TxBlock \<Rightarrow> (err + address) \<times> TxBlock" where
  "TxBlock_GetSender E tx =
     (case txSender tx of
        Some a \<Rightarrow> (Inr a, tx)
      | None \<Rightarrow>
          (case recoverPlain E (rlpHash E (TxBlock_data False tx)) (txR tx) (txS tx) (txV tx) of
             Inl e \<Rightarrow> (Inl e, tx)
           | Inr v \<Rightarrow> (Inr v, tx\<lparr>txSender := Some v\<rparr>)))"

text \<open>On an error of the signer the three fields are nil, which no caller reads.\<close>

definition TxBlock_Sign :: "env \<Rightarrow> (hash \<Rightarrow> err + bytes) \<Rightarrow> TxBlock \<Rightarrow> err + TxBlock" where
  "TxBlock_Sign E sign tx =
     res_bind (SignByHash sign (rlpHash E (TxBlock_data False tx)))
       (\<lambda>(r, s, v). Inr (tx\<lparr>txR := r, txS := s, txV := v\<rparr>))"

fun links_repeat :: "hash list \<Rightarrow> bool" where
  "links_repeat [] = False"
| "links_repeat (l # ls) = (l \<in> set ls \<or> links_repeat ls)"

definition outs_total :: "TxOut list \<Rightarrow> int" where
  "outs_total outs = foldl (\<lambda>amount out. amount + Amount out) 0 outs"

text \<open>The loop over the outputs; \<open>first\<close> is \<open>tx.Outs[0].Receiver\<close>, which every round looks at.\<close>

fun check_outs :: "address \<Rightarrow> bool \<Rightarrow> address \<Rightarrow> TxOut list \<Rightarrow> err option" where
  "check_outs from isContract first [] = None"
| "check_outs from isContract first (out # outs) =
     (if Receiver out = from then Some (Msg ''the receiver is self'')
      else if \<not> isContract \<and> Amount out \<le> 0 then Some (Msg ''the amount must be positive'')
      else if \<not> isContract \<and> first = 0 then Some (Msg ''receiver cannot be empty'')
      else check_outs from isContract first outs)"

definition TxBlock_Validation :: "env \<Rightarrow> TxBlock \<Rightarrow> err option \<times> TxBlock" where
  "TxBlock_Validation E tx =
     (let fail = (\<lambda>m. (Some (Msg m), tx)); h = txHeader tx in
      if GasPrice h < GasPriceMin \<or> GasLimit h \<le> 0 then fail ''GasPrice is less than the minimum''
      else if BTime h < GenesisTime E then fail ''block time no greater than Genesis time''
      else if BTime h > now E + TimePeriod div 4 then fail ''block time no less than current time''
      else if length (txLinks tx) < 1 \<or> length (txLinks tx) > MaxLinksNum then fail ''the block linksNumber''
      else if \<not> outs_total (Outs tx) < GlobalTosTotal then fail ''the amount is not less than the GlobalTosTotal''
      else if length (Payload tx) > 0 \<and> length (Payload tx) > PayloadLenLimit then fail ''payload is too long''
      else if length (Payload tx) > 0 \<and> length (Outs tx) > 1 then fail ''contract transaction len(tx.Outs) > 1''
      else if length (Payload tx) = 0 \<and> (length (Outs tx) < 1 \<or> length (Outs tx) > MaxTransNum)
        then fail ''len(tx.Outs) number error''
      else
        (case TxBlock_GetSender E tx of
           (Inl e, tx) \<Rightarrow> (Some e, tx)
         | (Inr from, tx) \<Rightarrow>
             (case check_outs from (length (Payload tx) > 0)
                     (case Outs tx of [] \<Rightarrow> 0 | out # _ \<Rightarrow> Receiver out) (Outs tx) of
                Some e \<Rightarrow> (Some e, tx)
              | None \<Rightarrow> if links_repeat (txLinks tx) then (Some (Msg ''links repeat''), tx) else (None, tx))))"

definition TxBlock_UnRlp :: "env \<Rightarrow> bytes \<Rightarrow> err + TxBlock" where
  "TxBlock_UnRlp E txRLP =
     (case DecodeBytes TxBlock_type txRLP of
        Inl e \<Rightarrow> Inl (RlpErr e)
      | Inr v \<Rightarrow>
          (case TxBlock_Validation E (TxBlock_of v) of
             (Some e, _) \<Rightarrow> Inl e
           | (None, newTx) \<Rightarrow> Inr newTx))"

record Message =
  msg_to :: "address option"
  msg_from :: address
  msg_nonce :: u64
  msg_amount :: int
  msg_gasLimit :: u64
  msg_gasPrice :: int
  msg_data :: bytes
  msg_checkNonce :: bool

definition TxBlock_AsMessage :: "env \<Rightarrow> TxBlock \<Rightarrow> (err option \<times> Message) \<times> TxBlock" where
  "TxBlock_AsMessage E tx =
     (let (amount, dest) =
            (case Outs tx of
               [] \<Rightarrow> (0, None)
             | out # _ \<Rightarrow> (Amount out, if Receiver out \<noteq> 0 then Some (Receiver out) else None));
          (sender, tx) = TxBlock_GetSender E tx;
          (e, from) = (case sender of Inl e \<Rightarrow> (Some e, 0) | Inr a \<Rightarrow> (None, a))
      in ((e, \<lparr>msg_to = dest, msg_from = from, msg_nonce = AccountNonce tx, msg_amount = amount,
               msg_gasLimit = GasLimit (txHeader tx), msg_gasPrice = GasPrice (txHeader tx),
               msg_data = Payload tx, msg_checkNonce = False\<rparr>), tx))"

section \<open>Miner blocks\<close>

definition MinerBlock_GetRlp :: "MinerBlock \<Rightarrow> bytes" where
  "MinerBlock_GetRlp mb = rlp_bytes (MinerBlock_data True mb)"

definition MinerBlock_GetHash :: "env \<Rightarrow> MinerBlock \<Rightarrow> hash \<times> MinerBlock" where
  "MinerBlock_GetHash E mb =
     (case mbHash mb of
        Some h \<Rightarrow> (h, mb)
      | None \<Rightarrow> let v = rlpHash E (MinerBlock_data True mb) in (v, mb\<lparr>mbHash := Some v\<rparr>))"

definition MinerBlock_GetDiff :: "env \<Rightarrow> MinerBlock \<Rightarrow> int \<times> MinerBlock" where
  "MinerBlock_GetDiff E mb =
     (case Difficulty (mbInfo mb) of
        Some d \<Rightarrow> (d, mb)
      | None \<Rightarrow> let d = CalculateWork (rlpHash E (MinerBlock_data False mb))
                in (d, mb\<lparr>mbInfo := (mbInfo mb)\<lparr>Difficulty := Some d\<rparr>\<rparr>))"

text \<open>
  The recovered address is cached before it is compared with the \<open>Miner\<close> field, so the comparison
  guards only the first call.
\<close>

definition MinerBlock_GetSender :: "env \<Rightarrow> MinerBlock \<Rightarrow> (err + address) \<times> MinerBlock" where
  "MinerBlock_GetSender E mb =
     (case mbSender mb of
        Some a \<Rightarrow> (Inr a, mb)
      | None \<Rightarrow>
          (let r = recoverPlain E (rlpHash E (MinerBlock_data False mb)) (mbR mb) (mbS mb) (mbV mb);
               v = (case r of Inl _ \<Rightarrow> 0 | Inr a \<Rightarrow> a);
               mb' = (case r of Inl _ \<Rightarrow> mb | Inr a \<Rightarrow> mb\<lparr>mbSender := Some a\<rparr>)
           in if v \<noteq> Miner mb then (Inl (Msg ''Signature conflicts with address.''), mb')
              else (r, mb')))"

text \<open>The results of \<open>SignByHash\<close> come as \<open>r, s, v\<close> and are stored into \<open>V, R, S\<close> in that order.\<close>

definition MinerBlock_Sign :: "env \<Rightarrow> (hash \<Rightarrow> err + bytes) \<Rightarrow> MinerBlock \<Rightarrow> err + MinerBlock" where
  "MinerBlock_Sign E sign mb =
     res_bind (SignByHash sign (rlpHash E (MinerBlock_data False mb)))
       (\<lambda>(r, s, v). Inr (mb\<lparr>mbV := r, mbR := s, mbS := v\<rparr>))"

definition MinerBlock_Validation :: "env \<Rightarrow> MinerBlock \<Rightarrow> err option \<times> MinerBlock" where
  "MinerBlock_Validation E mb =
     (let fail = (\<lambda>m. (Some (Msg m), mb)); h = mbHeader mb in
      if BTime h < GenesisTime E then fail ''block time no greater than Genesis time''
      else if BTime h > now E + TimePeriod then fail ''block time no less than current time''
      else if length (mbLinks mb) < 1 \<or> length (mbLinks mb) > MaxLinksNum then fail ''the block linksNumber''
      else if links_repeat (mbLinks mb) then fail ''links repeat''
      else (case MinerBlock_GetSender E mb of
              (Inl e, mb) \<Rightarrow> (Some e, mb)
            | (Inr _, mb) \<Rightarrow> (None, mb)))"

definition MinerBlock_UnRlp :: "env \<Rightarrow> bytes \<Rightarrow> err + MinerBlock" where
  "MinerBlock_UnRlp E mbRLP =
     (case DecodeBytes MinerBlock_type mbRLP of
        Inl e \<Rightarrow> Inl (RlpErr e)
      | Inr v \<Rightarrow>
          (case MinerBlock_Validation E (MinerBlock_of v) of
             (Some e, _) \<Rightarrow> Inl e
           | (None, newMb) \<Rightarrow> Inr newMb))"

definition EncodeNonce :: "u64 \<Rightarrow> bytes" where
  "EncodeNonce i = be_fixed 8 (unat i)"

section \<open>The genesis block\<close>

definition GenesisBlock_GetRlp :: "GenesisBlock \<Rightarrow> bytes" where
  "GenesisBlock_GetRlp gb = rlp_bytes (GenesisBlock_data gb)"

definition GenesisBlock_GetHash :: "env \<Rightarrow> GenesisBlock \<Rightarrow> hash \<times> GenesisBlock" where
  "GenesisBlock_GetHash E gb =
     (case gbHash gb of
        Some h \<Rightarrow> (h, gb)
      | None \<Rightarrow> let v = rlpHash E (GenesisBlock_data gb) in (v, gb\<lparr>gbHash := Some v\<rparr>))"

definition GenesisBlock_GetDiff :: "env \<Rightarrow> GenesisBlock \<Rightarrow> int \<times> GenesisBlock" where
  "GenesisBlock_GetDiff E gb =
     (case Difficulty (gbInfo gb) of
        Some d \<Rightarrow> (d, gb)
      | None \<Rightarrow> let d = CalculateWork (rlpHash E (GenesisBlock_data gb))
                in (d, gb\<lparr>gbInfo := (gbInfo gb)\<lparr>Difficulty := Some d\<rparr>\<rparr>))"

definition GenesisBlock_UnRlp :: "bytes \<Rightarrow> err + GenesisBlock" where
  "GenesisBlock_UnRlp rlp =
     (case DecodeBytes GenesisBlock_type rlp of
        Inl e \<Rightarrow> Inl (RlpErr e)
      | Inr v \<Rightarrow> Inr (GenesisBlock_of v))"

end
