(* ===== verification/Block_Interface.thy ===== *)
theory Block_Interface
  imports Block_Types
begin

text \<open>
  The \<open>Block\<close> interface of \<open>src/sdag/core/types/block.go\<close> by dispatch on the three block kinds, the
  wire decoder \<open>BlockDecode\<close>, the stored side tables (\<open>MutableInfo\<close>, \<open>MainBlockInfo\<close>,
  \<open>TailMainBlockInfo\<close>, \<open>Receipt\<close>) with their codecs, and the round trips of all of them, stated once
  in a locale for a struct with an RLP layout.
\<close>

section \<open>The interface\<close>

fun GetHeader :: "Block \<Rightarrow> BlockHeader" where
  "GetHeader (BTx tx) = txHeader tx"
| "GetHeader (BMiner mb) = mbHeader mb"
| "GetHeader (BGenesis gb) = gbHeader gb"

definition GetType :: "Block \<Rightarrow> BlockType" where "GetType b = BType (GetHeader b)"
definition GetTime :: "Block \<Rightarrow> u64" where "GetTime b = BTime (GetHeader b)"
definition GetGasPrice :: "Block \<Rightarrow> int" where "GetGasPrice b = GasPrice (GetHeader b)"
definition GetGasLimit :: "Block \<Rightarrow> u64" where "GetGasLimit b = GasLimit (GetHeader b)"

fun GetLinks :: "Block \<Rightarrow> hash list" where
  "GetLinks (BTx tx) = txLinks tx"
| "GetLinks (BMiner mb) = mbLinks mb"
| "GetLinks (BGenesis gb) = []"

fun GetPayload :: "Block \<Rightarrow> bytes" where
  "GetPayload (BTx tx) = Payload tx"
| "GetPayload (BMiner mb) = []"
| "GetPayload (BGenesis gb) = []"

fun GetOuts :: "Block \<Rightarrow> TxOut list" where
  "GetOuts (BTx tx) = Outs tx"
| "GetOuts (BMiner mb) = []"
| "GetOuts (BGenesis gb) = []"

fun GetRlp :: "Block \<Rightarrow> bytes" where
  "GetRlp (BTx tx) = TxBlock_GetRlp tx"
| "GetRlp (BMiner mb) = MinerBlock_GetRlp mb"
| "GetRlp (BGenesis gb) = GenesisBlock_GetRlp gb"

fun GetMutableInfo :: "Block \<Rightarrow> MutableInfo" where
  "GetMutableInfo (BTx tx) = txInfo tx"
| "GetMutableInfo (BMiner mb) = mbInfo mb"
| "GetMutableInfo (BGenesis gb) = gbInfo gb"

fun SetMutableInfo :: "MutableInfo \<Rightarrow> Block \<Rightarrow> Block" where
  "SetMutableInfo m (BTx tx) = BTx (tx\<lparr>txInfo := m\<rparr>)"
| "SetMutableInfo m (BMiner mb) = BMiner (mb\<lparr>mbInfo := m\<rparr>)"
| "SetMutableInfo m (BGenesis gb) = BGenesis (gb\<lparr>gbInfo := m\<rparr>)"

definition GetStatus :: "Block \<Rightarrow> BlockStatus" where
  "GetStatus b = Status (GetMutableInfo b)"
definition SetStatus :: "BlockStatus \<Rightarrow> Block \<Rightarrow> Block" where
  "SetStatus s b = SetMutableInfo ((GetMutableInfo b)\<lparr>Status := s\<rparr>) b"
definition GetCumulativeDiff :: "Block \<Rightarrow> int option" where
  "GetCumulativeDiff b = CumulativeDiff (GetMutableInfo b)"
definition SetCumulativeDiff :: "int \<Rightarrow> Block \<Rightarrow> Block" where
  "SetCumulativeDiff d b = SetMutableInfo ((GetMutableInfo b)\<lparr>CumulativeDiff := Some d\<rparr>) b"
definition GetMaxLink :: "Block \<Rightarrow> hash" where
  "GetMaxLink b = MaxLinkHash (GetMutableInfo b)"
definition SetMaxLink :: "hash \<Rightarrow> Block \<Rightarrow> Block" where
  "SetMaxLink h b = SetMutableInfo ((GetMutableInfo b)\<lparr>MaxLinkHash := h\<rparr>) b"

fun GetHash :: "env \<Rightarrow> Block \<Rightarrow> hash \<times> Block" where
  "GetHash E (BTx tx) = map_prod id BTx (TxBlock_GetHash E tx)"
| "GetHash E (BMiner mb) = map_prod id BMiner (MinerBlock_GetHash E mb)"
| "GetHash E (BGenesis gb) = map_prod id BGenesis (GenesisBlock_GetHash E gb)"

fun GetDiff :: "env \<Rightarrow> Block \<Rightarrow> int \<times> Block" where
  "GetDiff E (BTx tx) = map_prod id BTx (TxBlock_GetDiff E tx)"
| "GetDiff E (BMiner mb) = map_prod id BMiner (MinerBlock_GetDiff E mb)"
| "GetDiff E (BGenesis gb) = map_prod id BGenesis (GenesisBlock_GetDiff E gb)"

fun GetSender :: "env \<Rightarrow> Block \<Rightarrow> (err + address) \<times> Block" where
  "GetSender E (BTx tx) = map_prod id BTx (TxBlock_GetSender E tx)"
| "GetSender E (BMiner mb) = map_prod id BMiner (MinerBlock_GetSender E mb)"
| "GetSender E (BGenesis gb) = (Inr 0, BGenesis gb)"

fun Validation :: "env \<Rightarrow> Block \<Rightarrow> err option \<times> Block" where
  "Validation E (BTx tx) = map_prod id BTx (TxBlock_Validation E tx)"
| "Validation E (BMiner mb) = map_prod id BMiner (MinerBlock_Validation E mb)"
| "Validation E (BGenesis gb) = (None, BGenesis gb)"

section \<open>Decoding from the wire\<close>

definition RLPList :: "byte \<Rightarrow> bool \<times> nat" where
  "RLPList b =
     (if b < 0xF8 \<and> b > 0xC0 then (True, 0)
      else if b \<ge> 0xF8 then (True, unat b - 0xF7)
      else (False, 0))"

text \<open>Go's slice indexing: out of range is a run-time panic.\<close>

definition index :: "bytes \<Rightarrow> nat \<Rightarrow> err + byte" where
  "index b i = (if i < length b then Inr (b ! i) else Inl Panic)"

definition BlockDecode_type :: "bytes \<Rightarrow> err + byte" where
  "BlockDecode_type rlpData =
     res_bind (index rlpData 0) (\<lambda>b0.
       let (isList, lenNum) = RLPList b0 in
       if isList \<and> lenNum < length rlpData then
         res_bind (index rlpData (lenNum + 1)) (\<lambda>b1.
           let (isList1, lenNum1) = RLPList b1 in
           if isList1 \<and> lenNum + 1 + lenNum1 < length rlpData then
             index rlpData (lenNum + 1 + lenNum1 + 1)
           else Inl (Msg ''rlpData is err''))
       else Inl (Msg ''rlpData is err''))"

definition BlockDecode :: "env \<Rightarrow> bytes \<Rightarrow> err + Block" where
  "BlockDecode E rlpData =
     res_bind (BlockDecode_type rlpData) (\<lambda>ty.
       if ty = 1 then map_sum id BTx (TxBlock_UnRlp E rlpData)
       else if ty = 2 then map_sum id BMiner (MinerBlock_UnRlp E rlpData)
       else if ty = 3 then map_sum id BGenesis (GenesisBlock_UnRlp rlpData)
       else Inl (Msg ''block upRlp error''))"

section \<open>Status\<close>

record BlockstatusTmp =
  statusText :: string
  IsMain :: bool

definition GetBlockStatus :: "BlockStatus \<Rightarrow> BlockstatusTmp" where
  "GetBlockStatus s =
     (let isApply = (s AND (BlockApply OR BlockConfirm) = (BlockApply OR BlockConfirm));
          isReject = (s AND BlockConfirm = BlockConfirm)
      in if s AND BlockMain = BlockMain then
           if isApply then \<lparr>statusText = ''Accepted'', IsMain = True\<rparr>
           else if isReject then \<lparr>statusText = ''Rejected'', IsMain = True\<rparr>
           else \<lparr>statusText = ''Pending'', IsMain = False\<rparr>
         else if isApply then \<lparr>statusText = ''Accepted'', IsMain = False\<rparr>
         else if isReject then \<lparr>statusText = ''Rejected'', IsMain = False\<rparr>
         else \<lparr>statusText = ''Pending'', IsMain = False\<rparr>)"

section \<open>Side tables\<close>

definition GetMutableRlp :: "MutableInfo \<Rightarrow> bytes" where
  "GetMutableRlp m = rlp_bytes (MutableInfo_val m)"

definition UnMutableRlp :: "bytes \<Rightarrow> err + MutableInfo" where
  "UnMutableRlp b = map_sum RlpErr MutableInfo_of (DecodeBytes MutableInfo_type b)"

record MainBlockInfo =
  miHash :: hash
  miRoot :: hash
  ConfirmCount :: u64

record TailMainBlockInfo =
  tmHash :: hash
  tmCumulativeDiff :: "int option"
  tmNumber :: u64
  tmTime :: u64

definition MainBlockInfo_val :: "MainBlockInfo \<Rightarrow> rlp_val" where
  "MainBlockInfo_val mb =
     VList [VBytes (hash_bytes (miHash mb)), VBytes (hash_bytes (miRoot mb)), VUint (ConfirmCount mb)]"

definition MainBlockInfo_type :: rlp_type where
  "MainBlockInfo_type = TStruct [hash_type, hash_type, TUint 64]"

definition MainBlockInfo_of :: "rlp_val \<Rightarrow> MainBlockInfo" where
  "MainBlockInfo_of v = \<lparr>miHash = hash_of (fld 0 v), miRoot = hash_of (fld 1 v), ConfirmCount = uint_of (fld 2 v)\<rparr>"

definition MainBlockInfo_Rlp :: "MainBlockInfo \<Rightarrow> bytes" where
  "MainBlockInfo_Rlp mb = rlp_bytes (MainBlockInfo_val mb)"

definition MainBlockInfo_UnRlp :: "bytes \<Rightarrow> err + MainBlockInfo" where
  "MainBlockInfo_UnRlp b = map_sum RlpErr MainBlockInfo_of (DecodeBytes MainBlockInfo_type b)"

definition TailMainBlockInfo_val :: "TailMainBlockInfo \<Rightarrow> rlp_val" where
  "TailMainBlockInfo_val tm =
     VList [VBytes (hash_bytes (tmHash tm)), VBigInt (tmCumulativeDiff tm), VUint (tmNumber tm), VUint (tmTime tm)]"

definition TailMainBlockInfo_type :: rlp_type where
  "TailMainBlockInfo_type = TStruct [hash_type, TBigInt, TUint 64, TUint 64]"

definition TailMainBlockInfo_of :: "rlp_val \<Rightarrow> TailMainBlockInfo" where
  "TailMainBlockInfo_of v =
     \<lparr>tmHash = hash_of (fld 0 v), tmCumulativeDiff = bigptr_of (fld 1 v), tmNumber = uint_of (fld 2 v),
      tmTime = uint_of (fld 3 v)\<rparr>"

definition TailMainBlockInfo_Rlp :: "TailMainBlockInfo \<Rightarrow> bytes" where
  "TailMainBlockInfo_Rlp tm = rlp_bytes (TailMainBlockInfo_val tm)"

definition TailMainBlockInfo_UnRlp :: "bytes \<Rightarrow> err + TailMainBlockInfo" where
  "TailMainBlockInfo_UnRlp b = map_sum RlpErr TailMainBlockInfo_of (DecodeBytes TailMainBlockInfo_type b)"

text \<open>
  Receipts.  A log has its own \<open>EncodeRLP\<close>, which writes the three consensus fields; the derived ones
  come back as zero.
\<close>

record Log =
  logAddress :: address
  Topics :: "hash list"
  logData :: bytes
  logBlockNumber :: u64
  logTxHash :: hash
  logTxIndex :: u64
  logBlockHash :: hash
  logIndex :: u64
  Removed :: bool

record Receipt =
  PostState :: bytes
  rcStatus :: u64
  CumulativeGasUsed :: u64
  Bloom :: "2048 word"
  Logs :: "Log list"
  rcTxHash :: hash
  ContractAddress :: address
  GasUsed :: u64
  rcIndex :: u64

definition Log_val :: "Log \<Rightarrow> rlp_val" where
  "Log_val l = VList [VBytes (address_bytes (logAddress l)), links_val (Topics l), VBytes (logData l)]"

definition Log_type :: rlp_type where
  "Log_type = TStruct [address_type, TSlice hash_type, TBytes]"

definition Log_of :: "rlp_val \<Rightarrow> Log" where
  "Log_of v =
     \<lparr>logAddress = address_of (fld 0 v), Topics = map hash_of (list_of (fld 1 v)), logData = bytes_of (fld 2 v),
      logBlockNumber = 0, logTxHash = 0, logTxIndex = 0, logBlockHash = 0, logIndex = 0, Removed = False\<rparr>"

definition Receipt_val :: "Receipt \<Rightarrow> rlp_val" where
  "Receipt_val r =
     VList [VBytes (PostState r), VUint (rcStatus r), VUint (CumulativeGasUsed r),
       VBytes (be_fixed 256 (unat (Bloom r))), VList (map Log_val (Logs r)), VBytes (hash_bytes (rcTxHash r)),
       VBytes (address_bytes (ContractAddress r)), VUint (GasUsed r), VUint (rcIndex r)]"

definition Receipt_type :: rlp_type where
  "Receipt_type = TStruct [TBytes, TUint 64, TUint 64, TByteArray 256, TSlice Log_type, hash_type,
     address_type, TUint 64, TUint 64]"

definition Receipt_of :: "rlp_val \<Rightarrow> Receipt" where
  "Receipt_of v =
     \<lparr>PostState = bytes_of (fld 0 v), rcStatus = uint_of (fld 1 v), CumulativeGasUsed = uint_of (fld 2 v),
      Bloom = word_of_nat (be_val (bytes_of (fld 3 v))), Logs = map Log_of (list_of (fld 4 v)),
      rcTxHash = hash_of (fld 5 v), ContractAddress = address_of (fld 6 v), GasUsed = uint_of (fld 7 v),
      rcIndex = uint_of (fld 8 v)\<rparr>"

definition Receipt_Rlp :: "Receipt \<Rightarrow> bytes" where
  "Receipt_Rlp r = rlp_bytes (Receipt_val r)"

definition Receipt_UnRlp :: "bytes \<Rightarrow> err + Receipt" where
  "Receipt_UnRlp b = map_sum RlpErr Receipt_of (DecodeBytes Receipt_type b)"

definition NewReceipt :: "bytes \<Rightarrow> bool \<Rightarrow> u64 \<Rightarrow> Receipt" where
  "NewReceipt root failed cumulativeGasUsed =
     \<lparr>PostState = root, rcStatus = (if failed then 0 else 1), CumulativeGasUsed = cumulativeGasUsed,
      Bloom = 0, Logs = [], rcTxHash = 0, ContractAddress = 0, GasUsed = 0, rcIndex = 0\<rparr>"

section \<open>Structs with an RLP layout\<close>

text \<open>
  What a struct owes the codec: its reflected value has its descriptor's type, is encodable when the
  integers are not negative, and the struct rebuilt from the decoded value is \<open>norm\<close> of the original,
  with what is not on the wire reset.
\<close>

locale rlp_struct =
  fixes to_val :: "'a \<Rightarrow> rlp_val" and descr :: rlp_type and of_val :: "rlp_val \<Rightarrow> 'a"
    and good :: "'a \<Rightarrow> bool" and norm :: "'a \<Rightarrow> 'a"
  assumes typed: "has_type descr (to_val x)"
    and good_encodable: "good x \<Longrightarrow> encodable (to_val x)"
    and of_canon: "good x \<Longrightarrow> of_val (canon (to_val x)) = norm x"
begin

lemma rlp_bytes_val:
  "good x \<Longrightarrow> length (enc (to_val x)) < 2 ^ 64 \<Longrightarrow> rlp_bytes (to_val x) = enc (to_val x)"
  by (simp add: rlp_bytes_def EncodeToBytes_enc good_encodable)

lemma decode_bytes:
  "good x \<Longrightarrow> length (enc (to_val x)) < 2 ^ 64 \<Longrightarrow>
   DecodeBytes descr (rlp_bytes (to_val x)) = Inr (canon (to_val x))"
  using DecodeBytes_enc [OF typed good_encodable] by (simp add: rlp_bytes_val)

lemma round_trip:
  "good x \<Longrightarrow> length (enc (to_val x)) < 2 ^ 64 \<Longrightarrow>
   map_sum RlpErr of_val (DecodeBytes descr (rlp_bytes (to_val x))) = Inr (norm x)"
  by (simp add: decode_bytes of_canon)

lemma rlp_bytes_inject:
  assumes "good x" and "good y" and "length (enc (to_val x)) < 2 ^ 64" and "length (enc (to_val y)) < 2 ^ 64"
    and "rlp_bytes (to_val x) = rlp_bytes (to_val y)"
  shows "norm x = norm y"
  using round_trip [OF assms(1,3)] round_trip [OF assms(2,4)] assms(5) by simp

end

lemma of_simps [simp]:
  "list_of (VList vs) = vs" "uint_of (VUint i) = i" "bigptr_of (VBigInt p) = p"
  "big_of (VBigInt (Some n)) = n" "bytes_of (VBytes b) = b"
  "hash_of (VBytes (hash_bytes h)) = h" "address_of (VBytes (address_bytes a)) = a"
  by (simp_all add: list_of_def uint_of_def bigptr_of_def big_of_def bytes_of_def hash_of_def address_of_def)

lemma fld_simps [simp]:
  "fld 0 (VList (v # vs)) = v" "fld (Suc i) (VList (v # vs)) = fld i (VList vs)"
  "fld (numeral k) (VList (v # vs)) = fld (pred_numeral k) (VList vs)"
  by (simp_all add: fld_def numeral_eq_Suc)

lemma u64_unat_less [simp]: "unat (w :: u64) < 18446744073709551616"
  using unsigned_less [of w, where ?'a = nat] by simp

lemma canon_links [simp]: "canon (links_val hs) = links_val hs"
  by (simp add: links_val_def)

lemma of_links [simp]: "map hash_of (list_of (links_val hs)) = hs"
  by (simp add: links_val_def comp_def)

lemma links_typed [simp]: "has_type (TSlice hash_type) (links_val hs)"
  by (auto simp: links_val_def)

lemma links_encodable [simp]: "encodable (links_val hs)"
  by (auto simp: links_val_def)

definition norm_info :: "MutableInfo \<Rightarrow> MutableInfo" where
  "norm_info m = m\<lparr>Difficulty := Some (case Difficulty m of None \<Rightarrow> 0 | Some d \<Rightarrow> d),
     CumulativeDiff := Some (case CumulativeDiff m of None \<Rightarrow> 0 | Some d \<Rightarrow> d)\<rparr>"

definition good_info :: "MutableInfo \<Rightarrow> bool" where
  "good_info m \<longleftrightarrow> (\<forall>d. Difficulty m = Some d \<longrightarrow> 0 \<le> d) \<and> (\<forall>d. CumulativeDiff m = Some d \<longrightarrow> 0 \<le> d)"

lemma encodable_BigInt_iff: "encodable (VBigInt p) \<longleftrightarrow> (\<forall>d. p = Some d \<longrightarrow> 0 \<le> d)"
  by (cases p) simp_all

interpretation minfo: rlp_struct MutableInfo_val MutableInfo_type MutableInfo_of good_info norm_info
  by unfold_locales
    (simp_all add: MutableInfo_val_def MutableInfo_type_def MutableInfo_of_def good_info_def norm_info_def
      encodable_BigInt_iff)

interpretation mainblock: rlp_struct MainBlockInfo_val MainBlockInfo_type MainBlockInfo_of "\<lambda>_. True" id
  by unfold_locales (simp_all add: MainBlockInfo_val_def MainBlockInfo_type_def MainBlockInfo_of_def)

definition norm_tail :: "TailMainBlockInfo \<Rightarrow> TailMainBlockInfo" where
  "norm_tail m = m\<lparr>tmCumulativeDiff := Some (case tmCumulativeDiff m of None \<Rightarrow> 0 | Some d \<Rightarrow> d)\<rparr>"

definition good_tail :: "TailMainBlockInfo \<Rightarrow> bool" where
  "good_tail m \<longleftrightarrow> (\<forall>d. tmCumulativeDiff m = Some d \<longrightarrow> 0 \<le> d)"

interpretation tailinfo: rlp_struct TailMainBlockInfo_val TailMainBlockInfo_type TailMainBlockInfo_of good_tail norm_tail
  by unfold_locales
    (simp_all add: TailMainBlockInfo_val_def TailMainBlockInfo_type_def TailMainBlockInfo_of_def
      good_tail_def norm_tail_def encodable_BigInt_iff)

definition norm_log :: "Log \<Rightarrow> Log" where
  "norm_log l = l\<lparr>logBlockNumber := 0, logTxHash := 0, logTxIndex := 0, logBlockHash := 0, logIndex := 0,
     Removed := False\<rparr>"

interpretation loginfo: rlp_struct Log_val Log_type Log_of "\<lambda>_. True" norm_log
  by unfold_locales (simp_all add: Log_val_def Log_type_def Log_of_def norm_log_def)

lemma word_of_be_fixed [simp]:
  "word_of_nat (be_val (be_fixed 256 (unat b))) = (b :: 2048 word)"
  "word_of_nat (be_val (be_fixed 8 (unat n))) = (n :: u64)"
  using unsigned_less [of b, where ?'a = nat] unsigned_less [of n, where ?'a = nat]
  by (simp_all add: be_val_be_fixed)

interpretation receipt: rlp_struct Receipt_val Receipt_type Receipt_of "\<lambda>_. True"
  "\<lambda>r. r\<lparr>Logs := map norm_log (Logs r)\<rparr>"
proof unfold_locales
  fix r :: Receipt
  show "has_type Receipt_type (Receipt_val r)"
    using loginfo.typed by (auto simp: Receipt_type_def Receipt_val_def)
  show "encodable (Receipt_val r)"
    using loginfo.good_encodable by (auto simp: Receipt_val_def)
  show "Receipt_of (canon (Receipt_val r)) = r\<lparr>Logs := map norm_log (Logs r)\<rparr>"
    using loginfo.of_canon by (simp add: Receipt_val_def Receipt_of_def comp_def)
qed

definition good_header :: "BlockHeader \<Rightarrow> bool" where
  "good_header h \<longleftrightarrow> 0 \<le> GasPrice h"

interpretation header: rlp_struct BlockHeader_val BlockHeader_type BlockHeader_of good_header id
  by unfold_locales (simp_all add: BlockHeader_val_def BlockHeader_type_def BlockHeader_of_def good_header_def)

interpretation txout: rlp_struct TxOut_val TxOut_type TxOut_of "\<lambda>out. 0 \<le> Amount out" id
  by unfold_locales (simp_all add: TxOut_val_def TxOut_type_def TxOut_of_def)

definition good_tx :: "TxBlock \<Rightarrow> bool" where
  "good_tx tx \<longleftrightarrow> good_header (txHeader tx) \<and> (\<forall>out \<in> set (Outs tx). 0 \<le> Amount out) \<and>
     0 \<le> txV tx \<and> 0 \<le> txR tx \<and> 0 \<le> txS tx"

definition norm_tx :: "TxBlock \<Rightarrow> TxBlock" where
  "norm_tx tx = tx\<lparr>txSender := None, txInfo := zeroInfo, txHash := None\<rparr>"

interpretation txblock: rlp_struct "TxBlock_data True" TxBlock_type TxBlock_of good_tx norm_tx
proof unfold_locales
  fix tx :: TxBlock
  show "has_type TxBlock_type (TxBlock_data True tx)"
    using header.typed txout.typed by (auto simp: TxBlock_type_def TxBlock_data_def)
  assume good: "good_tx tx"
  show "encodable (TxBlock_data True tx)"
    using good header.good_encodable txout.good_encodable by (auto simp: TxBlock_data_def good_tx_def)
  have "map (TxOut_of \<circ> canon \<circ> TxOut_val) (Outs tx) = Outs tx"
    using good txout.of_canon by (intro map_idI) (simp add: good_tx_def)
  then show "TxBlock_of (canon (TxBlock_data True tx)) = norm_tx tx"
    using good header.of_canon by (simp add: TxBlock_data_def TxBlock_of_def good_tx_def norm_tx_def comp_def)
qed

definition good_mb :: "MinerBlock \<Rightarrow> bool" where
  "good_mb mb \<longleftrightarrow> good_header (mbHeader mb) \<and> 0 \<le> mbV mb \<and> 0 \<le> mbR mb \<and> 0 \<le> mbS mb"

definition norm_mb :: "MinerBlock \<Rightarrow> MinerBlock" where
  "norm_mb mb = mb\<lparr>mbSender := None, mbInfo := zeroInfo, mbHash := None\<rparr>"

interpretation minerblock: rlp_struct "MinerBlock_data True" MinerBlock_type MinerBlock_of good_mb norm_mb
proof unfold_locales
  fix mb :: MinerBlock
  show "has_type MinerBlock_type (MinerBlock_data True mb)"
    using header.typed by (auto simp: MinerBlock_type_def MinerBlock_data_def)
  assume good: "good_mb mb"
  show "encodable (MinerBlock_data True mb)"
    using good header.good_encodable by (auto simp: MinerBlock_data_def good_mb_def)
  show "MinerBlock_of (canon (MinerBlock_data True mb)) = norm_mb mb"
    using good header.of_canon by (simp add: MinerBlock_data_def MinerBlock_of_def good_mb_def norm_mb_def)
qed

definition norm_gb :: "GenesisBlock \<Rightarrow> GenesisBlock" where
  "norm_gb gb = gb\<lparr>gbInfo := zeroInfo, gbHash := None\<rparr>"

interpretation genesisblock: rlp_struct GenesisBlock_data GenesisBlock_type GenesisBlock_of
  "\<lambda>gb. good_header (gbHeader gb)" norm_gb
  using header.typed header.good_encodable header.of_canon
  by unfold_locales (simp_all add: GenesisBlock_type_def GenesisBlock_data_def GenesisBlock_of_def norm_gb_def)

end
