(* ===== verification/Block_Wire.thy ===== *)
theory Block_Wire
  imports Block_Interface
begin

text \<open>
  Properties of the blocks: the wire format round trip through \<open>BlockDecode\<close>, what validation
  guarantees, signatures, the memoised hash, difficulty and sender, and the status flags.
\<close>

section \<open>Dispatch on the type byte\<close>

lemma RLPList_enc_head:
  assumes "0 < n" and "n < 2 ^ 64"
  shows "RLPList (hd (enc_head 0xC0 0xF7 n)) = (True, length (enc_head 0xC0 0xF7 n) - 1)"
proof (cases "n < 56")
  case True
  then have "unat (0xC0 + word_of_nat n :: byte) = 0xC0 + n" by (simp add: unat_tag_add)
  with True assms show ?thesis by (simp add: RLPList_def enc_head_def word_less_nat_alt)
next
  case False
  define m where "m = length (be_min n)"
  have m: "0 < m" "m \<le> 8" using assms by (simp_all add: m_def length_be_min_le_iff)
  then have "unat (0xF7 + word_of_nat m :: byte) = 0xF7 + m" by (simp add: unat_tag_add)
  with False m show ?thesis
    by (simp add: RLPList_def enc_head_def word_less_nat_alt word_le_nat_alt flip: m_def)
qed

lemma index_append: "0 < length ys \<Longrightarrow> index (xs @ ys) (length xs) = Inr (hd ys)"
  by (cases ys) (simp_all add: index_def)

lemma hd_append_Inr: "xs \<noteq> [] \<Longrightarrow> index (xs @ ys) 0 = Inr (hd xs)"
  by (cases xs) (simp_all add: index_def)

lemma BlockDecode_type_enc:
  assumes "v = VList (VList (VUint ty # hs) # vs)" and "0 < ty" and "ty < 128" and "length (enc v) < 2 ^ 64"
  shows "BlockDecode_type (enc v) = Inr (ucast ty)"
proof -
  define q where "q = enc (VUint ty) @ concat (map enc hs)"
  define H1 where "H1 = enc_head 0xC0 0xF7 (length q)"
  define p where "p = H1 @ q @ concat (map enc vs)"
  define H0 where "H0 = enc_head 0xC0 0xF7 (length p)"
  have ty: "enc (VUint ty) = [ucast ty]" using assms(2,3) unfolding enc_VUint by simp
  have v: "enc v = H0 @ p" by (simp add: assms(1) p_def H0_def H1_def q_def enc_list_def)
  have ne: "H0 \<noteq> []" "H1 \<noteq> []" "q \<noteq> []" using ty by (simp_all add: H0_def H1_def q_def)
  have len: "length p < 2 ^ 64" "length q < 2 ^ 64" using assms(4) v by (simp_all add: p_def)
  have r0: "RLPList (hd H0) = (True, length H0 - 1)"
    using RLPList_enc_head [of "length p"] len ne by (simp add: H0_def p_def)
  have r1: "RLPList (hd H1) = (True, length H1 - 1)"
    using RLPList_enc_head [of "length q"] len ne by (simp add: H1_def)
  obtain a b where s: "length H0 = Suc a" "length H1 = Suc b" using ne by (cases H0; cases H1) auto
  have "index (enc v) 0 = Inr (hd H0)" using ne by (simp add: v hd_append_Inr)
  moreover have "index (enc v) (length H0) = Inr (hd H1)"
    using index_append [of p H0] ne by (simp add: v p_def)
  moreover have "index (enc v) (length H0 + length H1) = Inr (hd q)"
    using index_append [of "q @ concat (map enc vs)" "H0 @ H1"] ne by (simp add: v p_def)
  moreover have "hd q = ucast ty" using ty by (simp add: q_def)
  moreover have "length H0 - 1 < length (enc v)" "length H0 + (length H1 - 1) < length (enc v)"
    using ne by (simp_all add: v p_def flip: length_greater_0_conv)
  ultimately show ?thesis using r0 r1 s by (simp add: BlockDecode_type_def Let_def)
qed

section \<open>Wire round trip\<close>

fun good_block :: "Block \<Rightarrow> bool" where
  "good_block (BTx tx) = (good_tx tx \<and> BType (txHeader tx) = BlockTypeTx)"
| "good_block (BMiner mb) = (good_mb mb \<and> BType (mbHeader mb) = BlockTypeMiner)"
| "good_block (BGenesis gb) = (good_header (gbHeader gb) \<and> BType (gbHeader gb) = BlockTypeGenesis)"

fun norm_block :: "Block \<Rightarrow> Block" where
  "norm_block (BTx tx) = BTx (norm_tx tx)"
| "norm_block (BMiner mb) = BMiner (norm_mb mb)"
| "norm_block (BGenesis gb) = BGenesis (norm_gb gb)"

fun block_val :: "Block \<Rightarrow> rlp_val" where
  "block_val (BTx tx) = TxBlock_data True tx"
| "block_val (BMiner mb) = MinerBlock_data True mb"
| "block_val (BGenesis gb) = GenesisBlock_data gb"

abbreviation small_block :: "Block \<Rightarrow> bool" where
  "small_block b \<equiv> length (enc (block_val b)) < 2 ^ 64"

lemma GetRlp_enc: "good_block b \<Longrightarrow> small_block b \<Longrightarrow> GetRlp b = enc (block_val b)"
  by (cases b) (simp_all add: TxBlock_GetRlp_def MinerBlock_GetRlp_def GenesisBlock_GetRlp_def
      txblock.rlp_bytes_val minerblock.rlp_bytes_val genesisblock.rlp_bytes_val)

lemma BlockDecode_type_GetRlp:
  assumes "good_block b" and "small_block b"
  shows "BlockDecode_type (GetRlp b) = Inr (ucast (GetType b))"
proof -
  have "\<exists>hs vs. block_val b = VList (VList (VUint (GetType b) # hs) # vs)"
    by (cases b) (simp_all add: TxBlock_data_def MinerBlock_data_def GenesisBlock_data_def
        BlockHeader_val_def GetType_def)
  moreover have "0 < GetType b" "GetType b < 128" using assms(1) by (cases b; simp add: GetType_def)+
  ultimately show ?thesis
    using BlockDecode_type_enc [of "block_val b" "GetType b"] assms(2) GetRlp_enc [OF assms] by auto
qed

lemma BlockDecode_GetRlp_eq:
  assumes "good_block b" and "small_block b"
  shows "BlockDecode E (GetRlp b) =
    (case Validation E (norm_block b) of (None, b') \<Rightarrow> Inr b' | (Some e, _) \<Rightarrow> Inl e)"
proof (cases b)
  case (BTx tx)
  have "TxBlock_UnRlp E (TxBlock_GetRlp tx) =
      (case TxBlock_Validation E (norm_tx tx) of (Some e, _) \<Rightarrow> Inl e | (None, t) \<Rightarrow> Inr t)"
    using assms BTx by (simp add: TxBlock_UnRlp_def TxBlock_GetRlp_def txblock.decode_bytes txblock.of_canon)
  with BlockDecode_type_GetRlp [OF assms] assms BTx show ?thesis
    by (auto simp: BlockDecode_def GetType_def split: prod.split option.split)
next
  case (BMiner mb)
  have "MinerBlock_UnRlp E (MinerBlock_GetRlp mb) =
      (case MinerBlock_Validation E (norm_mb mb) of (Some e, _) \<Rightarrow> Inl e | (None, t) \<Rightarrow> Inr t)"
    using assms BMiner
    by (simp add: MinerBlock_UnRlp_def MinerBlock_GetRlp_def minerblock.decode_bytes minerblock.of_canon)
  with BlockDecode_type_GetRlp [OF assms] assms BMiner show ?thesis
    by (auto simp: BlockDecode_def GetType_def split: prod.split option.split)
next
  case (BGenesis gb)
  have "GenesisBlock_UnRlp (GenesisBlock_GetRlp gb) = Inr (norm_gb gb)"
    using assms BGenesis
    by (simp add: GenesisBlock_UnRlp_def GenesisBlock_GetRlp_def genesisblock.decode_bytes genesisblock.of_canon)
  with BlockDecode_type_GetRlp [OF assms] assms BGenesis show ?thesis
    by (simp add: BlockDecode_def GetType_def)
qed

text \<open>
  C24.  A block of any kind that was encoded with \<open>GetRlp\<close> is read back by \<open>BlockDecode\<close>: the type byte is
  found behind the two list headers whatever their length, the struct comes back with its caches and
  mutable information reset, and the result is the verdict of \<open>Validation\<close> on it.
\<close>

theorem BlockDecode_GetRlp:
  assumes "good_block b" and "length (enc (block_val b)) < 2 ^ 64"
  shows "BlockDecode E (GetRlp b) =
    (case Validation E (norm_block b) of (None, b') \<Rightarrow> Inr b' | (Some e, _) \<Rightarrow> Inl e)"
  using assms by (rule BlockDecode_GetRlp_eq)

theorem BlockDecode_GetRlp_witness:
  "\<forall>E. BlockDecode E (GetRlp (BGenesis
      \<lparr>gbHeader = \<lparr>BType = 3, BTime = 7, GasPrice = 0, GasLimit = 0\<rparr>, RootHash = 5, gbInfo = zeroInfo, gbHash = Some 9\<rparr>)) =
   Inr (BGenesis \<lparr>gbHeader = \<lparr>BType = 3, BTime = 7, GasPrice = 0, GasLimit = 0\<rparr>, RootHash = 5,
      gbInfo = zeroInfo, gbHash = None\<rparr>)"
proof -
  let ?b = "BGenesis \<lparr>gbHeader = \<lparr>BType = 3, BTime = 7, GasPrice = 0, GasLimit = 0\<rparr>, RootHash = 5,
    gbInfo = zeroInfo, gbHash = Some 9\<rparr>"
  have "length (enc (block_val ?b)) < 2 ^ 64"
    by (simp add: GenesisBlock_data_def BlockHeader_val_def enc_list_def enc_str_def enc_head_def
        be_min_pos [of 3] be_min_pos [of 7])
  then show ?thesis
    using BlockDecode_GetRlp [of ?b] by (simp add: good_header_def norm_gb_def)
qed

section \<open>Panics of the dispatcher\<close>

text \<open>
  The bounds checks of \<open>BlockDecode\<close> are off by one: each tests the index before the one it reads
  next.  The dispatcher panics exactly on the inputs whose first list header ends the data, and on
  those whose second header ends it.
\<close>

lemma BlockDecode_panics_iff:
  "BlockDecode_type rlpData = Inl Panic \<longleftrightarrow>
     rlpData = [] \<or>
     (let (isList, n) = RLPList (rlpData ! 0) in
      isList \<and> (length rlpData = n + 1 \<or>
        (n + 1 < length rlpData \<and>
         (let (isList1, n1) = RLPList (rlpData ! (n + 1)) in isList1 \<and> length rlpData = n + n1 + 2))))"
  by (auto simp: BlockDecode_type_def index_def Let_def split: prod.splits)

lemma BlockDecode_one_byte_panics: "BlockDecode E [0xC1] = Inl Panic"
  by (simp add: BlockDecode_def BlockDecode_type_def index_def RLPList_def)

section \<open>Validation\<close>

lemma links_repeat_iff: "links_repeat ls \<longleftrightarrow> \<not> distinct ls"
  by (induction ls) auto

lemma outs_total_eq: "outs_total outs = (\<Sum>out \<leftarrow> outs. Amount out)"
proof -
  have "foldl (\<lambda>amount out. amount + Amount out) a outs = a + (\<Sum>out \<leftarrow> outs. Amount out)" for a
    by (induction outs arbitrary: a) simp_all
  then show ?thesis by (simp add: outs_total_def)
qed

lemma check_outs_None_iff:
  "check_outs from c first outs = None \<longleftrightarrow>
     (\<forall>out \<in> set outs. Receiver out \<noteq> from \<and> (c \<or> (0 < Amount out \<and> first \<noteq> 0)))"
  by (induction outs) auto

lemma fst_case_err:
  "fst (case e of None \<Rightarrow> X | Some m \<Rightarrow> (Some m, t)) = None \<longleftrightarrow> e = None \<and> fst X = None"
  by (cases e) simp_all

lemma TxBlock_GetSender_sel [simp]:
  "Outs (snd (TxBlock_GetSender E tx)) = Outs tx" "Payload (snd (TxBlock_GetSender E tx)) = Payload tx"
  "txLinks (snd (TxBlock_GetSender E tx)) = txLinks tx" "txHeader (snd (TxBlock_GetSender E tx)) = txHeader tx"
  by (simp_all add: TxBlock_GetSender_def split: option.split sum.split)

text \<open>What an accepted transaction block satisfies.\<close>

definition tx_wellformed :: "env \<Rightarrow> address \<Rightarrow> TxBlock \<Rightarrow> bool" where
  "tx_wellformed E from tx \<longleftrightarrow>
     GasPriceMin \<le> GasPrice (txHeader tx) \<and> 0 < GasLimit (txHeader tx) \<and>
     GenesisTime E \<le> BTime (txHeader tx) \<and> BTime (txHeader tx) \<le> now E + 250 \<and>
     txLinks tx \<noteq> [] \<and> length (txLinks tx) \<le> MaxLinksNum \<and> distinct (txLinks tx) \<and>
     (\<Sum>out \<leftarrow> Outs tx. Amount out) < GlobalTosTotal \<and>
     (\<forall>out \<in> set (Outs tx). Receiver out \<noteq> from) \<and>
     (if Payload tx \<noteq> [] then length (Payload tx) \<le> PayloadLenLimit \<and> length (Outs tx) \<le> 1
      else Outs tx \<noteq> [] \<and> length (Outs tx) \<le> MaxTransNum \<and> Receiver (hd (Outs tx)) \<noteq> 0 \<and>
           (\<forall>out \<in> set (Outs tx). 0 < Amount out))"

lemma TxBlock_Validation_None:
  "fst (TxBlock_Validation E tx) = None \<longleftrightarrow>
     (\<exists>from. fst (TxBlock_GetSender E tx) = Inr from \<and> tx_wellformed E from tx)"
proof (cases "TxBlock_GetSender E tx")
  case (Pair r tx')
  have sel: "Outs tx' = Outs tx" "Payload tx' = Payload tx" "txLinks tx' = txLinks tx"
    using TxBlock_GetSender_sel [of E tx] Pair by simp_all
  show ?thesis
  proof (cases r)
    case (Inr a)
    then show ?thesis
      using Pair sel
      by (cases "Outs tx")
        (auto simp: TxBlock_Validation_def Let_def tx_wellformed_def check_outs_None_iff links_repeat_iff
          outs_total_eq word_gt_0 not_less not_le fst_case_err simp del: check_outs.simps)
  qed (use Pair in \<open>auto simp: TxBlock_Validation_def Let_def\<close>)
qed

text \<open>
  \<open>TxBlock.Validation\<close> accepts a block exactly when its sender can be recovered and the block is
  well formed for that sender: fee and time limits, one to three distinct links, a total below the
  global supply, no output to the sender, and for a plain transfer one to three positive outputs whose
  first receiver is not the zero address.
\<close>

theorem TxBlock_Validation_iff:
  "fst (TxBlock_Validation E tx) = None \<longleftrightarrow>
     (\<exists>from. fst (TxBlock_GetSender E tx) = Inr from \<and> tx_wellformed E from tx)"
  by (rule TxBlock_Validation_None)

section \<open>Signatures\<close>

lemma be_val_zeros: "be_val (replicate k 0 @ b) = be_val b"
proof (induction b rule: rev_induct)
  case Nil
  show ?case by (induction k) (simp_all flip: replicate_append_same)
next
  case (snoc x b)
  then show ?case by (simp flip: append_assoc)
qed

lemma leftpad_be_min: "length b = n \<Longrightarrow> leftpad n (be_min (be_val b)) = b"
proof -
  assume len: "length b = n"
  define k where "k = length (takeWhile (\<lambda>x. x = 0) b)"
  define c where "c = dropWhile (\<lambda>x. x = 0) b"
  have z: "takeWhile (\<lambda>x. x = 0) b = replicate k 0"
    by (rule replicate_eqI) (auto simp: k_def dest: set_takeWhileD)
  have b: "b = replicate k 0 @ c" unfolding c_def z [symmetric] by simp
  have "be_min (be_val b) = be_min (be_val c)" by (subst b) (simp add: be_val_zeros)
  also have "\<dots> = c" using hd_dropWhile [of "\<lambda>x. x = 0" b] by (intro be_min_be_val) (simp add: c_def)
  finally have "be_min (be_val b) = c" .
  moreover have "n - length c = k" using len by (subst (asm) b) simp
  ultimately show ?thesis using b by (simp add: leftpad_def)
qed

text \<open>What \<open>crypto.Sign\<close> and \<open>crypto.Ecrecover\<close> promise for one hash: a recoverable signature in range.\<close>

definition signs :: "env \<Rightarrow> (hash \<Rightarrow> err + bytes) \<Rightarrow> hash \<Rightarrow> bytes \<Rightarrow> bool" where
  "signs E sign h pub \<longleftrightarrow>
     (\<exists>sig. sign h = Inr sig \<and> length sig = 65 \<and> ecrecover E h sig = Inr pub \<and>
        (sig ! 64 = 0 \<or> sig ! 64 = 1) \<and>
        0 < be_val (take 32 sig) \<and> int (be_val (take 32 sig)) < secp256k1N \<and>
        0 < be_val (take 32 (drop 32 sig)) \<and> int (be_val (take 32 (drop 32 sig))) < secp256k1N) \<and>
     pub \<noteq> [] \<and> hd pub = 4"

lemma recoverPlain_SignByHash:
  assumes "signs E sign h pub"
  shows "\<exists>r s v. SignByHash sign h = Inr (r, s, v) \<and> recoverPlain E h r s v = Inr (ucast (keccak E (drop 1 pub)))"
proof -
  obtain sig where sig: "sign h = Inr sig" "length sig = 65" "ecrecover E h sig = Inr pub"
    "sig ! 64 = 0 \<or> sig ! 64 = 1"
    "0 < be_val (take 32 sig)" "int (be_val (take 32 sig)) < secp256k1N"
    "0 < be_val (take 32 (drop 32 sig))" "int (be_val (take 32 (drop 32 sig))) < secp256k1N"
    using assms by (auto simp: signs_def)
  have pub: "pub \<noteq> []" "pub ! 0 = 4" using assms by (auto simp: signs_def hd_conv_nth)
  have v: "\<bar>int (be_val [sig ! 64 + 27])\<bar> < 2 ^ 8" "(word_of_int (int (be_val [sig ! 64 + 27])) :: byte) - 27 = sig ! 64"
    using sig(4) by auto
  have "drop 64 sig = [sig ! 64]" using sig(2) Cons_nth_drop_Suc [of 64 sig] by simp
  then have "sig = take 32 sig @ take 32 (drop 32 sig) @ [sig ! 64]"
    using append_take_drop_id [of 32 sig] append_take_drop_id [of 32 "drop 32 sig"] by simp
  moreover have "leftpad 32 (be_min (be_val (take 32 sig))) = take 32 sig"
    "leftpad 32 (be_min (be_val (take 32 (drop 32 sig)))) = take 32 (drop 32 sig)"
    using sig(2) by (simp_all add: leftpad_be_min)
  ultimately have "leftpad 32 (be_min (be_val (take 32 sig))) @
      leftpad 32 (be_min (be_val (take 32 (drop 32 sig)))) @ [sig ! 64] = sig" by simp
  then show ?thesis
    using sig pub v
    by (simp add: SignByHash_def SignatureValues_def recoverPlain_def ValidateSignatureValues_def Let_def)
qed

text \<open>
  C38.  Signing a transaction block and then recovering its sender gives the signer's address: \<open>Sign\<close>
  stores \<open>R\<close>, \<open>S\<close>, \<open>V\<close> so that \<open>recoverPlain\<close> rebuilds the very signature, for any signer and recovery
  function that agree on the signed hash.
\<close>

theorem TxBlock_Sign_GetSender:
  assumes "signs E sign (rlpHash E (TxBlock_data False tx)) pub" and "txSender tx = None"
  shows "\<exists>tx'. TxBlock_Sign E sign tx = Inr tx' \<and>
    fst (TxBlock_GetSender E tx') = Inr (ucast (keccak E (drop 1 pub)))"
proof -
  obtain r s v where rsv: "SignByHash sign (rlpHash E (TxBlock_data False tx)) = Inr (r, s, v)"
    "recoverPlain E (rlpHash E (TxBlock_data False tx)) r s v = Inr (ucast (keccak E (drop 1 pub)))"
    using recoverPlain_SignByHash [OF assms(1)] by blast
  have "TxBlock_data False (tx\<lparr>txR := r, txS := s, txV := v\<rparr>) = TxBlock_data False tx"
    by (simp add: TxBlock_data_def)
  with rsv assms(2) show ?thesis by (simp add: TxBlock_Sign_def TxBlock_GetSender_def)
qed

definition sample_env :: env where
  "sample_env = \<lparr>keccak = (\<lambda>b. word_of_nat (be_val b)), ecrecover = (\<lambda>h sig. Inr [4, 1]), now = 5000, GenesisTime = 0\<rparr>"

definition sample_sign :: "hash \<Rightarrow> err + bytes" where
  "sample_sign h = Inr (replicate 30 0 @ [1, 9] @ replicate 31 0 @ [1] @ [0])"

definition sample_header :: BlockHeader where
  "sample_header = \<lparr>BType = 2, BTime = 4000, GasPrice = 0, GasLimit = 0\<rparr>"

definition sample_tx :: TxBlock where
  "sample_tx = \<lparr>txHeader = sample_header, txLinks = [3], AccountNonce = 0, Outs = [], Payload = [1],
     txV = 0, txR = 0, txS = 0, txSender = None, txInfo = zeroInfo, txHash = None\<rparr>"

definition sample_mb :: MinerBlock where
  "sample_mb = \<lparr>mbHeader = sample_header, mbLinks = [3], Miner = 1, Nonce = 0,
     mbV = 0, mbR = 0, mbS = 0, mbSender = None, mbInfo = zeroInfo, mbHash = None\<rparr>"

lemma be_val_sample: "be_val (replicate 30 0 @ [1, 9]) = 265" "be_val (replicate 31 0 @ [1]) = 1"
  by (simp_all only: be_val_zeros) (simp_all add: be_val_def)

lemma take_sample:
  "take 32 (replicate 30 0 @ [1, 9] @ replicate 31 0 @ [1] @ [0 :: byte]) = replicate 30 0 @ [1, 9]"
  "take 32 (drop 32 (replicate 30 0 @ [1, 9] @ replicate 31 0 @ [1] @ [0 :: byte])) = replicate 31 0 @ [1]"
  by (simp_all add: take_Cons' drop_Cons')

lemma signs_sample: "signs sample_env sample_sign h [4, 1]"
  unfolding signs_def
proof (intro conjI exI [of _ "replicate 30 0 @ [1, 9] @ replicate 31 0 @ [1] @ [0]"])
qed (simp_all only: take_sample be_val_sample,
  simp_all add: sample_env_def sample_sign_def secp256k1N_def nth_append)

theorem TxBlock_Sign_GetSender_witness:
  "\<exists>tx'. TxBlock_Sign sample_env sample_sign sample_tx = Inr tx' \<and>
     fst (TxBlock_GetSender sample_env tx') = Inr 1"
  using TxBlock_Sign_GetSender [OF signs_sample, of sample_tx]
  by (simp add: sample_tx_def sample_env_def)

text \<open>
  C39.  A miner block signed by \<open>MinerBlock.Sign\<close> never validates once the signature's \<open>r\<close> exceeds one
  byte: \<open>Sign\<close> assigns the results \<open>r, s, v\<close> to the fields \<open>V, R, S\<close>, so the recovery reads \<open>r\<close> as the
  recovery id and refuses it.
\<close>

theorem MinerBlock_Sign_fails_Validation:
  assumes "sign (rlpHash E (MinerBlock_data False mb)) = Inr sig" and "256 \<le> be_val (take 32 sig)"
    and "MinerBlock_Sign E sign mb = Inr mb'" and "mbSender mb = None"
  shows "fst (MinerBlock_Validation E mb') \<noteq> None"
proof -
  obtain s v where mb': "mb' = mb\<lparr>mbV := int (be_val (take 32 sig)), mbR := s, mbS := v\<rparr>"
    using assms(1,3) by (auto simp: MinerBlock_Sign_def SignByHash_def SignatureValues_def split: if_splits)
  have "recoverPlain E h r s (mbV mb') = Inl ErrInvalidSig" for h r s
    using assms(2) by (simp add: mb' recoverPlain_def)
  moreover have "mbSender mb' = None" using assms(4) by (simp add: mb')
  ultimately have "\<exists>e m. MinerBlock_GetSender E mb' = (Inl e, m)"
    by (simp add: MinerBlock_GetSender_def Let_def)
  then show ?thesis by (auto simp: MinerBlock_Validation_def Let_def)
qed

theorem MinerBlock_Sign_fails_Validation_witness:
  "\<exists>mb'. MinerBlock_Sign sample_env sample_sign sample_mb = Inr mb' \<and>
     fst (MinerBlock_Validation sample_env mb') \<noteq> None"
proof -
  obtain mb' where m: "MinerBlock_Sign sample_env sample_sign sample_mb = Inr mb'"
    by (simp add: MinerBlock_Sign_def SignByHash_def sample_sign_def SignatureValues_def)
  have "256 \<le> be_val (take 32 (replicate 30 0 @ [1, 9] @ replicate 31 0 @ [1] @ [0 :: byte]))"
    by (simp only: take_sample be_val_sample)
  from MinerBlock_Sign_fails_Validation [OF _ this m] m show ?thesis
    by (simp add: sample_sign_def sample_mb_def)
qed

section \<open>Memoised values\<close>

definition block_hash :: "env \<Rightarrow> Block \<Rightarrow> hash" where
  "block_hash E b = rlpHash E (block_val b)"

text \<open>A cached hash is the hash of the present contents.\<close>

fun hash_coherent :: "env \<Rightarrow> Block \<Rightarrow> bool" where
  "hash_coherent E (BTx tx) = (txHash tx = None \<or> txHash tx = Some (block_hash E (BTx tx)))"
| "hash_coherent E (BMiner mb) = (mbHash mb = None \<or> mbHash mb = Some (block_hash E (BMiner mb)))"
| "hash_coherent E (BGenesis gb) = (gbHash gb = None \<or> gbHash gb = Some (block_hash E (BGenesis gb)))"

lemma block_val_upd [simp]:
  "TxBlock_data w (tx\<lparr>txHash := h\<rparr>) = TxBlock_data w tx"
  "TxBlock_data w (tx\<lparr>txSender := a\<rparr>) = TxBlock_data w tx"
  "TxBlock_data w (tx\<lparr>txInfo := m\<rparr>) = TxBlock_data w tx"
  "MinerBlock_data w (mb\<lparr>mbHash := h\<rparr>) = MinerBlock_data w mb"
  "MinerBlock_data w (mb\<lparr>mbSender := a\<rparr>) = MinerBlock_data w mb"
  "MinerBlock_data w (mb\<lparr>mbInfo := m\<rparr>) = MinerBlock_data w mb"
  "GenesisBlock_data (gb\<lparr>gbHash := h\<rparr>) = GenesisBlock_data gb"
  "GenesisBlock_data (gb\<lparr>gbInfo := m\<rparr>) = GenesisBlock_data gb"
  by (simp_all add: TxBlock_data_def MinerBlock_data_def GenesisBlock_data_def)

lemma block_val_SetMutableInfo [simp]: "block_val (SetMutableInfo m b) = block_val b"
  by (cases b) simp_all

lemma block_val_norm [simp]: "block_val (norm_block b) = block_val b"
  by (cases b) (simp_all add: norm_tx_def norm_mb_def norm_gb_def)

lemma block_hash_SetMutableInfo [simp]: "block_hash E (SetMutableInfo m b) = block_hash E b"
  by (simp add: block_hash_def)

lemma block_hash_norm [simp]: "block_hash E (norm_block b) = block_hash E b"
  by (simp add: block_hash_def)

lemma hash_coherent_SetMutableInfo [simp]: "hash_coherent E (SetMutableInfo m b) = hash_coherent E b"
  by (cases b) (simp_all add: block_hash_def)

lemma hash_coherent_norm [simp]: "hash_coherent E (norm_block b)"
  by (cases b) (simp_all add: norm_tx_def norm_mb_def norm_gb_def)

lemma GetHash_coherent:
  assumes "hash_coherent E b"
  shows "fst (GetHash E b) = block_hash E b" and "hash_coherent E (snd (GetHash E b))"
    and "block_val (snd (GetHash E b)) = block_val b" and "GetMutableInfo (snd (GetHash E b)) = GetMutableInfo b"
  using assms
  by (cases b; auto simp: TxBlock_GetHash_def MinerBlock_GetHash_def GenesisBlock_GetHash_def
      block_hash_def Let_def)+

lemma GetSender_keeps:
  "block_val (snd (GetSender E b)) = block_val b"
  "GetMutableInfo (snd (GetSender E b)) = GetMutableInfo b"
  "hash_coherent E (snd (GetSender E b)) = hash_coherent E b"
  by (cases b; simp add: TxBlock_GetSender_def MinerBlock_GetSender_def Let_def block_hash_def
      split: option.split sum.split)+

lemma if_cases: "(c \<Longrightarrow> P x) \<Longrightarrow> (\<not> c \<Longrightarrow> P y) \<Longrightarrow> P (if c then x else y)"
  by simp

lemma TxBlock_Validation_block:
  "snd (TxBlock_Validation E tx) = tx \<or> snd (TxBlock_Validation E tx) = snd (TxBlock_GetSender E tx)"
  unfolding TxBlock_Validation_def Let_def
  by (rule if_cases [of _ "\<lambda>p. snd p = tx \<or> snd p = snd (TxBlock_GetSender E tx)"], simp)+
    (simp split: prod.split sum.split option.split)

lemma Validation_keeps:
  "block_val (snd (Validation E b)) = block_val b"
  "GetMutableInfo (snd (Validation E b)) = GetMutableInfo b"
  "hash_coherent E (snd (Validation E b)) = hash_coherent E b"
proof -
  have "snd (Validation E b) = b \<or> snd (Validation E b) = snd (GetSender E b)"
  proof (cases b)
    case (BTx tx)
    then show ?thesis using TxBlock_Validation_block by auto
  next
    case (BMiner mb)
    then show ?thesis
      by (cases "MinerBlock_GetSender E mb"; cases "fst (MinerBlock_GetSender E mb)")
        (auto simp: MinerBlock_Validation_def Let_def)
  qed simp
  with GetSender_keeps [of E b] show "block_val (snd (Validation E b)) = block_val b"
    "GetMutableInfo (snd (Validation E b)) = GetMutableInfo b"
    "hash_coherent E (snd (Validation E b)) = hash_coherent E b" by auto
qed

text \<open>
  The memo of \<open>MinerBlock.GetSender\<close> bypasses the check: after a first call that reported a conflict
  between the signature and the \<open>Miner\<close> field, the next call returns the recovered address.
\<close>

lemma MinerBlock_GetSender_twice:
  assumes "mbSender mb = None"
    and "recoverPlain E (rlpHash E (MinerBlock_data False mb)) (mbR mb) (mbS mb) (mbV mb) = Inr a"
    and "a \<noteq> Miner mb"
  shows "fst (MinerBlock_GetSender E mb) = Inl (Msg ''Signature conflicts with address.'') \<and>
    fst (MinerBlock_GetSender E (snd (MinerBlock_GetSender E mb))) = Inr a"
  using assms by (simp add: MinerBlock_GetSender_def Let_def)

section \<open>Status flags\<close>

lemma flag_test [simp]:
  "(s :: u64) AND 4 = 0 \<longleftrightarrow> \<not> bit s 2" "s AND 8 = 0 \<longleftrightarrow> \<not> bit s 3"
  "s AND 16 = 0 \<longleftrightarrow> \<not> bit s 4" "s AND 64 = 0 \<longleftrightarrow> \<not> bit s 6"
  using and_exp_eq_0_iff_not_bit [of s 2] and_exp_eq_0_iff_not_bit [of s 3]
    and_exp_eq_0_iff_not_bit [of s 4] and_exp_eq_0_iff_not_bit [of s 6] by simp_all

lemma flag_bits [simp]:
  "bit (4 :: int) n \<longleftrightarrow> n = 2" "bit (8 :: int) n \<longleftrightarrow> n = 3" "bit (16 :: int) n \<longleftrightarrow> n = 4"
  "bit (64 :: int) n \<longleftrightarrow> n = 6"
  using bit_exp_iff [of 2 n, where ?'a = int] bit_exp_iff [of 3 n, where ?'a = int]
    bit_exp_iff [of 4 n, where ?'a = int] bit_exp_iff [of 6 n, where ?'a = int] by simp_all

lemma flag_set [simp]:
  "bit (s OR 4) n \<longleftrightarrow> bit (s :: u64) n \<or> n = 2" "bit (s OR 8) n \<longleftrightarrow> bit s n \<or> n = 3"
  "bit (s OR 16) n \<longleftrightarrow> bit s n \<or> n = 4" "bit (s OR 64) n \<longleftrightarrow> bit s n \<or> n = 6"
  by (auto simp: bit_or_iff)

lemma flag_full: "(s :: u64) AND m = m \<longleftrightarrow> (\<forall>n<64. bit m n \<longrightarrow> bit s n)"
  by (auto simp: bit_eq_iff bit_and_iff)

lemma flag_eq:
  "(s :: u64) AND 64 = 64 \<longleftrightarrow> bit s 6" "s AND 8 = 8 \<longleftrightarrow> bit s 3"
  "s AND (16 OR 8) = (16 OR 8) \<longleftrightarrow> bit s 4 \<and> bit s 3"
  unfolding flag_full bit_or_iff by (auto dest: spec [of _ 3] spec [of _ 4])

text \<open>
  The status shown for a block: it is \<open>Pending\<close> until its confirm flag is set, then \<open>Accepted\<close> if it
  was applied and \<open>Rejected\<close> otherwise, and it counts as a main block exactly when it is also confirmed.
\<close>

theorem GetBlockStatus_spec:
  "statusText (GetBlockStatus s) =
     (if \<not> bit s 3 then ''Pending'' else if bit s 4 then ''Accepted'' else ''Rejected'')
   \<and> (IsMain (GetBlockStatus s) \<longleftrightarrow> bit s 6 \<and> bit s 3)"
  unfolding GetBlockStatus_def Let_def flag_eq by simp

end
