(* ===== verification/Storage.thy ===== *)
theory Storage
  imports Block_Wire
begin

text \<open>
  The block store of \<open>src/sdag/core/storage\<close> on the key-value interface of
  \<open>src/devbase/storage/tosdb\<close>: the key scheme, and reading and writing blocks, mutable information,
  main blocks, tails and receipts through their RLP codecs.  The database is the in-memory map of
  \<open>MemDatabase\<close>, with a predicate for the keys on which \<open>Put\<close> reports an error, as the disk-backed
  implementation can.  A locale states what a typed table promises its clients.
\<close>

section \<open>Key-value database\<close>

record Database =
  kv :: "bytes \<rightharpoonup> bytes"
  putFails :: "bytes \<Rightarrow> bool"
  idCount :: u64       \<comment> \<open>the package variables \<open>count\<close> and \<open>countTime\<close> of \<open>storage_index.go\<close>\<close>
  idTime :: u64

definition Put :: "bytes \<Rightarrow> bytes \<Rightarrow> Database \<Rightarrow> err + Database" where
  "Put key v db = (if putFails db key then Inl ErrPut else Inr (db\<lparr>kv := (kv db)(key \<mapsto> v)\<rparr>))"

definition Get :: "Database \<Rightarrow> bytes \<Rightarrow> err + bytes" where
  "Get db key = (case kv db key of Some v \<Rightarrow> Inr v | None \<Rightarrow> Inl ErrNotFound)"

definition Has :: "Database \<Rightarrow> bytes \<Rightarrow> bool" where
  "Has db key = (kv db key \<noteq> None)"

definition Delete :: "bytes \<Rightarrow> Database \<Rightarrow> Database" where
  "Delete key db = db\<lparr>kv := (kv db)(key := None)\<rparr>"

section \<open>Keys\<close>

text \<open>\<open>hexutil.EncodeUnit64ToByte\<close>: \<open>strconv.AppendUint(nil, i, 16)\<close>, hexadecimal text without padding.\<close>

definition hex_digit :: "nat \<Rightarrow> byte" where
  "hex_digit d = word_of_nat (if d < 10 then 48 + d else 87 + d)"

fun hex_text :: "nat \<Rightarrow> bytes" where
  "hex_text n = (if n < 16 then [hex_digit n] else hex_text (n div 16) @ [hex_digit (n mod 16)])"

declare hex_text.simps [simp del]

definition EncodeUnit64ToByte :: "u64 \<Rightarrow> bytes" where
  "EncodeUnit64ToByte i = hex_text (unat i)"

definition ascii :: "string \<Rightarrow> bytes" where
  "ascii s = map (\<lambda>c. word_of_nat (of_char c)) s"

definition blockLookUpKey :: "u64 \<Rightarrow> bytes" where
  "blockLookUpKey sl = ascii ''t'' @ EncodeUnit64ToByte sl"

definition nextId :: "env \<Rightarrow> Database \<Rightarrow> bytes \<times> Database" where
  "nextId E db =
     (let db' = (if idTime db \<noteq> now E then db\<lparr>idTime := now E, idCount := 0\<rparr>
                 else db\<lparr>idCount := idCount db + 1\<rparr>)
      in (EncodeUnit64ToByte (idTime db') @ EncodeUnit64ToByte (idCount db'), db'))"

definition blockKey :: "env \<Rightarrow> u64 \<Rightarrow> Database \<Rightarrow> bytes \<times> Database" where
  "blockKey E sl db =
     (let (countNum, db') = nextId E db in (blockLookUpKey sl @ countNum, db'))"

definition blockInfoKey :: "hash \<Rightarrow> bytes" where
  "blockInfoKey h = ascii ''i'' @ hash_bytes h"

definition mainBlockKey :: "u64 \<Rightarrow> bytes" where
  "mainBlockKey sl = ascii ''M'' @ EncodeUnit64ToByte sl"

definition tailChainInfoKey :: bytes where
  "tailChainInfoKey = ascii ''TailChainInfo''"

definition tailMainChainInfoKey :: bytes where
  "tailMainChainInfoKey = ascii ''TailMainChainInfo''"

definition ReceiptKey :: "hash \<Rightarrow> bytes" where
  "ReceiptKey h = ascii ''r'' @ hash_bytes h"

section \<open>Blocks\<close>

definition ReadBlockRlp :: "Database \<Rightarrow> hash \<Rightarrow> bytes" where
  "ReadBlockRlp db h = (case Get db (hash_bytes h) of Inr data \<Rightarrow> data | Inl _ \<Rightarrow> [])"

text \<open>\<open>None\<close> is the nil block; a decoding error is only logged, a panic of the decoder is not caught.\<close>

definition ReadBlock :: "env \<Rightarrow> Database \<Rightarrow> hash \<Rightarrow> err + Block option" where
  "ReadBlock E db h =
     (let data = ReadBlockRlp db h in
      if length data = 0 then Inr None
      else (case BlockDecode E data of
              Inl e \<Rightarrow> if e = Panic then Inl Panic else Inr None
            | Inr b \<Rightarrow> Inr (Some b)))"

definition HasBlock :: "Database \<Rightarrow> hash \<Rightarrow> bool" where
  "HasBlock db h = Has db (hash_bytes h)"

definition WriteBlockRlp :: "env \<Rightarrow> hash \<Rightarrow> u64 \<Rightarrow> bytes \<Rightarrow> Database \<Rightarrow> err + Database" where
  "WriteBlockRlp E h time blockRLP db =
     (let (key, db) = blockKey E (GetMainTime time) db in
      res_bind (Put key (hash_bytes h) db) (Put (hash_bytes h) blockRLP))"

definition WriteBlockMutableInfo :: "hash \<Rightarrow> MutableInfo \<Rightarrow> Database \<Rightarrow> err + Database" where
  "WriteBlockMutableInfo h info db = Put (blockInfoKey h) (GetMutableRlp info) db"

definition WriteBlockMutableInfoRlp :: "hash \<Rightarrow> bytes \<Rightarrow> Database \<Rightarrow> err + Database" where
  "WriteBlockMutableInfoRlp h rlp db = Put (blockInfoKey h) rlp db"

definition WriteBlock :: "env \<Rightarrow> Block \<Rightarrow> Database \<Rightarrow> err + Database" where
  "WriteBlock E b db =
     (let h = fst (GetHash E b) in
      res_bind (WriteBlockRlp E h (GetTime b) (GetRlp b) db)
        (WriteBlockMutableInfo h (GetMutableInfo b)))"

text \<open>The values found under a time slice's key prefix; the order is the iterator's.\<close>

definition ReadBlocksHashByTmSlice :: "Database \<Rightarrow> u64 \<Rightarrow> hash set" where
  "ReadBlocksHashByTmSlice db sl =
     {word_of_nat (be_val v) | k v. kv db k = Some v \<and> take (length (blockLookUpKey sl)) k = blockLookUpKey sl}"

definition ReadBlocks :: "Database \<Rightarrow> hash list \<Rightarrow> bytes list" where
  "ReadBlocks db hashes = concat (map (\<lambda>h. case Get db (hash_bytes h) of Inr d \<Rightarrow> [d] | Inl _ \<Rightarrow> []) hashes)"

definition ReadBlockMutableInfoRlp :: "Database \<Rightarrow> hash \<Rightarrow> err + bytes" where
  "ReadBlockMutableInfoRlp db h = Get db (blockInfoKey h)"

definition ReadBlockMutableInfo :: "Database \<Rightarrow> hash \<Rightarrow> err + MutableInfo" where
  "ReadBlockMutableInfo db h = res_bind (Get db (blockInfoKey h)) UnMutableRlp"

section \<open>Main blocks, tails, receipts\<close>

definition ReadMainBlock :: "Database \<Rightarrow> u64 \<Rightarrow> err + MainBlockInfo" where
  "ReadMainBlock db number = res_bind (Get db (mainBlockKey number)) MainBlockInfo_UnRlp"

definition WriteMainBlock :: "u64 \<Rightarrow> MainBlockInfo \<Rightarrow> Database \<Rightarrow> err + Database" where
  "WriteMainBlock number mb db = Put (mainBlockKey number) (MainBlockInfo_Rlp mb) db"

definition ReadTailBlockInfo :: "Database \<Rightarrow> err + TailMainBlockInfo" where
  "ReadTailBlockInfo db = res_bind (Get db tailChainInfoKey) TailMainBlockInfo_UnRlp"

definition WriteTailBlockInfo :: "TailMainBlockInfo \<Rightarrow> Database \<Rightarrow> err + Database" where
  "WriteTailBlockInfo tm db = Put tailChainInfoKey (TailMainBlockInfo_Rlp tm) db"

definition ReadTailMainBlockInfo :: "Database \<Rightarrow> err + TailMainBlockInfo" where
  "ReadTailMainBlockInfo db = res_bind (Get db tailMainChainInfoKey) TailMainBlockInfo_UnRlp"

definition WriteTailMainBlockInfo :: "TailMainBlockInfo \<Rightarrow> Database \<Rightarrow> err + Database" where
  "WriteTailMainBlockInfo tm db = Put tailMainChainInfoKey (TailMainBlockInfo_Rlp tm) db"

definition ReadReceiptInfo :: "Database \<Rightarrow> hash \<Rightarrow> err + Receipt" where
  "ReadReceiptInfo db h = res_bind (Get db (ReceiptKey h)) Receipt_UnRlp"

definition WriteReceiptInfo :: "hash \<Rightarrow> Receipt \<Rightarrow> Database \<Rightarrow> err + Database" where
  "WriteReceiptInfo h r db = Put (ReceiptKey h) (Receipt_Rlp r) db"

section \<open>Keys do not collide\<close>

lemma hex_text_not_Nil [simp]: "hex_text n \<noteq> []" "[] \<noteq> hex_text n"
  by (subst hex_text.simps; simp)+

lemma hex_digit_inject: "c < 16 \<Longrightarrow> d < 16 \<Longrightarrow> hex_digit c = hex_digit d \<longleftrightarrow> c = d"
  by (auto simp: hex_digit_def word_unat_eq_iff word_of_nat_unat_less split: if_splits)

lemma hex_text_inject: "hex_text m = hex_text n \<longleftrightarrow> m = n"
proof
  show "hex_text m = hex_text n \<Longrightarrow> m = n"
  proof (induction m arbitrary: n rule: hex_text.induct)
    case (1 m)
    show ?case
    proof (cases "m < 16 \<or> n < 16")
      case True
      with "1.prems" show ?thesis
        by (subst (asm) (1 2) hex_text.simps) (auto simp: hex_digit_inject split: if_splits)
    next
      case False
      with "1.prems" have "hex_text (m div 16) = hex_text (n div 16)" "hex_digit (m mod 16) = hex_digit (n mod 16)"
        by (subst (asm) (1 2) hex_text.simps; simp)+
      with "1.IH" False have "m div 16 = n div 16" "m mod 16 = n mod 16" by (simp_all add: hex_digit_inject)
      then show ?thesis by (metis div_mult_mod_eq)
    qed
  qed
qed simp

lemma length_hex_text_le: "n < 16 ^ Suc k \<Longrightarrow> length (hex_text n) \<le> Suc k"
proof (induction k arbitrary: n)
  case 0
  then show ?case by (subst hex_text.simps) simp
next
  case (Suc k)
  then have "n div 16 < 16 ^ Suc k" by (simp add: div_less_iff_less_mult)
  with Suc.IH show ?case by (subst hex_text.simps) simp
qed

lemma EncodeUnit64_inject [simp]: "EncodeUnit64ToByte a = EncodeUnit64ToByte b \<longleftrightarrow> a = b"
  by (simp add: EncodeUnit64ToByte_def hex_text_inject word_unat_eq_iff)

lemma length_EncodeUnit64: "0 < length (EncodeUnit64ToByte a)" "length (EncodeUnit64ToByte a) \<le> 16"
  using length_hex_text_le [of "unat a" 15] u64_unat_less [of a] by (simp_all add: EncodeUnit64ToByte_def)

lemmas key_defs = blockInfoKey_def mainBlockKey_def tailChainInfoKey_def tailMainChainInfoKey_def
  ReceiptKey_def ascii_def

lemma keys_inject [simp]:
  "blockInfoKey g = blockInfoKey h \<longleftrightarrow> g = h" "ReceiptKey g = ReceiptKey h \<longleftrightarrow> g = h"
  "mainBlockKey m = mainBlockKey n \<longleftrightarrow> m = n"
  by (simp_all add: key_defs)

lemma hash_key_neq: "length k \<noteq> 32 \<Longrightarrow> hash_bytes h \<noteq> k"
  by auto

lemma keys_disjoint [simp]:
  "hash_bytes h \<noteq> blockInfoKey g" "hash_bytes h \<noteq> ReceiptKey g" "hash_bytes h \<noteq> mainBlockKey n"
  "hash_bytes h \<noteq> tailChainInfoKey" "hash_bytes h \<noteq> tailMainChainInfoKey"
  "blockInfoKey g \<noteq> ReceiptKey h" "blockInfoKey g \<noteq> mainBlockKey n" "blockInfoKey g \<noteq> tailChainInfoKey"
  "blockInfoKey g \<noteq> tailMainChainInfoKey" "ReceiptKey h \<noteq> mainBlockKey n" "ReceiptKey h \<noteq> tailChainInfoKey"
  "ReceiptKey h \<noteq> tailMainChainInfoKey" "mainBlockKey n \<noteq> tailChainInfoKey"
  "mainBlockKey n \<noteq> tailMainChainInfoKey" "tailChainInfoKey \<noteq> tailMainChainInfoKey"
  using length_EncodeUnit64 [of n] by (intro hash_key_neq; simp add: key_defs)+ (simp_all add: key_defs)

lemmas keys_disjoint' [simp] = keys_disjoint [symmetric]

section \<open>Typed tables\<close>

text \<open>
  What the store promises for a table: a value that was written is read back (in the form the codec
  keeps), an entry under another key is untouched, and a failing write changes nothing.
\<close>

locale typed_table =
  fixes rd :: "Database \<Rightarrow> 'k \<Rightarrow> err + 'a" and wr :: "'k \<Rightarrow> 'a \<Rightarrow> Database \<Rightarrow> err + Database"
    and storable :: "'a \<Rightarrow> bool" and norm :: "'a \<Rightarrow> 'a"
  assumes read_write: "wr k x db = Inr db' \<Longrightarrow> storable x \<Longrightarrow> rd db' k = Inr (norm x)"
    and read_other: "wr k x db = Inr db' \<Longrightarrow> k' \<noteq> k \<Longrightarrow> rd db' k' = rd db k'"
begin

text \<open>After a sequence of writes an entry holds the last value written under its key.\<close>

lemma read_writes:
  assumes "fold_res (\<lambda>(k, x). wr k x) ws db = Inr db'" and "\<forall>(k, x) \<in> set ws. storable x"
  shows "rd db' k = (case map_of (rev ws) k of None \<Rightarrow> rd db k | Some x \<Rightarrow> Inr (norm x))"
  using assms
proof (induction ws arbitrary: db)
  case (Cons w ws)
  obtain j x where w: "w = (j, x)" by fastforce
  from Cons.prems obtain db1 where db1: "wr j x db = Inr db1" "fold_res (\<lambda>(k, x). wr k x) ws db1 = Inr db'"
    by (auto simp: w)
  have "rd db' k = (case map_of (rev ws) k of None \<Rightarrow> rd db1 k | Some x \<Rightarrow> Inr (norm x))"
    using Cons.IH [OF db1(2)] Cons.prems by auto
  then show ?case
    using read_write [OF db1(1)] read_other [OF db1(1)] Cons.prems
    by (auto simp: w map_add_def split: option.splits)
qed simp

end

lemma Put_Inr: "Put k v db = Inr db' \<longleftrightarrow> \<not> putFails db k \<and> db' = db\<lparr>kv := (kv db)(k \<mapsto> v)\<rparr>"
  by (auto simp: Put_def)

lemma Get_upd [simp]: "Get (db\<lparr>kv := (kv db)(k \<mapsto> v)\<rparr>) k' = (if k' = k then Inr v else Get db k')"
  by (simp add: Get_def)

abbreviation small_info :: "MutableInfo \<Rightarrow> bool" where
  "small_info m \<equiv> good_info m \<and> length (enc (MutableInfo_val m)) < 2 ^ 64"

abbreviation small_tail :: "TailMainBlockInfo \<Rightarrow> bool" where
  "small_tail m \<equiv> good_tail m \<and> length (enc (TailMainBlockInfo_val m)) < 2 ^ 64"

interpretation infos: typed_table ReadBlockMutableInfo WriteBlockMutableInfo small_info norm_info
  by unfold_locales
    (auto simp: ReadBlockMutableInfo_def WriteBlockMutableInfo_def Put_Inr UnMutableRlp_def GetMutableRlp_def
      minfo.round_trip)

interpretation mains: typed_table ReadMainBlock WriteMainBlock
  "\<lambda>mb. length (enc (MainBlockInfo_val mb)) < 2 ^ 64" id
  by unfold_locales
    (auto simp: ReadMainBlock_def WriteMainBlock_def Put_Inr MainBlockInfo_UnRlp_def MainBlockInfo_Rlp_def
      mainblock.round_trip)

interpretation receipts: typed_table ReadReceiptInfo WriteReceiptInfo
  "\<lambda>r. length (enc (Receipt_val r)) < 2 ^ 64" "\<lambda>r. r\<lparr>Logs := map norm_log (Logs r)\<rparr>"
  by unfold_locales
    (auto simp: ReadReceiptInfo_def WriteReceiptInfo_def Put_Inr Receipt_UnRlp_def Receipt_Rlp_def
      receipt.round_trip)

interpretation tail: typed_table "\<lambda>db (k :: unit). ReadTailBlockInfo db" "\<lambda>k. WriteTailBlockInfo" small_tail norm_tail
  by unfold_locales
    (auto simp: ReadTailBlockInfo_def WriteTailBlockInfo_def Put_Inr TailMainBlockInfo_UnRlp_def
      TailMainBlockInfo_Rlp_def tailinfo.round_trip)

interpretation mainTail: typed_table "\<lambda>db (k :: unit). ReadTailMainBlockInfo db" "\<lambda>k. WriteTailMainBlockInfo"
  small_tail norm_tail
  by unfold_locales
    (auto simp: ReadTailMainBlockInfo_def WriteTailMainBlockInfo_def Put_Inr TailMainBlockInfo_UnRlp_def
      TailMainBlockInfo_Rlp_def tailinfo.round_trip)

section \<open>Sizes of encodings\<close>

lemma length_enc_head: "n < 256 ^ k \<Longrightarrow> length (enc_head small large n) \<le> Suc k"
  using length_be_min_le_iff [of n k] by (simp add: enc_head_def)

lemma enc_str_length_le: "length b < 256 ^ 2 \<Longrightarrow> length (enc_str b) \<le> length b + 3"
  using length_enc_head [of "length b" 2 "0x80" "0xB7"] by (simp add: enc_str_def)

lemma length_enc_uint: "length (enc (VUint i)) \<le> 11"
  using length_be_min_le_iff [of "unat i" 8] u64_unat_less [of i] enc_str_length_le [of "be_min (unat i)"] by simp

lemma length_enc_diff: "(\<And>d. p = Some d \<Longrightarrow> 0 \<le> d \<and> d < 2 ^ 512) \<Longrightarrow> length (enc (VBigInt p)) \<le> 67"
proof (cases p)
  case (Some d)
  assume "\<And>d. p = Some d \<Longrightarrow> 0 \<le> d \<and> d < 2 ^ 512"
  with Some have "nat d < 256 ^ 64" by auto
  then have "length (be_min (nat d)) \<le> 64" by (simp add: length_be_min_le_iff)
  with Some enc_str_length_le [of "be_min (nat d)"] show ?thesis by simp
qed (simp add: enc_str_def enc_head_def)

lemma enc_list_length_le: "length p < 256 \<Longrightarrow> length (enc_list p) \<le> length p + 2"
  using length_enc_head [of "length p" 1 "0xC0" "0xF7"] by (simp add: enc_list_def)

section \<open>Frame conditions between tables\<close>

lemma ReadBlock_cong: "kv db (hash_bytes h) = kv db' (hash_bytes h) \<Longrightarrow> ReadBlock E db h = ReadBlock E db' h"
  by (simp add: ReadBlock_def ReadBlockRlp_def Get_def)

lemma ReadBlock_frame [simp]:
  "WriteBlockMutableInfo g m db = Inr db' \<Longrightarrow> ReadBlock E db' h = ReadBlock E db h"
  "WriteMainBlock n mb db = Inr db' \<Longrightarrow> ReadBlock E db' h = ReadBlock E db h"
  "WriteReceiptInfo g r db = Inr db' \<Longrightarrow> ReadBlock E db' h = ReadBlock E db h"
  "WriteTailBlockInfo tm db = Inr db' \<Longrightarrow> ReadBlock E db' h = ReadBlock E db h"
  "WriteTailMainBlockInfo tm db = Inr db' \<Longrightarrow> ReadBlock E db' h = ReadBlock E db h"
  by (auto intro!: ReadBlock_cong simp: WriteBlockMutableInfo_def WriteMainBlock_def WriteReceiptInfo_def
      WriteTailBlockInfo_def WriteTailMainBlockInfo_def Put_Inr)

lemma ReadBlockMutableInfo_frame [simp]:
  "WriteMainBlock n mb db = Inr db' \<Longrightarrow> ReadBlockMutableInfo db' h = ReadBlockMutableInfo db h"
  "WriteReceiptInfo g r db = Inr db' \<Longrightarrow> ReadBlockMutableInfo db' h = ReadBlockMutableInfo db h"
  "WriteTailBlockInfo tm db = Inr db' \<Longrightarrow> ReadBlockMutableInfo db' h = ReadBlockMutableInfo db h"
  "WriteTailMainBlockInfo tm db = Inr db' \<Longrightarrow> ReadBlockMutableInfo db' h = ReadBlockMutableInfo db h"
  by (auto simp: ReadBlockMutableInfo_def WriteMainBlock_def WriteReceiptInfo_def
      WriteTailBlockInfo_def WriteTailMainBlockInfo_def Put_Inr)

section \<open>Storing a block\<close>

lemma nextId_kv [simp]: "kv (snd (nextId E db)) = kv db" "putFails (snd (nextId E db)) = putFails db"
  by (simp_all add: nextId_def Let_def)

lemma blockKey_kv [simp]: "kv (snd (blockKey E s db)) = kv db" "putFails (snd (blockKey E s db)) = putFails db"
  by (simp_all add: blockKey_def split: prod.split) (metis nextId_kv snd_conv)+

lemma blockKey_fst: "\<exists>rest. fst (blockKey E s db) = blockLookUpKey s @ rest"
  by (simp add: blockKey_def split: prod.split)

lemma WriteBlockRlp_kv:
  assumes "WriteBlockRlp E h time rlp db = Inr db'"
  shows "kv db' = (kv db)(fst (blockKey E (GetMainTime time) db) \<mapsto> hash_bytes h, hash_bytes h \<mapsto> rlp)"
  using assms blockKey_kv [of E "GetMainTime time" db]
  by (cases "blockKey E (GetMainTime time) db")
    (auto simp: WriteBlockRlp_def Put_Inr res_bind_eq_Inr_iff simp del: blockKey_kv)

lemma WriteBlock_total:
  assumes "putFails db = (\<lambda>_. False)"
  shows "\<exists>db'. WriteBlock E b db = Inr db' \<and> putFails db' = (\<lambda>_. False)"
  using assms blockKey_kv(2) [of E "GetMainTime (GetTime b)" db]
  by (cases "blockKey E (GetMainTime (GetTime b)) db")
    (auto simp: WriteBlock_def WriteBlockRlp_def WriteBlockMutableInfo_def Put_def Let_def simp del: blockKey_kv)

lemma enc_block_not_Nil: "enc (block_val b) \<noteq> []"
  by (cases b) (simp_all add: TxBlock_data_def MinerBlock_data_def GenesisBlock_data_def enc_list_def)

lemma WriteBlock_reads:
  assumes w: "WriteBlock E b db = Inr db'" and coh: "hash_coherent E b" and good: "good_block b" "small_block b"
    and info: "small_info (GetMutableInfo b)" and valid: "Validation E (norm_block b) = (None, b')"
  shows "ReadBlock E db' (block_hash E b) = Inr (Some b')"
    and "ReadBlockMutableInfo db' (block_hash E b) = Inr (norm_info (GetMutableInfo b))"
proof -
  define h where "h = block_hash E b"
  obtain db1 where db1: "WriteBlockRlp E h (GetTime b) (GetRlp b) db = Inr db1"
    "WriteBlockMutableInfo h (GetMutableInfo b) db1 = Inr db'"
    using w GetHash_coherent(1) [OF coh] by (auto simp: WriteBlock_def h_def Let_def)
  have "kv db1 (hash_bytes h) = Some (GetRlp b)" using WriteBlockRlp_kv [OF db1(1)] by simp
  moreover have "GetRlp b \<noteq> []" using GetRlp_enc [OF good] enc_block_not_Nil by simp
  moreover have "BlockDecode E (GetRlp b) = Inr b'" using BlockDecode_GetRlp_eq [OF good] valid by simp
  ultimately have "ReadBlock E db1 h = Inr (Some b')" by (simp add: ReadBlock_def ReadBlockRlp_def Get_def)
  then show "ReadBlock E db' (block_hash E b) = Inr (Some b')" using db1(2) by (simp add: h_def)
  show "ReadBlockMutableInfo db' (block_hash E b) = Inr (norm_info (GetMutableInfo b))"
    using infos.read_write [OF db1(2)] info by (simp add: h_def)
qed

text \<open>
  C31.  A valid block written by \<open>WriteBlock\<close> is found under its hash: \<open>ReadBlock\<close> returns the same block
  (equal contents, hence equal hash) and \<open>ReadBlockMutableInfo\<close> the mutable information it carried, with
  nil difficulties as zero.
\<close>

theorem ReadBlock_WriteBlock:
  assumes "WriteBlock E b db = Inr db'" and "hash_coherent E b" and "good_block b" and "small_block b"
    and "small_info (GetMutableInfo b)" and "fst (Validation E (norm_block b)) = None"
  shows "\<exists>b'. ReadBlock E db' (fst (GetHash E b)) = Inr (Some b') \<and> block_val b' = block_val b \<and>
      fst (GetHash E b') = fst (GetHash E b) \<and>
      ReadBlockMutableInfo db' (fst (GetHash E b)) = Inr (norm_info (GetMutableInfo b))"
proof -
  define b' where "b' = snd (Validation E (norm_block b))"
  have v: "Validation E (norm_block b) = (None, b')" using assms(6) by (simp add: b'_def prod_eq_iff)
  have keeps: "block_val b' = block_val b" "hash_coherent E b'"
    using Validation_keeps [of E "norm_block b"] by (simp_all add: b'_def)
  then have "fst (GetHash E b') = block_hash E b" by (simp add: GetHash_coherent block_hash_def)
  with keeps WriteBlock_reads [OF assms(1-5) v] GetHash_coherent(1) [OF assms(2)] show ?thesis by auto
qed

definition empty_db :: Database where
  "empty_db = \<lparr>kv = Map.empty, putFails = (\<lambda>_. False), idCount = 0, idTime = 0\<rparr>"

definition sample_genesis :: Block where
  "sample_genesis = BGenesis \<lparr>gbHeader = \<lparr>BType = 3, BTime = 7, GasPrice = 0, GasLimit = 0\<rparr>, RootHash = 5,
     gbInfo = zeroInfo, gbHash = None\<rparr>"

lemma sample_genesis_ok:
  "good_block sample_genesis" "hash_coherent E sample_genesis" "small_block sample_genesis"
  "small_info (GetMutableInfo sample_genesis)" "fst (Validation E (norm_block sample_genesis)) = None"
  by (simp_all add: sample_genesis_def good_header_def good_info_def GenesisBlock_data_def BlockHeader_val_def
      enc_list_def enc_str_def enc_head_def be_min_pos [of 3] be_min_pos [of 7] MutableInfo_val_def zeroInfo_def)

theorem ReadBlock_WriteBlock_witness:
  "\<exists>db' b'. WriteBlock sample_env sample_genesis empty_db = Inr db' \<and>
     ReadBlock sample_env db' (fst (GetHash sample_env sample_genesis)) = Inr (Some b')"
proof -
  obtain db' where w: "WriteBlock sample_env sample_genesis empty_db = Inr db'"
    using WriteBlock_total [of empty_db] by (auto simp: empty_db_def)
  from ReadBlock_WriteBlock [OF w sample_genesis_ok(2,1,3-5)] w show ?thesis by blast
qed

section \<open>The time index\<close>

text \<open>
  Completeness of the time index: a block just written is among the hashes returned for its time
  slice.  (The converse fails: the slice number is written as hexadecimal text without padding, so the
  prefix of a slice also matches the keys of every slice whose text starts with it.)
\<close>

theorem ReadBlocksHashByTmSlice_WriteBlockRlp:
  assumes "WriteBlockRlp E h time rlp db = Inr db'" and "hash_bytes h \<noteq> fst (blockKey E (GetMainTime time) db)"
  shows "h \<in> ReadBlocksHashByTmSlice db' (GetMainTime time)"
proof -
  have "kv db' (fst (blockKey E (GetMainTime time) db)) = Some (hash_bytes h)"
    using WriteBlockRlp_kv [OF assms(1)] assms(2) by auto
  with blockKey_fst [of E "GetMainTime time" db] show ?thesis
    by (force simp: ReadBlocksHashByTmSlice_def)
qed

theorem ReadBlocksHashByTmSlice_WriteBlockRlp_witness:
  "\<exists>db'. WriteBlockRlp sample_env 5 2000 [1] empty_db = Inr db' \<and> 5 \<in> ReadBlocksHashByTmSlice db' (GetMainTime 2000)"
proof -
  have k: "fst (blockKey sample_env (GetMainTime 2000) empty_db) = ascii ''t'' @ hex_text 2 @ hex_text 5000 @ hex_text 0"
    by (simp add: blockKey_def nextId_def blockLookUpKey_def EncodeUnit64ToByte_def GetMainTime_def sample_env_def
        empty_db_def)
  have "hash_bytes 5 \<noteq> fst (blockKey sample_env (GetMainTime 2000) empty_db)"
    unfolding k by (rule hash_key_neq) (simp add: ascii_def hex_text.simps)
  moreover obtain db' where "WriteBlockRlp sample_env 5 2000 [1] empty_db = Inr db'"
    using blockKey_kv(2) [of sample_env "GetMainTime 2000" empty_db]
    by (cases "blockKey sample_env (GetMainTime 2000) empty_db")
      (auto simp: WriteBlockRlp_def Put_def empty_db_def simp del: blockKey_kv)
  ultimately show ?thesis using ReadBlocksHashByTmSlice_WriteBlockRlp by blast
qed

lemma ReadBlocksHashByTmSlice_leak:
  assumes "WriteBlockRlp E h time rlp db = Inr db'" and "hash_bytes h \<noteq> fst (blockKey E (GetMainTime time) db)"
    and "EncodeUnit64ToByte (GetMainTime time) = EncodeUnit64ToByte s @ ds"
  shows "h \<in> ReadBlocksHashByTmSlice db' s"
proof -
  have "kv db' (fst (blockKey E (GetMainTime time) db)) = Some (hash_bytes h)"
    using WriteBlockRlp_kv [OF assms(1)] assms(2) by auto
  moreover obtain rest where "fst (blockKey E (GetMainTime time) db) = blockLookUpKey s @ rest"
    using blockKey_fst [of E "GetMainTime time" db] assms(3) by (auto simp: blockLookUpKey_def)
  ultimately show ?thesis by (force simp: ReadBlocksHashByTmSlice_def)
qed

end
