(* ===== verification/State_Object.thy ===== *)
theory State_Object
  imports Block_Wire
begin

text \<open>
  The data of the account state of \<open>src/sdag/core/state\<close>: accounts, state objects, journal entries, the
  \<open>StateDB\<close> record and the methods of \<open>stateObject\<close> and \<open>journal\<close>.  A trie is the finite map it stores;
  \<open>accountRoot\<close> and \<open>storageRoot\<close> give its root hash, and the store maps root hashes to committed tries.
  Lookups in a loaded trie do not fail.  \<open>CodeHash\<close> is always 32 bytes long and is a \<open>hash\<close> here.
\<close>

section \<open>Data\<close>

record Account =
  acNonce :: u64
  Balance :: int
  Root :: hash
  CodeHash :: hash

definition Account_val :: "Account \<Rightarrow> rlp_val" where
  "Account_val a =
     VList [VUint (acNonce a), VBigInt (Some (Balance a)), VBytes (hash_bytes (Root a)), VBytes (hash_bytes (CodeHash a))]"

definition Account_type :: rlp_type where
  "Account_type = TStruct [TUint 64, TBigInt, hash_type, TBytes]"

definition Account_of :: "rlp_val \<Rightarrow> Account" where
  "Account_of v = \<lparr>acNonce = uint_of (fld 0 v), Balance = big_of (fld 1 v), Root = hash_of (fld 2 v), CodeHash = hash_of (fld 3 v)\<rparr>"

interpretation account: rlp_struct Account_val Account_type Account_of "\<lambda>a. 0 \<le> Balance a" id
  by unfold_locales (simp_all add: Account_val_def Account_type_def Account_of_def)

type_synonym storage_trie = "hash \<rightharpoonup> bytes"
type_synonym account_trie = "address \<rightharpoonup> bytes"

text \<open>\<open>state.Database\<close>: committed tries and contract code by hash.\<close>

record stateStore =
  tries :: "hash \<rightharpoonup> account_trie"
  storages :: "hash \<rightharpoonup> storage_trie"
  codes :: "hash \<rightharpoonup> bytes"

text \<open>The hash functions behind the state: of code, and of the contents of a trie.\<close>

record hashing =
  codeHashOf :: "bytes \<Rightarrow> hash"
  accountRoot :: "account_trie \<Rightarrow> hash"
  storageRoot :: "storage_trie \<Rightarrow> hash"

definition emptyCodeHash :: "hashing \<Rightarrow> hash" where
  "emptyCodeHash H = codeHashOf H []"

record stateObject =
  soAddress :: address
  soData :: Account
  soErr :: "err option"             \<comment> \<open>\<open>dbErr\<close>: the first error of a read, returned when the object is committed\<close>
  soTrie :: "storage_trie option"
  soCode :: "bytes option"
  cachedStorage :: "hash \<rightharpoonup> hash"
  dirtyStorage :: "hash \<rightharpoonup> hash"
  dirtyCode :: bool
  suicided :: bool
  deleted :: bool

datatype journalEntry =
    createObjectChange address
  | resetObjectChange stateObject
  | suicideChange address bool int
  | balanceChange address int
  | nonceChange address u64
  | storageChange address hash hash
  | codeChange address "bytes option" hash
  | refundChange u64
  | addLogChange hash
  | addPreimageChange hash
  | touchChange address

record StateDB =
  db :: stateStore
  strie :: account_trie
  stateObjects :: "address \<rightharpoonup> stateObject"
  stateObjectsDirty :: "address set"
  refund :: u64
  thash :: hash
  bhash :: hash
  txIndex :: u64
  logs :: "hash \<rightharpoonup> Log list"
  logSize :: u64
  preimages :: "hash \<rightharpoonup> bytes"
  entries :: "journalEntry list"     \<comment> \<open>\<open>journal.entries\<close>, oldest first\<close>
  dirties :: "address \<Rightarrow> nat"       \<comment> \<open>\<open>journal.dirties\<close>; an absent key counts zero\<close>
  validRevisions :: "(int \<times> nat) list"
  nextRevisionId :: int

section \<open>Journal\<close>

fun dirtied :: "journalEntry \<Rightarrow> address option" where
  "dirtied (createObjectChange a) = Some a"
| "dirtied (resetObjectChange prev) = None"
| "dirtied (suicideChange a p b) = Some a"
| "dirtied (balanceChange a p) = Some a"
| "dirtied (nonceChange a p) = Some a"
| "dirtied (storageChange a k p) = Some a"
| "dirtied (codeChange a c h) = Some a"
| "dirtied (refundChange p) = None"
| "dirtied (addLogChange h) = None"
| "dirtied (addPreimageChange h) = None"
| "dirtied (touchChange a) = Some a"

definition journal_append :: "journalEntry \<Rightarrow> StateDB \<Rightarrow> StateDB" where
  "journal_append e s =
     s\<lparr>entries := entries s @ [e],
       dirties := (case dirtied e of None \<Rightarrow> dirties s | Some a \<Rightarrow> (dirties s)(a := dirties s a + 1))\<rparr>"

definition journal_dirty :: "address \<Rightarrow> StateDB \<Rightarrow> StateDB" where
  "journal_dirty a s = s\<lparr>dirties := (dirties s)(a := dirties s a + 1)\<rparr>"

definition newJournal :: "StateDB \<Rightarrow> StateDB" where
  "newJournal s = s\<lparr>entries := [], dirties := (\<lambda>_. 0)\<rparr>"

section \<open>State objects\<close>

definition newObject :: "address \<Rightarrow> Account \<Rightarrow> stateObject" where
  "newObject a data =
     \<lparr>soAddress = a, soData = data, soErr = None, soTrie = None, soCode = None, cachedStorage = Map.empty,
      dirtyStorage = Map.empty, dirtyCode = False, suicided = False, deleted = False\<rparr>"

text \<open>\<open>Account{}\<close> after \<open>newObject\<close> has filled the nil balance and code hash.\<close>

definition emptyAccount :: "hashing \<Rightarrow> Account" where
  "emptyAccount H = \<lparr>acNonce = 0, Balance = 0, Root = 0, CodeHash = emptyCodeHash H\<rparr>"

definition so_empty :: "hashing \<Rightarrow> stateObject \<Rightarrow> bool" where
  "so_empty H obj \<longleftrightarrow> acNonce (soData obj) = 0 \<and> Balance (soData obj) = 0 \<and> CodeHash (soData obj) = emptyCodeHash H"

definition setBalance :: "int \<Rightarrow> stateObject \<Rightarrow> stateObject" where
  "setBalance amount obj = obj\<lparr>soData := (soData obj)\<lparr>Balance := amount\<rparr>\<rparr>"

definition setNonce :: "u64 \<Rightarrow> stateObject \<Rightarrow> stateObject" where
  "setNonce n obj = obj\<lparr>soData := (soData obj)\<lparr>acNonce := n\<rparr>\<rparr>"

definition setCode :: "hash \<Rightarrow> bytes option \<Rightarrow> stateObject \<Rightarrow> stateObject" where
  "setCode codeHash code obj = obj\<lparr>soCode := code, soData := (soData obj)\<lparr>CodeHash := codeHash\<rparr>, dirtyCode := True\<rparr>"

definition setState :: "hash \<Rightarrow> hash \<Rightarrow> stateObject \<Rightarrow> stateObject" where
  "setState key v obj =
     obj\<lparr>cachedStorage := (cachedStorage obj)(key \<mapsto> v), dirtyStorage := (dirtyStorage obj)(key \<mapsto> v)\<rparr>"

definition markSuicided :: "stateObject \<Rightarrow> stateObject" where
  "markSuicided obj = obj\<lparr>suicided := True\<rparr>"

definition setError :: "err \<Rightarrow> stateObject \<Rightarrow> stateObject" where
  "setError e obj = (if soErr obj = None then obj\<lparr>soErr := Some e\<rparr> else obj)"

lemma setError_sel [simp]:
  "soAddress (setError e obj) = soAddress obj" "soData (setError e obj) = soData obj" "soTrie (setError e obj) = soTrie obj"
  "soCode (setError e obj) = soCode obj" "cachedStorage (setError e obj) = cachedStorage obj" "dirtyStorage (setError e obj) = dirtyStorage obj"
  "dirtyCode (setError e obj) = dirtyCode obj" "suicided (setError e obj) = suicided obj" "deleted (setError e obj) = deleted obj"
  by (simp_all add: setError_def)

text \<open>
  \<open>getTrie\<close>: the trie under the account's root; when the store does not have it the error is remembered and the
  empty trie taken.  A trie is in the store as a whole or not at all, so reading an open one cannot fail.
\<close>

definition OpenStorageTrie :: "hashing \<Rightarrow> stateStore \<Rightarrow> hash \<Rightarrow> storage_trie option" where
  "OpenStorageTrie H st root =
     (if root = 0 \<or> root = storageRoot H Map.empty then Some Map.empty else storages st root)"

definition openStorage :: "hashing \<Rightarrow> stateStore \<Rightarrow> hash \<Rightarrow> storage_trie" where
  "openStorage H st root = (case OpenStorageTrie H st root of Some t \<Rightarrow> t | None \<Rightarrow> Map.empty)"

definition getTrie :: "hashing \<Rightarrow> stateStore \<Rightarrow> stateObject \<Rightarrow> storage_trie \<times> stateObject" where
  "getTrie H st obj =
     (case soTrie obj of
        Some t \<Rightarrow> (t, obj)
      | None \<Rightarrow>
          (case OpenStorageTrie H st (Root (soData obj)) of
             Some t \<Rightarrow> (t, obj\<lparr>soTrie := Some t\<rparr>)
           | None \<Rightarrow> (Map.empty, setError (Msg ''can't create storage trie'') (obj\<lparr>soTrie := Some Map.empty\<rparr>))))"

text \<open>The value a slot's trie entry denotes: the content of its RLP string, zero when absent or malformed.\<close>

definition slot_value :: "bytes option \<Rightarrow> hash" where
  "slot_value e =
     (case e of
        None \<Rightarrow> 0
      | Some b \<Rightarrow> if length b > 0 then
                    (case Split b of Inl _ \<Rightarrow> 0 | Inr (_, content, _) \<Rightarrow> word_of_nat (be_val content))
                  else 0)"

definition slot_error :: "bytes option \<Rightarrow> stateObject \<Rightarrow> stateObject" where
  "slot_error e obj =
     (case e of
        None \<Rightarrow> obj
      | Some b \<Rightarrow> if length b > 0 then (case Split b of Inl r \<Rightarrow> setError (RlpErr r) obj | Inr _ \<Rightarrow> obj) else obj)"

lemma slot_error_sel [simp]:
  "soAddress (slot_error v obj) = soAddress obj" "soData (slot_error v obj) = soData obj" "soTrie (slot_error v obj) = soTrie obj"
  "soCode (slot_error v obj) = soCode obj" "cachedStorage (slot_error v obj) = cachedStorage obj" "dirtyStorage (slot_error v obj) = dirtyStorage obj"
  "dirtyCode (slot_error v obj) = dirtyCode obj" "suicided (slot_error v obj) = suicided obj" "deleted (slot_error v obj) = deleted obj"
  by (simp_all add: slot_error_def split: option.split sum.split)

definition so_GetState :: "hashing \<Rightarrow> stateStore \<Rightarrow> hash \<Rightarrow> stateObject \<Rightarrow> hash \<times> stateObject" where
  "so_GetState H st key obj =
     (case cachedStorage obj key of
        Some v \<Rightarrow> (v, obj)
      | None \<Rightarrow>
          (let (t, obj) = getTrie H st obj; obj = slot_error (t key) obj; v = slot_value (t key)
           in (v, obj\<lparr>cachedStorage := (cachedStorage obj)(key \<mapsto> v)\<rparr>)))"

text \<open>\<open>GetCommittedState\<close> has the same body: it too answers from the cache that \<open>setState\<close> overwrites.\<close>

definition so_GetCommittedState :: "hashing \<Rightarrow> stateStore \<Rightarrow> hash \<Rightarrow> stateObject \<Rightarrow> hash \<times> stateObject" where
  "so_GetCommittedState H st key obj =
     (case cachedStorage obj key of
        Some v \<Rightarrow> (v, obj)
      | None \<Rightarrow>
          (let (t, obj) = getTrie H st obj; obj = slot_error (t key) obj; v = slot_value (t key)
           in (v, obj\<lparr>cachedStorage := (cachedStorage obj)(key \<mapsto> v)\<rparr>)))"

definition so_Code :: "hashing \<Rightarrow> stateStore \<Rightarrow> stateObject \<Rightarrow> bytes option \<times> stateObject" where
  "so_Code H st obj =
     (case soCode obj of
        Some c \<Rightarrow> (Some c, obj)
      | None \<Rightarrow>
          if CodeHash (soData obj) = emptyCodeHash H then (None, obj)
          else
            (case codes st (CodeHash (soData obj)) of
               Some c \<Rightarrow> (Some c, obj\<lparr>soCode := Some c\<rparr>)
             | None \<Rightarrow> (None, setError (Msg ''can't load code hash'') (obj\<lparr>soCode := None\<rparr>))))"

text \<open>\<open>updateTrie\<close> flushes the dirty slots; a zero value deletes the entry.\<close>

definition slot_bytes :: "hash \<Rightarrow> bytes" where
  "slot_bytes v = rlp_bytes (VBytes (dropWhile (\<lambda>b. b = 0) (hash_bytes v)))"

definition flush :: "(hash \<rightharpoonup> hash) \<Rightarrow> storage_trie \<Rightarrow> storage_trie" where
  "flush dirty t =
     (\<lambda>key. case dirty key of
              None \<Rightarrow> t key
            | Some v \<Rightarrow> if v = 0 then None else Some (slot_bytes v))"

definition updateTrie :: "hashing \<Rightarrow> stateStore \<Rightarrow> stateObject \<Rightarrow> storage_trie \<times> stateObject" where
  "updateTrie H st obj =
     (let (t, obj) = getTrie H st obj; t' = flush (dirtyStorage obj) t
      in (t', obj\<lparr>soTrie := Some t', dirtyStorage := Map.empty\<rparr>))"

definition updateRoot :: "hashing \<Rightarrow> stateStore \<Rightarrow> stateObject \<Rightarrow> stateObject" where
  "updateRoot H st obj =
     (let (t, obj) = updateTrie H st obj in obj\<lparr>soData := (soData obj)\<lparr>Root := storageRoot H t\<rparr>\<rparr>)"

definition deepCopy :: "stateObject \<Rightarrow> stateObject" where
  "deepCopy obj =
     (newObject (soAddress obj) (soData obj))
       \<lparr>soTrie := soTrie obj, soCode := soCode obj, dirtyStorage := dirtyStorage obj,
        cachedStorage := dirtyStorage obj, suicided := suicided obj, dirtyCode := dirtyCode obj,
        deleted := deleted obj\<rparr>"

end
