(* ===== verification/State_DB.thy ===== *)
theory State_DB
  imports State_Object
begin

text \<open>
  The operations of \<open>StateDB\<close> (\<open>src/sdag/core/state/statedb.go\<close>) and the undo actions of its journal
  (\<open>journal.go\<close>).  A method that goes through an object pointer updates the object held in the live map.
  The loops over Go maps, whose order is unspecified and whose rounds touch different accounts, are
  written pointwise.
\<close>

section \<open>Live objects\<close>

definition upd_obj :: "address \<Rightarrow> (stateObject \<Rightarrow> stateObject) \<Rightarrow> StateDB \<Rightarrow> StateDB" where
  "upd_obj a f s = s\<lparr>stateObjects := (stateObjects s)(a := map_option f (stateObjects s a))\<rparr>"

definition setStateObject :: "stateObject \<Rightarrow> StateDB \<Rightarrow> StateDB" where
  "setStateObject obj s = s\<lparr>stateObjects := (stateObjects s)(soAddress obj \<mapsto> obj)\<rparr>"

definition load_account :: "account_trie \<Rightarrow> address \<Rightarrow> Account option" where
  "load_account t a =
     (case t a of
        None \<Rightarrow> None
      | Some e \<Rightarrow> if length e = 0 then None
                  else (case DecodeBytes Account_type e of Inl _ \<Rightarrow> None | Inr v \<Rightarrow> Some (Account_of v)))"

definition getStateObject :: "address \<Rightarrow> StateDB \<Rightarrow> stateObject option \<times> StateDB" where
  "getStateObject a s =
     (case stateObjects s a of
        Some obj \<Rightarrow> if deleted obj then (None, s) else (Some obj, s)
      | None \<Rightarrow>
          (case load_account (strie s) a of
             None \<Rightarrow> (None, s)
           | Some data \<Rightarrow> let obj = newObject a data in (Some obj, setStateObject obj s)))"

definition createObject :: "hashing \<Rightarrow> address \<Rightarrow> StateDB \<Rightarrow> stateObject option \<times> StateDB" where
  "createObject H a s =
     (let (prev, s) = getStateObject a s;
          newobj = setNonce 0 (newObject a (emptyAccount H));
          s = journal_append (case prev of None \<Rightarrow> createObjectChange a | Some p \<Rightarrow> resetObjectChange p) s
      in (prev, setStateObject newobj s))"

text \<open>\<open>GetOrNewStateObject\<close>: afterwards the object at the address is live.\<close>

definition GetOrNewStateObject :: "hashing \<Rightarrow> address \<Rightarrow> StateDB \<Rightarrow> StateDB" where
  "GetOrNewStateObject H a s =
     (case getStateObject a s of
        (None, s) \<Rightarrow> snd (createObject H a s)
      | (Some obj, s) \<Rightarrow> if deleted obj then snd (createObject H a s) else s)"

definition CreateAccount :: "hashing \<Rightarrow> address \<Rightarrow> StateDB \<Rightarrow> StateDB" where
  "CreateAccount H a s =
     (case createObject H a s of
        (None, s) \<Rightarrow> s
      | (Some prev, s) \<Rightarrow> upd_obj a (setBalance (Balance (soData prev))) s)"

section \<open>Queries\<close>

definition Exist :: "address \<Rightarrow> StateDB \<Rightarrow> bool \<times> StateDB" where
  "Exist a s = (case getStateObject a s of (obj, s) \<Rightarrow> (obj \<noteq> None, s))"

definition Empty :: "hashing \<Rightarrow> address \<Rightarrow> StateDB \<Rightarrow> bool \<times> StateDB" where
  "Empty H a s =
     (case getStateObject a s of
        (None, s) \<Rightarrow> (True, s)
      | (Some obj, s) \<Rightarrow> (so_empty H obj, s))"

definition GetBalance :: "address \<Rightarrow> StateDB \<Rightarrow> int \<times> StateDB" where
  "GetBalance a s =
     (case getStateObject a s of
        (None, s) \<Rightarrow> (0, s)
      | (Some obj, s) \<Rightarrow> (Balance (soData obj), s))"

definition GetNonce :: "address \<Rightarrow> StateDB \<Rightarrow> u64 \<times> StateDB" where
  "GetNonce a s =
     (case getStateObject a s of
        (None, s) \<Rightarrow> (0, s)
      | (Some obj, s) \<Rightarrow> (acNonce (soData obj), s))"

definition GetCodeHash :: "address \<Rightarrow> StateDB \<Rightarrow> hash \<times> StateDB" where
  "GetCodeHash a s =
     (case getStateObject a s of
        (None, s) \<Rightarrow> (0, s)
      | (Some obj, s) \<Rightarrow> (CodeHash (soData obj), s))"

definition GetCode :: "hashing \<Rightarrow> address \<Rightarrow> StateDB \<Rightarrow> bytes option \<times> StateDB" where
  "GetCode H a s =
     (case getStateObject a s of
        (None, s) \<Rightarrow> (None, s)
      | (Some obj, s) \<Rightarrow> let (c, obj) = so_Code H (db s) obj in (c, upd_obj a (\<lambda>_. obj) s))"

definition GetState :: "hashing \<Rightarrow> address \<Rightarrow> hash \<Rightarrow> StateDB \<Rightarrow> hash \<times> StateDB" where
  "GetState H a key s =
     (case getStateObject a s of
        (None, s) \<Rightarrow> (0, s)
      | (Some obj, s) \<Rightarrow> let (v, obj) = so_GetState H (db s) key obj in (v, upd_obj a (\<lambda>_. obj) s))"

definition GetCommittedState :: "hashing \<Rightarrow> address \<Rightarrow> hash \<Rightarrow> StateDB \<Rightarrow> hash \<times> StateDB" where
  "GetCommittedState H a key s =
     (case getStateObject a s of
        (None, s) \<Rightarrow> (0, s)
      | (Some obj, s) \<Rightarrow> let (v, obj) = so_GetCommittedState H (db s) key obj in (v, upd_obj a (\<lambda>_. obj) s))"

definition HasSuicided :: "address \<Rightarrow> StateDB \<Rightarrow> bool \<times> StateDB" where
  "HasSuicided a s =
     (case getStateObject a s of
        (None, s) \<Rightarrow> (False, s)
      | (Some obj, s) \<Rightarrow> (suicided obj, s))"

section \<open>Journalled changes\<close>

text \<open>Methods of a live object: the journal entry first, then the change.\<close>

definition so_SetBalance :: "address \<Rightarrow> int \<Rightarrow> StateDB \<Rightarrow> StateDB" where
  "so_SetBalance a amount s =
     (case stateObjects s a of
        None \<Rightarrow> s
      | Some obj \<Rightarrow> upd_obj a (setBalance amount) (journal_append (balanceChange a (Balance (soData obj))) s))"

abbreviation (input) ripemd :: address where "ripemd \<equiv> 3"

definition so_touch :: "address \<Rightarrow> StateDB \<Rightarrow> StateDB" where
  "so_touch a s =
     (let s = journal_append (touchChange a) s in if a = ripemd then journal_dirty a s else s)"

definition so_AddBalance :: "hashing \<Rightarrow> address \<Rightarrow> int \<Rightarrow> StateDB \<Rightarrow> StateDB" where
  "so_AddBalance H a amount s =
     (case stateObjects s a of
        None \<Rightarrow> s
      | Some obj \<Rightarrow>
          if amount = 0 then if so_empty H obj then so_touch a s else s
          else so_SetBalance a (Balance (soData obj) + amount) s)"

definition so_SubBalance :: "address \<Rightarrow> int \<Rightarrow> StateDB \<Rightarrow> StateDB" where
  "so_SubBalance a amount s =
     (case stateObjects s a of
        None \<Rightarrow> s
      | Some obj \<Rightarrow> if amount = 0 then s else so_SetBalance a (Balance (soData obj) - amount) s)"

definition so_SetNonce :: "address \<Rightarrow> u64 \<Rightarrow> StateDB \<Rightarrow> StateDB" where
  "so_SetNonce a n s =
     (case stateObjects s a of
        None \<Rightarrow> s
      | Some obj \<Rightarrow> upd_obj a (setNonce n) (journal_append (nonceChange a (acNonce (soData obj))) s))"

definition so_SetCode :: "hashing \<Rightarrow> address \<Rightarrow> hash \<Rightarrow> bytes option \<Rightarrow> StateDB \<Rightarrow> StateDB" where
  "so_SetCode H a codeHash code s =
     (case stateObjects s a of
        None \<Rightarrow> s
      | Some obj \<Rightarrow>
          (let (prevcode, obj) = so_Code H (db s) obj;
               s = journal_append (codeChange a prevcode (CodeHash (soData obj))) (upd_obj a (\<lambda>_. obj) s)
           in upd_obj a (setCode codeHash code) s))"

definition so_SetState :: "hashing \<Rightarrow> address \<Rightarrow> hash \<Rightarrow> hash \<Rightarrow> StateDB \<Rightarrow> StateDB" where
  "so_SetState H a key v s =
     (case stateObjects s a of
        None \<Rightarrow> s
      | Some obj \<Rightarrow>
          (let (prev, obj) = so_GetState H (db s) key obj;
               s = journal_append (storageChange a key prev) (upd_obj a (\<lambda>_. obj) s)
           in upd_obj a (setState key v) s))"

definition AddBalance :: "hashing \<Rightarrow> address \<Rightarrow> int \<Rightarrow> StateDB \<Rightarrow> StateDB" where
  "AddBalance H a amount s = so_AddBalance H a amount (GetOrNewStateObject H a s)"

definition SubBalance :: "hashing \<Rightarrow> address \<Rightarrow> int \<Rightarrow> StateDB \<Rightarrow> StateDB" where
  "SubBalance H a amount s = so_SubBalance a amount (GetOrNewStateObject H a s)"

definition SetBalance :: "hashing \<Rightarrow> address \<Rightarrow> int \<Rightarrow> StateDB \<Rightarrow> StateDB" where
  "SetBalance H a amount s = so_SetBalance a amount (GetOrNewStateObject H a s)"

definition SetNonce :: "hashing \<Rightarrow> address \<Rightarrow> u64 \<Rightarrow> StateDB \<Rightarrow> StateDB" where
  "SetNonce H a n s = so_SetNonce a n (GetOrNewStateObject H a s)"

definition SetCode :: "hashing \<Rightarrow> address \<Rightarrow> bytes option \<Rightarrow> StateDB \<Rightarrow> StateDB" where
  "SetCode H a code s = so_SetCode H a (codeHashOf H (case code of None \<Rightarrow> [] | Some c \<Rightarrow> c)) code (GetOrNewStateObject H a s)"

definition SetState :: "hashing \<Rightarrow> address \<Rightarrow> hash \<Rightarrow> hash \<Rightarrow> StateDB \<Rightarrow> StateDB" where
  "SetState H a key v s = so_SetState H a key v (GetOrNewStateObject H a s)"

definition Suicide :: "address \<Rightarrow> StateDB \<Rightarrow> bool \<times> StateDB" where
  "Suicide a s =
     (case getStateObject a s of
        (None, s) \<Rightarrow> (False, s)
      | (Some obj, s) \<Rightarrow>
          (True, upd_obj a (\<lambda>obj. setBalance 0 (markSuicided obj))
             (journal_append (suicideChange a (suicided obj) (Balance (soData obj))) s)))"

definition AddLog :: "Log \<Rightarrow> StateDB \<Rightarrow> StateDB" where
  "AddLog log s0 =
     (let s = journal_append (addLogChange (thash s0)) s0;
          log = log\<lparr>logTxHash := thash s, logBlockHash := bhash s, logTxIndex := txIndex s, logIndex := logSize s\<rparr>
      in s\<lparr>logs := (logs s)(thash s \<mapsto> (case logs s (thash s) of None \<Rightarrow> [] | Some ls \<Rightarrow> ls) @ [log]),
           logSize := logSize s + 1\<rparr>)"

definition AddPreimage :: "hash \<Rightarrow> bytes \<Rightarrow> StateDB \<Rightarrow> StateDB" where
  "AddPreimage h preimage s =
     (if preimages s h = None
      then (journal_append (addPreimageChange h) s)\<lparr>preimages := (preimages s)(h \<mapsto> preimage)\<rparr>
      else s)"

definition AddRefund :: "u64 \<Rightarrow> StateDB \<Rightarrow> StateDB" where
  "AddRefund gas s = (journal_append (refundChange (refund s)) s)\<lparr>refund := refund s + gas\<rparr>"

definition SubRefund :: "u64 \<Rightarrow> StateDB \<Rightarrow> err + StateDB" where
  "SubRefund gas s =
     (if gas > refund s then Inl Panic
      else Inr ((journal_append (refundChange (refund s)) s)\<lparr>refund := refund s - gas\<rparr>))"

definition Prepare :: "hash \<Rightarrow> hash \<Rightarrow> u64 \<Rightarrow> StateDB \<Rightarrow> StateDB" where
  "Prepare th bh ti s = s\<lparr>thash := th, bhash := bh, txIndex := ti\<rparr>"

section \<open>Undoing\<close>

text \<open>A change of an account dereferences its object: nil is a panic.\<close>

definition on_object :: "address \<Rightarrow> (stateObject \<Rightarrow> stateObject) \<Rightarrow> StateDB \<Rightarrow> err + StateDB" where
  "on_object a f s =
     (case getStateObject a s of
        (None, s) \<Rightarrow> Inl Panic
      | (Some _, s) \<Rightarrow> Inr (upd_obj a f s))"

fun entry_revert :: "journalEntry \<Rightarrow> StateDB \<Rightarrow> err + StateDB" where
  "entry_revert (createObjectChange a) s =
     Inr (s\<lparr>stateObjects := (stateObjects s)(a := None), stateObjectsDirty := stateObjectsDirty s - {a}\<rparr>)"
| "entry_revert (resetObjectChange prev) s = Inr (setStateObject prev s)"
| "entry_revert (suicideChange a prev prevbalance) s =
     (case getStateObject a s of
        (None, s) \<Rightarrow> Inr s
      | (Some _, s) \<Rightarrow> Inr (upd_obj a (\<lambda>obj. setBalance prevbalance (obj\<lparr>suicided := prev\<rparr>)) s))"
| "entry_revert (touchChange a) s = Inr s"
| "entry_revert (balanceChange a prev) s = on_object a (setBalance prev) s"
| "entry_revert (nonceChange a prev) s = on_object a (setNonce prev) s"
| "entry_revert (codeChange a prevcode prevhash) s = on_object a (setCode prevhash prevcode) s"
| "entry_revert (storageChange a key prevalue) s = on_object a (setState key prevalue) s"
| "entry_revert (refundChange prev) s = Inr (s\<lparr>refund := prev\<rparr>)"
| "entry_revert (addLogChange h) s =
     (let ls = (case logs s h of None \<Rightarrow> [] | Some ls \<Rightarrow> ls) in
      if length ls = 0 then Inl Panic
      else Inr (s\<lparr>logs := (logs s)(h := (if length ls = 1 then None else Some (butlast ls))),
                  logSize := logSize s - 1\<rparr>))"
| "entry_revert (addPreimageChange h) s = Inr (s\<lparr>preimages := (preimages s)(h := None)\<rparr>)"

definition undirty :: "journalEntry \<Rightarrow> StateDB \<Rightarrow> StateDB" where
  "undirty e s =
     (case dirtied e of None \<Rightarrow> s | Some a \<Rightarrow> s\<lparr>dirties := (dirties s)(a := dirties s a - 1)\<rparr>)"

text \<open>The loop of \<open>journal.revert\<close>, newest entry first; \<open>es\<close> is the reversed tail of the journal.\<close>

fun revert_entries :: "journalEntry list \<Rightarrow> StateDB \<Rightarrow> err + StateDB" where
  "revert_entries [] s = Inr s"
| "revert_entries (e # es) s = res_bind (entry_revert e s) (\<lambda>s. revert_entries es (undirty e s))"

definition journal_revert :: "nat \<Rightarrow> StateDB \<Rightarrow> err + StateDB" where
  "journal_revert snapshot s =
     res_bind (revert_entries (rev (drop snapshot (entries s))) s)
       (\<lambda>s'. Inr (s'\<lparr>entries := take snapshot (entries s)\<rparr>))"

definition Snapshot :: "StateDB \<Rightarrow> int \<times> StateDB" where
  "Snapshot s =
     (nextRevisionId s,
      s\<lparr>nextRevisionId := nextRevisionId s + 1,
        validRevisions := validRevisions s @ [(nextRevisionId s, length (entries s))]\<rparr>)"

text \<open>\<open>sort.Search\<close> for the first revision whose id is at least \<open>revid\<close>, by bisection.\<close>

function search_loop :: "nat \<Rightarrow> nat \<Rightarrow> (nat \<Rightarrow> bool) \<Rightarrow> nat" where
  "search_loop i j f =
     (if i < j then
        (let h = (i + j) div 2 in if \<not> f h then search_loop (h + 1) j f else search_loop i h f)
      else i)"
  by auto
termination by (relation "measure (\<lambda>(i, j, f). j - i)") (auto simp: Let_def)

declare search_loop.simps [simp del]

definition RevertToSnapshot :: "int \<Rightarrow> StateDB \<Rightarrow> err + StateDB" where
  "RevertToSnapshot revid s =
     (let idx = search_loop 0 (length (validRevisions s)) (\<lambda>i. fst (validRevisions s ! i) \<ge> revid) in
      if idx = length (validRevisions s) \<or> fst (validRevisions s ! idx) \<noteq> revid then Inl Panic
      else res_bind (journal_revert (snd (validRevisions s ! idx)) s)
             (\<lambda>s'. Inr (s'\<lparr>validRevisions := take idx (validRevisions s)\<rparr>)))"

definition clearJournalAndRefund :: "StateDB \<Rightarrow> StateDB" where
  "clearJournalAndRefund s = (newJournal s)\<lparr>validRevisions := [], refund := 0\<rparr>"

section \<open>Opening, copying, finalising, committing\<close>

definition state_New :: "hashing \<Rightarrow> hash \<Rightarrow> stateStore \<Rightarrow> err + StateDB" where
  "state_New H root st =
     (case (if root = 0 \<or> root = accountRoot H Map.empty then Some Map.empty else tries st root) of
        None \<Rightarrow> Inl (Msg ''missing trie node'')
      | Some t \<Rightarrow>
          Inr \<lparr>db = st, strie = t, stateObjects = Map.empty, stateObjectsDirty = {}, refund = 0, thash = 0,
               bhash = 0, txIndex = 0, logs = Map.empty, logSize = 0, preimages = Map.empty, entries = [],
               dirties = (\<lambda>_. 0), validRevisions = [], nextRevisionId = 0\<rparr>)"

definition state_Copy :: "StateDB \<Rightarrow> err + StateDB" where
  "state_Copy s =
     (if \<exists>a \<in> stateObjectsDirty s. stateObjects s a = None \<and> dirties s a = 0 then Inl Panic
      else let copied = {a. stateObjects s a \<noteq> None \<and> (dirties s a > 0 \<or> a \<in> stateObjectsDirty s)} in
        Inr (s\<lparr>stateObjects := (\<lambda>a. if a \<in> copied then map_option deepCopy (stateObjects s a) else None),
               stateObjectsDirty := copied, thash := 0, bhash := 0, txIndex := 0, entries := [],
               dirties := (\<lambda>_. 0), validRevisions := [], nextRevisionId := 0\<rparr>))"

text \<open>The account as \<open>updateStateObject\<close> encodes it; a negative balance cannot be encoded and panics.\<close>

definition account_bytes :: "Account \<Rightarrow> err + bytes" where
  "account_bytes data = (case EncodeToBytes (Account_val data) of Inl _ \<Rightarrow> Inl Panic | Inr b \<Rightarrow> Inr b)"

definition updateStateObject :: "stateObject \<Rightarrow> StateDB \<Rightarrow> err + StateDB" where
  "updateStateObject obj s =
     res_bind (account_bytes (soData obj)) (\<lambda>data. Inr (s\<lparr>strie := (strie s)(soAddress obj \<mapsto> data)\<rparr>))"

definition deleteStateObject :: "stateObject \<Rightarrow> StateDB \<Rightarrow> StateDB" where
  "deleteStateObject obj s =
     (setStateObject (obj\<lparr>deleted := True\<rparr>) s)\<lparr>strie := (strie s)(soAddress obj := None)\<rparr>"

text \<open>
  Go ranges over the map of dirty accounts and over the map of live objects in an unspecified order;
  \<open>order\<close> is the sequence of addresses the range statement happens to visit.
\<close>

definition finalise_step :: "hashing \<Rightarrow> bool \<Rightarrow> address \<Rightarrow> StateDB \<Rightarrow> err + StateDB" where
  "finalise_step H deleteEmptyObjects a s =
     (case stateObjects s a of
        None \<Rightarrow> Inr s
      | Some obj \<Rightarrow>
          res_bind
            (if suicided obj \<or> (deleteEmptyObjects \<and> so_empty H obj) then Inr (deleteStateObject obj s)
             else let obj = updateRoot H (db s) obj in updateStateObject obj (setStateObject obj s))
            (\<lambda>s. Inr (s\<lparr>stateObjectsDirty := insert a (stateObjectsDirty s)\<rparr>)))"

definition Finalise :: "hashing \<Rightarrow> address list \<Rightarrow> bool \<Rightarrow> StateDB \<Rightarrow> err + StateDB" where
  "Finalise H order deleteEmptyObjects s =
     res_bind (fold_res (finalise_step H deleteEmptyObjects) order s)
       (\<lambda>s. Inr (clearJournalAndRefund s))"

definition IntermediateRoot :: "hashing \<Rightarrow> address list \<Rightarrow> bool \<Rightarrow> StateDB \<Rightarrow> err + hash \<times> StateDB" where
  "IntermediateRoot H order deleteEmptyObjects s =
     res_bind (Finalise H order deleteEmptyObjects s) (\<lambda>s. Inr (accountRoot H (strie s), s))"

definition InsertBlob :: "stateObject \<Rightarrow> StateDB \<Rightarrow> StateDB" where
  "InsertBlob obj s =
     (case soCode obj of
        None \<Rightarrow> s
      | Some c \<Rightarrow> if dirtyCode obj then s\<lparr>db := (db s)\<lparr>codes := (codes (db s))(CodeHash (soData obj) \<mapsto> c)\<rparr>\<rparr> else s)"

text \<open>
  An object that remembers an error is not committed, and its error ends \<open>Commit\<close>.  Writing a trie into the
  trie database has no error of its own.
\<close>

definition CommitTrie :: "hashing \<Rightarrow> stateObject \<Rightarrow> StateDB \<Rightarrow> err option \<times> stateObject \<times> StateDB" where
  "CommitTrie H obj s =
     (let (t, obj) = updateTrie H (db s) obj in
      if soErr obj \<noteq> None then (soErr obj, obj, s)
      else
        (let root = storageRoot H t
         in (None, obj\<lparr>soData := (soData obj)\<lparr>Root := root\<rparr>\<rparr>,
             s\<lparr>db := (db s)\<lparr>storages := (storages (db s))(root \<mapsto> t)\<rparr>\<rparr>)))"

definition commit_step :: "hashing \<Rightarrow> bool \<Rightarrow> address \<Rightarrow> StateDB \<Rightarrow> err + err option \<times> StateDB" where
  "commit_step H deleteEmptyObjects a s =
     (case stateObjects s a of
        None \<Rightarrow> Inr (None, s)
      | Some obj \<Rightarrow>
          (let isDirty = (a \<in> stateObjectsDirty s) in
           res_bind
             (if suicided obj \<or> (isDirty \<and> deleteEmptyObjects \<and> so_empty H obj) then Inr (None, deleteStateObject obj s)
              else if isDirty then
                (let s = InsertBlob obj s;
                     obj = (if soCode obj \<noteq> None then obj\<lparr>dirtyCode := False\<rparr> else obj);
                     (e, obj, s) = CommitTrie H obj s;
                     s = setStateObject obj s
                 in if e \<noteq> None then Inr (e, s) else res_bind (updateStateObject obj s) (\<lambda>s. Inr (None, s)))
              else Inr (None, s))
             (\<lambda>(e, s). Inr (e, if e = None then s\<lparr>stateObjectsDirty := stateObjectsDirty s - {a}\<rparr> else s))))"

primrec commit_loop :: "hashing \<Rightarrow> bool \<Rightarrow> address list \<Rightarrow> StateDB \<Rightarrow> err + err option \<times> StateDB" where
  "commit_loop H deleteEmptyObjects [] s = Inr (None, s)"
| "commit_loop H deleteEmptyObjects (a # order) s =
     res_bind (commit_step H deleteEmptyObjects a s) (\<lambda>(e, s).
       if e \<noteq> None then Inr (e, s) else commit_loop H deleteEmptyObjects order s)"

definition Commit :: "hashing \<Rightarrow> address list \<Rightarrow> bool \<Rightarrow> StateDB \<Rightarrow> err + (err + hash) \<times> StateDB" where
  "Commit H order deleteEmptyObjects s =
     (let s = s\<lparr>stateObjectsDirty := stateObjectsDirty s \<union> {a. dirties s a > 0}\<rparr> in
      res_bind (commit_loop H deleteEmptyObjects order s)
        (\<lambda>(e, s).
           case e of
             Some e \<Rightarrow> Inr (Inl e, clearJournalAndRefund s)
           | None \<Rightarrow>
               (let root = accountRoot H (strie s)
                in Inr (Inr root, clearJournalAndRefund (s\<lparr>db := (db s)\<lparr>tries := (tries (db s))(root \<mapsto> strie s)\<rparr>\<rparr>)))))"

end
