(* ===== verification/Undo_Log.thy ===== *)
theory Undo_Log
  imports TOS_Prelude
begin

text \<open>
  The contract of an undo journal: every operation appends to the log the entries whose undo actions
  take the observable state back, and a rollback to a length of the log cuts the log there and has the
  effect of the undo actions of the entries it drops.  A client that rolls back to the length the log had
  in an earlier state gets that state's view again, however operations and deeper rollbacks alternated.
\<close>

locale undo_log =
  fixes view :: "'s \<Rightarrow> 'a" and log :: "'s \<Rightarrow> 'e list" and undo :: "'e \<Rightarrow> 'a \<Rightarrow> 'err + 'a"
    and ok :: "'s \<Rightarrow> bool" and oper :: "'s \<Rightarrow> 's \<Rightarrow> bool" and roll :: "nat \<Rightarrow> 's \<Rightarrow> 's \<Rightarrow> bool"
  assumes oper_ok: "ok s \<Longrightarrow> oper s t \<Longrightarrow> ok t"
    and oper_undo: "ok s \<Longrightarrow> oper s t \<Longrightarrow>
      \<exists>es. log t = log s @ es \<and> fold_res undo (rev es) (view t) = Inr (view s)"
    and roll_ok: "ok s \<Longrightarrow> roll k s t \<Longrightarrow> ok t"
    and roll_undo: "ok s \<Longrightarrow> roll k s t \<Longrightarrow>
      k \<le> length (log s) \<and> log t = take k (log s) \<and>
      fold_res undo (rev (drop k (log s))) (view s) = Inr (view t)"
begin

definition since :: "'s \<Rightarrow> 's \<Rightarrow> bool" where
  "since s0 s \<longleftrightarrow> (\<exists>es. log s = log s0 @ es \<and> fold_res undo (rev es) (view s) = Inr (view s0))"

lemma since_refl: "since s s"
  by (auto simp: since_def intro: exI [of _ "[]"])

lemma since_oper:
  assumes "since s0 s" and "ok s" and "oper s t"
  shows "since s0 t"
proof -
  obtain es where es: "log s = log s0 @ es" "fold_res undo (rev es) (view s) = Inr (view s0)"
    using assms(1) by (auto simp: since_def)
  obtain fs where fs: "log t = log s @ fs" "fold_res undo (rev fs) (view t) = Inr (view s)"
    using oper_undo [OF assms(2,3)] by auto
  have "log t = log s0 @ es @ fs" "fold_res undo (rev (es @ fs)) (view t) = Inr (view s0)"
    using es fs by (simp_all add: fold_res_append)
  then show ?thesis unfolding since_def by blast
qed

lemma since_roll:
  assumes "since s0 s" and "ok s" and "roll k s t" and "length (log s0) \<le> k"
  shows "since s0 t"
proof -
  obtain es where es: "log s = log s0 @ es" "fold_res undo (rev es) (view s) = Inr (view s0)"
    using assms(1) by (auto simp: since_def)
  define m where "m = k - length (log s0)"
  have "log t = log s0 @ take m es" "fold_res undo (rev (drop m es)) (view s) = Inr (view t)"
    using roll_undo [OF assms(2,3)] assms(4) es(1) by (simp_all add: m_def)
  moreover have "rev es = rev (drop m es) @ rev (take m es)"
    by (simp flip: rev_append)
  ultimately have "fold_res undo (rev (take m es)) (view t) = Inr (view s0)"
    using es(2) by (metis fold_res_append res_bind_simps(2))
  with \<open>log t = log s0 @ take m es\<close> show ?thesis unfolding since_def by blast
qed

lemma rollback_since:
  assumes "since s0 s" and "ok s" and "roll (length (log s0)) s t"
  shows "view t = view s0" and "log t = log s0"
proof -
  obtain es where es: "log s = log s0 @ es" "fold_res undo (rev es) (view s) = Inr (view s0)"
    using assms(1) by (auto simp: since_def)
  with roll_undo [OF assms(2,3)] show "view t = view s0" "log t = log s0" by simp_all
qed

end

end
