(* ===== verification/State_Undo.thy ===== *)
theory State_Undo
  imports State_DB Undo_Log
begin

text \<open>
  What a client of \<open>StateDB\<close> can observe, as an abstract state of account views, and the refinement of
  the operations to it.  On top of it the correctness of snapshots: reverting to a snapshot restores the
  observable state, whatever operations, nested snapshots and nested reverts happened since.
\<close>

section \<open>Abstract state\<close>

record acct =
  vNonce :: u64
  vBalance :: int
  vCodeHash :: hash
  vCode :: bytes
  vStorage :: "hash \<Rightarrow> hash"
  vSuicided :: bool

record astate =
  accounts :: "address \<Rightarrow> acct option"
  base :: "address \<Rightarrow> acct option"      \<comment> \<open>the accounts of the state trie, without the live objects\<close>
  aRefund :: u64
  aLogs :: "hash \<rightharpoonup> Log list"
  aLogSize :: u64
  aPreimages :: "hash \<rightharpoonup> bytes"

definition code_view :: "hashing \<Rightarrow> stateStore \<Rightarrow> hash \<Rightarrow> bytes option \<Rightarrow> bytes" where
  "code_view H st h c =
     (case c of
        Some b \<Rightarrow> b
      | None \<Rightarrow> if h = emptyCodeHash H then [] else (case codes st h of Some b \<Rightarrow> b | None \<Rightarrow> []))"

definition obj_trie :: "hashing \<Rightarrow> stateStore \<Rightarrow> stateObject \<Rightarrow> storage_trie" where
  "obj_trie H st obj = (case soTrie obj of Some t \<Rightarrow> t | None \<Rightarrow> openStorage H st (Root (soData obj)))"

definition obj_view :: "hashing \<Rightarrow> stateStore \<Rightarrow> stateObject \<Rightarrow> acct" where
  "obj_view H st obj =
     \<lparr>vNonce = acNonce (soData obj), vBalance = Balance (soData obj), vCodeHash = CodeHash (soData obj),
      vCode = code_view H st (CodeHash (soData obj)) (soCode obj),
      vStorage = (\<lambda>k. case cachedStorage obj k of Some v \<Rightarrow> v | None \<Rightarrow> slot_value (obj_trie H st obj k)),
      vSuicided = suicided obj\<rparr>"

definition base_view :: "hashing \<Rightarrow> StateDB \<Rightarrow> address \<Rightarrow> acct option" where
  "base_view H s a = map_option (\<lambda>data. obj_view H (db s) (newObject a data)) (load_account (strie s) a)"

definition acct_view :: "hashing \<Rightarrow> StateDB \<Rightarrow> address \<Rightarrow> acct option" where
  "acct_view H s a =
     (case stateObjects s a of
        Some obj \<Rightarrow> if deleted obj then None else Some (obj_view H (db s) obj)
      | None \<Rightarrow> base_view H s a)"

definition abs :: "hashing \<Rightarrow> StateDB \<Rightarrow> astate" where
  "abs H s = \<lparr>accounts = acct_view H s, base = base_view H s, aRefund = refund s, aLogs = logs s,
     aLogSize = logSize s, aPreimages = preimages s\<rparr>"

text \<open>
  Representation invariant: live objects sit under their own address, a deleted one has left the trie,
  a transaction without logs has no entry in the log map, and the journal keeps no deleted object.
\<close>

definition sdb_inv :: "StateDB \<Rightarrow> bool" where
  "sdb_inv s \<longleftrightarrow>
     (\<forall>a obj. stateObjects s a = Some obj \<longrightarrow>
        soAddress obj = a \<and> (deleted obj \<longrightarrow> load_account (strie s) a = None)) \<and>
     (\<forall>h. logs s h \<noteq> Some []) \<and>
     (\<forall>p. resetObjectChange p \<in> set (entries s) \<longrightarrow> \<not> deleted p)"

section \<open>Views of object updates\<close>

lemma obj_view_upd [simp]:
  "obj_view H st (setBalance b obj) = (obj_view H st obj)\<lparr>vBalance := b\<rparr>"
  "obj_view H st (setNonce n obj) = (obj_view H st obj)\<lparr>vNonce := n\<rparr>"
  "obj_view H st (setCode h c obj) = (obj_view H st obj)\<lparr>vCodeHash := h, vCode := code_view H st h c\<rparr>"
  "obj_view H st (setState k v obj) = (obj_view H st obj)\<lparr>vStorage := (vStorage (obj_view H st obj))(k := v)\<rparr>"
  "obj_view H st (obj\<lparr>suicided := b'\<rparr>) = (obj_view H st obj)\<lparr>vSuicided := b'\<rparr>"
  by (auto simp: obj_view_def setBalance_def setNonce_def setCode_def setState_def obj_trie_def fun_eq_iff
      split: option.split)

lemma obj_upd_sel [simp]:
  "soAddress (setBalance b obj) = soAddress obj" "deleted (setBalance b obj) = deleted obj"
  "soAddress (setNonce n obj) = soAddress obj" "deleted (setNonce n obj) = deleted obj"
  "soAddress (setCode h c obj) = soAddress obj" "deleted (setCode h c obj) = deleted obj"
  "soAddress (setState k v obj) = soAddress obj" "deleted (setState k v obj) = deleted obj"
  "soAddress (markSuicided obj) = soAddress obj" "deleted (markSuicided obj) = deleted obj"
  "soAddress (newObject a d) = a" "deleted (newObject a d) = False"
  by (simp_all add: setBalance_def setNonce_def setCode_def setState_def markSuicided_def newObject_def)

text \<open>Reads only fill caches.\<close>

lemma so_GetState_view:
  "fst (so_GetState H st k obj) = vStorage (obj_view H st obj) k"
  "obj_view H st (snd (so_GetState H st k obj)) = obj_view H st obj"
  "soAddress (snd (so_GetState H st k obj)) = soAddress obj" "deleted (snd (so_GetState H st k obj)) = deleted obj"
  by (auto simp: so_GetState_def obj_view_def obj_trie_def getTrie_def openStorage_def Let_def fun_eq_iff split: option.split)

lemma so_GetCommittedState_eq: "so_GetCommittedState = so_GetState"
  by (simp add: fun_eq_iff so_GetCommittedState_def so_GetState_def)

lemma so_Code_view:
  "code_view H st h (fst (so_Code H st obj)) = (if h = CodeHash (soData obj) then vCode (obj_view H st obj)
     else code_view H st h (fst (so_Code H st obj)))"
  "obj_view H st (snd (so_Code H st obj)) = obj_view H st obj"
  "soAddress (snd (so_Code H st obj)) = soAddress obj" "deleted (snd (so_Code H st obj)) = deleted obj"
  "soData (snd (so_Code H st obj)) = soData obj"
  by (auto simp: so_Code_def obj_view_def obj_trie_def code_view_def Let_def split: option.splits)

section \<open>State access\<close>

lemma base_view_upd [simp]:
  "base_view H (s\<lparr>stateObjects := m\<rparr>) = base_view H s" "base_view H (s\<lparr>entries := e\<rparr>) = base_view H s"
  "base_view H (s\<lparr>dirties := d\<rparr>) = base_view H s" "base_view H (s\<lparr>refund := r\<rparr>) = base_view H s"
  "base_view H (s\<lparr>logs := l\<rparr>) = base_view H s" "base_view H (s\<lparr>logSize := n\<rparr>) = base_view H s"
  "base_view H (s\<lparr>preimages := p\<rparr>) = base_view H s" "base_view H (s\<lparr>stateObjectsDirty := x\<rparr>) = base_view H s"
  "base_view H (s\<lparr>validRevisions := v\<rparr>) = base_view H s" "base_view H (s\<lparr>nextRevisionId := i\<rparr>) = base_view H s"
  by (simp_all add: base_view_def fun_eq_iff)

lemma acct_view_upd [simp]:
  "acct_view H (s\<lparr>entries := e\<rparr>) = acct_view H s"
  "acct_view H (s\<lparr>dirties := d\<rparr>) = acct_view H s" "acct_view H (s\<lparr>refund := r\<rparr>) = acct_view H s"
  "acct_view H (s\<lparr>logs := l\<rparr>) = acct_view H s" "acct_view H (s\<lparr>logSize := n\<rparr>) = acct_view H s"
  "acct_view H (s\<lparr>preimages := p\<rparr>) = acct_view H s" "acct_view H (s\<lparr>stateObjectsDirty := x\<rparr>) = acct_view H s"
  "acct_view H (s\<lparr>validRevisions := v\<rparr>) = acct_view H s" "acct_view H (s\<lparr>nextRevisionId := i\<rparr>) = acct_view H s"
  by (simp_all add: acct_view_def fun_eq_iff split: option.split)

text \<open>An update of a live, not deleted object is an update of its view.\<close>

lemma acct_view_upd_obj:
  assumes "stateObjects s a = Some obj" and "\<not> deleted obj" and "deleted (f obj) = deleted obj"
  shows "acct_view H (upd_obj a f s) = (acct_view H s)(a \<mapsto> obj_view H (db s) (f obj))"
  using assms by (auto simp: acct_view_def upd_obj_def base_view_def fun_eq_iff split: option.split)

lemma upd_obj_sel [simp]:
  "entries (upd_obj a f s) = entries s" "db (upd_obj a f s) = db s" "strie (upd_obj a f s) = strie s"
  "refund (upd_obj a f s) = refund s" "logs (upd_obj a f s) = logs s" "logSize (upd_obj a f s) = logSize s"
  "preimages (upd_obj a f s) = preimages s" "validRevisions (upd_obj a f s) = validRevisions s"
  "nextRevisionId (upd_obj a f s) = nextRevisionId s" "base_view H (upd_obj a f s) = base_view H s"
  "stateObjects (upd_obj a f s) = (stateObjects s)(a := map_option f (stateObjects s a))"
  "thash (upd_obj a f s) = thash s" "dirties (upd_obj a f s) = dirties s"
  by (simp_all add: upd_obj_def)

lemma setStateObject_sel [simp]:
  "entries (setStateObject obj s) = entries s" "db (setStateObject obj s) = db s"
  "strie (setStateObject obj s) = strie s" "refund (setStateObject obj s) = refund s"
  "logs (setStateObject obj s) = logs s" "logSize (setStateObject obj s) = logSize s"
  "preimages (setStateObject obj s) = preimages s" "validRevisions (setStateObject obj s) = validRevisions s"
  "nextRevisionId (setStateObject obj s) = nextRevisionId s" "base_view H (setStateObject obj s) = base_view H s"
  "stateObjects (setStateObject obj s) = (stateObjects s)(soAddress obj \<mapsto> obj)"
  by (simp_all add: setStateObject_def)

lemma journal_append_sel [simp]:
  "entries (journal_append e s) = entries s @ [e]" "db (journal_append e s) = db s"
  "strie (journal_append e s) = strie s" "refund (journal_append e s) = refund s"
  "logs (journal_append e s) = logs s" "logSize (journal_append e s) = logSize s"
  "preimages (journal_append e s) = preimages s" "validRevisions (journal_append e s) = validRevisions s"
  "nextRevisionId (journal_append e s) = nextRevisionId s" "base_view H (journal_append e s) = base_view H s"
  "stateObjects (journal_append e s) = stateObjects s" "acct_view H (journal_append e s) = acct_view H s"
  "thash (journal_append e s) = thash s"
  by (simp_all add: journal_append_def)

lemma abs_eqI:
  "acct_view H s = acct_view H t \<Longrightarrow> base_view H s = base_view H t \<Longrightarrow> refund s = refund t \<Longrightarrow>
   logs s = logs t \<Longrightarrow> logSize s = logSize t \<Longrightarrow> preimages s = preimages t \<Longrightarrow> abs H s = abs H t"
  by (simp add: abs_def)

lemma getStateObject_view:
  assumes "getStateObject a s = (r, s')"
  shows "acct_view H s a = map_option (obj_view H (db s)) r" and "abs H s' = abs H s"
proof -
  show "acct_view H s a = map_option (obj_view H (db s)) r"
    using assms
    by (cases "stateObjects s a"; cases r) (auto simp: getStateObject_def Let_def acct_view_def base_view_def
        split: option.splits if_splits)
  show "abs H s' = abs H s"
    using assms
    by (auto simp: getStateObject_def Let_def acct_view_def base_view_def fun_eq_iff
        split: option.splits if_splits intro!: abs_eqI)
qed

lemma getStateObject_None:
  assumes "getStateObject a s = (None, s')" and "sdb_inv s"
  shows "s' = s" and "load_account (strie s) a = None"
  using assms by (auto simp: getStateObject_def Let_def sdb_inv_def split: option.splits if_splits)

lemma getStateObject_Some:
  assumes "getStateObject a s = (Some obj, s')" and "sdb_inv s"
  shows "stateObjects s' a = Some obj" and "\<not> deleted obj" and "soAddress obj = a"
  using assms by (auto simp: getStateObject_def Let_def sdb_inv_def split: option.splits if_splits)

lemma getStateObject_inv: "getStateObject a s = (r, s') \<Longrightarrow> sdb_inv s \<Longrightarrow> sdb_inv s'"
  by (auto simp: getStateObject_def Let_def sdb_inv_def split: option.splits if_splits)

section \<open>Undo actions on the abstract state\<close>

definition acct_modify :: "address \<Rightarrow> (acct \<Rightarrow> acct) \<Rightarrow> astate \<Rightarrow> err + astate" where
  "acct_modify a f A =
     (case accounts A a of None \<Rightarrow> Inl Panic | Some v \<Rightarrow> Inr (A\<lparr>accounts := (accounts A)(a \<mapsto> f v)\<rparr>))"

fun undo1 :: "hashing \<Rightarrow> stateStore \<Rightarrow> journalEntry \<Rightarrow> astate \<Rightarrow> err + astate" where
  "undo1 H st (createObjectChange a) A = Inr (A\<lparr>accounts := (accounts A)(a := base A a)\<rparr>)"
| "undo1 H st (resetObjectChange p) A = Inr (A\<lparr>accounts := (accounts A)(soAddress p \<mapsto> obj_view H st p)\<rparr>)"
| "undo1 H st (suicideChange a p b) A =
     (if accounts A a = None then Inr A else acct_modify a (\<lambda>v. v\<lparr>vSuicided := p, vBalance := b\<rparr>) A)"
| "undo1 H st (touchChange a) A = Inr A"
| "undo1 H st (balanceChange a p) A = acct_modify a (\<lambda>v. v\<lparr>vBalance := p\<rparr>) A"
| "undo1 H st (nonceChange a p) A = acct_modify a (\<lambda>v. v\<lparr>vNonce := p\<rparr>) A"
| "undo1 H st (codeChange a c h) A = acct_modify a (\<lambda>v. v\<lparr>vCodeHash := h, vCode := code_view H st h c\<rparr>) A"
| "undo1 H st (storageChange a k p) A = acct_modify a (\<lambda>v. v\<lparr>vStorage := (vStorage v)(k := p)\<rparr>) A"
| "undo1 H st (refundChange p) A = Inr (A\<lparr>aRefund := p\<rparr>)"
| "undo1 H st (addLogChange h) A =
     (let ls = (case aLogs A h of None \<Rightarrow> [] | Some ls \<Rightarrow> ls) in
      if length ls = 0 then Inl Panic
      else Inr (A\<lparr>aLogs := (aLogs A)(h := (if length ls = 1 then None else Some (butlast ls))),
                  aLogSize := aLogSize A - 1\<rparr>))"
| "undo1 H st (addPreimageChange h) A = Inr (A\<lparr>aPreimages := (aPreimages A)(h := None)\<rparr>)"

text \<open>What every undo action leaves alone.\<close>

definition keeps :: "StateDB \<Rightarrow> StateDB \<Rightarrow> bool" where
  "keeps s s' \<longleftrightarrow> db s' = db s \<and> strie s' = strie s \<and> entries s' = entries s \<and>
     validRevisions s' = validRevisions s \<and> nextRevisionId s' = nextRevisionId s"

lemma keeps_refl [simp]: "keeps s s"
  by (simp add: keeps_def)

lemma keeps_trans: "keeps s t \<Longrightarrow> keeps t u \<Longrightarrow> keeps s u"
  by (simp add: keeps_def)

lemma sdb_inv_upd_obj:
  assumes "sdb_inv s" and "stateObjects s a = Some obj" and "\<not> deleted obj"
    and "soAddress (f obj) = soAddress obj" and "deleted (f obj) = deleted obj"
  shows "sdb_inv (upd_obj a f s)"
  using assms by (auto simp: sdb_inv_def)

lemma getStateObject_keeps: "getStateObject a s = (r, s') \<Longrightarrow> keeps s s'"
  by (auto simp: getStateObject_def keeps_def Let_def split: option.splits if_splits)

lemma on_live_object:
  assumes inv: "sdb_inv s" and g: "getStateObject a s = (Some obj, s1)"
    and f: "\<And>x. soAddress (f x) = soAddress x" "\<And>x. deleted (f x) = deleted x"
    and v: "\<And>x. obj_view H (db s) (f x) = fv (obj_view H (db s) x)"
  shows "acct_modify a fv (abs H s) = Inr (abs H (upd_obj a f s1))"
    and "sdb_inv (upd_obj a f s1)" and "keeps s (upd_obj a f s1)"
proof -
  note gv = getStateObject_view [OF g, where H = H]
  note obj = getStateObject_Some [OF g inv]
  have k: "keeps s s1" using getStateObject_keeps [OF g] .
  have "acct_view H s1 = acct_view H s" using gv(2) by (simp add: abs_def)
  moreover have "acct_view H s a = Some (obj_view H (db s) obj)" using gv(1) by simp
  ultimately have "acct_view H (upd_obj a f s1) = (acct_view H s)(a \<mapsto> fv (obj_view H (db s) obj))"
    using acct_view_upd_obj [OF obj(1,2), of f H] f v k by (simp add: keeps_def)
  then show "acct_modify a fv (abs H s) = Inr (abs H (upd_obj a f s1))"
    using gv by (simp add: acct_modify_def abs_def)
  show "sdb_inv (upd_obj a f s1)" using sdb_inv_upd_obj [OF getStateObject_inv [OF g inv] obj(1,2)] f by simp
  show "keeps s (upd_obj a f s1)" using k by (simp add: keeps_def)
qed

lemma on_object_abs:
  assumes "sdb_inv s" and "\<And>x. soAddress (f x) = soAddress x" and "\<And>x. deleted (f x) = deleted x"
    and "\<And>x. obj_view H (db s) (f x) = fv (obj_view H (db s) x)"
  shows "map_sum id (abs H) (on_object a f s) = acct_modify a fv (abs H s)"
    and "on_object a f s = Inr s' \<Longrightarrow> sdb_inv s' \<and> keeps s s'"
proof -
  obtain r s1 where g: "getStateObject a s = (r, s1)" by fastforce
  show "map_sum id (abs H) (on_object a f s) = acct_modify a fv (abs H s)"
  proof (cases r)
    case None
    with getStateObject_view(1) [OF g, where H = H] g show ?thesis
      by (simp add: on_object_def acct_modify_def abs_def)
  next
    case (Some obj)
    with on_live_object(1) [OF assms(1) _ assms(2-4)] g show ?thesis by (simp add: on_object_def)
  qed
  show "on_object a f s = Inr s' \<Longrightarrow> sdb_inv s' \<and> keeps s s'"
    using on_live_object(2,3) [OF assms(1) _ assms(2-4)] g by (auto simp: on_object_def split: option.splits)
qed

lemma butlast_Nil_iff: "butlast ls = [] \<longleftrightarrow> length ls \<le> 1"
  by (cases ls) auto

lemma entry_revert_abs:
  assumes inv: "sdb_inv s" and e: "\<And>p. e = resetObjectChange p \<Longrightarrow> \<not> deleted p"
  shows "map_sum id (abs H) (entry_revert e s) = undo1 H (db s) e (abs H s)"
    and "entry_revert e s = Inr s' \<Longrightarrow> sdb_inv s' \<and> keeps s s'"
proof -
  have "map_sum id (abs H) (entry_revert e s) = undo1 H (db s) e (abs H s) \<and>
    (entry_revert e s = Inr s' \<longrightarrow> sdb_inv s' \<and> keeps s s')"
  proof (cases e)
    case (createObjectChange a)
    then show ?thesis
      using inv by (auto simp: abs_def acct_view_def sdb_inv_def keeps_def fun_eq_iff
          split: if_splits option.split)
  next
    case (resetObjectChange p)
    then show ?thesis
      using inv e by (auto simp: abs_def acct_view_def sdb_inv_def keeps_def fun_eq_iff
          split: if_splits option.split)
  next
    case (suicideChange a p b)
    obtain r s1 where g: "getStateObject a s = (r, s1)" by fastforce
    show ?thesis
    proof (cases r)
      case None
      with getStateObject_view(1) [OF g, where H = H] getStateObject_None [of a s s1] g suicideChange inv
      show ?thesis by (auto simp: abs_def)
    next
      case (Some obj)
      have "accounts (abs H s) a \<noteq> None"
        using getStateObject_view(1) [OF g, where H = H] Some by (auto simp: abs_def)
      with Some on_live_object [OF inv, of a obj s1 "\<lambda>obj. setBalance b (obj\<lparr>suicided := p\<rparr>)" H
          "\<lambda>v. v\<lparr>vSuicided := p, vBalance := b\<rparr>"] g suicideChange
      show ?thesis by auto
    qed
  next
    case (addLogChange h)
    then show ?thesis
      using inv
      by (auto simp: abs_def sdb_inv_def keeps_def Let_def butlast_Nil_iff le_Suc_eq
          split: option.splits if_splits)
  next
    case (balanceChange a p)
    then show ?thesis
      using on_object_abs(1) [OF inv, of "setBalance p" H "\<lambda>v. v\<lparr>vBalance := p\<rparr>" a]
        on_object_abs(2) [OF inv, of "setBalance p" H "\<lambda>v. v\<lparr>vBalance := p\<rparr>" a s'] by simp
  next
    case (nonceChange a p)
    then show ?thesis
      using on_object_abs(1) [OF inv, of "setNonce p" H "\<lambda>v. v\<lparr>vNonce := p\<rparr>" a]
        on_object_abs(2) [OF inv, of "setNonce p" H "\<lambda>v. v\<lparr>vNonce := p\<rparr>" a s'] by simp
  next
    case (codeChange a c h)
    then show ?thesis
      using on_object_abs(1) [OF inv, of "setCode h c" H "\<lambda>v. v\<lparr>vCodeHash := h, vCode := code_view H (db s) h c\<rparr>" a]
        on_object_abs(2) [OF inv, of "setCode h c" H "\<lambda>v. v\<lparr>vCodeHash := h, vCode := code_view H (db s) h c\<rparr>" a s'] by simp
  next
    case (storageChange a k p)
    then show ?thesis
      using on_object_abs(1) [OF inv, of "setState k p" H "\<lambda>v. v\<lparr>vStorage := (vStorage v)(k := p)\<rparr>" a]
        on_object_abs(2) [OF inv, of "setState k p" H "\<lambda>v. v\<lparr>vStorage := (vStorage v)(k := p)\<rparr>" a s'] by simp
  qed (use inv in \<open>auto simp: abs_def sdb_inv_def keeps_def\<close>)
  then show "map_sum id (abs H) (entry_revert e s) = undo1 H (db s) e (abs H s)"
    "entry_revert e s = Inr s' \<Longrightarrow> sdb_inv s' \<and> keeps s s'" by blast+
qed

section \<open>Operations record how to undo them\<close>

text \<open>
  \<open>records H s t\<close>: the step from \<open>s\<close> to \<open>t\<close> appended to the journal exactly the entries whose undo
  actions, newest first, take the observable state back.
\<close>

definition records :: "hashing \<Rightarrow> StateDB \<Rightarrow> StateDB \<Rightarrow> bool" where
  "records H s t \<longleftrightarrow> sdb_inv t \<and> db t = db s \<and> strie t = strie s \<and>
     validRevisions t = validRevisions s \<and> nextRevisionId t = nextRevisionId s \<and>
     (\<exists>es. entries t = entries s @ es \<and> fold_res (undo1 H (db s)) (rev es) (abs H t) = Inr (abs H s))"

lemma recordsI:
  "sdb_inv t \<Longrightarrow> db t = db s \<Longrightarrow> strie t = strie s \<Longrightarrow> validRevisions t = validRevisions s \<Longrightarrow>
   nextRevisionId t = nextRevisionId s \<Longrightarrow> entries t = entries s @ [e] \<Longrightarrow>
   undo1 H (db s) e (abs H t) = Inr (abs H s) \<Longrightarrow> records H s t"
  by (auto simp: records_def intro!: exI [of _ "[e]"])

lemma records_same: "sdb_inv t \<Longrightarrow> abs H t = abs H s \<Longrightarrow> keeps s t \<Longrightarrow> records H s t"
  by (auto simp: records_def keeps_def intro!: exI [of _ "[]"])

lemma records_trans:
  assumes "records H s t" and "records H t u"
  shows "records H s u"
proof -
  obtain es where es: "entries t = entries s @ es" "fold_res (undo1 H (db s)) (rev es) (abs H t) = Inr (abs H s)"
    using assms(1) by (auto simp: records_def)
  obtain fs where fs: "entries u = entries t @ fs" "fold_res (undo1 H (db s)) (rev fs) (abs H u) = Inr (abs H t)"
    using assms by (auto simp: records_def)
  have "fold_res (undo1 H (db s)) (rev (es @ fs)) (abs H u) = Inr (abs H s)"
    using es(2) fs(2) by (simp add: fold_res_append)
  moreover have "entries u = entries s @ es @ fs" using es(1) fs(1) by simp
  ultimately have "\<exists>gs. entries u = entries s @ gs \<and> fold_res (undo1 H (db s)) (rev gs) (abs H u) = Inr (abs H s)"
    by blast
  moreover from assms have "sdb_inv u" "db u = db s" "strie u = strie s"
    "validRevisions u = validRevisions s" "nextRevisionId u = nextRevisionId s"
    by (simp_all add: records_def)
  ultimately show ?thesis by (simp add: records_def)
qed

lemma records_getStateObject:
  assumes "getStateObject a s = (r, s')" and "sdb_inv s"
  shows "records H s s'"
  using getStateObject_inv [OF assms] getStateObject_view(2) [OF assms(1)] getStateObject_keeps [OF assms(1)]
  by (rule records_same)

text \<open>A journalled change of one live object.\<close>

lemma records_change:
  assumes inv: "sdb_inv s" and obj: "stateObjects s a = Some obj" "\<not> deleted obj"
    and f: "soAddress (f obj) = soAddress obj" "deleted (f obj) = deleted obj"
    and e: "\<And>p. e \<noteq> resetObjectChange p"
    and u: "\<And>A. accounts A a \<noteq> None \<Longrightarrow> undo1 H (db s) e A = acct_modify a g A"
    and g: "g (obj_view H (db s) (f obj)) = obj_view H (db s) obj"
  shows "records H s (upd_obj a f (journal_append e s))"
proof (rule recordsI [where e = e])
  let ?t = "upd_obj a f (journal_append e s)"
  have "sdb_inv (journal_append e s)" using inv e by (auto simp: sdb_inv_def)
  then show "sdb_inv ?t" using obj f by (intro sdb_inv_upd_obj [where obj = obj]) simp_all
  have v: "acct_view H ?t = (acct_view H s)(a \<mapsto> obj_view H (db s) (f obj))"
    using acct_view_upd_obj [of "journal_append e s" a obj f H] obj f by simp
  have "acct_view H s a = Some (obj_view H (db s) obj)" using obj by (simp add: acct_view_def)
  then show "undo1 H (db s) e (abs H ?t) = Inr (abs H s)"
    using u [of "abs H ?t"] g v by (simp add: acct_modify_def abs_def fun_upd_idem)
qed simp_all

lemma records_createObject:
  assumes inv: "sdb_inv s" and c: "createObject H a s = (prev, t)"
  shows "records H s t" and "stateObjects t a = Some (newObject a (emptyAccount H))"
proof -
  obtain s1 where g: "getStateObject a s = (prev, s1)" using c by (auto simp: createObject_def split: prod.splits)
  define e where "e = (case prev of None \<Rightarrow> createObjectChange a | Some p \<Rightarrow> resetObjectChange p)"
  have n: "setNonce 0 (newObject a (emptyAccount H)) = newObject a (emptyAccount H)"
    by (simp add: setNonce_def newObject_def emptyAccount_def)
  have t: "t = setStateObject (newObject a (emptyAccount H)) (journal_append e s1)"
    using c g n by (simp add: createObject_def e_def)
  then show "stateObjects t a = Some (newObject a (emptyAccount H))" by simp
  have inv1: "sdb_inv s1" using getStateObject_inv [OF g inv] .
  have acc: "acct_view H s1 a = map_option (obj_view H (db s1)) prev"
    using getStateObject_view [OF g, of H] getStateObject_keeps [OF g] by (simp add: abs_def keeps_def)
  have prev: "prev = Some p \<Longrightarrow> \<not> deleted p \<and> soAddress p = a" for p
    using getStateObject_Some [OF _ inv] g by simp
  have "undo1 H (db s1) e (abs H t) = Inr (abs H s1)"
  proof (cases prev)
    case None
    then have "base_view H s1 a = None"
      using getStateObject_None [of a s s1] g inv by (simp add: base_view_def)
    with None acc show ?thesis
      by (auto simp: t e_def abs_def acct_view_def fun_eq_iff split: option.split)
  next
    case (Some p)
    with prev acc show ?thesis
      by (auto simp: t e_def abs_def acct_view_def fun_eq_iff split: option.splits if_splits)
  qed
  moreover have "sdb_inv t" using inv1 prev by (auto simp: sdb_inv_def t e_def split: option.splits)
  ultimately have "records H s1 t" by (intro recordsI [where e = e]) (simp_all add: t)
  with records_getStateObject [OF g inv] show "records H s t" by (rule records_trans)
qed

lemma GetOrNew_live:
  assumes inv: "sdb_inv s" and t: "t = GetOrNewStateObject H a s"
  shows "records H s t" and "\<exists>obj. stateObjects t a = Some obj \<and> \<not> deleted obj"
proof -
  obtain r s1 where g: "getStateObject a s = (r, s1)" by fastforce
  obtain p s2 where c: "createObject H a s1 = (p, s2)" by fastforce
  have inv1: "sdb_inv s1" using getStateObject_inv [OF g inv] .
  have "records H s t \<and> (\<exists>obj. stateObjects t a = Some obj \<and> \<not> deleted obj)"
  proof (cases r)
    case None
    then have "t = s2" using t g c by (simp add: GetOrNewStateObject_def)
    with records_createObject [OF inv1 c] records_trans [OF records_getStateObject [OF g inv]] show ?thesis
      by auto
  next
    case (Some obj)
    then have "\<not> deleted obj" "stateObjects s1 a = Some obj" using getStateObject_Some [OF _ inv] g by simp_all
    moreover from this have "t = s1" using t g Some by (simp add: GetOrNewStateObject_def)
    ultimately show ?thesis using records_getStateObject [OF g inv] by simp
  qed
  then show "records H s t" "\<exists>obj. stateObjects t a = Some obj \<and> \<not> deleted obj" by auto
qed

lemma records_so_SetBalance:
  assumes "sdb_inv s" and "stateObjects s a = Some obj" and "\<not> deleted obj"
  shows "records H s (so_SetBalance a amount s)"
  using assms records_change [OF assms, of "setBalance amount" "balanceChange a (Balance (soData obj))" H
      "\<lambda>v. v\<lparr>vBalance := Balance (soData obj)\<rparr>"]
  by (simp add: so_SetBalance_def) (simp add: obj_view_def)

lemma records_so_touch:
  assumes "sdb_inv s"
  shows "records H s (so_touch a s)"
proof (rule recordsI [where e = "touchChange a"])
  show "sdb_inv (so_touch a s)"
    using assms by (auto simp: so_touch_def sdb_inv_def Let_def journal_dirty_def)
qed (simp_all add: so_touch_def Let_def journal_dirty_def abs_def)

lemma live_objE:
  assumes "\<exists>obj. stateObjects s a = Some obj \<and> \<not> deleted obj"
  obtains obj where "stateObjects s a = Some obj" and "\<not> deleted obj"
  using assms by blast

lemma records_refl: "sdb_inv s \<Longrightarrow> records H s s"
  by (rule records_same) simp_all

lemma records_inv: "records H s t \<Longrightarrow> sdb_inv t"
  by (simp add: records_def)

text \<open>Every setter creates the object if needed and then changes it.\<close>

lemma records_setter:
  assumes "sdb_inv s"
    and "\<And>t obj. sdb_inv t \<Longrightarrow> stateObjects t a = Some obj \<Longrightarrow> \<not> deleted obj \<Longrightarrow> records H t (f t)"
  shows "records H s (f (GetOrNewStateObject H a s))"
  using GetOrNew_live [OF assms(1) refl, of H a] assms(2) records_trans records_inv by blast

lemma records_SetBalance: "sdb_inv s \<Longrightarrow> records H s (SetBalance H a amount s)"
  unfolding SetBalance_def by (rule records_setter) (auto intro: records_so_SetBalance)

lemma records_AddBalance: "sdb_inv s \<Longrightarrow> records H s (AddBalance H a amount s)"
  unfolding AddBalance_def
  by (rule records_setter)
    (auto simp: so_AddBalance_def intro: records_so_SetBalance records_so_touch records_refl)

lemma records_SubBalance: "sdb_inv s \<Longrightarrow> records H s (SubBalance H a amount s)"
  unfolding SubBalance_def
  by (rule records_setter) (auto simp: so_SubBalance_def intro: records_so_SetBalance records_refl)

lemma records_SetNonce: "sdb_inv s \<Longrightarrow> records H s (SetNonce H a n s)"
  unfolding SetNonce_def
proof (rule records_setter)
  fix t obj
  assume t: "sdb_inv t" "stateObjects t a = Some obj" "\<not> deleted obj"
  show "records H t (so_SetNonce a n t)"
    using t records_change [OF t, of "setNonce n" "nonceChange a (acNonce (soData obj))" H
        "\<lambda>v. v\<lparr>vNonce := acNonce (soData obj)\<rparr>"]
    by (simp add: so_SetNonce_def) (simp add: obj_view_def)
qed

text \<open>Filling a cache of a live object.\<close>

lemma records_cache:
  assumes "sdb_inv s" and "stateObjects s a = Some obj" and "\<not> deleted obj"
    and "soAddress obj' = soAddress obj" and "deleted obj' = deleted obj"
    and "obj_view H (db s) obj' = obj_view H (db s) obj"
  shows "records H s (upd_obj a (\<lambda>_. obj') s)"
proof (rule records_same)
  show "sdb_inv (upd_obj a (\<lambda>_. obj') s)"
    using assms by (intro sdb_inv_upd_obj [where obj = obj]) simp_all
  have "acct_view H s a = Some (obj_view H (db s) obj)" using assms by (simp add: acct_view_def)
  then show "abs H (upd_obj a (\<lambda>_. obj') s) = abs H s"
    using acct_view_upd_obj [of s a obj "\<lambda>_. obj'" H] assms by (simp add: abs_def fun_upd_idem)
qed (simp add: keeps_def)

lemma records_SetState: "sdb_inv s \<Longrightarrow> records H s (SetState H a k v s)"
  unfolding SetState_def
proof (rule records_setter)
  fix t obj
  assume t: "sdb_inv t" "stateObjects t a = Some obj" "\<not> deleted obj"
  obtain p obj' where g: "so_GetState H (db t) k obj = (p, obj')" by fastforce
  have obj': "soAddress obj' = soAddress obj" "deleted obj' = deleted obj"
    "obj_view H (db t) obj' = obj_view H (db t) obj" "p = vStorage (obj_view H (db t) obj) k"
    using so_GetState_view [of H "db t" k obj] g by simp_all
  let ?u = "upd_obj a (\<lambda>_. obj') t"
  have r: "records H t ?u" using records_cache [OF t] obj' by simp
  have "records H ?u (upd_obj a (setState k v) (journal_append (storageChange a k p) ?u))"
    using t obj' records_inv [OF r]
    by (intro records_change [where obj = obj' and g = "\<lambda>w. w\<lparr>vStorage := (vStorage w)(k := p)\<rparr>"]) simp_all
  with r t g show "records H t (so_SetState H a k v t)"
    by (simp add: so_SetState_def) (rule records_trans)
qed

lemma records_SetCode: "sdb_inv s \<Longrightarrow> records H s (SetCode H a c s)"
  unfolding SetCode_def
proof (rule records_setter)
  fix t obj
  let ?ch = "codeHashOf H (case c of None \<Rightarrow> [] | Some c \<Rightarrow> c)"
  assume t: "sdb_inv t" "stateObjects t a = Some obj" "\<not> deleted obj"
  obtain p obj' where g: "so_Code H (db t) obj = (p, obj')" by fastforce
  have obj': "soAddress obj' = soAddress obj" "deleted obj' = deleted obj" "soData obj' = soData obj"
    "obj_view H (db t) obj' = obj_view H (db t) obj"
    "code_view H (db t) (CodeHash (soData obj)) p = vCode (obj_view H (db t) obj)"
    using so_Code_view(2-5) [of H "db t" obj] so_Code_view(1) [of H "db t" "CodeHash (soData obj)" obj] g by simp_all
  let ?u = "upd_obj a (\<lambda>_. obj') t" and ?h = "CodeHash (soData obj)"
  have r: "records H t ?u" using records_cache [OF t] obj' by simp
  have "(obj_view H (db t) obj)\<lparr>vCodeHash := ?h, vCode := vCode (obj_view H (db t) obj)\<rparr> = obj_view H (db t) obj"
    by (simp add: obj_view_def)
  then have "records H ?u (upd_obj a (setCode ?ch c) (journal_append (codeChange a p ?h) ?u))"
    using t obj' records_inv [OF r]
    by (intro records_change [where obj = obj' and
          g = "\<lambda>w. w\<lparr>vCodeHash := ?h, vCode := code_view H (db t) ?h p\<rparr>"]) simp_all
  with r t g obj' show "records H t (so_SetCode H a ?ch c t)"
    by (simp add: so_SetCode_def) (rule records_trans)
qed

lemma records_Suicide: "sdb_inv s \<Longrightarrow> records H s (snd (Suicide a s))"
proof -
  assume inv: "sdb_inv s"
  obtain r s1 where g: "getStateObject a s = (r, s1)" by fastforce
  show ?thesis
  proof (cases r)
    case None
    with records_getStateObject [OF g inv] g show ?thesis by (simp add: Suicide_def)
  next
    case (Some obj)
    have live: "stateObjects s1 a = Some obj" "\<not> deleted obj" using getStateObject_Some [OF _ inv] g Some by simp_all
    have "obj_view H st (markSuicided obj) = (obj_view H st obj)\<lparr>vSuicided := True\<rparr>" for st
      by (simp add: markSuicided_def)
    moreover have "(obj_view H st obj)\<lparr>vSuicided := suicided obj, vBalance := Balance (soData obj)\<rparr> = obj_view H st obj" for st
      by (simp add: obj_view_def)
    ultimately have "records H s1 (upd_obj a (\<lambda>obj. setBalance 0 (markSuicided obj))
        (journal_append (suicideChange a (suicided obj) (Balance (soData obj))) s1))"
      using live getStateObject_inv [OF g inv]
      by (intro records_change [where obj = obj and
            g = "\<lambda>v. v\<lparr>vSuicided := suicided obj, vBalance := Balance (soData obj)\<rparr>"]) auto
    with records_getStateObject [OF g inv] Some g show ?thesis
      by (simp add: Suicide_def) (rule records_trans)
  qed
qed

lemma records_CreateAccount: "sdb_inv s \<Longrightarrow> records H s (CreateAccount H a s)"
proof -
  assume inv: "sdb_inv s"
  obtain prev t where c: "createObject H a s = (prev, t)" by fastforce
  note r = records_createObject [OF inv c]
  show ?thesis
  proof (cases prev)
    case None
    with r c show ?thesis by (simp add: CreateAccount_def)
  next
    case (Some p)
    obtain s1 where g: "getStateObject a s = (Some p, s1)"
      using c Some by (auto simp: createObject_def split: prod.splits)
    have t: "t = setStateObject (newObject a (emptyAccount H)) (journal_append (resetObjectChange p) s1)"
      using c g by (simp add: createObject_def setNonce_def newObject_def emptyAccount_def)
    let ?u = "upd_obj a (setBalance (Balance (soData p))) t"
    note live = getStateObject_Some [OF g inv]
    have "records H s1 ?u"
    proof (rule recordsI [where e = "resetObjectChange p"])
      show "sdb_inv ?u"
        using records_inv [OF r(1)] r(2)
        by (intro sdb_inv_upd_obj [where obj = "newObject a (emptyAccount H)"]) simp_all
      have "acct_view H ?u = (acct_view H t)(a \<mapsto> obj_view H (db t) (setBalance (Balance (soData p)) (newObject a (emptyAccount H))))"
        using r(2) by (intro acct_view_upd_obj) simp_all
      moreover have "acct_view H t = (acct_view H s1)(a \<mapsto> obj_view H (db s1) (newObject a (emptyAccount H)))"
        by (auto simp: t acct_view_def fun_eq_iff split: option.split)
      moreover have "acct_view H s1 a = Some (obj_view H (db s1) p)" using live by (simp add: acct_view_def)
      ultimately show "undo1 H (db s1) (resetObjectChange p) (abs H ?u) = Inr (abs H s1)"
        using live by (simp add: abs_def t fun_upd_idem)
    qed (simp_all add: t)
    with records_getStateObject [OF g inv] have "records H s ?u" by (rule records_trans)
    with c Some show ?thesis by (simp add: CreateAccount_def)
  qed
qed

lemma records_AddLog: "sdb_inv s \<Longrightarrow> records H s (AddLog l s)"
  by (rule recordsI [where e = "addLogChange (thash s)"])
    (auto simp: AddLog_def Let_def sdb_inv_def abs_def fun_eq_iff split: option.split)

lemma records_AddPreimage: "sdb_inv s \<Longrightarrow> records H s (AddPreimage h b s)"
proof (cases "preimages s h = None")
  case True
  assume "sdb_inv s"
  with True show ?thesis
    by (intro recordsI [where e = "addPreimageChange h"]) (auto simp: AddPreimage_def sdb_inv_def abs_def)
qed (auto simp: AddPreimage_def records_refl)

lemma records_AddRefund: "sdb_inv s \<Longrightarrow> records H s (AddRefund g s)"
  by (rule recordsI [where e = "refundChange (refund s)"]) (auto simp: AddRefund_def sdb_inv_def abs_def)

lemma records_SubRefund: "sdb_inv s \<Longrightarrow> SubRefund g s = Inr t \<Longrightarrow> records H s t"
  by (rule recordsI [where e = "refundChange (refund s)"])
    (auto simp: SubRefund_def sdb_inv_def abs_def split: if_splits)

text \<open>Queries change nothing observable.\<close>

lemma records_GetState: "sdb_inv s \<Longrightarrow> records H s (snd (GetState H a k s))"
proof -
  assume inv: "sdb_inv s"
  obtain r s1 where g: "getStateObject a s = (r, s1)" by fastforce
  note r1 = records_getStateObject [OF g inv, of H]
  show ?thesis
  proof (cases r)
    case (Some obj)
    have live: "stateObjects s1 a = Some obj" "\<not> deleted obj" using getStateObject_Some [OF _ inv] g Some by simp_all
    obtain v obj' where "so_GetState H (db s1) k obj = (v, obj')" by fastforce
    moreover from this have "records H s1 (upd_obj a (\<lambda>_. obj') s1)"
      using records_cache [OF getStateObject_inv [OF g inv] live, of obj' H] so_GetState_view [of H "db s1" k obj]
      by simp
    ultimately show ?thesis using g Some records_trans [OF r1] by (simp add: GetState_def)
  qed (use g r1 in \<open>simp add: GetState_def\<close>)
qed

lemma records_GetCode: "sdb_inv s \<Longrightarrow> records H s (snd (GetCode H a s))"
proof -
  assume inv: "sdb_inv s"
  obtain r s1 where g: "getStateObject a s = (r, s1)" by fastforce
  note r1 = records_getStateObject [OF g inv, of H]
  show ?thesis
  proof (cases r)
    case (Some obj)
    have live: "stateObjects s1 a = Some obj" "\<not> deleted obj" using getStateObject_Some [OF _ inv] g Some by simp_all
    obtain v obj' where "so_Code H (db s1) obj = (v, obj')" by fastforce
    moreover from this have "records H s1 (upd_obj a (\<lambda>_. obj') s1)"
      using records_cache [OF getStateObject_inv [OF g inv] live, of obj' H] so_Code_view(2-5) [of H "db s1" obj]
      by simp
    ultimately show ?thesis using g Some records_trans [OF r1] by (simp add: GetCode_def)
  qed (use g r1 in \<open>simp add: GetCode_def\<close>)
qed

section \<open>Snapshots\<close>

inductive sdb_op :: "hashing \<Rightarrow> StateDB \<Rightarrow> StateDB \<Rightarrow> bool" for H where
  "sdb_op H s (AddBalance H a n s)"
| "sdb_op H s (SubBalance H a n s)"
| "sdb_op H s (SetBalance H a n s)"
| "sdb_op H s (SetNonce H a i s)"
| "sdb_op H s (SetCode H a c s)"
| "sdb_op H s (SetState H a k v s)"
| "sdb_op H s (snd (Suicide a s))"
| "sdb_op H s (CreateAccount H a s)"
| "sdb_op H s (AddLog l s)"
| "sdb_op H s (AddPreimage h c s)"
| "sdb_op H s (AddRefund g s)"
| "SubRefund g s = Inr t \<Longrightarrow> sdb_op H s t"
| "sdb_op H s (snd (getStateObject a s))"     \<comment> \<open>\<open>Exist\<close>, \<open>Empty\<close>, \<open>GetBalance\<close>, \<open>GetNonce\<close>, \<open>HasSuicided\<close>\<close>
| "sdb_op H s (snd (GetState H a k s))"
| "sdb_op H s (snd (GetCode H a s))"

lemma sdb_op_records: "sdb_op H s t \<Longrightarrow> sdb_inv s \<Longrightarrow> records H s t"
  by (induction rule: sdb_op.induct)
    (auto intro: records_AddBalance records_SubBalance records_SetBalance records_SetNonce records_SetCode
      records_SetState records_Suicide records_CreateAccount records_AddLog records_AddPreimage
      records_AddRefund records_SubRefund records_GetState records_GetCode
      intro!: records_getStateObject [OF prod.collapse [symmetric]])

text \<open>The stack of revisions: increasing identifiers below the next one, growing journal lengths.\<close>

definition revs_ok :: "StateDB \<Rightarrow> bool" where
  "revs_ok s \<longleftrightarrow> sorted_wrt (<) (map fst (validRevisions s)) \<and> sorted (map snd (validRevisions s)) \<and>
     (\<forall>(i, k) \<in> set (validRevisions s). i < nextRevisionId s \<and> k \<le> length (entries s))"

text \<open>The bisection finds the boundary of a monotone predicate.\<close>

definition boundary :: "nat \<Rightarrow> nat \<Rightarrow> (nat \<Rightarrow> bool) \<Rightarrow> nat \<Rightarrow> bool" where
  "boundary i j f r \<longleftrightarrow> i \<le> r \<and> r \<le> j \<and> (\<forall>k. i \<le> k \<and> k < r \<longrightarrow> \<not> f k) \<and> (r < j \<longrightarrow> f r)"

lemma boundary_low: "boundary i h f r \<Longrightarrow> f h \<Longrightarrow> h \<le> j \<Longrightarrow> boundary i j f r"
  by (auto simp: boundary_def le_less)

lemma boundary_high:
  "boundary (Suc h) j f r \<Longrightarrow> (\<And>k. k \<le> h \<Longrightarrow> \<not> f k) \<Longrightarrow> i \<le> h \<Longrightarrow> boundary i j f r"
  unfolding boundary_def by (meson Suc_leI Suc_leD le_trans not_less)

lemma search_loop_boundary:
  assumes "i \<le> j" and "\<And>a b. a \<le> b \<Longrightarrow> b < j \<Longrightarrow> f a \<Longrightarrow> f b"
  shows "boundary i j f (search_loop i j f)"
  using assms
proof (induction i j f rule: search_loop.induct)
  case (1 i j f)
  show ?case
  proof (cases "i < j")
    case True
    define h where "h = (i + j) div 2"
    have h: "i \<le> h" "h < j" using True by (simp_all add: h_def)
    have step: "search_loop i j f = (if \<not> f h then search_loop (h + 1) j f else search_loop i h f)"
      using True by (subst search_loop.simps) (simp add: h_def Let_def)
    show ?thesis
    proof (cases "f h")
      case fh: True
      have "boundary i h f (search_loop i h f)"
        using "1.IH"(2) [OF True h_def] fh h "1.prems" by simp
      with boundary_low [OF this fh] h fh step show ?thesis by simp
    next
      case False
      have "boundary (Suc h) j f (search_loop (Suc h) j f)"
        using "1.IH"(1) [OF True h_def] False h "1.prems" by simp
      moreover have "\<not> f k" if "k \<le> h" for k using "1.prems"(2) [OF that h(2)] False by blast
      ultimately show ?thesis using boundary_high [of h j f _ i] h False step by simp
    qed
  next
    case False
    with "1.prems" show ?thesis by (subst search_loop.simps) (auto simp: boundary_def)
  qed
qed

lemma undirty_keeps: "keeps s (undirty e s)" "abs H (undirty e s) = abs H s" "sdb_inv (undirty e s) = sdb_inv s"
  by (simp_all add: undirty_def keeps_def abs_def sdb_inv_def split: option.split)

lemma revert_entries_abs:
  assumes "sdb_inv s" and "\<And>p. resetObjectChange p \<in> set es \<Longrightarrow> \<not> deleted p"
  shows "map_sum id (abs H) (revert_entries es s) = fold_res (undo1 H (db s)) es (abs H s) \<and>
    (\<forall>s'. revert_entries es s = Inr s' \<longrightarrow> sdb_inv s' \<and> keeps s s')"
  using assms
proof (induction es arbitrary: s)
  case (Cons e es)
  note er = entry_revert_abs [OF Cons.prems(1), of e]
  show ?case
  proof (cases "entry_revert e s")
    case (Inl m)
    with er(1) [of H] Cons.prems show ?thesis by (cases "undo1 H (db s) e (abs H s)") auto
  next
    case (Inr t)
    have t: "sdb_inv t" "keeps s t" using er(2) [OF _ Inr] Cons.prems by auto
    have u: "undo1 H (db s) e (abs H s) = Inr (abs H t)" using er(1) [of H] Inr Cons.prems by auto
    have "sdb_inv (undirty e t)" "keeps s (undirty e t)" "db (undirty e t) = db s"
      using t undirty_keeps keeps_trans by (auto simp: keeps_def)
    with Cons.IH [of "undirty e t"] Cons.prems Inr u show ?thesis
      using keeps_trans [of s "undirty e t"] by (auto simp: undirty_keeps)
  qed
qed simp

lemma search_revision:
  fixes rs :: "(int \<times> nat) list"
  assumes "sorted_wrt (<) (map fst rs)" and "rs = xs @ (i, k) # ys"
  shows "search_loop 0 (length rs) (\<lambda>j. i \<le> fst (rs ! j)) = length xs"
proof -
  have lt: "fst (rs ! a) < fst (rs ! b)" if "a < b" "b < length rs" for a b
    using sorted_wrt_nth_less [OF assms(1), of a b] that by simp
  have mono: "i \<le> fst (rs ! b)" if "a \<le> b" "b < length rs" "i \<le> fst (rs ! a)" for a b
    using that lt [of a b] by (cases "a = b") auto
  define r where "r = search_loop 0 (length rs) (\<lambda>j. i \<le> fst (rs ! j))"
  have b: "boundary 0 (length rs) (\<lambda>j. i \<le> fst (rs ! j)) r"
    unfolding r_def using mono by (intro search_loop_boundary) simp_all
  have x: "fst (rs ! length xs) = i" "length xs < length rs" using assms(2) by simp_all
  have "\<not> length xs < r" using b x by (auto simp: boundary_def)
  moreover have "\<not> r < length xs" using b x lt [of r "length xs"] by (auto simp: boundary_def)
  ultimately show ?thesis by (simp add: r_def)
qed

lemma RevertToSnapshot_eq:
  assumes "revs_ok s" and "validRevisions s = xs @ (i, k) # ys"
  shows "RevertToSnapshot i s = res_bind (journal_revert k s) (\<lambda>s'. Inr (s'\<lparr>validRevisions := xs\<rparr>))"
  using search_revision [of "validRevisions s" xs i k ys] assms
  by (simp add: RevertToSnapshot_def revs_ok_def Let_def)

text \<open>The snapshot operations satisfy the contract of an undo journal.\<close>

definition sdb_ok :: "stateStore \<Rightarrow> StateDB \<Rightarrow> bool" where
  "sdb_ok st s \<longleftrightarrow> sdb_inv s \<and> revs_ok s \<and> db s = st"

definition sdb_oper :: "hashing \<Rightarrow> StateDB \<Rightarrow> StateDB \<Rightarrow> bool" where
  "sdb_oper H s t \<longleftrightarrow> sdb_op H s t \<or> t = snd (Snapshot s)"

definition sdb_roll :: "nat \<Rightarrow> StateDB \<Rightarrow> StateDB \<Rightarrow> bool" where
  "sdb_roll k s t \<longleftrightarrow> (\<exists>xs i ys. validRevisions s = xs @ (i, k) # ys \<and> RevertToSnapshot i s = Inr t)"

lemma Snapshot_sel:
  "abs H (snd (Snapshot s)) = abs H s" "entries (snd (Snapshot s)) = entries s"
  "sdb_inv (snd (Snapshot s)) = sdb_inv s" "db (snd (Snapshot s)) = db s"
  "validRevisions (snd (Snapshot s)) = validRevisions s @ [(nextRevisionId s, length (entries s))]"
  "nextRevisionId (snd (Snapshot s)) = nextRevisionId s + 1"
  by (simp_all add: Snapshot_def abs_def sdb_inv_def)

lemma revs_ok_Snapshot: "revs_ok s \<Longrightarrow> revs_ok (snd (Snapshot s))"
  by (force simp: revs_ok_def Snapshot_sel sorted_wrt_append sorted_append)

lemma revs_ok_records: "records H s t \<Longrightarrow> revs_ok s \<Longrightarrow> revs_ok t"
  by (fastforce simp: records_def revs_ok_def)

lemma roll_facts:
  assumes "sdb_inv s" and "revs_ok s" and "validRevisions s = xs @ (i, k) # ys" and "RevertToSnapshot i s = Inr t"
  shows "k \<le> length (entries s)" and "entries t = take k (entries s)" and "validRevisions t = xs"
    and "sdb_inv t" and "revs_ok t" and "db t = db s" and "nextRevisionId t = nextRevisionId s"
    and "fold_res (undo1 H (db s)) (rev (drop k (entries s))) (abs H s) = Inr (abs H t)"
proof -
  show k: "k \<le> length (entries s)" using assms(2,3) by (simp add: revs_ok_def)
  obtain u where u: "revert_entries (rev (drop k (entries s))) s = Inr u"
    "t = u\<lparr>entries := take k (entries s), validRevisions := xs\<rparr>"
    using assms(4) by (auto simp: RevertToSnapshot_eq [OF assms(2,3)] journal_revert_def res_bind_eq_Inr_iff)
  have "resetObjectChange p \<in> set (rev (drop k (entries s))) \<Longrightarrow> \<not> deleted p" for p
    using assms(1) by (auto simp: sdb_inv_def dest: in_set_dropD)
  from this u(1) revert_entries_abs [OF assms(1), of "rev (drop k (entries s))" H] have inv: "sdb_inv u" "keeps s u"
    and f: "fold_res (undo1 H (db s)) (rev (drop k (entries s))) (abs H s) = Inr (abs H u)" by auto
  show "entries t = take k (entries s)" "validRevisions t = xs" "db t = db s" "nextRevisionId t = nextRevisionId s"
    using inv(2) u(2) by (simp_all add: keeps_def)
  show "sdb_inv t"
    using inv u(2) by (auto simp: sdb_inv_def keeps_def dest: in_set_takeD)
  show "fold_res (undo1 H (db s)) (rev (drop k (entries s))) (abs H s) = Inr (abs H t)"
    using f by (simp add: u(2) abs_def)
  have "\<forall>(j, m) \<in> set xs. m \<le> k" using assms(2,3) by (force simp: revs_ok_def sorted_append)
  then show "revs_ok t"
    using assms(2,3) inv(2) k u(2) by (fastforce simp: revs_ok_def sorted_wrt_append sorted_append keeps_def)
qed

interpretation sdb: undo_log "abs H" entries "undo1 H st" "sdb_ok st" "sdb_oper H" sdb_roll for H st
proof unfold_locales
  fix s t :: StateDB and k
  assume ok: "sdb_ok st s"
  {
    assume op: "sdb_oper H s t"
    show "sdb_ok st t"
      using op ok sdb_op_records [of H s t] revs_ok_records [of H s t] revs_ok_Snapshot [of s]
      by (auto simp: sdb_oper_def sdb_ok_def Snapshot_sel records_def)
    show "\<exists>es. entries t = entries s @ es \<and> fold_res (undo1 H st) (rev es) (abs H t) = Inr (abs H s)"
      using op ok sdb_op_records [of H s t]
      by (auto simp: sdb_oper_def sdb_ok_def Snapshot_sel records_def)
  next
    assume "sdb_roll k s t"
    then obtain xs i ys where r: "validRevisions s = xs @ (i, k) # ys" "RevertToSnapshot i s = Inr t"
      by (auto simp: sdb_roll_def)
    have i: "sdb_inv s" "revs_ok s" "db s = st" using ok by (simp_all add: sdb_ok_def)
    note f = roll_facts [OF i(1,2) r]
    show "sdb_ok st t" using f(4-6) i(3) by (simp add: sdb_ok_def)
    show "k \<le> length (entries s) \<and> entries t = take k (entries s) \<and>
      fold_res (undo1 H st) (rev (drop k (entries s))) (abs H s) = Inr (abs H t)"
      using f(1,2) roll_facts(8) [OF i(1,2) r, of H] i(3) by simp
  }
qed

text \<open>What may happen between taking a snapshot and reverting to it: anything but a revert to an older one.\<close>

inductive evolves :: "hashing \<Rightarrow> int \<Rightarrow> StateDB \<Rightarrow> StateDB \<Rightarrow> bool" for H i where
  evolves_refl: "evolves H i s s"
| evolves_op: "evolves H i s t \<Longrightarrow> sdb_op H t u \<Longrightarrow> evolves H i s u"
| evolves_snapshot: "evolves H i s t \<Longrightarrow> evolves H i s (snd (Snapshot t))"
| evolves_revert: "evolves H i s t \<Longrightarrow> i < j \<Longrightarrow> RevertToSnapshot j t = Inr u \<Longrightarrow> evolves H i s u"

lemma search_loop_le: "i \<le> j \<Longrightarrow> search_loop i j f \<le> j"
proof (induction i j f rule: search_loop.induct)
  case (1 i j f)
  have "(i + j) div 2 \<le> j" using "1.prems" by simp
  with "1" show ?case
    by (subst search_loop.simps) (auto simp: Let_def intro: le_trans [of _ "(i + j) div 2"])
qed

lemma RevertToSnapshot_found:
  assumes "RevertToSnapshot j s = Inr t"
  shows "\<exists>xs k ys. validRevisions s = xs @ (j, k) # ys"
proof -
  define idx where "idx = search_loop 0 (length (validRevisions s)) (\<lambda>i. j \<le> fst (validRevisions s ! i))"
  have "idx \<le> length (validRevisions s)"
    by (simp add: idx_def search_loop_le)
  moreover have "idx \<noteq> length (validRevisions s)" "fst (validRevisions s ! idx) = j"
    using assms by (auto simp: RevertToSnapshot_def idx_def Let_def split: if_splits)
  ultimately have "validRevisions s = take idx (validRevisions s) @
      (j, snd (validRevisions s ! idx)) # drop (Suc idx) (validRevisions s)"
    using id_take_nth_drop [of idx "validRevisions s"] by (metis le_neq_implies_less prod.collapse)
  then show ?thesis by blast
qed

text \<open>The invariant of an evolution since a snapshot \<open>s1\<close>, whose own revision is the last of \<open>rs\<close>.\<close>

lemma evolves_since:
  assumes "evolves H i s1 s" and "sdb_ok st s1" and "validRevisions s1 = rs @ [(i, length (entries s1))]"
  shows "sdb_ok st s \<and> sdb.since H st s1 s \<and> (\<exists>ys. validRevisions s = rs @ (i, length (entries s1)) # ys)"
  using assms
proof (induction rule: evolves.induct)
  case (evolves_refl s)
  then show ?case using sdb.since_refl [of H st s] by simp
next
  case (evolves_op s t u)
  then have t: "sdb_ok st t" "sdb.since H st s t" and "sdb_oper H t u" by (auto simp: sdb_oper_def)
  moreover have "validRevisions u = validRevisions t"
    using sdb_op_records [OF evolves_op.hyps(2)] t(1) by (auto simp: sdb_ok_def records_def)
  ultimately show ?case
    using evolves_op sdb.oper_ok [of st t H u] sdb.since_oper [of H st s t u] by auto
next
  case (evolves_snapshot s t)
  then have t: "sdb_ok st t" "sdb.since H st s t" and "sdb_oper H t (snd (Snapshot t))"
    by (auto simp: sdb_oper_def)
  then show ?case
    using evolves_snapshot sdb.oper_ok [of st t H "snd (Snapshot t)"] sdb.since_oper [of H st s t "snd (Snapshot t)"]
    by (auto simp: Snapshot_sel)
next
  case (evolves_revert s t j u)
  then obtain ys where t: "sdb_ok st t" "sdb.since H st s t" "validRevisions t = rs @ (i, length (entries s)) # ys"
    by auto
  obtain xs k zs where r: "validRevisions t = xs @ (j, k) # zs"
    using RevertToSnapshot_found [OF evolves_revert.hyps(3)] by auto
  have inv: "sdb_inv t" "revs_ok t" using t(1) by (simp_all add: sdb_ok_def)
  have sorted: "sorted_wrt (<) (map fst (validRevisions t))" "sorted (map snd (validRevisions t))"
    using inv(2) by (simp_all add: revs_ok_def)
  have "\<exists>ws. ys = ws @ (j, k) # zs \<and> xs = rs @ (i, length (entries s)) # ws"
  proof -
    from t(3) r have "rs @ (i, length (entries s)) # ys = xs @ (j, k) # zs" by simp
    then consider ws where "rs @ [(i, length (entries s))] @ ws = xs" "ys = ws @ (j, k) # zs"
      | ws where "rs @ [(i, length (entries s))] = xs @ [(j, k)] @ ws" "ws @ ys = zs"
      using evolves_revert.hyps(2)
      by (auto simp: append_eq_append_conv2 append_eq_Cons_conv Cons_eq_append_conv)
    then show ?thesis
    proof cases
      case 2
      then have "(i, length (entries s)) = (j, k) \<or> (i, length (entries s)) \<in> set ws"
        by (metis append_Cons append_Nil in_set_conv_decomp last_appendR last_in_set last_snoc list.distinct(1) set_ConsD)
      moreover have "\<forall>w \<in> set zs. j < fst w" using sorted(1) r by (auto simp: sorted_wrt_append)
      ultimately show ?thesis using 2 evolves_revert.hyps(2) by force
    qed auto
  qed
  then obtain ws where ws: "ys = ws @ (j, k) # zs" "xs = rs @ (i, length (entries s)) # ws" by auto
  have k: "length (entries s) \<le> k" using sorted(2) t(3) ws by (auto simp: sorted_append)
  have roll: "sdb_roll k t u" using r evolves_revert.hyps(3) by (auto simp: sdb_roll_def)
  show ?case
    using sdb.roll_ok [OF t(1) roll] sdb.since_roll [OF t(2,1) roll k] roll_facts(3) [OF inv r evolves_revert.hyps(3)] ws
    by auto
qed

text \<open>
  C4.  Snapshots are exact: after any sequence of state operations, nested snapshots and reverts to
  those, \<open>RevertToSnapshot\<close> succeeds and restores everything observable of the state in which the
  snapshot was taken (balances, nonces, code, storage, suicide marks, refund counter, logs, preimages),
  together with the journal and the stack of revisions.
\<close>

theorem RevertToSnapshot_restores:
  assumes "sdb_inv s0" and "revs_ok s0" and "Snapshot s0 = (i, s1)" and "evolves H i s1 s"
  shows "\<exists>s'. RevertToSnapshot i s = Inr s' \<and> abs H s' = abs H s0 \<and> entries s' = entries s0 \<and>
    validRevisions s' = validRevisions s0"
proof -
  have s1: "s1 = snd (Snapshot s0)" "i = nextRevisionId s0" using assms(3) by (auto simp: Snapshot_def)
  define st where "st = db s0"
  have ok1: "sdb_ok st s1" using assms(1,2) revs_ok_Snapshot by (simp add: s1 sdb_ok_def Snapshot_sel st_def)
  have "validRevisions s1 = validRevisions s0 @ [(i, length (entries s1))]" by (simp add: s1 Snapshot_sel)
  from evolves_since [OF assms(4) ok1 this] obtain ys
    where s: "sdb_ok st s" "sdb.since H st s1 s"
      and v: "validRevisions s = validRevisions s0 @ (i, length (entries s1)) # ys" by auto
  have inv: "sdb_inv s" "revs_ok s" "db s = st" using s(1) by (simp_all add: sdb_ok_def)
  obtain es where es: "entries s = entries s1 @ es" "fold_res (undo1 H st) (rev es) (abs H s) = Inr (abs H s1)"
    using s(2) by (auto simp: sdb.since_def)
  have "resetObjectChange p \<in> set (rev es) \<Longrightarrow> \<not> deleted p" for p
    using inv(1) es(1) by (auto simp: sdb_inv_def)
  with revert_entries_abs [OF inv(1), of "rev es" H] es
  obtain u where u: "revert_entries (rev es) s = Inr u"
    using inv(3) by (cases "revert_entries (rev es) s") auto
  then obtain s' where r: "RevertToSnapshot i s = Inr s'"
    using RevertToSnapshot_eq [OF inv(2) v] es(1) by (simp add: journal_revert_def)
  then have roll: "sdb_roll (length (entries s1)) s s'" using v by (auto simp: sdb_roll_def)
  have "abs H s' = abs H s1" "entries s' = entries s1" using sdb.rollback_since [OF s(2,1) roll] by simp_all
  with r roll_facts(3) [OF inv(1,2) v r] show ?thesis by (auto simp: s1 Snapshot_sel)
qed

definition sample_hashing :: hashing where
  "sample_hashing = \<lparr>codeHashOf = (\<lambda>c. word_of_nat (length c)), accountRoot = (\<lambda>_. 1), storageRoot = (\<lambda>_. 2)\<rparr>"

definition sample_state :: StateDB where
  "sample_state = \<lparr>db = \<lparr>tries = Map.empty, storages = Map.empty, codes = Map.empty\<rparr>, strie = Map.empty,
     stateObjects = Map.empty, stateObjectsDirty = {}, refund = 0, thash = 0, bhash = 0, txIndex = 0,
     logs = Map.empty, logSize = 0, preimages = Map.empty, entries = [], dirties = (\<lambda>_. 0),
     validRevisions = [], nextRevisionId = 0\<rparr>"

theorem RevertToSnapshot_restores_witness:
  "\<exists>s'. RevertToSnapshot 0 (SetState sample_hashing 7 1 9 (SetBalance sample_hashing 7 5 (snd (Snapshot sample_state)))) = Inr s' \<and>
     accounts (abs sample_hashing s') 7 = None"
proof -
  define s1 where "s1 = snd (Snapshot sample_state)"
  have "Snapshot sample_state = (0, s1)" by (simp add: s1_def Snapshot_def sample_state_def)
  moreover have "sdb_inv sample_state" "revs_ok sample_state"
    by (simp_all add: sdb_inv_def revs_ok_def sample_state_def)
  moreover have "evolves sample_hashing 0 s1 (SetState sample_hashing 7 1 9 (SetBalance sample_hashing 7 5 s1))"
    by (rule evolves_op [OF evolves_op [OF evolves_refl]]) (rule sdb_op.intros)+
  ultimately obtain s' where
    "RevertToSnapshot 0 (SetState sample_hashing 7 1 9 (SetBalance sample_hashing 7 5 s1)) = Inr s'"
    "abs sample_hashing s' = abs sample_hashing sample_state"
    using RevertToSnapshot_restores by blast
  moreover have "accounts (abs sample_hashing sample_state) 7 = None"
    by (simp add: abs_def acct_view_def base_view_def load_account_def sample_state_def)
  ultimately show ?thesis by (auto simp: s1_def)
qed

end
