(* ===== verification/State_Balance.thy ===== *)
theory State_Balance
  imports State_Undo
begin

text \<open>
  The balance sheet of the account state.  A locale states what accounting code relies on (each balance
  operation changes one entry by the given amount), proves the conservation lemmas once, and is
  interpreted by the balance operations of \<open>StateDB\<close>.
\<close>

section \<open>The contract of a balance sheet\<close>

locale balance_sheet =
  fixes bal :: "'s \<Rightarrow> ('k :: finite) \<Rightarrow> int" and ok :: "'s \<Rightarrow> bool"
    and credit debit assign :: "'k \<Rightarrow> int \<Rightarrow> 's \<Rightarrow> 's" and peek :: "'k \<Rightarrow> 's \<Rightarrow> 's"
  assumes ok_credit: "ok s \<Longrightarrow> ok (credit a n s)"
    and ok_debit: "ok s \<Longrightarrow> ok (debit a n s)"
    and ok_assign: "ok s \<Longrightarrow> ok (assign a n s)"
    and bal_credit: "ok s \<Longrightarrow> bal (credit a n s) = (bal s)(a := bal s a + n)"
    and bal_debit: "ok s \<Longrightarrow> bal (debit a n s) = (bal s)(a := bal s a - n)"
    and bal_assign: "ok s \<Longrightarrow> bal (assign a n s) = (bal s)(a := n)"
    and ok_peek: "ok s \<Longrightarrow> ok (peek a s)"
    and bal_peek: "ok s \<Longrightarrow> bal (peek a s) = bal s"
begin

definition total :: "'s \<Rightarrow> int" where
  "total s = (\<Sum>a \<in> UNIV. bal s a)"

lemma sum_fun_upd: "(\<Sum>x \<in> (UNIV :: 'k set). (f(a := v)) x) = (\<Sum>x \<in> UNIV. f x) - f a + (v :: int)"
proof -
  have "(\<Sum>x \<in> (UNIV :: 'k set). (f(a := v)) x) = v + (\<Sum>x \<in> UNIV - {a}. (f(a := v)) x)"
    by (simp add: sum.remove [of UNIV a])
  also have "(\<Sum>x \<in> UNIV - {a}. (f(a := v)) x) = (\<Sum>x \<in> UNIV - {a}. f x)" by (rule sum.cong) auto
  also have "\<dots> = (\<Sum>x \<in> UNIV. f x) - f a" by (simp add: sum.remove [of UNIV a f])
  finally show ?thesis by simp
qed

lemma total_credit: "ok s \<Longrightarrow> total (credit a n s) = total s + n"
  by (simp add: total_def bal_credit sum_fun_upd del: fun_upd_apply)

lemma total_debit: "ok s \<Longrightarrow> total (debit a n s) = total s - n"
  by (simp add: total_def bal_debit sum_fun_upd del: fun_upd_apply)

lemma total_assign: "ok s \<Longrightarrow> total (assign a n s) = total s - bal s a + n"
  by (simp add: total_def bal_assign sum_fun_upd del: fun_upd_apply)

lemma total_peek: "ok s \<Longrightarrow> total (peek a s) = total s"
  by (simp add: total_def bal_peek)

lemmas ok_intros = ok_credit ok_debit ok_assign ok_peek
lemmas bal_simps = bal_credit bal_debit bal_assign bal_peek
lemmas total_simps = total_credit total_debit total_assign total_peek

text \<open>A list of payments out of one account; the receiver's account is looked at before and after.\<close>

definition pay :: "'k \<Rightarrow> ('k \<times> int) list \<Rightarrow> 's \<Rightarrow> 's" where
  "pay a outs s = fold (\<lambda>(b, n) s. peek b (credit b n (debit a n (peek b s)))) outs s"

lemma pay_simps [simp]:
  "pay a [] s = s" "pay a ((b, n) # outs) s = pay a outs (peek b (credit b n (debit a n (peek b s))))"
  by (simp_all add: pay_def)

lemma ok_pay: "ok s \<Longrightarrow> ok (pay a outs s)"
  by (induction outs arbitrary: s) (auto simp: ok_intros)

lemma total_pay: "ok s \<Longrightarrow> total (pay a outs s) = total s"
  by (induction outs arbitrary: s) (auto simp: total_simps ok_intros)

lemma bal_pay_payer:
  "ok s \<Longrightarrow> \<forall>(b, n) \<in> set outs. b \<noteq> a \<Longrightarrow> bal (pay a outs s) a = bal s a - (\<Sum>(b, n) \<leftarrow> outs. n)"
  by (induction outs arbitrary: s) (auto simp: bal_simps ok_intros)

lemma bal_pay_other:
  "ok s \<Longrightarrow> c \<noteq> a \<Longrightarrow>
   bal (pay a outs s) c = bal s c + (\<Sum>(b, n) \<leftarrow> outs. if b = c then n else 0)"
  by (induction outs arbitrary: s) (auto simp: bal_simps ok_intros)

text \<open>Paying nonnegative amounts never lowers the account of anyone but the payer.\<close>

lemma bal_pay_mono:
  "ok s \<Longrightarrow> c \<noteq> a \<Longrightarrow> \<forall>(b, n) \<in> set outs. 0 \<le> n \<Longrightarrow> bal s c \<le> bal (pay a outs s) c"
  by (simp add: bal_pay_other case_prod_beta) (force intro!: sum_list_nonneg)

end

section \<open>Balances of the state\<close>

definition balance :: "hashing \<Rightarrow> StateDB \<Rightarrow> address \<Rightarrow> int" where
  "balance H s a = (case acct_view H s a of None \<Rightarrow> 0 | Some v \<Rightarrow> vBalance v)"

lemma balance_abs: "abs H s = abs H t \<Longrightarrow> balance H s = balance H t"
  by (simp add: abs_def balance_def fun_eq_iff)

lemma GetBalance_eq:
  assumes "sdb_inv s"
  shows "fst (GetBalance a s) = balance H s a" and "abs H (snd (GetBalance a s)) = abs H s"
    and "sdb_inv (snd (GetBalance a s))"
proof -
  obtain r s1 where g: "getStateObject a s = (r, s1)" by fastforce
  show "fst (GetBalance a s) = balance H s a"
    using getStateObject_view(1) [OF g, of H] g
    by (simp add: GetBalance_def balance_def obj_view_def split: option.split)
  have "snd (GetBalance a s) = s1" using g by (simp add: GetBalance_def split: option.split)
  then show "abs H (snd (GetBalance a s)) = abs H s" "sdb_inv (snd (GetBalance a s))"
    using getStateObject_view(2) [OF g] getStateObject_inv [OF g assms] by simp_all
qed

lemma GetOrNew_view:
  assumes inv: "sdb_inv s" and t: "t = GetOrNewStateObject H a s"
  shows "balance H t = balance H s" and "abs H s = (abs H t)\<lparr>accounts := accounts (abs H s)\<rparr>"
proof -
  obtain r s1 where g: "getStateObject a s = (r, s1)" by fastforce
  have abs1: "abs H s1 = abs H s" using getStateObject_view(2) [OF g] .
  have "balance H t = balance H s1 \<and> abs H s1 = (abs H t)\<lparr>accounts := accounts (abs H s1)\<rparr>"
  proof (cases r)
    case (Some obj)
    then have "t = s1" using t g getStateObject_Some [OF _ inv] by (simp add: GetOrNewStateObject_def)
    then show ?thesis by simp
  next
    case None
    then have s1: "s1 = s" using getStateObject_None(1) [OF _ inv] g by simp
    have n: "setNonce 0 (newObject a (emptyAccount H)) = newObject a (emptyAccount H)"
      by (simp add: setNonce_def newObject_def emptyAccount_def)
    have "t = setStateObject (newObject a (emptyAccount H)) (journal_append (createObjectChange a) s)"
      using None t g n by (simp add: GetOrNewStateObject_def createObject_def s1)
    moreover have "acct_view H s a = None" using getStateObject_view(1) [OF g, of H] None by simp
    ultimately show ?thesis
      by (auto simp: s1 balance_def acct_view_def fun_eq_iff obj_view_def newObject_def emptyAccount_def abs_def
          split: option.split)
  qed
  with abs1 show "balance H t = balance H s" "abs H s = (abs H t)\<lparr>accounts := accounts (abs H s)\<rparr>"
    using balance_abs [OF abs1] by simp_all
qed

lemma balance_so_SetBalance:
  assumes "stateObjects s a = Some obj" and "\<not> deleted obj"
  shows "balance H (so_SetBalance a n s) = (balance H s)(a := n)"
  using assms acct_view_upd_obj [of "journal_append (balanceChange a (Balance (soData obj))) s" a obj "setBalance n" H]
  by (simp add: so_SetBalance_def balance_def fun_eq_iff)

lemma balance_live:
  "stateObjects s a = Some obj \<Longrightarrow> \<not> deleted obj \<Longrightarrow> balance H s a = Balance (soData obj)"
  by (simp add: balance_def acct_view_def obj_view_def)

lemma balance_so_touch: "balance H (so_touch a s) = balance H s"
  by (rule balance_abs) (simp add: so_touch_def Let_def journal_dirty_def abs_def)

lemma balance_SetBalance: "sdb_inv s \<Longrightarrow> balance H (SetBalance H a n s) = (balance H s)(a := n)"
  using GetOrNew_live(2) [OF _ refl, of s H a] GetOrNew_view(1) [OF _ refl, of s H a]
  by (auto simp: SetBalance_def balance_so_SetBalance)

lemma balance_AddBalance: "sdb_inv s \<Longrightarrow> balance H (AddBalance H a n s) = (balance H s)(a := balance H s a + n)"
proof -
  assume inv: "sdb_inv s"
  define t where "t = GetOrNewStateObject H a s"
  obtain obj where obj: "stateObjects t a = Some obj" "\<not> deleted obj"
    using GetOrNew_live(2) [OF inv t_def] by blast
  have "balance H t = balance H s" using GetOrNew_view(1) [OF inv t_def] .
  with obj balance_live [OF obj, of H] show ?thesis
    by (cases "n = 0") (auto simp: AddBalance_def so_AddBalance_def balance_so_SetBalance balance_so_touch fun_upd_idem
        simp flip: t_def)
qed

lemma balance_SubBalance: "sdb_inv s \<Longrightarrow> balance H (SubBalance H a n s) = (balance H s)(a := balance H s a - n)"
proof -
  assume inv: "sdb_inv s"
  define t where "t = GetOrNewStateObject H a s"
  obtain obj where obj: "stateObjects t a = Some obj" "\<not> deleted obj"
    using GetOrNew_live(2) [OF inv t_def] by blast
  have "balance H t = balance H s" using GetOrNew_view(1) [OF inv t_def] .
  with obj balance_live [OF obj, of H] show ?thesis
    by (cases "n = 0") (auto simp: SubBalance_def so_SubBalance_def balance_so_SetBalance fun_upd_idem
        simp flip: t_def)
qed

lemma balance_SetNonce: "sdb_inv s \<Longrightarrow> balance H (SetNonce H a n s) = balance H s"
proof -
  assume inv: "sdb_inv s"
  define t where "t = GetOrNewStateObject H a s"
  obtain obj where obj: "stateObjects t a = Some obj" "\<not> deleted obj"
    using GetOrNew_live(2) [OF inv t_def] by blast
  have "balance H t = balance H s" using GetOrNew_view(1) [OF inv t_def] .
  moreover have "acct_view H (SetNonce H a n s)
      = (acct_view H t)(a \<mapsto> obj_view H (db t) (setNonce n obj))"
    using obj acct_view_upd_obj [of "journal_append (nonceChange a (acNonce (soData obj))) t" a obj "setNonce n" H]
    by (simp add: SetNonce_def so_SetNonce_def flip: t_def)
  moreover have "vBalance (obj_view H (db t) (setNonce n obj)) = balance H t a"
    using balance_live [OF obj, of H] by (simp add: obj_view_def setNonce_def)
  ultimately show ?thesis by (auto simp: balance_def fun_eq_iff)
qed

section \<open>States of plain accounts\<close>

text \<open>
  No object has been destroyed, an object that is not marked dirty agrees with the trie it was loaded from, no
  read has failed and none will: the storage trie of every account can be opened.
\<close>

definition openable :: "hashing \<Rightarrow> stateStore \<Rightarrow> Account \<Rightarrow> bool" where
  "openable H st d \<longleftrightarrow> OpenStorageTrie H st (Root d) \<noteq> None"

definition intact :: "hashing \<Rightarrow> StateDB \<Rightarrow> bool" where
  "intact H s \<longleftrightarrow>
     (\<forall>a obj. stateObjects s a = Some obj \<longrightarrow> soErr obj = None \<and> (soTrie obj = None \<longrightarrow> openable H (db s) (soData obj))) \<and>
     (\<forall>a d. stateObjects s a = None \<longrightarrow> load_account (strie s) a = Some d \<longrightarrow> openable H (db s) d)"

definition mirrored :: "StateDB \<Rightarrow> address \<Rightarrow> stateObject \<Rightarrow> bool" where
  "mirrored s a obj \<longleftrightarrow> \<not> suicided obj \<and> \<not> deleted obj \<and>
     (dirties s a = 0 \<and> a \<notin> stateObjectsDirty s \<longrightarrow> load_account (strie s) a = Some (soData obj))"

definition calm :: "hashing \<Rightarrow> StateDB \<Rightarrow> bool" where
  "calm H s \<longleftrightarrow> sdb_inv s \<and> (\<forall>a obj. stateObjects s a = Some obj \<longrightarrow> mirrored s a obj) \<and> intact H s"

lemma calm_inv: "calm H s \<Longrightarrow> sdb_inv s"
  by (simp add: calm_def)

lemma calm_getStateObject: "getStateObject a s = (r, t) \<Longrightarrow> calm H s \<Longrightarrow> calm H t"
  using getStateObject_inv [of a s r t]
  by (auto simp: calm_def getStateObject_def mirrored_def intact_def setStateObject_def newObject_def Let_def
      split: option.splits if_splits)

lemma calm_journal_dirty: "calm H s \<Longrightarrow> calm H (so_touch a s)"
  by (auto simp: calm_def sdb_inv_def mirrored_def intact_def so_touch_def journal_append_def journal_dirty_def Let_def)

lemma calm_change:
  assumes "calm H s" and "stateObjects s a \<noteq> None" and "dirtied e = Some a"
    and "\<And>obj. suicided (f obj) = suicided obj \<and> deleted (f obj) = deleted obj"
    and "\<And>obj. soErr (f obj) = soErr obj \<and> soTrie (f obj) = soTrie obj \<and> Root (soData (f obj)) = Root (soData obj)"
    and "sdb_inv (upd_obj a f (journal_append e s))"
  shows "calm H (upd_obj a f (journal_append e s))"
  using assms by (auto simp: calm_def mirrored_def intact_def openable_def journal_append_def upd_obj_def)

lemma calm_GetOrNew: "calm H s \<Longrightarrow> calm H (GetOrNewStateObject H a s)"
proof -
  assume calm: "calm H s"
  obtain r s1 where g: "getStateObject a s = (r, s1)" by fastforce
  have inv: "sdb_inv (GetOrNewStateObject H a s)"
    using records_inv [OF GetOrNew_live(1) [OF calm_inv [OF calm] refl]] .
  show ?thesis
  proof (cases r)
    case (Some obj)
    then have "GetOrNewStateObject H a s = s1"
      using g getStateObject_Some [OF _ calm_inv [OF calm]] by (simp add: GetOrNewStateObject_def)
    with calm_getStateObject [OF g calm] show ?thesis by simp
  next
    case None
    then have "s1 = s" using getStateObject_None(1) [OF _ calm_inv [OF calm]] g by simp
    then have "GetOrNewStateObject H a s =
        setStateObject (setNonce 0 (newObject a (emptyAccount H))) (journal_append (createObjectChange a) s)"
      using g None by (simp add: GetOrNewStateObject_def createObject_def)
    with calm inv show ?thesis
      by (auto simp: calm_def mirrored_def intact_def openable_def OpenStorageTrie_def emptyAccount_def setStateObject_def journal_append_def setNonce_def newObject_def)
  qed
qed

lemma calm_so_SetBalance:
  assumes "calm H s" and "stateObjects s a = Some obj" and "\<not> deleted obj"
  shows "calm H (so_SetBalance a n s)"
proof -
  have "sdb_inv (so_SetBalance a n s)"
    using records_inv [OF records_so_SetBalance [OF calm_inv [OF assms(1)] assms(2,3)]] .
  then show ?thesis
    using assms(2) unfolding so_SetBalance_def by (auto intro!: calm_change [OF assms(1)] simp: setBalance_def)
qed

lemma calm_setters:
  assumes "calm H s"
  shows "calm H (SetBalance H a n s)" and "calm H (AddBalance H a n s)" and "calm H (SubBalance H a n s)"
    and "calm H (SetNonce H a k s)"
proof -
  define t where "t = GetOrNewStateObject H a s"
  have t: "calm H t" using calm_GetOrNew [OF assms] by (simp add: t_def)
  obtain obj where obj: "stateObjects t a = Some obj" "\<not> deleted obj"
    using GetOrNew_live(2) [OF calm_inv [OF assms] t_def] by blast
  note set = calm_so_SetBalance [OF t obj]
  show "calm H (SetBalance H a n s)" "calm H (AddBalance H a n s)" "calm H (SubBalance H a n s)"
    using set t obj calm_journal_dirty [OF t, of a]
    by (simp_all add: SetBalance_def AddBalance_def SubBalance_def so_AddBalance_def so_SubBalance_def flip: t_def)
  have "sdb_inv (SetNonce H a k s)" using records_inv [OF records_SetNonce [OF calm_inv [OF assms]]] .
  then show "calm H (SetNonce H a k s)"
    using obj unfolding SetNonce_def so_SetNonce_def t_def [symmetric]
    by (auto intro!: calm_change [OF t] simp: setNonce_def)
qed

lemma calm_queries: "calm H s \<Longrightarrow> calm H (snd (GetBalance a s))" "calm H s \<Longrightarrow> calm H (snd (GetNonce a s))"
  by (cases "getStateObject a s"; simp add: GetBalance_def GetNonce_def calm_getStateObject split: option.split)+

interpretation ledger: balance_sheet "balance H" "calm H" "AddBalance H" "SubBalance H" "SetBalance H"
  "\<lambda>a s. snd (GetBalance a s)" for H
  by unfold_locales
    (auto intro: calm_setters calm_queries balance_abs [OF GetBalance_eq(2)]
      simp: calm_inv balance_AddBalance balance_SubBalance balance_SetBalance)

text \<open>The money held by all accounts, and the states in which no account is overdrawn.\<close>

definition total_supply :: "hashing \<Rightarrow> StateDB \<Rightarrow> int" where
  "total_supply H s = (\<Sum>a \<in> UNIV. balance H s a)"

definition solvent :: "hashing \<Rightarrow> StateDB \<Rightarrow> bool" where
  "solvent H s \<longleftrightarrow> (\<forall>a. 0 \<le> balance H s a)"

lemma supply_total: "total_supply H s = ledger.total H s"
  by (simp add: total_supply_def ledger.total_def)

lemma supply_balance: "balance H s = balance H t \<Longrightarrow> total_supply H s = total_supply H t"
  by (simp add: total_supply_def)

lemma solvent_balance: "balance H s = balance H t \<Longrightarrow> solvent H s = solvent H t"
  by (simp add: solvent_def)

lemma GetNonce_keeps: "balance H (snd (GetNonce a s)) = balance H s"
proof -
  obtain r s1 where g: "getStateObject a s = (r, s1)" by fastforce
  then have "snd (GetNonce a s) = s1" by (simp add: GetNonce_def split: option.split)
  then show ?thesis
    using balance_abs [OF getStateObject_view(2) [OF g]] by simp
qed

end
