(* ===== verification/Accounting.thy ===== *)
theory Accounting
  imports Storage State_Balance
begin

text \<open>
  The accounting of a confirmed block, \<open>src/sdag/mainchain/bestir.go\<close>: the confirmation reward is
  credited to the block's sender, its transfers are executed, the fee is deducted and becomes the
  reward of the block that confirmed it; the miner of the main block receives what has accumulated
  and the mining reward.  \<open>core.ApplyTransaction\<close>, which runs contract code, is the argument \<open>A\<close> of the
  definitions.  Conservation of money and the sign of the balances are proved on the balance sheet of
  \<open>State_Balance\<close>.
\<close>

section \<open>Rewards\<close>

record ConfirmRewardInfo =
  userReward :: int
  minerReward :: int

definition ConfirmRewardInfo_Init :: ConfirmRewardInfo where
  "ConfirmRewardInfo_Init = \<lparr>userReward = 0, minerReward = 0\<rparr>"

abbreviation (input) ConfirmUserRewardRate :: int where "ConfirmUserRewardRate \<equiv> 20"
abbreviation (input) HalfLifeRewardMiner :: u64 where "HalfLifeRewardMiner \<equiv> 2000000"
abbreviation (input) InitialRewardMiner :: int where "InitialRewardMiner \<equiv> 50 * OneTos"

text \<open>
  The first result is what \<open>ComputeConfirmReward\<close> returns.  It mutates its argument, whose
  \<open>minerReward\<close> it shares with the result; the caller drops the argument.
\<close>

definition ComputeConfirmReward :: "ConfirmRewardInfo \<Rightarrow> ConfirmRewardInfo" where
  "ComputeConfirmReward reward =
     (let temp = userReward reward * ConfirmUserRewardRate div 100
      in \<lparr>userReward = temp, minerReward = minerReward reward + (userReward reward - temp)\<rparr>)"

definition ComputeMainConfirmReward :: "ConfirmRewardInfo \<Rightarrow> int" where
  "ComputeMainConfirmReward reward = userReward reward + minerReward reward"

text \<open>
  \<open>RewardMiner\<close> truncates \<open>2^(-k) * 50\<close> to an integer before it scales by \<open>OneTos\<close>.  The floating-point
  product is exact (\<open>50\<close> has six bits, \<open>2^(-k)\<close> is a power of two, and where it underflows the quotient
  is zero), so the truncation is the integer quotient.
\<close>

definition RewardMiner :: "u64 \<Rightarrow> int" where
  "RewardMiner number = (InitialRewardMiner div OneTos) div 2 ^ unat (number div HalfLifeRewardMiner) * OneTos"

section \<open>Costs\<close>

definition ComputeTransactionCost :: "u64 \<Rightarrow> int \<Rightarrow> int" where
  "ComputeTransactionCost costGas gasPrice = gasPrice * sint costGas"

definition deductCost :: "hashing \<Rightarrow> address \<Rightarrow> int \<Rightarrow> int \<Rightarrow> StateDB \<Rightarrow> int \<times> StateDB" where
  "deductCost H a bal cost s =
     (if bal < cost then (bal, SetBalance H a 0 s) else (cost, SubBalance H a cost s))"

fun CheckTransactionAmount :: "int \<Rightarrow> TxOut list \<Rightarrow> int \<Rightarrow> bool" where
  "CheckTransactionAmount bal [] cost = (\<not> bal - cost < 0)"
| "CheckTransactionAmount bal (out # outs) cost =
     (if bal - Amount out < 0 then False else CheckTransactionAmount (bal - Amount out) outs cost)"

section \<open>Transfers\<close>

text \<open>
  What \<open>core.ApplyTransaction\<close> returns: receipt, gas and error, with the state after the call;
  \<open>Inl\<close> is a panic.  Its arguments here are the address of the main block's miner, the gas pool, the
  block and the state.
\<close>

type_synonym apply_tx = "address \<Rightarrow> u64 \<Rightarrow> TxBlock \<Rightarrow> StateDB \<Rightarrow> err + (Receipt option \<times> u64 \<times> err option) \<times> StateDB"

definition transfer_out :: "hashing \<Rightarrow> address \<Rightarrow> TxOut \<Rightarrow> StateDB \<Rightarrow> StateDB" where
  "transfer_out H from out s =
     (let s = snd (GetBalance (Receiver out) s);
          s = SubBalance H from (Amount out) s;
          s = AddBalance H (Receiver out) (Amount out) s
      in snd (GetBalance (Receiver out) s))"

definition is_main :: "Block \<Rightarrow> bool" where
  "is_main b = (Status (GetMutableInfo b) AND BlockMain \<noteq> 0)"

definition sender_of :: "env \<Rightarrow> Block \<Rightarrow> address" where
  "sender_of E b = (case fst (GetSender E b) of Inl _ \<Rightarrow> 0 | Inr a \<Rightarrow> a)"

text \<open>
  The result is gas, overrun, receipt and error.  \<open>main\<close> is \<open>mainChain.CurrentMainBlock\<close>.  The sender
  is recovered again from the memo of the first recovery.
\<close>

definition TransferAccounts ::
    "env \<Rightarrow> hashing \<Rightarrow> apply_tx \<Rightarrow> Block \<Rightarrow> Block \<Rightarrow> u64 \<Rightarrow> StateDB \<Rightarrow>
      err + (u64 \<times> bool \<times> Receipt option \<times> err option) \<times> StateDB" where
  "TransferAccounts E H A main b gasPool s =
     (case fst (GetSender E main) of
        Inl _ \<Rightarrow> Inr ((0, gasPool < 0, None, Some (Msg ''ComputeCostGas err'')), s)
      | Inr mainAddress \<Rightarrow>
          if GetType b = BlockTypeTx then
            (case b of
               BTx tx \<Rightarrow>
                 (let costGas = TxGas * word_of_nat (length (Outs tx)) in
                  if length (GetPayload b) \<noteq> 0 then
                    res_bind (A mainAddress gasPool tx s) (\<lambda>((receipt, costGas, e), s).
                      Inr ((costGas, gasPool < costGas, receipt, e), s))
                  else
                    (let from = sender_of E b;
                         (bal, s) = GetBalance from s;
                         (n, s) = GetNonce from s;
                         s = SetNonce H from (n + 1) s;
                         costGas = (if is_main b then 0 else costGas)
                     in if \<not> CheckTransactionAmount bal (Outs tx) (ComputeTransactionCost costGas (GetGasPrice b))
                        then Inr ((costGas, gasPool < costGas, None, Some (Msg ''insufficient balance'')), s)
                        else Inr ((costGas, gasPool < costGas, None, None), fold (transfer_out H from) (Outs tx) s)))
             | _ \<Rightarrow> Inr ((TxGas, gasPool < TxGas, None, Some (Msg ''block.(*types.TxBlock) assert fail'')), s))
          else Inr ((MiningGasUsed, gasPool < MiningGasUsed, None, None), s))"

definition tx_receipt :: "env \<Rightarrow> Block \<Rightarrow> u64 \<Rightarrow> err option \<Rightarrow> u64 \<Rightarrow> Receipt option \<Rightarrow> Receipt" where
  "tx_receipt E b count returnErr actualGas receipt =
     (let receipt =
        (case receipt of
           Some r \<Rightarrow> r
         | None \<Rightarrow> \<lparr>PostState = [], rcStatus = (if returnErr = None then 1 else 0), CumulativeGasUsed = 0,
                     Bloom = 0, Logs = [], rcTxHash = fst (GetHash E b), ContractAddress = 0,
                     GasUsed = actualGas, rcIndex = count\<rparr>)
      in receipt\<lparr>rcIndex := count\<rparr>)"

text \<open>A failing write of the receipt is only logged.\<close>

definition ExecutionTransaction ::
    "env \<Rightarrow> hashing \<Rightarrow> apply_tx \<Rightarrow> Block \<Rightarrow> Block \<Rightarrow> u64 \<Rightarrow> u64 \<Rightarrow> StateDB \<Rightarrow> Database \<Rightarrow>
      err + (int \<times> Receipt \<times> err option) \<times> StateDB \<times> Database" where
  "ExecutionTransaction E H A main b gasPool count s D =
     res_bind (TransferAccounts E H A main b gasPool s) (\<lambda>((needUseGas, overrun, receipt, e), s).
       let returnErr = (if e \<noteq> None then Some (Msg ''ExecutionTransaction error'')
                        else if overrun then Some (Msg ''gas use overrun'') else None);
           actualGas = (if e = None \<and> overrun then gasPool else needUseGas);
           (actualGas, needUseGas) = (if is_main b then (0, 0) else (actualGas, needUseGas));
           receipt = tx_receipt E b count returnErr actualGas receipt;
           D = (case WriteReceiptInfo (fst (GetHash E b)) receipt D of Inl _ \<Rightarrow> D | Inr D \<Rightarrow> D)
       in Inr ((ComputeTransactionCost needUseGas (GetGasPrice b), receipt, returnErr), s, D))"

text \<open>\<open>big.Int.Quo\<close> truncates towards zero and panics on zero.\<close>

definition big_Quo :: "int \<Rightarrow> int \<Rightarrow> err + int" where
  "big_Quo x y = (if y = 0 then Inl Panic else Inr (sgn x * sgn y * (\<bar>x\<bar> div \<bar>y\<bar>)))"

definition gas_pool :: "Block \<Rightarrow> int \<Rightarrow> err + u64" where
  "gas_pool b bal =
     (if sint (GetGasLimit b) * GetGasPrice b > bal
      then res_bind (big_Quo bal (GetGasPrice b)) (\<lambda>q. Inr (big_Uint64 q))
      else Inr (GetGasLimit b))"

definition CalculatingAccounts ::
    "env \<Rightarrow> hashing \<Rightarrow> apply_tx \<Rightarrow> Block \<Rightarrow> Block \<Rightarrow> int \<Rightarrow> u64 \<Rightarrow> StateDB \<Rightarrow> Database \<Rightarrow>
      err + (int \<times> Receipt option \<times> err option) \<times> StateDB \<times> Database" where
  "CalculatingAccounts E H A main b confirmReward count s D =
     (case fst (GetSender E b) of
        Inl e \<Rightarrow> Inr ((confirmReward, None, Some e), s, D)
      | Inr a \<Rightarrow>
          (let s = AddBalance H a confirmReward s;
               (bal, s) = GetBalance a s
           in res_bind (gas_pool b bal) (\<lambda>gasPool.
                res_bind (ExecutionTransaction E H A main b gasPool count s D) (\<lambda>((cost, receipt, e), s, D).
                  let (deduction, s) = deductCost H a bal cost s
                  in Inr ((deduction, Some receipt, e), snd (GetBalance a s), D)))))"

definition CalculatingMinerReward ::
    "env \<Rightarrow> hashing \<Rightarrow> Block \<Rightarrow> u64 \<Rightarrow> ConfirmRewardInfo \<Rightarrow> StateDB \<Rightarrow> err option \<times> StateDB" where
  "CalculatingMinerReward E H b blockNumber info s =
     (case fst (GetSender E b) of
        Inl e \<Rightarrow> (Some e, s)
      | Inr a \<Rightarrow> (None, AddBalance H a (ComputeMainConfirmReward info + RewardMiner blockNumber) s))"

section \<open>Transfers on the balance sheet\<close>

abbreviation payments :: "TxOut list \<Rightarrow> (address \<times> int) list" where
  "payments outs \<equiv> map (\<lambda>out. (Receiver out, Amount out)) outs"

lemma transfers_pay: "fold (transfer_out H from) outs s = ledger.pay H from (payments outs) s"
  by (induction outs arbitrary: s) (simp_all add: transfer_out_def Let_def)

lemma supply_pay: "calm H s \<Longrightarrow> total_supply H (ledger.pay H a outs s) = total_supply H s"
  by (simp add: supply_total ledger.total_pay)

lemma sum_amounts_nonneg: "\<forall>out \<in> set outs. 0 \<le> Amount out \<Longrightarrow> 0 \<le> (\<Sum>out \<leftarrow> outs. Amount out)"
  by (rule sum_list_nonneg) auto

lemma CheckTransactionAmount_covers:
  "CheckTransactionAmount bal outs cost \<Longrightarrow> (\<Sum>out \<leftarrow> outs. Amount out) + cost \<le> bal"
  by (induction outs arbitrary: bal) (force split: if_splits)+

lemma CheckTransactionAmount_iff:
  assumes "\<forall>out \<in> set outs. 0 \<le> Amount out" and "0 \<le> cost"
  shows "CheckTransactionAmount bal outs cost \<longleftrightarrow> (\<Sum>out \<leftarrow> outs. Amount out) + cost \<le> bal"
  using assms(1)
proof (induction outs arbitrary: bal)
  case (Cons out outs)
  then have "0 \<le> (\<Sum>out \<leftarrow> outs. Amount out)" by (simp add: sum_amounts_nonneg)
  with Cons assms(2) show ?case by auto
qed auto

text \<open>A payment of nonnegative amounts that the payer can cover leaves nobody overdrawn.\<close>

lemma solvent_pay:
  assumes inv: "calm H s" and "solvent H s" and pos: "\<forall>out \<in> set outs. 0 \<le> Amount out"
    and covered: "(\<Sum>out \<leftarrow> outs. Amount out) \<le> balance H s from"
  shows "solvent H (ledger.pay H from (payments outs) s)"
    and "balance H s from - (\<Sum>out \<leftarrow> outs. Amount out) \<le> balance H (ledger.pay H from (payments outs) s) from"
proof -
  show payer: "balance H s from - (\<Sum>out \<leftarrow> outs. Amount out) \<le> balance H (ledger.pay H from (payments outs) s) from"
    using pos inv
  proof (induction outs arbitrary: s)
    case (Cons out outs)
    define t where "t = snd (GetBalance (Receiver out) (AddBalance H (Receiver out) (Amount out)
      (SubBalance H from (Amount out) (snd (GetBalance (Receiver out) s)))))"
    have t: "calm H t" unfolding t_def using Cons.prems(2) by (intro ledger.ok_intros)
    have "balance H s from - Amount out \<le> balance H t from"
      using Cons.prems by (simp add: t_def ledger.bal_simps ledger.ok_intros)
    with Cons.IH [of t] Cons.prems(1) t show ?case by (simp add: t_def)
  qed simp
  show "solvent H (ledger.pay H from (payments outs) s)"
    unfolding solvent_def
  proof
    fix c
    have "\<forall>(b, n) \<in> set (payments outs). 0 \<le> n" using pos by auto
    with ledger.bal_pay_mono [OF inv, of c "from" "payments outs"] payer covered assms(2)
    show "0 \<le> balance H (ledger.pay H from (payments outs) s) c"
      by (cases "c = from") (force simp: solvent_def dest: spec [of _ c])+
  qed
qed

section \<open>Deduction of the fee\<close>

lemma deductCost_supply:
  assumes "calm H s" and "deductCost H a bal cost s = (r, t)" and "bal < cost \<Longrightarrow> balance H s a = bal"
  shows "calm H t" and "total_supply H t + r = total_supply H s"
  using assms by (auto simp: deductCost_def supply_total ledger.ok_intros ledger.total_simps split: if_splits)

lemma deductCost_solvent:
  assumes "calm H s" and "deductCost H a bal cost s = (r, t)" and "solvent H s"
    and "0 \<le> cost" and "cost \<le> bal \<Longrightarrow> cost \<le> balance H s a" and "0 \<le> bal"
  shows "solvent H t" and "0 \<le> r" and "r \<le> bal" and "r \<le> cost"
  using assms by (auto simp: deductCost_def solvent_def ledger.bal_simps split: if_splits)

section \<open>A block without contract code\<close>

definition plain :: "Block \<Rightarrow> bool" where
  "plain b \<longleftrightarrow> GetPayload b = [] \<and> length (GetOuts b) \<le> 3 \<and> 0 \<le> GetGasPrice b \<and>
     (\<forall>out \<in> set (GetOuts b). 0 \<le> Amount out)"

lemma sint_gas: "n \<le> 3 \<Longrightarrow> sint (TxGas * word_of_nat n :: u64) = 21000 * int n"
proof -
  assume "n \<le> 3"
  then have "n = 0 \<or> n = 1 \<or> n = 2 \<or> n = 3" by auto
  then show ?thesis by auto
qed

lemma sint_gas_consts [simp]: "sint (21000 :: u64) = 21000" by simp

definition fee :: "Block \<Rightarrow> u64 \<Rightarrow> int" where
  "fee b g = ComputeTransactionCost (if is_main b then 0 else g) (GetGasPrice b)"

text \<open>
  What \<open>TransferAccounts\<close> does with a block without contract code: either the balances stay as they
  are, or the sender covered the outputs and the fee and the outputs were paid.
\<close>

lemma TransferAccounts_plain:
  assumes inv: "calm H s" and p: "plain b"
    and run: "TransferAccounts E H A main b gp s = Inr ((g, ov, rc, e), t)"
  shows "calm H t" and "0 \<le> fee b g"
    and "balance H t = balance H s \<or>
      (e = None \<and> (\<Sum>out \<leftarrow> GetOuts b. Amount out) + fee b g \<le> balance H s (sender_of E b) \<and>
       (\<exists>u. calm H u \<and> balance H u = balance H s \<and> t = ledger.pay H (sender_of E b) (payments (GetOuts b)) u))"
proof -
  have price: "0 \<le> GetGasPrice b" using p by (simp add: plain_def)
  show "calm H t" "0 \<le> fee b g" "balance H t = balance H s \<or>
      (e = None \<and> (\<Sum>out \<leftarrow> GetOuts b. Amount out) + fee b g \<le> balance H s (sender_of E b) \<and>
       (\<exists>u. calm H u \<and> balance H u = balance H s \<and> t = ledger.pay H (sender_of E b) (payments (GetOuts b)) u))"
  proof (atomize (full), cases "fst (GetSender E main)")
    case (Inr m)
    show "calm H t \<and> 0 \<le> fee b g \<and> (balance H t = balance H s \<or>
      (e = None \<and> (\<Sum>out \<leftarrow> GetOuts b. Amount out) + fee b g \<le> balance H s (sender_of E b) \<and>
       (\<exists>u. calm H u \<and> balance H u = balance H s \<and> t = ledger.pay H (sender_of E b) (payments (GetOuts b)) u)))"
    proof (cases "\<exists>tx. b = BTx tx \<and> GetType b = BlockTypeTx")
      case False
      with run inv price Inr show ?thesis
        by (auto simp: TransferAccounts_def fee_def ComputeTransactionCost_def split: if_splits Block.splits)
    next
      case True
      then obtain tx where b: "b = BTx tx" "GetType b = BlockTypeTx" by blast
      define from1 where "from1 = sender_of E b"
      have f: "sender_of E (BTx tx) = from1" using b(1) by (simp add: from1_def)
      define u where "u = SetNonce H from1 (fst (GetNonce from1 (snd (GetBalance from1 s))) + 1)
        (snd (GetNonce from1 (snd (GetBalance from1 s))))"
      have gb: "fst (GetBalance from1 s) = balance H s from1" using GetBalance_eq(1) [OF calm_inv [OF inv]] .
      have u: "calm H u" "balance H u = balance H s"
        using inv by (simp_all add: u_def calm_setters calm_queries calm_inv [of H] GetNonce_keeps ledger.ok_intros balance_SetNonce
            ledger.bal_simps)
      define c where "c = (if is_main b then 0 else TxGas * word_of_nat (length (Outs tx)))"
      have c: "0 \<le> ComputeTransactionCost c (GetGasPrice b)" "fee b c = ComputeTransactionCost c (GetGasPrice b)"
        using price p by (simp_all add: c_def fee_def ComputeTransactionCost_def plain_def b(1) sint_gas)
      have "TransferAccounts E H A main b gp s =
          (if \<not> CheckTransactionAmount (balance H s from1) (Outs tx) (fee b c)
           then Inr ((c, gp < c, None, Some (Msg ''insufficient balance'')), u)
           else Inr ((c, gp < c, None, None), ledger.pay H from1 (payments (Outs tx)) u))"
        using b p Inr gb unfolding c(2)
        by (simp add: TransferAccounts_def plain_def Let_def case_prod_beta transfers_pay u_def c_def f)
      with run u c ledger.ok_pay [of H u from1] CheckTransactionAmount_covers [of "balance H s from1" "Outs tx" "fee b c"]
      show ?thesis by (auto simp: b(1) f split: if_splits)
    qed
  qed (use run inv in \<open>simp add: TransferAccounts_def fee_def ComputeTransactionCost_def\<close>)
qed

lemma TransferAccounts_money:
  assumes inv: "calm H s" and p: "plain b"
    and run: "TransferAccounts E H A main b gp s = Inr ((g, ov, rc, e), t)"
  shows "total_supply H t = total_supply H s"
    and "balance H s (sender_of E b) < fee b g \<Longrightarrow> balance H t (sender_of E b) = balance H s (sender_of E b)"
    and "solvent H s \<Longrightarrow> solvent H t"
    and "solvent H s \<Longrightarrow> fee b g \<le> balance H s (sender_of E b) \<Longrightarrow> fee b g \<le> balance H t (sender_of E b)"
proof -
  let ?a = "sender_of E b"
  have pos: "\<forall>out \<in> set (GetOuts b). 0 \<le> Amount out" using p by (simp add: plain_def)
  then have sumpos: "0 \<le> (\<Sum>out \<leftarrow> GetOuts b. Amount out)" by (rule sum_amounts_nonneg)
  note tp = TransferAccounts_plain [OF inv p run]
  have "total_supply H t = total_supply H s \<and> (balance H s ?a < fee b g \<longrightarrow> balance H t ?a = balance H s ?a) \<and>
    (solvent H s \<longrightarrow> solvent H t \<and> (fee b g \<le> balance H s ?a \<longrightarrow> fee b g \<le> balance H t ?a))"
    using tp(3)
  proof
    assume same: "balance H t = balance H s"
    from same supply_balance [OF same] solvent_balance [OF same] show ?thesis by simp
  next
    assume "e = None \<and> (\<Sum>out \<leftarrow> GetOuts b. Amount out) + fee b g \<le> balance H s ?a \<and>
      (\<exists>u. calm H u \<and> balance H u = balance H s \<and> t = ledger.pay H ?a (payments (GetOuts b)) u)"
    then obtain u where u: "calm H u" "balance H u = balance H s" "t = ledger.pay H ?a (payments (GetOuts b)) u"
      and cov: "(\<Sum>out \<leftarrow> GetOuts b. Amount out) + fee b g \<le> balance H s ?a" by blast
    show ?thesis
      using cov sumpos tp(2) solvent_pay [OF u(1) _ pos, of ?a]
      by (auto simp: u(2,3) supply_pay [OF u(1)] supply_balance [OF u(2)] solvent_balance [OF u(2)])
  qed
  then show "total_supply H t = total_supply H s"
    and "balance H s ?a < fee b g \<Longrightarrow> balance H t ?a = balance H s ?a" and "solvent H s \<Longrightarrow> solvent H t"
    and "solvent H s \<Longrightarrow> fee b g \<le> balance H s ?a \<Longrightarrow> fee b g \<le> balance H t ?a" by simp_all
qed

text \<open>The two tables the main chain reads are not affected by writing a receipt.\<close>

definition same_tables :: "env \<Rightarrow> Database \<Rightarrow> Database \<Rightarrow> bool" where
  "same_tables E D D' \<longleftrightarrow> (\<forall>h. ReadBlock E D' h = ReadBlock E D h \<and>
     ReadBlockMutableInfo D' h = ReadBlockMutableInfo D h)"

lemma ExecutionTransaction_InrE:
  assumes "ExecutionTransaction E H A main b gp n s D = Inr ((cost, rc, re), t, D')"
  obtains g ov rc' e where "TransferAccounts E H A main b gp s = Inr ((g, ov, rc', e), t)"
    and "cost = fee b g" and "re = None \<longleftrightarrow> e = None \<and> \<not> ov" and "same_tables E D D'"
    and "putFails D' = putFails D"
proof -
  obtain g ov rc' e where ta: "TransferAccounts E H A main b gp s = Inr ((g, ov, rc', e), t)"
    using assms by (auto simp: ExecutionTransaction_def Let_def res_bind_eq_Inr_iff case_prod_beta)
  have rest: "cost = fee b g" "re = None \<longleftrightarrow> e = None \<and> \<not> ov"
      "D' = (case WriteReceiptInfo (fst (GetHash E b)) rc D of Inl _ \<Rightarrow> D | Inr D \<Rightarrow> D)"
    using assms ta by (auto simp: ExecutionTransaction_def Let_def fee_def split: if_splits)
  have "same_tables E D D'"
    unfolding same_tables_def rest(3) by (auto split: sum.split)
  moreover have "putFails D' = putFails D"
    unfolding rest(3) by (auto simp: WriteReceiptInfo_def Put_def)
  ultimately show thesis using ta rest that by blast
qed

lemma ExecutionTransaction_total:
  "TransferAccounts E H A main b gp s = Inr x \<Longrightarrow> \<exists>y. ExecutionTransaction E H A main b gp n s D = Inr y"
  by (cases x) (simp add: ExecutionTransaction_def Let_def case_prod_beta)

lemma TransferAccounts_total: "plain b \<Longrightarrow> \<exists>x. TransferAccounts E H A main b gp s = Inr x"
  by (auto simp: TransferAccounts_def plain_def Let_def case_prod_beta split: sum.split Block.split)

lemma gas_pool_total: "0 \<le> bal \<or> GetGasPrice b \<noteq> 0 \<Longrightarrow> \<exists>gp. gas_pool b bal = Inr gp"
  by (auto simp: gas_pool_def big_Quo_def)

lemma sender_of_Inr: "fst (GetSender E b) = Inr a \<Longrightarrow> sender_of E b = a"
  by (simp add: sender_of_def)

lemma CalculatingAccounts_InrE:
  assumes "CalculatingAccounts E H A main b cr n s D = Inr ((r, rc, e), t, D')" and "fst (GetSender E b) = Inr a"
  obtains gp cost rc' s2 s3 where
    "ExecutionTransaction E H A main b gp n (snd (GetBalance a (AddBalance H a cr s))) D = Inr ((cost, rc', e), s2, D')"
    and "deductCost H a (fst (GetBalance a (AddBalance H a cr s))) cost s2 = (r, s3)" and "t = snd (GetBalance a s3)"
    and "rc = Some rc'" and "gas_pool b (fst (GetBalance a (AddBalance H a cr s))) = Inr gp"
  using assms
  by (auto simp: CalculatingAccounts_def Let_def case_prod_beta res_bind_eq_Inr_iff) (metis prod.collapse)

lemma CalculatingAccounts_plain:
  assumes inv: "calm H s" and p: "plain b"
    and run: "CalculatingAccounts E H A main b cr n s D = Inr ((r, rc, e), t, D')"
  shows "calm H t \<and> total_supply H t + r = total_supply H s + cr \<and> same_tables E D D' \<and>
    (solvent H s \<longrightarrow> 0 \<le> cr \<longrightarrow> solvent H t \<and> 0 \<le> r)"
proof (cases "fst (GetSender E b)")
  case (Inr a)
  define s1 where "s1 = snd (GetBalance a (AddBalance H a cr s))"
  have s1: "calm H s1" "balance H s1 = (balance H s)(a := balance H s a + cr)"
    "total_supply H s1 = total_supply H s + cr"
    using inv by (simp_all add: s1_def ledger.ok_intros ledger.bal_simps supply_total ledger.total_simps)
  define bal where "bal = balance H s1 a"
  have gb: "fst (GetBalance a (AddBalance H a cr s)) = bal"
    using GetBalance_eq(1) [of "AddBalance H a cr s" a H] inv s1
    by (simp add: calm_inv [of H] bal_def ledger.ok_intros ledger.bal_simps)
  obtain gp cost rc' s2 s3 where
      ex: "ExecutionTransaction E H A main b gp n s1 D = Inr ((cost, rc', e), s2, D')"
    and ded: "deductCost H a bal cost s2 = (r, s3)" and res: "t = snd (GetBalance a s3)"
    using CalculatingAccounts_InrE [OF run Inr] gb unfolding s1_def by metis
  obtain g ov rc2 e2 where ta: "TransferAccounts E H A main b gp s1 = Inr ((g, ov, rc2, e2), s2)"
    and cost: "cost = fee b g" and D: "same_tables E D D'"
    using ExecutionTransaction_InrE [OF ex] by metis
  have from1: "sender_of E b = a" using sender_of_Inr [OF Inr] .
  note tp = TransferAccounts_plain(1,2) [OF s1(1) p ta] TransferAccounts_money [OF s1(1) p ta, unfolded from1]
  have t: "calm H t" "balance H t = balance H s3" "total_supply H t = total_supply H s3"
    using deductCost_supply(1) [OF tp(1) ded] tp(4)
    by (simp_all add: cost bal_def res ledger.ok_intros ledger.bal_simps supply_total ledger.total_simps)
  have "solvent H t \<and> 0 \<le> r" if "solvent H s" "0 \<le> cr"
  proof -
    have "solvent H s1" "0 \<le> bal" using that by (simp_all add: solvent_def s1(2) bal_def)
    with deductCost_solvent [OF tp(1) ded] tp(2,5,6) show ?thesis
      by (simp add: cost bal_def solvent_balance [OF t(2)])
  qed
  with t s1(3) deductCost_supply(2) [OF tp(1) ded] tp(3,4) D show ?thesis by (simp add: cost bal_def)
qed (use run inv in \<open>simp add: CalculatingAccounts_def same_tables_def\<close>)

lemma CalculatingAccounts_total:
  assumes inv: "calm H s" and p: "plain b" and "solvent H s" and "0 \<le> cr"
  shows "\<exists>r rc e t D'. CalculatingAccounts E H A main b cr n s D = Inr ((r, rc, e), t, D')"
proof (cases "fst (GetSender E b)")
  case (Inr a)
  define bal where "bal = fst (GetBalance a (AddBalance H a cr s))"
  have "bal = balance H s a + cr"
    using GetBalance_eq(1) [of "AddBalance H a cr s" a H] inv by (simp add: calm_inv [of H] bal_def ledger.ok_intros ledger.bal_simps)
  with assms(3,4) have "0 \<le> bal" by (simp add: solvent_def)
  then obtain gp where gp: "gas_pool b bal = Inr gp" using gas_pool_total by blast
  obtain y where "ExecutionTransaction E H A main b gp n (snd (GetBalance a (AddBalance H a cr s))) D = Inr y"
    using ExecutionTransaction_total TransferAccounts_total [OF p] by metis
  with Inr gp show ?thesis
    by (cases y) (simp add: CalculatingAccounts_def Let_def case_prod_beta bal_def)
qed (simp add: CalculatingAccounts_def)

end
