(* ===== verification/Main_Chain.thy ===== *)
theory Main_Chain
  imports Accounting
begin

text \<open>
  The main chain of \<open>src/sdag/mainchain/main_chain.go\<close>: the tail and its updates, the cumulative
  difficulty of a new block, the search for the blocks to confirm, the confirmation of a main block
  with everything it references, and the roll-back of abandoned main blocks.  A Go error is returned
  as a value beside the new state, since the writes made before it stay; \<open>Inl\<close> is a panic, or the
  bound \<open>fuel\<close> on a walk along the links of the stored blocks.  Locks, logging and the goroutine that
  calls \<open>Confirm\<close> are not modelled; a notice or message that is sent is appended to a list.
\<close>

section \<open>State\<close>

datatype noticeAction = noneAction | ConfirmAction | RollBackAction

record LocalBlockNotice =
  noticeHash :: hash
  noticeAddress :: address
  noticeAct :: noticeAction

text \<open>The message to the centre; numbers and hashes are kept as such, not as text.\<close>

record MQBlockStatus =
  mqBlockHash :: hash
  mqBlockHigh :: u64
  mqIsMain :: bool
  mqConfirmStatus :: string
  mqConfirmDate :: u64
  mqGasUsed :: u64
  mqConfirmedHash :: hash
  mqConfirmedHigh :: u64
  mqConfirmedOrder :: u64
  mqContractAddress :: address

record MainChain =
  mcDB :: Database
  stateBaseDB :: stateStore
  Tail :: TailMainBlockInfo
  PervTail :: TailMainBlockInfo
  MainTail :: TailMainBlockInfo
  LocalAddress :: "address \<Rightarrow> bool"
  notices :: "LocalBlockNotice list"    \<comment> \<open>sent on the channel \<open>LocalBlockNotice\<close>\<close>
  mq :: "MQBlockStatus list option"     \<comment> \<open>\<open>None\<close> is the nil queue\<close>
  lastState :: "StateDB option"

text \<open>
  What the code takes from its surroundings: the environment, the hash functions of the state, the
  contract machine, and the order in which a range over the map of state objects visits them.
\<close>

record chain_params =
  cE :: env
  cH :: hashing
  cA :: apply_tx
  cOrder :: "StateDB \<Rightarrow> address list"

section \<open>Tail\<close>

definition GetPervTail :: "MainChain \<Rightarrow> hash \<times> int option" where
  "GetPervTail mc = (tmHash (PervTail mc), tmCumulativeDiff (PervTail mc))"

definition GetLastTempMainBlkSlice :: "MainChain \<Rightarrow> u64" where
  "GetLastTempMainBlkSlice mc = GetMainTime (tmTime (Tail mc))"

text \<open>
  \<open>UpdateTail\<close> looks at the tail under the read lock, gives that lock up, and writes under the write
  lock: two atomic steps.  Comparing with a nil difficulty panics; a failing write of the tail is only
  logged.
\<close>

definition tail_check :: "Block \<Rightarrow> MainChain \<Rightarrow> err + bool" where
  "tail_check b mc =
     (case (tmCumulativeDiff (Tail mc), GetCumulativeDiff b) of
        (Some old, Some new) \<Rightarrow> Inr (old < new)
      | _ \<Rightarrow> Inl Panic)"

definition tail_write :: "env \<Rightarrow> Block \<Rightarrow> MainChain \<Rightarrow> MainChain" where
  "tail_write E b mc =
     (let mc = (if \<not> IsTheSameTimeSlice (tmTime (Tail mc)) (GetTime b) then mc\<lparr>PervTail := Tail mc\<rparr> else mc);
          tl' = \<lparr>tmHash = fst (GetHash E b), tmCumulativeDiff = GetCumulativeDiff b, tmNumber = 0, tmTime = GetTime b\<rparr>
      in mc\<lparr>Tail := tl', mcDB := (case WriteTailBlockInfo tl' (mcDB mc) of Inl _ \<Rightarrow> mcDB mc | Inr D \<Rightarrow> D)\<rparr>)"

definition UpdateTail :: "env \<Rightarrow> Block \<Rightarrow> MainChain \<Rightarrow> err + MainChain" where
  "UpdateTail E b mc =
     res_bind (tail_check b mc) (\<lambda>heavier. Inr (if heavier then tail_write E b mc else mc))"

section \<open>Reading stored blocks\<close>

text \<open>A block with its mutable information; the two reads and their error returns, in the order of the callers.\<close>

definition load_block :: "env \<Rightarrow> Database \<Rightarrow> hash \<Rightarrow> err + Block" where
  "load_block E D h =
     res_bind (ReadBlockMutableInfo D h) (\<lambda>m.
       res_bind (ReadBlock E D h) (\<lambda>ob.
         case ob of None \<Rightarrow> Inl (Msg ''ReadBlock Not found'') | Some b \<Rightarrow> Inr (SetMutableInfo m b)))"

definition setPerv :: "env \<Rightarrow> MainChain \<Rightarrow> err + MainChain" where
  "setPerv E mc =
     res_bind (ReadBlockMutableInfo (mcDB mc) (tmHash (Tail mc))) (\<lambda>m.
       if Status m AND BlockMain \<noteq> 0 then Inr (mc\<lparr>PervTail := Tail mc\<rparr>)
       else res_bind (load_block E (mcDB mc) (MaxLinkHash m)) (\<lambda>b.
         Inr (mc\<lparr>PervTail := (PervTail mc)\<lparr>tmHash := fst (GetHash E b), tmTime := GetTime b,
                                              tmCumulativeDiff := GetCumulativeDiff b\<rparr>\<rparr>)))"

definition GetStateCacheByMainNumber :: "hashing \<Rightarrow> int \<Rightarrow> MainChain \<Rightarrow> err + StateDB" where
  "GetStateCacheByMainNumber H number mc =
     (let number = (if number = -1 then tmNumber (MainTail mc) else word_of_int number) in
      res_bind (ReadMainBlock (mcDB mc) number) (\<lambda>mb. state_New H (miRoot mb) (stateBaseDB mc)))"

definition GetMainBlockByMainNumber :: "env \<Rightarrow> int \<Rightarrow> MainChain \<Rightarrow> err + Block" where
  "GetMainBlockByMainNumber E number mc =
     (let number = (if number < 0 then tmNumber (MainTail mc) else word_of_int number) in
      res_bind (ReadMainBlock (mcDB mc) number) (\<lambda>mb.
        res_bind (ReadBlock E (mcDB mc) (miHash mb)) (\<lambda>ob.
          case ob of
            None \<Rightarrow> Inl (Msg ''GetMainBlockByMainNumber ReadBlock Not found'')
          | Some b \<Rightarrow>
              res_bind (ReadBlockMutableInfo (mcDB mc) (miHash mb)) (\<lambda>m. Inr (SetMutableInfo m b)))))"

text \<open>
  \<open>GetMainBlock\<close> reports a missing block with \<open>err.Error()\<close>, where \<open>err\<close> is nil: it panics.  The other
  failures are logged and give nil.
\<close>

definition GetMainBlock :: "env \<Rightarrow> u64 \<Rightarrow> MainChain \<Rightarrow> err + Block option" where
  "GetMainBlock E number mc =
     (case ReadMainBlock (mcDB mc) number of
        Inl _ \<Rightarrow> Inr None
      | Inr mb \<Rightarrow>
          res_bind (ReadBlock E (mcDB mc) (miHash mb)) (\<lambda>ob.
            case ob of
              None \<Rightarrow> Inl Panic
            | Some b \<Rightarrow>
                (case ReadBlockMutableInfo (mcDB mc) (miHash mb) of
                   Inl _ \<Rightarrow> Inr None
                 | Inr m \<Rightarrow> Inr (Some (SetMutableInfo m b)))))"

primrec next_main_loop :: "nat \<Rightarrow> Database \<Rightarrow> hash \<Rightarrow> hash \<Rightarrow> err + hash \<times> MutableInfo" where
  "next_main_loop 0 D target h = Inl NoFuel"
| "next_main_loop (Suc fuel) D target h =
     res_bind (ReadBlockMutableInfo D h) (\<lambda>m.
       if MaxLinkHash m = target then Inr (h, m) else next_main_loop fuel D target (MaxLinkHash m))"

definition GetNextMain :: "nat \<Rightarrow> hash \<Rightarrow> MainChain \<Rightarrow> err + hash \<times> MutableInfo" where
  "GetNextMain fuel h mc = next_main_loop fuel (mcDB mc) h (tmHash (Tail mc))"

section \<open>Notices\<close>

definition AddLocalAddress :: "address \<Rightarrow> MainChain \<Rightarrow> MainChain" where
  "AddLocalAddress a mc =
     (if \<not> LocalAddress mc a then mc\<lparr>LocalAddress := (LocalAddress mc)(a := True)\<rparr> else mc)"

definition LocalBlockNoticeSend :: "hash \<Rightarrow> address \<Rightarrow> noticeAction \<Rightarrow> MainChain \<Rightarrow> MainChain" where
  "LocalBlockNoticeSend h a act mc =
     (if LocalAddress mc a
      then mc\<lparr>notices := notices mc @ [\<lparr>noticeHash = h, noticeAddress = a, noticeAct = act\<rparr>]\<rparr>
      else mc)"

text \<open>With a queue, the receipt is dereferenced without the nil check made a few lines above.\<close>

definition sendStatusInfoToCenter :: "env \<Rightarrow> Block \<Rightarrow> Block \<Rightarrow> bool \<Rightarrow> Receipt option \<Rightarrow> MainChain \<Rightarrow> err + MainChain" where
  "sendStatusInfoToCenter E b mainBlock isMain receipt mc =
     (case mq mc of
        None \<Rightarrow> Inr mc
      | Some sent \<Rightarrow>
          (case receipt of
             None \<Rightarrow> Inl Panic
           | Some r \<Rightarrow>
               Inr (mc\<lparr>mq := Some (sent @ [
                 \<lparr>mqBlockHash = fst (GetHash E b), mqBlockHigh = ConfirmItsNumber (GetMutableInfo b), mqIsMain = isMain,
                  mqConfirmStatus = (if GetStatus b AND BlockApply = 0 then ''reject'' else ''apply''),
                  mqConfirmDate = now E, mqGasUsed = CumulativeGasUsed r, mqConfirmedHash = fst (GetHash E mainBlock),
                  mqConfirmedHigh = ConfirmItsNumber (GetMutableInfo b), mqConfirmedOrder = rcIndex r,
                  mqContractAddress = ContractAddress r\<rparr>])\<rparr>)))"

end
