(* ===== verification/Main_Confirm.thy ===== *)
theory Main_Confirm
  imports Main_Chain
begin

text \<open>
  The second half of \<open>src/sdag/mainchain/main_chain.go\<close>: \<open>ComputeCumulativeDiff\<close>, the search for the
  main blocks to confirm, \<open>Confirm\<close> with \<open>singleBlockConfirm\<close>, and the roll-back of a fork.
\<close>

section \<open>Cumulative difficulty\<close>

record SingleChainLinkInfo =
  isUpdateDiff :: bool
  maxLinkHash :: hash
  SingleChainCumulativeDiff :: int

text \<open>The body of the loop over the links: what one linked block offers.  \<open>d\<close> is the new block's difficulty.\<close>

definition single_link :: "env \<Rightarrow> Database \<Rightarrow> u64 \<Rightarrow> int \<Rightarrow> hash \<Rightarrow> err + SingleChainLinkInfo" where
  "single_link E D time d h =
     res_bind (load_block E D h) (\<lambda>b.
       case GetCumulativeDiff b of
         None \<Rightarrow> Inl Panic
       | Some cum \<Rightarrow>
           if GetStatus b AND BlockTmpMaxDiff \<noteq> 0 then
             if \<not> IsTheSameTimeSlice time (GetTime b) then Inr \<lparr>isUpdateDiff = True, maxLinkHash = h, SingleChainCumulativeDiff = cum + d\<rparr>
             else if fst (GetDiff E b) < d then
               Inr \<lparr>isUpdateDiff = True, maxLinkHash = GetMaxLink b,
                    SingleChainCumulativeDiff = cum - fst (GetDiff E b) + d\<rparr>
             else Inr \<lparr>isUpdateDiff = False, maxLinkHash = h, SingleChainCumulativeDiff = cum\<rparr>
           else if \<not> IsTheSameTimeSlice time (GetTime b) then
             Inr \<lparr>isUpdateDiff = True, maxLinkHash = GetMaxLink b, SingleChainCumulativeDiff = cum + d\<rparr>
           else
             (let DiffBefore = CalculateWork (GetMaxLink b) in
              if DiffBefore < d then
                res_bind (ReadBlockMutableInfo D (GetMaxLink b)) (\<lambda>m.
                  Inr \<lparr>isUpdateDiff = True, maxLinkHash = MaxLinkHash m,
                       SingleChainCumulativeDiff = cum - DiffBefore + d\<rparr>)
              else Inr \<lparr>isUpdateDiff = False, maxLinkHash = GetMaxLink b, SingleChainCumulativeDiff = cum\<rparr>))"

definition better_link :: "SingleChainLinkInfo \<Rightarrow> SingleChainLinkInfo \<Rightarrow> SingleChainLinkInfo" where
  "better_link acc x = (if SingleChainCumulativeDiff acc < SingleChainCumulativeDiff x then x else acc)"

definition no_link :: SingleChainLinkInfo where
  "no_link = \<lparr>isUpdateDiff = False, maxLinkHash = 0, SingleChainCumulativeDiff = 0\<rparr>"

definition adopt_link :: "env \<Rightarrow> SingleChainLinkInfo \<Rightarrow> Block \<Rightarrow> Block" where
  "adopt_link E info b =
     (let b = SetMaxLink (maxLinkHash info) (SetCumulativeDiff (SingleChainCumulativeDiff info) b) in
      if isUpdateDiff info then SetStatus (GetStatus b OR BlockTmpMaxDiff) (snd (GetHash E b)) else b)"

text \<open>The new block keeps its difficulty, once computed, in its mutable information.\<close>

definition ComputeCumulativeDiff :: "env \<Rightarrow> Database \<Rightarrow> Block \<Rightarrow> err + bool \<times> Block" where
  "ComputeCumulativeDiff E D b =
     res_bind
       (fold_res (\<lambda>h acc. res_bind (single_link E D (GetTime b) (fst (GetDiff E b)) h) (\<lambda>x. Inr (better_link acc x)))
          (GetLinks b) no_link)
       (\<lambda>info. Inr (isUpdateDiff info, adopt_link E info (if GetLinks b = [] then b else snd (GetDiff E b))))"

section \<open>Blocks to confirm\<close>

text \<open>
  From the tail down the chain of heaviest links; the first result is \<open>listBlock\<close>, oldest first, the
  second \<open>locatorBlock\<close>.
\<close>

primrec find_loop ::
    "nat \<Rightarrow> env \<Rightarrow> Database \<Rightarrow> u64 \<Rightarrow> hash \<Rightarrow> bool \<Rightarrow> Block list \<Rightarrow> err + Block list \<times> Block" where
  "find_loop 0 E D mainTime h canConfirm listBlock = Inl NoFuel"
| "find_loop (Suc fuel) E D mainTime h canConfirm listBlock =
     res_bind (load_block E D h) (\<lambda>b.
       let canConfirm = (canConfirm \<or> TimeSliceDifference (now E) (GetTime b) > ConfirmBlock) in
       if canConfirm \<and> GetStatus b AND BlockMain \<noteq> 0 \<and> GetTime b \<le> mainTime then Inr (listBlock, b)
       else find_loop fuel E D mainTime (MaxLinkHash (GetMutableInfo b)) canConfirm
              (if canConfirm then b # listBlock else listBlock))"

definition findTheMainBlockThatCanConfirmOtherBlocks ::
    "nat \<Rightarrow> env \<Rightarrow> TailMainBlockInfo \<Rightarrow> MainChain \<Rightarrow> err + Block list \<times> Block" where
  "findTheMainBlockThatCanConfirmOtherBlocks fuel E mainTail mc =
     find_loop fuel E (mcDB mc) (tmTime mainTail) (tmHash (Tail mc)) False []"

section \<open>Confirming a block and its ancestors\<close>

record cstate =
  csCount :: u64
  csState :: StateDB
  csChain :: MainChain

type_synonym confirm_result = "err + ((ConfirmRewardInfo option \<times> err option) \<times> Block) \<times> cstate"

text \<open>
  The loop over the links; \<open>rec\<close> confirms one linked block.  The first result is the reward collected
  so far, or the error with which \<open>singleBlockConfirm\<close> returns a nil reward at once.  A nil reward of
  the recursive call is dereferenced by the call of \<open>log.Debug\<close> that precedes its nil check.
\<close>

primrec confirm_links ::
    "env \<Rightarrow> (Block \<Rightarrow> cstate \<Rightarrow> confirm_result) \<Rightarrow> hash list \<Rightarrow> ConfirmRewardInfo \<Rightarrow> cstate \<Rightarrow>
      err + (err + ConfirmRewardInfo) \<times> cstate" where
  "confirm_links E rec [] info st = Inr (Inr info, st)"
| "confirm_links E rec (h # hs) info st =
     (case ReadBlockMutableInfo (mcDB (csChain st)) h of
        Inl e \<Rightarrow> Inr (Inl e, st)
      | Inr m \<Rightarrow>
          if Status m AND (BlockConfirm OR BlockMain) \<noteq> 0 then confirm_links E rec hs info st
          else
            res_bind (ReadBlock E (mcDB (csChain st)) h) (\<lambda>ob.
              case ob of
                None \<Rightarrow> Inr (Inl (Msg ''ReadBlock Not found''), st)
              | Some b \<Rightarrow>
                  res_bind (rec (SetMutableInfo m b) st) (\<lambda>(((linksReward, _), _), st).
                    case linksReward of
                      None \<Rightarrow> Inl Panic
                    | Some r \<Rightarrow>
                        confirm_links E rec hs
                          \<lparr>userReward = userReward info + userReward r, minerReward = minerReward info + minerReward r\<rparr> st)))"

definition mark_confirmed :: "u64 \<Rightarrow> u64 \<Rightarrow> Block \<Rightarrow> Block" where
  "mark_confirmed number count b =
     (let m = GetMutableInfo b in
      SetMutableInfo (m\<lparr>ConfirmItsNumber := number, Status := Status m OR BlockConfirm, ConfirmItsIndex := count\<rparr>) b)"

text \<open>\<open>CalculatingAccounts\<close> has recovered the sender, which the block remembers.\<close>

definition mark_applied :: "env \<Rightarrow> err option \<Rightarrow> Block \<Rightarrow> Block" where
  "mark_applied E e b =
     (let b = snd (GetSender E b) in if e = None then SetStatus (GetStatus b OR BlockApply) b else b)"

text \<open>The part after the loop: the block itself is numbered, executed, stored and announced.\<close>

definition confirm_self ::
    "chain_params \<Rightarrow> Block \<Rightarrow> bool \<Rightarrow> u64 \<Rightarrow> Block \<Rightarrow> ConfirmRewardInfo \<Rightarrow> cstate \<Rightarrow> confirm_result" where
  "confirm_self P mainBlock isMain number b info st =
     (let count = csCount st + 1;
          b = mark_confirmed number count b
      in res_bind (CalculatingAccounts (cE P) (cH P) (cA P) mainBlock b (userReward info) count (csState st)
                     (mcDB (csChain st)))
           (\<lambda>((reward, receipt, e), s, D).
              let info = info\<lparr>userReward := reward\<rparr>;
                  b = mark_applied (cE P) e b;
                  h = fst (GetHash (cE P) b);
                  (e, D) = (case WriteBlockMutableInfo h (GetMutableInfo b) D of Inl e \<Rightarrow> (Some e, D) | Inr D \<Rightarrow> (None, D));
                  mc = LocalBlockNoticeSend h (sender_of (cE P) b) ConfirmAction ((csChain st)\<lparr>mcDB := D\<rparr>)
              in res_bind (sendStatusInfoToCenter (cE P) b mainBlock isMain receipt mc) (\<lambda>mc.
                   Inr (((Some (ComputeConfirmReward info), e), b),
                        \<lparr>csCount = count, csState = s, csChain = mc\<rparr>))))"

primrec singleBlockConfirm ::
    "nat \<Rightarrow> chain_params \<Rightarrow> Block \<Rightarrow> bool \<Rightarrow> u64 \<Rightarrow> Block \<Rightarrow> cstate \<Rightarrow> confirm_result" where
  "singleBlockConfirm 0 P mainBlock isMain number b st = Inl NoFuel"
| "singleBlockConfirm (Suc fuel) P mainBlock isMain number b st =
     (let b = snd (GetHash (cE P) b) in
      res_bind
        (confirm_links (cE P) (singleBlockConfirm fuel P mainBlock False number) (GetLinks b) ConfirmRewardInfo_Init st)
        (\<lambda>(r, st).
           case r of
             Inl e \<Rightarrow> Inr (((None, Some e), b), st)
           | Inr info \<Rightarrow> confirm_self P mainBlock isMain number b info st))"

section \<open>Rolling back\<close>

text \<open>The result is the error returned, with the state.\<close>

type_synonym roll_result = "err + err option \<times> MainChain"

primrec roll_links :: "env \<Rightarrow> (Block \<Rightarrow> MainChain \<Rightarrow> roll_result) \<Rightarrow> u64 \<Rightarrow> hash list \<Rightarrow> MainChain \<Rightarrow> roll_result" where
  "roll_links E rec number [] mc = Inr (None, mc)"
| "roll_links E rec number (h # hs) mc =
     (case ReadBlockMutableInfo (mcDB mc) h of
        Inl e \<Rightarrow> Inr (Some e, mc)
      | Inr m \<Rightarrow>
          if ConfirmItsNumber m < number then roll_links E rec number hs mc
          else
            res_bind (ReadBlock E (mcDB mc) h) (\<lambda>ob.
              case ob of
                None \<Rightarrow> Inr (Some (Msg ''ReadBlock Not found''), mc)
              | Some b \<Rightarrow>
                  res_bind (rec (SetMutableInfo m b) mc) (\<lambda>(e, mc).
                    case e of Some e \<Rightarrow> Inr (Some e, mc) | None \<Rightarrow> roll_links E rec number hs mc)))"

definition unconfirm :: "BlockStatus \<Rightarrow> MutableInfo \<Rightarrow> MutableInfo" where
  "unconfirm flags m = m\<lparr>Status := Status m AND NOT flags, ConfirmItsNumber := 0, ConfirmItsIndex := 0\<rparr>"

text \<open>The error of the write is not looked at.\<close>

primrec singleRollBackStatus :: "nat \<Rightarrow> env \<Rightarrow> u64 \<Rightarrow> Block \<Rightarrow> MainChain \<Rightarrow> roll_result" where
  "singleRollBackStatus 0 E number b mc = Inl NoFuel"
| "singleRollBackStatus (Suc fuel) E number b mc =
     res_bind (roll_links E (singleRollBackStatus fuel E number) number (GetLinks b) mc) (\<lambda>(e, mc).
       case e of
         Some e \<Rightarrow> Inr (Some e, mc)
       | None \<Rightarrow>
           (let m = unconfirm (BlockConfirm OR BlockApply) (GetMutableInfo b);
                h = fst (GetHash E b);
                D = (case WriteBlockMutableInfo h m (mcDB mc) of Inl _ \<Rightarrow> mcDB mc | Inr D \<Rightarrow> D)
            in Inr (None, LocalBlockNoticeSend h (sender_of E b) RollBackAction (mc\<lparr>mcDB := D\<rparr>))))"

definition RollBackStatus :: "nat \<Rightarrow> env \<Rightarrow> hash \<Rightarrow> u64 \<Rightarrow> MainChain \<Rightarrow> roll_result" where
  "RollBackStatus fuel E h number mc =
     res_bind (ReadBlock E (mcDB mc) h) (\<lambda>ob.
       case ob of
         None \<Rightarrow> Inr (Some (Msg ''RollBackStatus ReadBlock Not found''), mc)
       | Some b \<Rightarrow>
           (case ReadBlockMutableInfo (mcDB mc) h of
              Inl e \<Rightarrow> Inr (Some e, mc)
            | Inr m \<Rightarrow>
                res_bind (roll_links E (singleRollBackStatus fuel E number) number (GetLinks b) mc) (\<lambda>(e, mc).
                  case e of
                    Some e \<Rightarrow> Inr (Some e, mc)
                  | None \<Rightarrow>
                      (let g = fst (GetHash E b) in
                       case WriteBlockMutableInfo g (unconfirm (BlockMain OR BlockConfirm OR BlockApply) m) (mcDB mc) of
                         Inl e \<Rightarrow> Inr (Some e, mc)
                       | Inr D \<Rightarrow> Inr (None, LocalBlockNoticeSend g (sender_of E b) RollBackAction (mc\<lparr>mcDB := D\<rparr>))))))"

section \<open>Confirm\<close>

text \<open>The loop that rolls back from the main tail to the locator; the result is the number reached.\<close>

primrec rollback_loop ::
    "nat \<Rightarrow> nat \<Rightarrow> env \<Rightarrow> u64 \<Rightarrow> hash \<Rightarrow> u64 \<Rightarrow> MainChain \<Rightarrow> err + (err + u64) \<times> MainChain" where
  "rollback_loop 0 depth E locatorTime h number mc = Inl NoFuel"
| "rollback_loop (Suc fuel) depth E locatorTime h number mc =
     (case load_block E (mcDB mc) h of
        Inl e \<Rightarrow> if e = Panic then Inl Panic else Inr (Inl e, mc)
      | Inr b \<Rightarrow>
          if locatorTime \<ge> GetTime b then Inr (Inr number, mc)
          else
            res_bind (RollBackStatus depth E (fst (GetHash E b)) number mc) (\<lambda>(e, mc).
              case e of
                Some e \<Rightarrow> Inr (Inl e, mc)
              | None \<Rightarrow> rollback_loop fuel depth E locatorTime (GetMaxLink b) (number - 1) mc))"

text \<open>
  One main block.  \<open>lastState\<close> and the working state are the same object once the first block of the
  list is done (\<open>shared\<close>), so an error in a later one leaves its half-done changes visible.
\<close>

definition share :: "bool \<Rightarrow> StateDB \<Rightarrow> MainChain \<Rightarrow> MainChain" where
  "share shared s mc = (if shared then mc\<lparr>lastState := Some s\<rparr> else mc)"

definition confirm_finish ::
    "chain_params \<Rightarrow> bool \<Rightarrow> u64 \<Rightarrow> Block \<Rightarrow> ConfirmRewardInfo \<Rightarrow> u64 \<Rightarrow> StateDB \<Rightarrow> MainChain \<Rightarrow>
      err + err option \<times> StateDB \<times> MainChain" where
  "confirm_finish P shared number b reward count s mc =
     (case CalculatingMinerReward (cE P) (cH P) b number reward s of
        (Some e, s) \<Rightarrow> Inr (Some e, s, share shared s mc)
      | (None, s) \<Rightarrow>
          res_bind (Commit (cH P) (cOrder P s) False s) (\<lambda>(committed, s).
            case committed of
              Inl e \<Rightarrow> Inr (Some e, s, share shared s mc)
            | Inr root \<Rightarrow>
            let h = fst (GetHash (cE P) b); mc = mc\<lparr>stateBaseDB := db s\<rparr> in
            case WriteMainBlock number \<lparr>miHash = h, miRoot = root, ConfirmCount = count\<rparr> (mcDB mc) of
              Inl e \<Rightarrow> Inr (Some e, s, share shared s mc)
            | Inr D \<Rightarrow>
                (let mt = \<lparr>tmHash = h, tmCumulativeDiff = GetCumulativeDiff b, tmNumber = number, tmTime = GetTime b\<rparr>;
                     D = (case WriteTailMainBlockInfo mt D of Inl _ \<Rightarrow> D | Inr D \<Rightarrow> D)
                 in Inr (None, s, mc\<lparr>mcDB := D, MainTail := mt, lastState := Some s\<rparr>))))"

definition confirm_one ::
    "nat \<Rightarrow> chain_params \<Rightarrow> bool \<Rightarrow> u64 \<Rightarrow> Block \<Rightarrow> StateDB \<Rightarrow> MainChain \<Rightarrow> err + err option \<times> StateDB \<times> MainChain" where
  "confirm_one depth P shared number b s mc =
     (let b = SetStatus (GetStatus b OR BlockMain) b in
      res_bind (singleBlockConfirm depth P b True number b \<lparr>csCount = 0, csState = s, csChain = mc\<rparr>)
        (\<lambda>(((reward, e), b), st).
           let s = csState st; mc = csChain st in
           case e of
             Some e \<Rightarrow> Inr (Some e, s, share shared s mc)
           | None \<Rightarrow>
               (case WriteBlockMutableInfo (fst (GetHash (cE P) b)) (GetMutableInfo b) (mcDB mc) of
                  Inl e \<Rightarrow> Inr (Some e, s, share shared s mc)
                | Inr D \<Rightarrow>
                    (case reward of
                       None \<Rightarrow> Inl Panic
                     | Some reward \<Rightarrow> confirm_finish P shared number b reward (csCount st) s (mc\<lparr>mcDB := D\<rparr>)))))"

primrec confirm_list ::
    "nat \<Rightarrow> chain_params \<Rightarrow> bool \<Rightarrow> u64 \<Rightarrow> Block list \<Rightarrow> StateDB \<Rightarrow> MainChain \<Rightarrow> err + err option \<times> MainChain" where
  "confirm_list depth P shared number [] s mc = Inr (None, mc)"
| "confirm_list depth P shared number (b # bs) s mc =
     res_bind (confirm_one depth P shared (number + 1) b s mc) (\<lambda>(e, s, mc).
       case e of Some e \<Rightarrow> Inr (Some e, mc) | None \<Rightarrow> confirm_list depth P True (number + 1) bs s mc)"

definition Confirm :: "nat \<Rightarrow> nat \<Rightarrow> chain_params \<Rightarrow> MainChain \<Rightarrow> err + err option \<times> MainChain" where
  "Confirm fuel depth P mc =
     (let E = cE P; mainTail = MainTail mc in
      case findTheMainBlockThatCanConfirmOtherBlocks fuel E mainTail mc of
        Inl e \<Rightarrow> if e = Panic \<or> e = NoFuel then Inl e else Inr (Some e, mc)
      | Inr (listMainBlock, locatorBlock) \<Rightarrow>
          res_bind
            (if GetTime locatorBlock < tmTime mainTail
             then rollback_loop fuel depth E (GetTime locatorBlock) (tmHash mainTail) (tmNumber mainTail) mc
             else Inr (Inr (tmNumber mainTail), mc))
            (\<lambda>(r, mc).
               case r of
                 Inl e \<Rightarrow> Inr (Some e, mc)
               | Inr number \<Rightarrow>
                   if listMainBlock = [] then Inr (None, mc)
                   else
                     (case ReadMainBlock (mcDB mc) number of
                        Inl e \<Rightarrow> Inr (Some e, mc)
                      | Inr mb \<Rightarrow>
                          (case state_New (cH P) (miRoot mb) (stateBaseDB mc) of
                             Inl e \<Rightarrow> Inr (Some e, mc)
                           | Inr s \<Rightarrow> confirm_list depth P False number listMainBlock s mc))))"

end
