(* ===== verification/Chain_Money.thy ===== *)
theory Chain_Money
  imports Main_Confirm
begin

text \<open>
  Conservation of money along a confirmation: the fees that leave the accounts are exactly the rewards
  that are handed on, through the recursion over everything a main block references, and a main block
  adds exactly its mining reward.
\<close>

section \<open>Blocks of the store\<close>

definition plain_store :: "env \<Rightarrow> Database \<Rightarrow> bool" where
  "plain_store E D \<longleftrightarrow> (\<forall>h b. ReadBlock E D h = Inr (Some b) \<longrightarrow> plain b)"

lemma plain_SetMutableInfo [simp]: "plain (SetMutableInfo m b) = plain b"
  by (cases b) (simp_all add: plain_def GetGasPrice_def)

lemma plain_SetStatus [simp]: "plain (SetStatus f b) = plain b"
  by (simp add: SetStatus_def)

lemma plain_GetHash [simp]: "plain (snd (GetHash E b)) = plain b"
  by (cases b) (simp_all add: plain_def GetGasPrice_def TxBlock_GetHash_def MinerBlock_GetHash_def
      GenesisBlock_GetHash_def Let_def split: option.split)

lemma plain_GetSender [simp]: "plain (snd (GetSender E b)) = plain b"
  by (cases b) (simp_all add: plain_def GetGasPrice_def TxBlock_GetSender_def MinerBlock_GetSender_def
      Let_def split: option.split sum.split)

lemma plain_store_same: "same_tables E D D' \<Longrightarrow> plain_store E D' = plain_store E D"
  by (simp add: plain_store_def same_tables_def)

lemma plain_store_info:
  "WriteBlockMutableInfo h m D = Inr D' \<Longrightarrow> plain_store E D' = plain_store E D"
  by (simp add: plain_store_def)

section \<open>Money in flight\<close>

definition in_flight :: "ConfirmRewardInfo \<Rightarrow> int" where
  "in_flight r = userReward r + minerReward r"

definition fair :: "ConfirmRewardInfo \<Rightarrow> bool" where
  "fair r \<longleftrightarrow> 0 \<le> userReward r \<and> 0 \<le> minerReward r"

lemma in_flight_Compute [simp]: "in_flight (ComputeConfirmReward r) = in_flight r"
  by (simp add: in_flight_def ComputeConfirmReward_def Let_def)

lemma fair_Compute: "fair r \<Longrightarrow> fair (ComputeConfirmReward r)"
proof -
  assume "fair r"
  then have "userReward r * 20 div 100 \<le> userReward r" "0 \<le> userReward r * 20 div 100"
    unfolding fair_def by linarith+
  with \<open>fair r\<close> show ?thesis by (simp add: fair_def ComputeConfirmReward_def Let_def)
qed

text \<open>
  The relation between the states before and after a step that hands on \<open>r\<close> out of \<open>q\<close>: the state
  stays well formed, no money appears or disappears, and solvency is kept.
\<close>

definition money_step :: "env \<Rightarrow> hashing \<Rightarrow> ConfirmRewardInfo \<Rightarrow> cstate \<Rightarrow> ConfirmRewardInfo \<Rightarrow> cstate \<Rightarrow> bool" where
  "money_step E H q st r st' \<longleftrightarrow>
     calm H (csState st') \<and> plain_store E (mcDB (csChain st')) \<and>
     total_supply H (csState st') + in_flight r = total_supply H (csState st) + in_flight q \<and>
     (solvent H (csState st) \<and> fair q \<longrightarrow> solvent H (csState st') \<and> fair r)"

abbreviation sound_state :: "env \<Rightarrow> hashing \<Rightarrow> cstate \<Rightarrow> bool" where
  "sound_state E H st \<equiv> calm H (csState st) \<and> plain_store E (mcDB (csChain st))"

lemma money_step_refl: "sound_state E H st \<Longrightarrow> money_step E H q st q st"
  by (simp add: money_step_def)

lemma money_step_sound: "money_step E H q st r st' \<Longrightarrow> sound_state E H st'"
  by (simp add: money_step_def)

lemma money_step_trans:
  "money_step E H q st r st' \<Longrightarrow> money_step E H r st' p st'' \<Longrightarrow> money_step E H q st p st''"
  by (auto simp: money_step_def)

definition reward_plus :: "ConfirmRewardInfo \<Rightarrow> ConfirmRewardInfo \<Rightarrow> ConfirmRewardInfo" where
  "reward_plus p q = \<lparr>userReward = userReward p + userReward q, minerReward = minerReward p + minerReward q\<rparr>"

text \<open>A reward that is carried along does not interfere with a step that starts with none.\<close>

lemma money_step_frame:
  "money_step E H ConfirmRewardInfo_Init st r st' \<Longrightarrow> money_step E H p st (reward_plus p r) st'"
  by (auto simp: money_step_def reward_plus_def in_flight_def fair_def ConfirmRewardInfo_Init_def)

lemma sendStatus_DB: "sendStatusInfoToCenter E b main i rc mc = Inr mc' \<Longrightarrow> mcDB mc' = mcDB mc"
  by (auto simp: sendStatusInfoToCenter_def split: option.splits)

lemma LocalBlockNoticeSend_DB [simp]: "mcDB (LocalBlockNoticeSend h a act mc) = mcDB mc"
  by (simp add: LocalBlockNoticeSend_def)

lemma plain_mark [simp]: "plain (mark_confirmed n k b) = plain b" "plain (mark_applied E e b) = plain b"
  by (simp_all add: mark_confirmed_def mark_applied_def Let_def)

lemma confirm_self_InrE:
  assumes "confirm_self P main i n b info st = Inr (((r, e), b'), st')"
  obtains w rc e1 s D where
    "CalculatingAccounts (cE P) (cH P) (cA P) main (mark_confirmed n (csCount st + 1) b) (userReward info) (csCount st + 1)
      (csState st) (mcDB (csChain st)) = Inr ((w, rc, e1), s, D)"
    and "b' = mark_applied (cE P) e1 (mark_confirmed n (csCount st + 1) b)"
    and "r = Some (ComputeConfirmReward (info\<lparr>userReward := w\<rparr>))" and "csState st' = s"
    and "case WriteBlockMutableInfo (fst (GetHash (cE P) b')) (GetMutableInfo b') D of
        Inl f \<Rightarrow> e = Some f \<and> mcDB (csChain st') = D | Inr D1 \<Rightarrow> e = None \<and> mcDB (csChain st') = D1"
proof -
  define b1 where "b1 = mark_confirmed n (csCount st + 1) b"
  obtain w rc e1 s D where ca: "CalculatingAccounts (cE P) (cH P) (cA P) main b1 (userReward info) (csCount st + 1)
      (csState st) (mcDB (csChain st)) = Inr ((w, rc, e1), s, D)"
    using assms by (auto simp: confirm_self_def Let_def b1_def)
  define b2 where "b2 = mark_applied (cE P) e1 b1"
  have "b' = b2" "r = Some (ComputeConfirmReward (info\<lparr>userReward := w\<rparr>))" "csState st' = s"
    "case WriteBlockMutableInfo (fst (GetHash (cE P) b2)) (GetMutableInfo b2) D of
        Inl f \<Rightarrow> e = Some f \<and> mcDB (csChain st') = D | Inr D1 \<Rightarrow> e = None \<and> mcDB (csChain st') = D1"
    using assms ca unfolding confirm_self_def b1_def [symmetric] Let_def
    by (cases "WriteBlockMutableInfo (fst (GetHash (cE P) b2)) (GetMutableInfo b2) D";
        auto simp: b2_def [symmetric] res_bind_eq_Inr_iff dest!: sendStatus_DB)+
  with ca show thesis by (intro that) (simp_all add: b1_def b2_def)
qed

lemma confirm_self_money:
  assumes st: "sound_state (cE P) (cH P) st" and p: "plain b"
    and run: "confirm_self P main i n b info st = Inr (((r, e), b'), st')"
  shows "\<exists>q. r = Some q \<and> money_step (cE P) (cH P) info st q st'" and "plain b'"
proof -
  obtain w rc e1 s D where ca: "CalculatingAccounts (cE P) (cH P) (cA P) main (mark_confirmed n (csCount st + 1) b)
      (userReward info) (csCount st + 1) (csState st) (mcDB (csChain st)) = Inr ((w, rc, e1), s, D)"
    and b': "b' = mark_applied (cE P) e1 (mark_confirmed n (csCount st + 1) b)"
    and r: "r = Some (ComputeConfirmReward (info\<lparr>userReward := w\<rparr>))" and s: "csState st' = s"
    and D: "case WriteBlockMutableInfo (fst (GetHash (cE P) b')) (GetMutableInfo b') D of
        Inl f \<Rightarrow> e = Some f \<and> mcDB (csChain st') = D | Inr D1 \<Rightarrow> e = None \<and> mcDB (csChain st') = D1"
    using confirm_self_InrE [OF run] .
  show "plain b'" using p by (simp add: b')
  note money = CalculatingAccounts_plain [OF conjunct1 [OF st] _ ca, simplified, OF p]
  have "plain_store (cE P) (mcDB (csChain st'))"
    using money st D by (auto simp: plain_store_same plain_store_info split: sum.splits)
  moreover have "in_flight (info\<lparr>userReward := w\<rparr>) = w + minerReward info" "in_flight info = userReward info + minerReward info"
    "fair info \<Longrightarrow> 0 \<le> w \<Longrightarrow> fair (info\<lparr>userReward := w\<rparr>)"
    by (simp_all add: in_flight_def fair_def)
  ultimately show "\<exists>q. r = Some q \<and> money_step (cE P) (cH P) info st q st'"
    using money by (auto simp: r s money_step_def fair_Compute) (simp_all add: fair_def fair_Compute)
qed

lemma confirm_links_money:
  assumes rec: "\<And>b st r e b' st'. sound_state E H st \<Longrightarrow> plain b \<Longrightarrow> rec b st = Inr (((Some r, e), b'), st') \<Longrightarrow>
      money_step E H ConfirmRewardInfo_Init st r st'"
    and "sound_state E H st" and "confirm_links E rec hs p st = Inr (Inr q, st')"
  shows "money_step E H p st q st'"
  using assms(2,3)
proof (induction hs arbitrary: p st)
  case (Cons h hs)
  from Cons.prems(2) obtain m where m: "ReadBlockMutableInfo (mcDB (csChain st)) h = Inr m"
    by (cases "ReadBlockMutableInfo (mcDB (csChain st)) h") simp_all
  show ?case
  proof (cases "Status m AND (BlockConfirm OR BlockMain) \<noteq> 0")
    case True
    with Cons m show ?thesis by simp
  next
    case False
    with Cons.prems(2) m obtain b r e b1 st1 where b: "ReadBlock E (mcDB (csChain st)) h = Inr (Some b)"
      and r: "rec (SetMutableInfo m b) st = Inr (((Some r, e), b1), st1)"
      and rest: "confirm_links E rec hs (reward_plus p r) st1 = Inr (Inr q, st')"
      by (auto simp: reward_plus_def res_bind_eq_Inr_iff split: option.splits)
    have "plain b" using b Cons.prems(1) by (auto simp: plain_store_def)
    then have step: "money_step E H ConfirmRewardInfo_Init st r st1"
      using rec [OF Cons.prems(1) _ r] by simp
    show ?thesis
      using money_step_trans [OF money_step_frame [OF step] Cons.IH [OF money_step_sound [OF step] rest]] .
  qed
qed (simp add: money_step_refl)

lemma singleBlockConfirm_SomeE:
  assumes "singleBlockConfirm (Suc fuel) P main i n b st = Inr (((Some r, e), b'), st')"
  obtains info st1 where
    "confirm_links (cE P) (singleBlockConfirm fuel P main False n) (GetLinks (snd (GetHash (cE P) b)))
      ConfirmRewardInfo_Init st = Inr (Inr info, st1)"
    and "confirm_self P main i n (snd (GetHash (cE P) b)) info st1 = Inr (((Some r, e), b'), st')"
proof -
  obtain x st1 where x: "confirm_links (cE P) (singleBlockConfirm fuel P main False n)
      (GetLinks (snd (GetHash (cE P) b))) ConfirmRewardInfo_Init st = Inr (x, st1)"
    using assms by (auto simp: Let_def res_bind_eq_Inr_iff)
  with assms that show thesis by (cases x) (simp_all add: Let_def)
qed

lemma singleBlockConfirm_money:
  assumes "sound_state (cE P) (cH P) st" and "plain b"
    and "singleBlockConfirm fuel P main i n b st = Inr (((Some r, e), b'), st')"
  shows "money_step (cE P) (cH P) ConfirmRewardInfo_Init st r st'"
  using assms
proof (induction fuel arbitrary: b i st r e b' st')
  case (Suc fuel)
  from singleBlockConfirm_SomeE [OF Suc.prems(3)] obtain info st1 where
      l: "confirm_links (cE P) (singleBlockConfirm fuel P main False n) (GetLinks (snd (GetHash (cE P) b)))
        ConfirmRewardInfo_Init st = Inr (Inr info, st1)"
    and s: "confirm_self P main i n (snd (GetHash (cE P) b)) info st1 = Inr (((Some r, e), b'), st')" .
  have step: "money_step (cE P) (cH P) ConfirmRewardInfo_Init st info st1"
    using Suc.IH Suc.prems(1) by (intro confirm_links_money [OF _ _ l]) blast+
  with confirm_self_money(1) [OF money_step_sound [OF step] _ s] Suc.prems(2) show ?case
    by (auto intro: money_step_trans)
qed simp

end
