(* ===== verification/Sample_Store.thy ===== *)
theory Sample_Store
  imports Storage
begin

text \<open>
  A small concrete store, the genesis block and a miner block that references it, on which the
  hypotheses of the theorems about the main chain are exhibited.
\<close>

definition late_env :: env where
  "late_env = sample_env\<lparr>now := 50000\<rparr>"

definition sample_mbrec :: MinerBlock where
  "sample_mbrec = \<lparr>mbHeader = \<lparr>BType = 2, BTime = 4000, GasPrice = 1, GasLimit = 30000\<rparr>, mbLinks = [5], Miner = 1,
     Nonce = 0, mbV = 27, mbR = 1, mbS = 1, mbSender = None, mbInfo = zeroInfo, mbHash = None\<rparr>"

definition sample_main :: Block where
  "sample_main = BMiner sample_mbrec"

lemma sample_main_ok:
  "good_block sample_main" "hash_coherent E sample_main" "small_info (GetMutableInfo sample_main)"
  by (simp_all add: sample_main_def sample_mbrec_def good_mb_def good_header_def good_info_def
      enc_list_def enc_str_def enc_head_def MutableInfo_val_def zeroInfo_def)

lemma sample_main_small: "small_block sample_main"
  by (simp add: sample_main_def sample_mbrec_def MinerBlock_data_def BlockHeader_val_def links_val_def
      enc_list_def enc_str_def enc_head_def be_min_pos)

lemma sample_recover: "recoverPlain late_env h 1 1 27 = Inr 1"
  by (simp add: recoverPlain_def Let_def ValidateSignatureValues_def secp256k1N_def late_env_def sample_env_def)

lemma late_env_sel [simp]: "now late_env = 50000" "GenesisTime late_env = 0" "keccak late_env b = word_of_nat (be_val b)"
  by (simp_all add: late_env_def sample_env_def)

lemma sample_main_sender: "MinerBlock_GetSender late_env sample_mbrec = (Inr 1, sample_mbrec\<lparr>mbSender := Some 1\<rparr>)"
  by (simp add: sample_mbrec_def MinerBlock_GetSender_def sample_recover)

lemma sample_main_valid:
  "Validation late_env (norm_block sample_main) = (None, BMiner (sample_mbrec\<lparr>mbSender := Some 1\<rparr>))"
proof -
  have "norm_mb sample_mbrec = sample_mbrec" by (simp add: norm_mb_def sample_mbrec_def)
  moreover have "mbHeader sample_mbrec = \<lparr>BType = 2, BTime = 4000, GasPrice = 1, GasLimit = 30000\<rparr>" "mbLinks sample_mbrec = [5]"
    by (simp_all add: sample_mbrec_def)
  ultimately show ?thesis by (simp add: sample_main_def MinerBlock_Validation_def sample_main_sender)
qed

lemma sample_hash: "good_block b \<Longrightarrow> small_block b \<Longrightarrow> block_hash late_env b = word_of_nat (be_val (enc (block_val b)))"
  using GetRlp_enc [of b] by (cases b) (simp_all add: block_hash_def rlpHash_def
      TxBlock_GetRlp_def MinerBlock_GetRlp_def GenesisBlock_GetRlp_def)

text \<open>The stand-in for Keccak keeps the last 32 bytes: the hash of the genesis block is its root.\<close>

lemma be_val_append: "be_val (a @ b) = be_val a * 256 ^ length b + be_val b"
proof (induction b rule: rev_induct)
  case (snoc x b)
  then show ?case by (simp add: algebra_simps flip: append_assoc)
qed simp

lemma sample_genesis_hash: "block_hash late_env sample_genesis = 5"
proof -
  have "\<exists>pre. enc (block_val sample_genesis) = pre @ hash_bytes 5"
    by (simp add: sample_genesis_def GenesisBlock_data_def enc_list_def enc_str_def)
  then obtain pre where "enc (block_val sample_genesis) = pre @ hash_bytes 5" ..
  then have "block_hash late_env sample_genesis = word_of_nat (be_val pre * 2 ^ 256 + 5)"
    unfolding sample_hash [OF sample_genesis_ok(1,3)] by (simp only: be_val_append) simp
  also have "\<dots> = word_of_nat 5" unfolding word_of_nat_eq_iff take_bit_eq_mod by simp
  finally show ?thesis by simp
qed

lemma sample_main_hash: "block_hash late_env sample_main \<noteq> 5"
proof -
  have "enc_str (be_min (Suc 0)) = [1]" by (simp add: be_min_pos enc_str_def)
  then have "\<exists>pre. enc (block_val sample_main) = pre @ [1]"
    by (simp add: sample_main_def sample_mbrec_def MinerBlock_data_def enc_list_def)
  then obtain pre where "enc (block_val sample_main) = pre @ [1]" ..
  then have "block_hash late_env sample_main = word_of_nat (be_val pre * 256 + 1)"
    unfolding sample_hash [OF sample_main_ok(1) sample_main_small] by simp
  moreover have "(be_val pre * 256 + 1) mod 2 ^ 256 mod 256 = 1"
    by (subst mod_mod_cancel) (simp, presburger)
  then have "(be_val pre * 256 + 1) mod 2 ^ 256 \<noteq> 5 mod 2 ^ 256" by force
  then have "word_of_nat (be_val pre * 256 + 1) \<noteq> (word_of_nat 5 :: hash)"
    unfolding word_of_nat_eq_iff take_bit_eq_mod by simp
  ultimately show ?thesis by simp
qed

text \<open>Reading from a store to which one block was added.\<close>

lemma WriteBlock_store:
  assumes w: "WriteBlock E b D = Inr D'" and coh: "hash_coherent E b" and good: "good_block b" "small_block b"
    and info: "small_info (GetMutableInfo b)" and valid: "Validation E (norm_block b) = (None, b')"
    and key: "length (fst (blockKey E (GetMainTime (GetTime b)) D)) < 32"
  shows "ReadBlock E D' g = (if g = block_hash E b then Inr (Some b') else ReadBlock E D g)"
    and "ReadBlockMutableInfo D' g =
      (if g = block_hash E b then Inr (norm_info (GetMutableInfo b)) else ReadBlockMutableInfo D g)"
proof -
  define h where "h = block_hash E b"
  define k where "k = fst (blockKey E (GetMainTime (GetTime b)) D)"
  obtain D1 where D1: "WriteBlockRlp E h (GetTime b) (GetRlp b) D = Inr D1"
    "WriteBlockMutableInfo h (GetMutableInfo b) D1 = Inr D'"
    using w GetHash_coherent(1) [OF coh] by (auto simp: WriteBlock_def h_def Let_def)
  have kv1: "kv D1 = (kv D)(k \<mapsto> hash_bytes h, hash_bytes h \<mapsto> GetRlp b)"
    using WriteBlockRlp_kv [OF D1(1)] by (simp add: k_def)
  have kv': "kv D' = (kv D1)(blockInfoKey h \<mapsto> GetMutableRlp (GetMutableInfo b))"
    using D1(2) by (auto simp: WriteBlockMutableInfo_def Put_Inr)
  have "k \<noteq> hash_bytes g" "k \<noteq> blockInfoKey g"
    using key by (auto simp: k_def blockInfoKey_def ascii_def)
  then have frame: "g \<noteq> h \<Longrightarrow> kv D' (hash_bytes g) = kv D (hash_bytes g) \<and> kv D' (blockInfoKey g) = kv D (blockInfoKey g)"
    by (simp add: kv1 kv')
  note own = WriteBlock_reads [OF w coh good info valid]
  show "ReadBlock E D' g = (if g = block_hash E b then Inr (Some b') else ReadBlock E D g)"
    using own(1) frame ReadBlock_cong [of D' g D E] by (auto simp: h_def)
  show "ReadBlockMutableInfo D' g =
      (if g = block_hash E b then Inr (norm_info (GetMutableInfo b)) else ReadBlockMutableInfo D g)"
    using own(2) frame by (auto simp: h_def ReadBlockMutableInfo_def Get_def)
qed

definition sample_store :: Database where
  "sample_store =
     (case WriteBlock late_env sample_genesis empty_db of
        Inl _ \<Rightarrow> empty_db
      | Inr D \<Rightarrow> (case WriteBlock late_env sample_main D of Inl _ \<Rightarrow> empty_db | Inr D \<Rightarrow> D))"

lemma sample_genesis_valid: "Validation late_env (norm_block sample_genesis) = (None, sample_genesis)"
  by (simp add: sample_genesis_def norm_gb_def zeroInfo_def)

abbreviation sample_main' :: Block where
  "sample_main' \<equiv> BMiner (sample_mbrec\<lparr>mbSender := Some 1\<rparr>)"

abbreviation sample_h :: hash where
  "sample_h \<equiv> block_hash late_env sample_main"

lemma sample_store_reads:
  "ReadBlock late_env sample_store g =
     Inr (if g = sample_h then Some sample_main' else if g = 5 then Some sample_genesis else None)"
  "ReadBlockMutableInfo sample_store g =
     (if g = sample_h \<or> g = 5 then Inr (norm_info zeroInfo) else Inl ErrNotFound)"
  "putFails sample_store = (\<lambda>_. False)"
proof -
  obtain D1 where D1: "WriteBlock late_env sample_genesis empty_db = Inr D1" "putFails D1 = (\<lambda>_. False)"
    using WriteBlock_total [of empty_db] by (auto simp: empty_db_def)
  obtain D2 where D2: "WriteBlock late_env sample_main D1 = Inr D2" "putFails D2 = (\<lambda>_. False)"
    using WriteBlock_total [OF D1(2)] by blast
  have s: "sample_store = D2" using D1 D2 by (simp add: sample_store_def)
  have id: "idTime D1 = 50000" "idCount D1 = 0"
    using D1(1)
    by (auto simp: WriteBlock_def WriteBlockRlp_def WriteBlockMutableInfo_def Put_def blockKey_def nextId_def
        empty_db_def Let_def)
  have info: "GetMutableInfo sample_genesis = zeroInfo" "GetMutableInfo sample_main = zeroInfo"
    by (simp_all add: sample_genesis_def sample_main_def sample_mbrec_def)
  have "length (fst (blockKey late_env (GetMainTime (GetTime sample_genesis)) empty_db)) < 32"
    by (simp add: blockKey_def nextId_def blockLookUpKey_def ascii_def EncodeUnit64ToByte_def GetMainTime_def empty_db_def
        sample_genesis_def GetTime_def hex_text.simps)
  note G = WriteBlock_store [OF D1(1) sample_genesis_ok(2,1,3,4) sample_genesis_valid this, unfolded sample_genesis_hash info]
  have "length (fst (blockKey late_env (GetMainTime (GetTime sample_main)) D1)) < 32"
    by (simp add: blockKey_def nextId_def blockLookUpKey_def ascii_def EncodeUnit64ToByte_def GetMainTime_def id
        sample_main_def sample_mbrec_def GetTime_def hex_text.simps)
  note M = WriteBlock_store [OF D2(1) sample_main_ok(2,1) sample_main_small sample_main_ok(3) sample_main_valid this, unfolded info]
  have e: "ReadBlock late_env empty_db g = Inr None" "ReadBlockMutableInfo empty_db g = Inl ErrNotFound"
    by (simp_all add: ReadBlock_def ReadBlockRlp_def ReadBlockMutableInfo_def Get_def empty_db_def)
  show "ReadBlock late_env sample_store g =
     Inr (if g = sample_h then Some sample_main' else if g = 5 then Some sample_genesis else None)"
    "ReadBlockMutableInfo sample_store g = (if g = sample_h \<or> g = 5 then Inr (norm_info zeroInfo) else Inl ErrNotFound)"
    "putFails sample_store = (\<lambda>_. False)"
    using D2(2) by (simp_all add: s M G e)
qed

end
