(* ===== verification/Chain_Status.thy ===== *)
theory Chain_Status
  imports Chain_Money Sample_Store
begin

text \<open>
  What a confirmation does to the stored status of the blocks: a block that is already confirmed is
  never touched again, everything a confirmed block references is confirmed too, and the recursion
  over the references ends.
\<close>

section \<open>Information that fits the store\<close>

text \<open>Difficulties below \<open>2^512\<close>; the work of one block is below \<open>2^128\<close>, so the sum over any chain is.\<close>

definition sane_info :: "MutableInfo \<Rightarrow> bool" where
  "sane_info m \<longleftrightarrow> (\<forall>d. Difficulty m = Some d \<or> CumulativeDiff m = Some d \<longrightarrow> 0 \<le> d \<and> d < 2 ^ 512)"

lemma sane_small: "sane_info m \<Longrightarrow> small_info m"
proof -
  assume s: "sane_info m"
  define p where "p = concat (map enc [VUint (Status m), VUint (ConfirmItsNumber m), VBigInt (Difficulty m),
      VBigInt (CumulativeDiff m), VBytes (hash_bytes (MaxLinkHash m)), VUint (ConfirmItsIndex m)])"
  have "length p \<le> 202"
    using length_enc_uint [of "Status m"] length_enc_uint [of "ConfirmItsNumber m"] length_enc_uint [of "ConfirmItsIndex m"]
      length_enc_diff [of "Difficulty m"] length_enc_diff [of "CumulativeDiff m"]
      enc_str_length_le [of "hash_bytes (MaxLinkHash m)"] s
    by (simp add: sane_info_def p_def)
  moreover have "enc (MutableInfo_val m) = enc_list p" by (simp add: MutableInfo_val_def p_def)
  ultimately show ?thesis using enc_list_length_le [of p] s by (auto simp: good_info_def sane_info_def)
qed

lemma sane_norm: "sane_info m \<Longrightarrow> sane_info (norm_info m)"
  by (auto simp: sane_info_def norm_info_def split: option.split)

section \<open>Hashes of stored blocks\<close>

lemma GetHash_stable [simp]:
  "fst (GetHash E (snd (GetHash E b))) = fst (GetHash E b)"
  "fst (GetHash E (SetMutableInfo m b)) = fst (GetHash E b)"
  "fst (GetHash E (snd (GetSender E b))) = fst (GetHash E b)"
  by (cases b; simp add: TxBlock_GetHash_def MinerBlock_GetHash_def GenesisBlock_GetHash_def TxBlock_GetSender_def
      MinerBlock_GetSender_def Let_def split: option.split sum.split)+

lemma GetHash_SetStatus [simp]: "fst (GetHash E (SetStatus f b)) = fst (GetHash E b)"
  by (simp add: SetStatus_def)

lemma GetLinks_stable [simp]:
  "GetLinks (snd (GetHash E b)) = GetLinks b" "GetLinks (SetMutableInfo m b) = GetLinks b"
  "GetMutableInfo (snd (GetHash E b)) = GetMutableInfo b" "GetMutableInfo (SetMutableInfo m b) = m"
  by (cases b; simp add: TxBlock_GetHash_def MinerBlock_GetHash_def GenesisBlock_GetHash_def Let_def
      split: option.split)+

definition confirmed_info :: "MutableInfo \<Rightarrow> bool" where
  "confirmed_info m \<longleftrightarrow> Status m AND (BlockConfirm OR BlockMain) \<noteq> 0"

definition confirmed :: "Database \<Rightarrow> hash \<Rightarrow> bool" where
  "confirmed D h \<longleftrightarrow> (\<exists>m. ReadBlockMutableInfo D h = Inr m \<and> confirmed_info m)"

lemma confirmed_info_iff: "confirmed_info m \<longleftrightarrow> bit (Status m) 3 \<or> bit (Status m) 6"
proof -
  have "Status m AND (8 OR 64) = 0 \<longleftrightarrow> Status m AND 8 = 0 \<and> Status m AND 64 = 0"
    unfolding bit.conj_disj_distrib by (simp add: or_eq_0_iff)
  then show ?thesis unfolding confirmed_info_def by simp
qed

text \<open>A store in order: blocks are kept under their hash, the information fits, and writes succeed.\<close>

definition good_store :: "env \<Rightarrow> Database \<Rightarrow> bool" where
  "good_store E D \<longleftrightarrow>
     (\<forall>h b. ReadBlock E D h = Inr (Some b) \<longrightarrow> fst (GetHash E b) = h) \<and>
     (\<forall>h m. ReadBlockMutableInfo D h = Inr m \<longrightarrow> sane_info m) \<and>
     putFails D = (\<lambda>_. False)"

text \<open>Everything a confirmed block references is confirmed.\<close>

definition ancestor_closed :: "env \<Rightarrow> Database \<Rightarrow> bool" where
  "ancestor_closed E D \<longleftrightarrow>
     (\<forall>h b. ReadBlock E D h = Inr (Some b) \<longrightarrow> confirmed D h \<longrightarrow> (\<forall>l \<in> set (GetLinks b). confirmed D l))"

lemma CalculatingAccounts_tables:
  assumes "CalculatingAccounts E H A main b cr n s D = Inr ((r, rc, e), t, D')"
  shows "same_tables E D D'" and "putFails D' = putFails D"
proof -
  have ex: "same_tables E D D1 \<and> putFails D1 = putFails D"
    if "ExecutionTransaction E H A main b gp n s1 D = Inr ((c, rc1, e1), t1, D1)" for gp s1 c rc1 e1 t1 D1
    using ExecutionTransaction_InrE [OF that] by metis
  have "same_tables E D D' \<and> putFails D' = putFails D"
  proof (cases "fst (GetSender E b)")
    case (Inr a)
    then show ?thesis using CalculatingAccounts_InrE [OF assms] ex by metis
  qed (use assms in \<open>simp add: CalculatingAccounts_def same_tables_def\<close>)
  then show "same_tables E D D'" "putFails D' = putFails D" by simp_all
qed

lemma good_store_write:
  assumes good: "good_store E D" and w: "WriteBlockMutableInfo h m D = Inr D'" and sane: "sane_info m"
  shows "good_store E D'" and "ReadBlockMutableInfo D' h = Inr (norm_info m)"
    and "g \<noteq> h \<Longrightarrow> ReadBlockMutableInfo D' g = ReadBlockMutableInfo D g"
proof -
  show own: "ReadBlockMutableInfo D' h = Inr (norm_info m)" using infos.read_write [OF w sane_small [OF sane]] .
  show other: "ReadBlockMutableInfo D' g = ReadBlockMutableInfo D g" if "g \<noteq> h" for g
    using infos.read_other [OF w that] .
  have "sane_info m'" if "ReadBlockMutableInfo D' g = Inr m'" for g m'
    using that own other [of g] good sane_norm [OF sane] by (cases "g = h") (auto simp: good_store_def)
  moreover have "putFails D' = putFails D" using w by (auto simp: WriteBlockMutableInfo_def Put_Inr)
  ultimately show "good_store E D'" using good w by (auto simp: good_store_def)
qed

lemma good_store_same: "same_tables E D D' \<Longrightarrow> putFails D' = putFails D \<Longrightarrow> good_store E D' = good_store E D"
  by (simp add: good_store_def same_tables_def)

text \<open>The effect of a confirmation on the store: \<open>h\<close> is confirmed, confirmed blocks other than \<open>h\<close> are untouched.\<close>

definition store_step :: "env \<Rightarrow> hash set \<Rightarrow> Database \<Rightarrow> Database \<Rightarrow> bool" where
  "store_step E hs D D' \<longleftrightarrow>
     good_store E D' \<and> (\<forall>g. ReadBlock E D' g = ReadBlock E D g) \<and>
     (\<forall>g m. ReadBlockMutableInfo D g = Inr m \<longrightarrow> (\<exists>m'. ReadBlockMutableInfo D' g = Inr m')) \<and>
     (\<forall>g. confirmed D g \<and> g \<notin> hs \<longrightarrow> ReadBlockMutableInfo D' g = ReadBlockMutableInfo D g)"

lemma store_step_refl: "good_store E D \<Longrightarrow> store_step E hs D D"
  by (simp add: store_step_def)

lemma store_step_confirmed: "store_step E hs D D' \<Longrightarrow> confirmed D g \<Longrightarrow> g \<notin> hs \<Longrightarrow> confirmed D' g"
  by (simp add: store_step_def confirmed_def)

lemma store_step_trans:
  "store_step E hs D D' \<Longrightarrow> store_step E hs D' D'' \<Longrightarrow> store_step E hs D D''"
  using store_step_confirmed [of E hs D D'] by (simp add: store_step_def)

lemma store_step_unconfirmed: "store_step E {h} D D' \<Longrightarrow> \<not> confirmed D h \<Longrightarrow> store_step E {} D D'"
  unfolding store_step_def by (metis singletonD)

lemma store_step_weaken: "store_step E {} D D' \<Longrightarrow> store_step E hs D D'"
  by (simp add: store_step_def)

lemma confirm_self_store:
  assumes good: "good_store (cE P) (mcDB (csChain st))" and sane: "sane_info (GetMutableInfo b)"
    and run: "confirm_self P main i n b info st = Inr (((r, e), b'), st')"
  defines "h \<equiv> fst (GetHash (cE P) b)" and "D \<equiv> mcDB (csChain st)" and "D' \<equiv> mcDB (csChain st')"
  shows "e = None" and "store_step (cE P) {h} D D'" and "confirmed D' h"
    and "g \<noteq> h \<Longrightarrow> ReadBlockMutableInfo D' g = ReadBlockMutableInfo D g"
    and "fst (GetHash (cE P) b') = h" and "sane_info (GetMutableInfo b')"
proof -
  obtain w rc e1 s D1 where ca: "CalculatingAccounts (cE P) (cH P) (cA P) main (mark_confirmed n (csCount st + 1) b)
      (userReward info) (csCount st + 1) (csState st) (mcDB (csChain st)) = Inr ((w, rc, e1), s, D1)"
    and b': "b' = mark_applied (cE P) e1 (mark_confirmed n (csCount st + 1) b)"
    and wr': "case WriteBlockMutableInfo (fst (GetHash (cE P) b')) (GetMutableInfo b') D1 of
        Inl f \<Rightarrow> e = Some f \<and> mcDB (csChain st') = D1 | Inr D2 \<Rightarrow> e = None \<and> mcDB (csChain st') = D2"
    using confirm_self_InrE [OF run] .
  have b2: "fst (GetHash (cE P) b') = h" by (simp add: b' h_def mark_applied_def mark_confirmed_def Let_def)
  have i2: "sane_info (GetMutableInfo b')" "confirmed_info (norm_info (GetMutableInfo b'))"
    using sane by (auto simp: b' mark_applied_def mark_confirmed_def Let_def GetSender_keeps SetStatus_def GetStatus_def
        sane_info_def confirmed_info_iff norm_info_def)
  note tab = CalculatingAccounts_tables [OF ca]
  have good1: "good_store (cE P) D1" using good good_store_same [OF tab] by simp
  then obtain D2 where D2: "WriteBlockMutableInfo h (GetMutableInfo b') D1 = Inr D2"
    by (auto simp: good_store_def WriteBlockMutableInfo_def Put_def)
  have res: "e = None" "D' = D2" using wr' D2 by (simp_all add: b2 D'_def)
  note wr = good_store_write [OF good1 D2 i2(1)]
  show other: "ReadBlockMutableInfo D' g = ReadBlockMutableInfo D g" if "g \<noteq> h" for g
    using wr(3) [OF that] tab(1) by (simp add: res D_def same_tables_def)
  show "e = None" "confirmed D' h" "fst (GetHash (cE P) b') = h" "sane_info (GetMutableInfo b')"
    using wr(2) i2 b2 by (auto simp: res confirmed_def)
  show "store_step (cE P) {h} D D'"
    using other wr(1,2) D2 tab(1) unfolding store_step_def res same_tables_def D_def
    by (metis ReadBlock_frame(1) singletonI)
qed

section \<open>The recursion over the references\<close>

definition stored :: "env \<Rightarrow> Block \<Rightarrow> Database \<Rightarrow> bool" where
  "stored E b D \<longleftrightarrow> (\<exists>c. ReadBlock E D (fst (GetHash E b)) = Inr (Some c) \<and> GetLinks c = GetLinks b)"

definition confirms :: "env \<Rightarrow> Block \<Rightarrow> Database \<Rightarrow> Database \<Rightarrow> bool" where
  "confirms E b D D' \<longleftrightarrow>
     store_step E {fst (GetHash E b)} D D' \<and> confirmed D' (fst (GetHash E b)) \<and>
     (\<forall>l \<in> set (GetLinks b). confirmed D' l) \<and>
     (stored E b D \<and> ancestor_closed E D \<longrightarrow> ancestor_closed E D')"

lemma confirm_links_store:
  assumes rec: "\<And>b st r e b' st'. good_store E (mcDB (csChain st)) \<Longrightarrow> sane_info (GetMutableInfo b) \<Longrightarrow>
      rec b st = Inr (((Some r, e), b'), st') \<Longrightarrow> confirms E b (mcDB (csChain st)) (mcDB (csChain st'))"
    and "good_store E (mcDB (csChain st))" and "confirm_links E rec hs p st = Inr (Inr q, st')"
  shows "store_step E {} (mcDB (csChain st)) (mcDB (csChain st')) \<and>
    (\<forall>l \<in> set hs. confirmed (mcDB (csChain st')) l) \<and>
    (ancestor_closed E (mcDB (csChain st)) \<longrightarrow> ancestor_closed E (mcDB (csChain st')))"
  using assms(2,3)
proof (induction hs arbitrary: p st)
  case (Cons h hs)
  let ?D = "mcDB (csChain st)" and ?D' = "mcDB (csChain st')"
  from Cons.prems(2) obtain m where m: "ReadBlockMutableInfo ?D h = Inr m"
    by (cases "ReadBlockMutableInfo ?D h") simp_all
  show ?case
  proof (cases "confirmed_info m")
    case True
    with Cons.prems m have "confirm_links E rec hs p st = Inr (Inr q, st')" by (simp add: confirmed_info_def)
    note IH = Cons.IH [OF Cons.prems(1) this]
    moreover have "confirmed ?D h" using True m by (simp add: confirmed_def)
    then have "confirmed ?D' h" using IH store_step_confirmed by blast
    ultimately show ?thesis by simp
  next
    case False
    with Cons.prems(2) m obtain b r e b1 st1 where b: "ReadBlock E ?D h = Inr (Some b)"
      and r: "rec (SetMutableInfo m b) st = Inr (((Some r, e), b1), st1)"
      and rest: "confirm_links E rec hs (reward_plus p r) st1 = Inr (Inr q, st')"
      by (auto simp: confirmed_info_def reward_plus_def res_bind_eq_Inr_iff split: option.splits)
    let ?D1 = "mcDB (csChain st1)"
    have h: "fst (GetHash E b) = h" and sane: "sane_info m" using b m Cons.prems(1) by (auto simp: good_store_def)
    have c: "confirms E (SetMutableInfo m b) ?D ?D1" using rec [OF Cons.prems(1) _ r] sane by simp
    have "\<not> confirmed ?D h" using False m by (simp add: confirmed_def)
    then have s1: "store_step E {} ?D ?D1" using c h by (intro store_step_unconfirmed [of E h]) (simp_all add: confirms_def)
    have "stored E (SetMutableInfo m b) ?D" using b h by (simp add: stored_def)
    then have cl: "ancestor_closed E ?D \<longrightarrow> ancestor_closed E ?D1" and conf: "confirmed ?D1 h"
      using c h by (simp_all add: confirms_def)
    have "good_store E ?D1" using s1 by (simp add: store_step_def)
    note IH = Cons.IH [OF this rest]
    have "store_step E {} ?D ?D'" using store_step_trans [OF s1] IH by blast
    moreover have "confirmed ?D' h" using IH conf store_step_confirmed by blast
    ultimately show ?thesis using IH cl by simp
  qed
qed (simp add: store_step_refl)

lemma ancestor_closed_step:
  assumes cl: "ancestor_closed E D" and step: "store_step E {h} D D'"
    and other: "\<And>g. g \<noteq> h \<Longrightarrow> ReadBlockMutableInfo D' g = ReadBlockMutableInfo D g"
    and b: "ReadBlock E D h = Inr (Some c)" and conf: "\<forall>l \<in> set (GetLinks c). confirmed D' l" "confirmed D' h"
  shows "ancestor_closed E D'"
  unfolding ancestor_closed_def
proof (intro allI impI ballI)
  fix g b l
  assume g: "ReadBlock E D' g = Inr (Some b)" "confirmed D' g" and l: "l \<in> set (GetLinks b)"
  have g': "ReadBlock E D g = Inr (Some b)" using g(1) step by (simp add: store_step_def)
  show "confirmed D' l"
  proof (cases "g = h")
    case True
    with g' b l conf(1) show ?thesis by simp
  next
    case False
    with g(2) other have "confirmed D g" by (simp add: confirmed_def)
    with cl g' l have "confirmed D l" by (auto simp: ancestor_closed_def)
    with step conf(2) store_step_confirmed show ?thesis by blast
  qed
qed

lemma singleBlockConfirm_store:
  assumes "good_store (cE P) (mcDB (csChain st))" and "sane_info (GetMutableInfo b)"
    and "singleBlockConfirm fuel P main i n b st = Inr (((Some r, e), b'), st')"
  shows "confirms (cE P) b (mcDB (csChain st)) (mcDB (csChain st')) \<and> e = None \<and>
    fst (GetHash (cE P) b') = fst (GetHash (cE P) b) \<and> sane_info (GetMutableInfo b')"
  using assms
proof (induction fuel arbitrary: b i st r e b' st')
  case (Suc fuel)
  let ?E = "cE P" and ?h = "fst (GetHash (cE P) b)" and ?D = "mcDB (csChain st)" and ?D' = "mcDB (csChain st')"
  obtain info st1 where
      l: "confirm_links ?E (singleBlockConfirm fuel P main False n) (GetLinks b) ConfirmRewardInfo_Init st = Inr (Inr info, st1)"
    and s: "confirm_self P main i n (snd (GetHash ?E b)) info st1 = Inr (((Some r, e), b'), st')"
    using singleBlockConfirm_SomeE [OF Suc.prems(3)] by auto
  let ?D1 = "mcDB (csChain st1)"
  have L: "store_step ?E {} ?D ?D1" "\<forall>l \<in> set (GetLinks b). confirmed ?D1 l" "ancestor_closed ?E ?D \<longrightarrow> ancestor_closed ?E ?D1"
    using confirm_links_store [OF _ Suc.prems(1) l] Suc.IH by blast+
  have "good_store ?E ?D1" using L(1) by (simp add: store_step_def)
  note S = confirm_self_store [OF this _ s, simplified, OF Suc.prems(2)]
  have step: "store_step ?E {?h} ?D ?D'" using store_step_trans [OF store_step_weaken [OF L(1)] S(2)] .
  have links: "\<forall>l \<in> set (GetLinks b). confirmed ?D' l" using L(2) S(2,3) store_step_confirmed by blast
  have "ancestor_closed ?E ?D'" if "stored ?E b ?D" "ancestor_closed ?E ?D"
  proof -
    from that(1) obtain c where c: "ReadBlock ?E ?D ?h = Inr (Some c)" "GetLinks c = GetLinks b" by (auto simp: stored_def)
    then have "ReadBlock ?E ?D1 ?h = Inr (Some c)" using L(1) by (simp add: store_step_def)
    then show ?thesis using ancestor_closed_step [OF _ S(2) S(4)] L(3) that(2) links S(3) c(2) by simp
  qed
  with step links S show ?case by (simp add: confirms_def)
qed simp

section \<open>The recursion ends\<close>

text \<open>
  The store is complete up to a block when every reference leads to a stored block of smaller rank:
  the references form a finite acyclic graph.
\<close>

definition complete_store :: "env \<Rightarrow> (hash \<Rightarrow> nat) \<Rightarrow> Database \<Rightarrow> bool" where
  "complete_store E rank D \<longleftrightarrow>
     (\<forall>h b. ReadBlock E D h = Inr (Some b) \<longrightarrow>
        (\<forall>l \<in> set (GetLinks b). rank l < rank h \<and> (\<exists>c. ReadBlock E D l = Inr (Some c)) \<and>
           (\<exists>m. ReadBlockMutableInfo D l = Inr m)))"

lemma complete_store_step: "store_step E hs D D' \<Longrightarrow> complete_store E rank D \<Longrightarrow> complete_store E rank D'"
  unfolding store_step_def complete_store_def by metis

definition ready :: "chain_params \<Rightarrow> (hash \<Rightarrow> nat) \<Rightarrow> cstate \<Rightarrow> bool" where
  "ready P rank st \<longleftrightarrow> sound_state (cE P) (cH P) st \<and> solvent (cH P) (csState st) \<and>
     good_store (cE P) (mcDB (csChain st)) \<and> complete_store (cE P) rank (mcDB (csChain st)) \<and> mq (csChain st) = None"

lemma confirm_self_total:
  assumes r: "ready P rank st" and p: "plain b" and "fair info"
  shows "\<exists>q e b' st'. confirm_self P main i n b info st = Inr (((Some q, e), b'), st') \<and> mq (csChain st') = None"
proof -
  have "plain (mark_confirmed n (csCount st + 1) b)" using p by simp
  then obtain w rc e1 s D where "CalculatingAccounts (cE P) (cH P) (cA P) main (mark_confirmed n (csCount st + 1) b)
      (userReward info) (csCount st + 1) (csState st) (mcDB (csChain st)) = Inr ((w, rc, e1), s, D)"
    using CalculatingAccounts_total [where s = "csState st" and H = "cH P" and cr = "userReward info"] assms
    unfolding ready_def fair_def by metis
  with r show ?thesis
    unfolding confirm_self_def Let_def ready_def
    by (simp add: sendStatusInfoToCenter_def LocalBlockNoticeSend_def case_prod_beta)
qed

lemma ready_step:
  assumes "ready P rank st" and "money_step (cE P) (cH P) p st q st'" and "fair p"
    and "store_step (cE P) hs (mcDB (csChain st)) (mcDB (csChain st'))" and "mq (csChain st') = None"
  shows "ready P rank st'" and "fair q"
  using assms complete_store_step [OF assms(4)] by (auto simp: ready_def money_step_def store_step_def)

text \<open>What is asked of the recursive call: on a stored block of rank below \<open>k\<close> it returns a reward.\<close>

definition returns :: "chain_params \<Rightarrow> (hash \<Rightarrow> nat) \<Rightarrow> nat \<Rightarrow> (Block \<Rightarrow> cstate \<Rightarrow> confirm_result) \<Rightarrow> bool" where
  "returns P rank k rec \<longleftrightarrow>
     (\<forall>b st. ready P rank st \<and> plain b \<and> sane_info (GetMutableInfo b) \<and> stored (cE P) b (mcDB (csChain st)) \<and>
        rank (fst (GetHash (cE P) b)) < k \<longrightarrow>
        (\<exists>q e b' st'. rec b st = Inr (((Some q, e), b'), st') \<and> mq (csChain st') = None))"

lemma confirm_links_total:
  assumes rec: "returns P rank k (singleBlockConfirm fuel P main False n)"
    and r: "ready P rank st" and f: "fair p"
    and hs: "\<forall>l \<in> set hs. rank l < k \<and> (\<exists>c. ReadBlock (cE P) (mcDB (csChain st)) l = Inr (Some c)) \<and>
        (\<exists>m. ReadBlockMutableInfo (mcDB (csChain st)) l = Inr m)"
  shows "\<exists>q st'. confirm_links (cE P) (singleBlockConfirm fuel P main False n) hs p st = Inr (Inr q, st') \<and>
    mq (csChain st') = None"
  using r f hs
proof (induction hs arbitrary: p st)
  case (Cons h hs)
  let ?E = "cE P" and ?D = "mcDB (csChain st)"
  from Cons.prems obtain m b where m: "ReadBlockMutableInfo ?D h = Inr m" and b: "ReadBlock ?E ?D h = Inr (Some b)"
    and k: "rank h < k" by auto
  show ?case
  proof (cases "confirmed_info m")
    case True
    with Cons m show ?thesis by (simp add: confirmed_info_def)
  next
    case False
    have good: "good_store ?E ?D" and sound: "sound_state ?E (cH P) st" using Cons.prems(1) by (simp_all add: ready_def)
    have h: "fst (GetHash ?E b) = h" and sane: "sane_info m" using b m good by (auto simp: good_store_def)
    have pl: "plain b" using b sound by (auto simp: plain_store_def)
    obtain q e b' st1 where run: "singleBlockConfirm fuel P main False n (SetMutableInfo m b) st = Inr (((Some q, e), b'), st1)"
      and mq1: "mq (csChain st1) = None"
      using rec [unfolded returns_def, rule_format, of st "SetMutableInfo m b"] Cons.prems(1) pl sane h k b
      by (auto simp: stored_def)
    have st1: "store_step ?E {h} ?D (mcDB (csChain st1))"
      using singleBlockConfirm_store [OF good _ run] sane h by (simp add: confirms_def)
    have money: "money_step ?E (cH P) p st (reward_plus p q) st1"
      using money_step_frame [OF singleBlockConfirm_money [OF sound _ run]] pl by simp
    note R = ready_step [OF Cons.prems(1) money Cons.prems(2) st1 mq1]
    have "\<forall>l \<in> set hs. rank l < k \<and> (\<exists>c. ReadBlock ?E (mcDB (csChain st1)) l = Inr (Some c)) \<and>
        (\<exists>m. ReadBlockMutableInfo (mcDB (csChain st1)) l = Inr m)"
      using Cons.prems(3) st1 unfolding store_step_def by (metis list.set_intros(2))
    from Cons.IH [OF R this] show ?thesis
      using m b run False by (simp add: confirmed_info_def reward_plus_def)
  qed
qed (simp add: ready_def)

lemma singleBlockConfirm_returns: "returns P rank fuel (singleBlockConfirm fuel P main i n)"
proof (induction fuel arbitrary: i)
  case (Suc fuel)
  show ?case
    unfolding returns_def
  proof (intro allI impI, elim conjE)
    fix b and st :: cstate
    let ?E = "cE P" and ?D = "mcDB (csChain st)"
    assume r: "ready P rank st" and pl: "plain b" and sane: "sane_info (GetMutableInfo b)"
      and s: "stored ?E b ?D" and k: "rank (fst (GetHash ?E b)) < Suc fuel"
    have cs: "complete_store ?E rank ?D" and good: "good_store ?E ?D" using r by (simp_all add: ready_def)
    have "\<forall>l \<in> set (GetLinks b). rank l < fuel \<and> (\<exists>c. ReadBlock ?E ?D l = Inr (Some c)) \<and>
        (\<exists>m. ReadBlockMutableInfo ?D l = Inr m)"
      using s cs k unfolding stored_def complete_store_def by (metis less_Suc_eq_le order_less_le_trans)
    moreover have init: "fair ConfirmRewardInfo_Init" by (simp add: fair_def ConfirmRewardInfo_Init_def)
    ultimately obtain q st1 where l: "confirm_links ?E (singleBlockConfirm fuel P main False n) (GetLinks b)
        ConfirmRewardInfo_Init st = Inr (Inr q, st1)" and mq1: "mq (csChain st1) = None"
      using confirm_links_total [OF Suc.IH r] by metis
    have money: "money_step ?E (cH P) ConfirmRewardInfo_Init st q st1"
      using r singleBlockConfirm_money by (intro confirm_links_money [OF _ _ l]) (auto simp: ready_def)
    have step: "store_step ?E {} ?D (mcDB (csChain st1))"
      using confirm_links_store [OF _ good l] singleBlockConfirm_store by blast
    note R = ready_step [OF r money init step mq1]
    show "\<exists>q e b' st'. singleBlockConfirm (Suc fuel) P main i n b st = Inr (((Some q, e), b'), st') \<and>
        mq (csChain st') = None"
      using confirm_self_total [OF R(1) _ R(2), of "snd (GetHash ?E b)"] pl l by (simp add: Let_def)
  qed
qed (simp add: returns_def)

section \<open>Theorems\<close>

definition sample_params :: chain_params where
  "sample_params = \<lparr>cE = late_env, cH = sample_hashing, cA = (\<lambda>_ _ _ _. Inl Panic), cOrder = (\<lambda>_. [])\<rparr>"

definition sample_chain :: MainChain where
  "sample_chain =
     (let t = \<lparr>tmHash = 5, tmCumulativeDiff = Some 0, tmNumber = 0, tmTime = 7\<rparr> in
      \<lparr>mcDB = sample_store, stateBaseDB = db sample_state, Tail = t, PervTail = t, MainTail = t,
       LocalAddress = (\<lambda>_. False), notices = [], mq = None, lastState = None\<rparr>)"

definition sample_cstate :: cstate where
  "sample_cstate = \<lparr>csCount = 0, csState = sample_state, csChain = sample_chain\<rparr>"

definition sample_rank :: "hash \<Rightarrow> nat" where
  "sample_rank h = (if h = sample_h then 1 else 0)"

lemma sample_hashes: "fst (GetHash late_env sample_main') = sample_h" "fst (GetHash late_env sample_genesis) = 5"
  using GetHash_coherent(1) [of late_env sample_main'] GetHash_coherent(1) [of late_env sample_genesis]
    sample_genesis_ok(2) sample_genesis_hash
  by (simp_all add: sample_mbrec_def block_hash_def sample_main_def MinerBlock_data_def)

lemma sample_blocks:
  "plain sample_main'" "plain sample_genesis" "GetLinks sample_main' = [5]" "GetLinks sample_genesis = []"
  "GetMutableInfo sample_main' = zeroInfo" "sane_info zeroInfo" "\<not> confirmed_info zeroInfo"
  by (simp_all add: plain_def GetGasPrice_def sample_genesis_def sample_mbrec_def sane_info_def zeroInfo_def
      confirmed_info_def)

lemma sample_store_good: "good_store late_env sample_store" "complete_store late_env sample_rank sample_store"
  "plain_store late_env sample_store" "ancestor_closed late_env sample_store" "stored late_env sample_main' sample_store"
  using sample_main_hash sample_hashes sample_blocks sane_norm [OF sample_blocks(6)]
  by (auto simp: good_store_def complete_store_def plain_store_def ancestor_closed_def stored_def confirmed_def
      confirmed_info_def norm_info_def zeroInfo_def sample_store_reads sample_rank_def split: if_splits)

lemma sample_state_ok: "calm H sample_state" "solvent H sample_state" "total_supply H sample_state = 0"
proof -
  have "balance H sample_state a = 0" for a
    by (simp add: balance_def acct_view_def base_view_def load_account_def sample_state_def)
  then show "solvent H sample_state" "total_supply H sample_state = 0" by (simp_all add: solvent_def total_supply_def)
qed (simp add: calm_def sdb_inv_def intact_def load_account_def sample_state_def)

lemma sample_ready: "ready sample_params sample_rank sample_cstate"
  using sample_store_good sample_state_ok
  by (simp add: ready_def sample_params_def sample_cstate_def sample_chain_def Let_def)

lemma sample_run:
  "\<exists>r b' st'. singleBlockConfirm 2 sample_params sample_main' True 1 sample_main' sample_cstate = Inr (((Some r, None), b'), st')"
proof -
  have "mcDB (csChain sample_cstate) = sample_store" by (simp add: sample_cstate_def sample_chain_def Let_def)
  moreover have "cE sample_params = late_env" by (simp add: sample_params_def)
  ultimately obtain r e b' st' where run:
      "singleBlockConfirm 2 sample_params sample_main' True 1 sample_main' sample_cstate = Inr (((Some r, e), b'), st')"
    using singleBlockConfirm_returns [unfolded returns_def, rule_format, of sample_params sample_rank sample_cstate sample_main' 2,
        of sample_main' True 1]
      sample_ready sample_blocks sample_store_good(5) sample_hashes by (auto simp: sample_rank_def)
  moreover have "e = None"
    using singleBlockConfirm_store [OF _ _ run] sample_ready sample_blocks by (simp add: ready_def)
  ultimately show ?thesis by blast
qed

text \<open>
  C1.  Conservation of money among plain transfers.  Take a block without payload, with at most three
  outputs and no negative amount or gas price, a store that holds only such blocks, and a state of plain
  accounts (none destroyed, no remembered read error).  When the confirmation of the block and of
  everything it references returns a reward, the sum of all balances and of the reward is unchanged: what
  left the accounts is exactly the reward handed to the caller.  If moreover no account was overdrawn before,
  none is afterwards and both parts of the reward are nonnegative.  Blocks with a payload are outside this
  statement: they can overdraw their sender (\<open>CalculatingAccounts_overdraws\<close> in \<open>Chain_Rewards\<close>).
\<close>

theorem singleBlockConfirm_conserves:
  assumes "singleBlockConfirm fuel P main isMain n b st = Inr (((Some r, e), b'), st')"
    and "calm (cH P) (csState st)" and "plain b" and "plain_store (cE P) (mcDB (csChain st))"
  shows "total_supply (cH P) (csState st') + userReward r + minerReward r = total_supply (cH P) (csState st) \<and>
    (solvent (cH P) (csState st) \<longrightarrow>
      solvent (cH P) (csState st') \<and> 0 \<le> userReward r \<and> 0 \<le> minerReward r)"
  using singleBlockConfirm_money [OF _ assms(3,1)] assms(2,4)
  by (auto simp: money_step_def in_flight_def fair_def ConfirmRewardInfo_Init_def)

theorem singleBlockConfirm_conserves_witness:
  "\<exists>r b' st'. singleBlockConfirm 2 sample_params sample_main' True 1 sample_main' sample_cstate = Inr (((Some r, None), b'), st') \<and>
     total_supply sample_hashing (csState st') + userReward r + minerReward r = 0 \<and> 0 \<le> userReward r"
proof -
  obtain r b' st' where run:
      "singleBlockConfirm 2 sample_params sample_main' True 1 sample_main' sample_cstate = Inr (((Some r, None), b'), st')"
    using sample_run by blast
  have "calm (cH sample_params) (csState sample_cstate)" "plain_store (cE sample_params) (mcDB (csChain sample_cstate))"
    "solvent (cH sample_params) (csState sample_cstate)"
    using sample_ready by (simp_all add: ready_def)
  note c = singleBlockConfirm_conserves [OF run this(1) sample_blocks(1) this(2)] this(3)
  have "cH sample_params = sample_hashing" "csState sample_cstate = sample_state"
    by (simp_all add: sample_params_def sample_cstate_def)
  with run c sample_state_ok(3) show ?thesis by auto
qed

text \<open>
  C2.  A block is executed at most once and its references first.  After a confirmation the block and
  all its references are marked confirmed in the store, the stored information of every other block
  that was already confirmed is unchanged, and if the set of confirmed blocks was closed under
  references it still is.
\<close>

theorem singleBlockConfirm_once:
  assumes "singleBlockConfirm fuel P main isMain n b st = Inr (((Some r, e), b'), st')"
    and "good_store (cE P) (mcDB (csChain st))" and "sane_info (GetMutableInfo b)"
  shows "confirmed (mcDB (csChain st')) (fst (GetHash (cE P) b)) \<and>
    (\<forall>l \<in> set (GetLinks b). confirmed (mcDB (csChain st')) l) \<and>
    (\<forall>g. confirmed (mcDB (csChain st)) g \<and> g \<noteq> fst (GetHash (cE P) b) \<longrightarrow>
       ReadBlockMutableInfo (mcDB (csChain st')) g = ReadBlockMutableInfo (mcDB (csChain st)) g) \<and>
    (stored (cE P) b (mcDB (csChain st)) \<and> ancestor_closed (cE P) (mcDB (csChain st)) \<longrightarrow>
       ancestor_closed (cE P) (mcDB (csChain st')))"
  using singleBlockConfirm_store [OF assms(2,3,1)] by (simp add: confirms_def store_step_def)

theorem singleBlockConfirm_once_witness:
  "\<exists>r b' st'. singleBlockConfirm 2 sample_params sample_main' True 1 sample_main' sample_cstate = Inr (((Some r, None), b'), st') \<and>
     confirmed (mcDB (csChain st')) 5 \<and> ancestor_closed late_env (mcDB (csChain st'))"
proof -
  obtain r b' st' where run:
      "singleBlockConfirm 2 sample_params sample_main' True 1 sample_main' sample_cstate = Inr (((Some r, None), b'), st')"
    using sample_run by blast
  have D: "mcDB (csChain sample_cstate) = sample_store" and E: "cE sample_params = late_env"
    by (simp_all add: sample_cstate_def sample_chain_def sample_params_def Let_def)
  from singleBlockConfirm_once [OF run] run sample_store_good sample_blocks show ?thesis by (auto simp: D E)
qed

text \<open>
  C15.  The recursion over the references returns.  Assume a complete acyclic store with sane stored
  information and working writes, that it and the block hold plain transfers only (no payload, at most three
  outputs, no negative amount or gas price), a state of plain accounts of which none is overdrawn, and that no
  message queue is attached.  Then confirming a stored block of rank below the fuel neither panics nor runs
  out of fuel, and gives a reward.
\<close>

theorem singleBlockConfirm_terminates:
  assumes "ready P rank st" and "plain b" and "sane_info (GetMutableInfo b)"
    and "stored (cE P) b (mcDB (csChain st))" and "rank (fst (GetHash (cE P) b)) < fuel"
  shows "\<exists>r b' st'. singleBlockConfirm fuel P main isMain n b st = Inr (((Some r, None), b'), st')"
proof -
  obtain r e b' st' where run: "singleBlockConfirm fuel P main isMain n b st = Inr (((Some r, e), b'), st')"
    using singleBlockConfirm_returns [of P rank fuel main isMain n] assms unfolding returns_def by blast
  moreover have "e = None" using singleBlockConfirm_store [OF _ assms(3) run] assms(1) by (simp add: ready_def)
  ultimately show ?thesis by blast
qed

theorem singleBlockConfirm_terminates_witness:
  "\<exists>r b' st'. singleBlockConfirm 2 sample_params sample_main' True 1 sample_main' sample_cstate = Inr (((Some r, None), b'), st')"
proof -
  have D: "mcDB (csChain sample_cstate) = sample_store" and E: "cE sample_params = late_env"
    by (simp_all add: sample_cstate_def sample_chain_def sample_params_def Let_def)
  show ?thesis
    using singleBlockConfirm_terminates [OF sample_ready, of sample_main' 2 sample_main' True 1]
      sample_blocks sample_store_good(5) sample_hashes by (simp add: D E sample_rank_def)
qed

end
