(* ===== verification/Chain_Rewards.thy ===== *)
theory Chain_Rewards
  imports Chain_Status
begin

text \<open>
  The mining reward over the life of the chain, and two places where the accounting of a block departs
  from what it reports: a transfer is executed although the block is reported as out of gas, and a
  contract call can leave its sender overdrawn, which the state cannot store.
\<close>

lemma sample_balance: "balance H sample_state a = 0"
  by (simp add: balance_def acct_view_def base_view_def load_account_def sample_state_def)

section \<open>The mining reward\<close>

lemma RewardMiner_nat: "RewardMiner n = 50 div 2 ^ (unat n div 2000000) * OneTos"
  by (simp add: RewardMiner_def unat_div)

lemma sum_blocks: "(\<Sum>n < K * M. f (n div M)) = int M * (\<Sum>k < K. f k)" if "0 < M" for f :: "nat \<Rightarrow> int"
proof (induction K)
  case (Suc K)
  have "(\<Sum>n < Suc K * M. f (n div M)) = (\<Sum>n < K * M. f (n div M)) + (\<Sum>n = K * M ..< Suc K * M. f (n div M))"
    using sum.atLeastLessThan_concat [of 0 "K * M" "Suc K * M" "\<lambda>n. f (n div M)"] by (simp add: atLeast0LessThan)
  also have "(\<Sum>n = K * M ..< Suc K * M. f (n div M)) = (\<Sum>n = K * M ..< Suc K * M. f K)"
  proof (rule sum.cong [OF refl])
    fix n
    assume "n \<in> {K * M ..< Suc K * M}"
    then have "n div M = K" using that by (intro div_nat_eqI) (auto simp: mult.commute)
    then show "f (n div M) = f K" by simp
  qed
  finally show ?case using Suc by (simp add: algebra_simps)
qed simp

lemma sum_rewards: "(\<Sum>n \<in> (UNIV :: u64 set). RewardMiner n) = 194000000 * OneTos"
proof -
  define f :: "nat \<Rightarrow> int" where "f k = 50 div 2 ^ k" for k
  have zero: "f k = 0" if "6 \<le> k" for k
  proof -
    have "(2 :: int) ^ 6 \<le> 2 ^ k" using that by (intro power_increasing) simp_all
    then show ?thesis by (simp add: f_def)
  qed
  have "(\<Sum>n \<in> (UNIV :: u64 set). RewardMiner n) = (\<Sum>n \<in> unat ` (UNIV :: u64 set). f (n div 2000000) * OneTos)"
    by (subst sum.reindex) (simp_all add: RewardMiner_nat f_def inj_on_def word_unat_eq_iff)
  also have "unat ` (UNIV :: u64 set) = {..< 2 ^ 64}"
  proof (intro set_eqI iffI)
    fix n
    assume "n \<in> {..< 2 ^ 64 :: nat}"
    then have "unat (word_of_nat n :: u64) = n" by (intro word_of_nat_unat_less) simp
    then show "n \<in> unat ` (UNIV :: u64 set)" by (metis rangeI)
  qed auto
  also have "(\<Sum>n < 2 ^ 64. f (n div 2000000) * OneTos) = (\<Sum>n < 6 * 2000000. f (n div 2000000) * OneTos)"
  proof (rule sum.mono_neutral_right)
    show "\<forall>n \<in> {..< 2 ^ 64} - {..< 6 * 2000000}. f (n div 2000000) * OneTos = 0"
    proof
      fix n :: nat
      assume "n \<in> {..< 2 ^ 64} - {..< 6 * 2000000}"
      then have "6 \<le> n div 2000000" by auto
      then show "f (n div 2000000) * OneTos = 0" by (simp add: zero)
    qed
  qed auto
  also have "\<dots> = 2000000 * (\<Sum>k < 6. f k) * OneTos"
    using sum_blocks [of 2000000 f 6] by (simp flip: sum_distrib_right)
  also have "(\<Sum>k < 6. f k) = 97" by (simp add: f_def lessThan_nat_numeral lessThan_Suc)
  finally show ?thesis by simp
qed

text \<open>
  C35.  The supply is bounded.  Whatever set of main block numbers is confirmed, the mining rewards paid
  for them are nonnegative and come to at most 194 million TOS, and all of them together to exactly
  that: the quotient is truncated to whole TOS, so that a half-life pays 50, 25, 12, 6, 3, 1 and then
  nothing, instead of the geometric series of the comment.
\<close>

theorem RewardMiner_supply:
  "0 \<le> RewardMiner n \<and> (\<Sum>n \<in> S. RewardMiner n) \<le> 194000000 * OneTos \<and>
   (\<Sum>n \<in> UNIV. RewardMiner n) = 194000000 * OneTos"
proof -
  have pos: "0 \<le> RewardMiner n" for n by (simp add: RewardMiner_nat pos_imp_zdiv_nonneg_iff)
  have "(\<Sum>n \<in> S. RewardMiner n) \<le> (\<Sum>n \<in> UNIV. RewardMiner n)" by (rule sum_mono2) (simp_all add: pos)
  with pos sum_rewards show ?thesis by simp
qed

section \<open>Out of gas, and paid\<close>

definition transfer_block :: "env \<Rightarrow> address \<Rightarrow> TxBlock \<Rightarrow> bool" where
  "transfer_block E a tx \<longleftrightarrow> BType (txHeader tx) = BlockTypeTx \<and> Payload tx = [] \<and>
     fst (TxBlock_GetSender E tx) = Inr a \<and> \<not> is_main (BTx tx)"

text \<open>
  C36.  A transfer whose gas limit is too low is reported as failed (\<open>gas use overrun\<close>) and stored with
  a failed receipt, but it has been executed: the receiver has the money.
\<close>

theorem ExecutionTransaction_overrun_pays:
  assumes "calm H s" and "transfer_block E a tx" and "Outs tx = [out]" and "Receiver out \<noteq> a"
    and "fst (GetSender E main) = Inr m" and "gp < TxGas"
    and "0 \<le> Amount out" and "0 \<le> GasPrice (txHeader tx)"
    and "Amount out + 21000 * GasPrice (txHeader tx) \<le> balance H s a"
  shows "\<exists>rc t D'. ExecutionTransaction E H A main (BTx tx) gp n s D =
      Inr ((21000 * GasPrice (txHeader tx), rc, Some (Msg ''gas use overrun'')), t, D') \<and> rcStatus rc = 0 \<and>
      balance H t (Receiver out) = balance H s (Receiver out) + Amount out \<and>
      balance H t a = balance H s a - Amount out"
proof -
  define u where "u = SetNonce H a (fst (GetNonce a (snd (GetBalance a s))) + 1) (snd (GetNonce a (snd (GetBalance a s))))"
  have u: "calm H u" "balance H u = balance H s"
    using assms(1) by (simp_all add: u_def calm_setters calm_queries calm_inv [of H] GetNonce_keeps ledger.ok_intros balance_SetNonce ledger.bal_simps)
  have sender: "sender_of E (BTx tx) = a" using assms(2) by (simp add: sender_of_def transfer_block_def)
  have b: "GetType (BTx tx) = BlockTypeTx" "GetPayload (BTx tx) = []" "\<not> is_main (BTx tx)"
    "GetGasPrice (BTx tx) = GasPrice (txHeader tx)"
    using assms(2) by (simp_all add: transfer_block_def GetType_def GetGasPrice_def)
  have check: "CheckTransactionAmount (balance H s a) (Outs tx) (ComputeTransactionCost (TxGas * word_of_nat 1) (GetGasPrice (BTx tx)))"
    using assms by (subst CheckTransactionAmount_iff) (simp_all add: ComputeTransactionCost_def b)
  have ta: "TransferAccounts E H A main (BTx tx) gp s = Inr ((TxGas, True, None, None), ledger.pay H a (payments [out]) u)"
    using b check assms(3,5,6) GetBalance_eq(1) [OF calm_inv [OF assms(1)], of a H]
    by (simp add: TransferAccounts_def sender Let_def case_prod_beta u_def transfer_out_def
        del: CheckTransactionAmount.simps)
  have "balance H (ledger.pay H a (payments [out]) u) = (balance H s)(a := balance H s a - Amount out,
      Receiver out := balance H s (Receiver out) + Amount out)"
    using assms(4) u by (simp add: ledger.bal_simps ledger.ok_intros)
  with assms(4) b show ?thesis
    by (simp add: ExecutionTransaction_def ta Let_def tx_receipt_def ComputeTransactionCost_def)
qed

definition sample_transfer :: TxBlock where
  "sample_transfer = \<lparr>txHeader = \<lparr>BType = 1, BTime = 4000, GasPrice = 1, GasLimit = 5\<rparr>, txLinks = [5], AccountNonce = 0,
     Outs = [\<lparr>Receiver = 8, Amount = 10\<rparr>], Payload = [], txV = 0, txR = 0, txS = 0, txSender = Some 7,
     txInfo = zeroInfo, txHash = None\<rparr>"

theorem ExecutionTransaction_overrun_pays_witness:
  "\<exists>rc t D'. ExecutionTransaction late_env sample_hashing (\<lambda>_ _ _ _. Inl Panic) sample_main' (BTx sample_transfer) 5 1
      (AddBalance sample_hashing 7 50000 sample_state) empty_db =
      Inr ((21000, rc, Some (Msg ''gas use overrun'')), t, D') \<and> balance sample_hashing t 8 = 10"
proof -
  let ?s = "AddBalance sample_hashing 7 50000 sample_state"
  have b: "balance sample_hashing ?s = (balance sample_hashing sample_state)(7 := 50000)" "calm sample_hashing ?s"
    using sample_state_ok by (simp_all add: ledger.bal_simps ledger.ok_intros sample_balance)
  have "transfer_block late_env 7 sample_transfer"
    by (simp add: transfer_block_def sample_transfer_def TxBlock_GetSender_def is_main_def zeroInfo_def)
  moreover have "fst (GetSender late_env sample_main') = Inr 1" by (simp add: MinerBlock_GetSender_def)
  moreover have "Outs sample_transfer = [\<lparr>Receiver = 8, Amount = 10\<rparr>]"
    "GasPrice (txHeader sample_transfer) = 1" by (simp_all add: sample_transfer_def)
  ultimately show ?thesis
    using ExecutionTransaction_overrun_pays [of sample_hashing ?s late_env 7 sample_transfer "\<lparr>Receiver = 8, Amount = 10\<rparr>" sample_main' 1 5
        "\<lambda>_ _ _ _. Inl Panic" 1 empty_db] b
    by (auto simp: sample_balance)
qed

section \<open>Overdrawn by a contract call\<close>

lemma negative_unstorable:
  assumes "balance H t a < 0"
  shows "\<exists>obj t'. getStateObject a t = (Some obj, t') \<and> updateStateObject obj t' = Inl Panic"
proof -
  obtain r t' where g: "getStateObject a t = (r, t')" by fastforce
  then obtain obj where obj: "r = Some obj" "Balance (soData obj) < 0"
    using getStateObject_view(1) [OF g, of H] assms
    by (cases r) (auto simp: balance_def obj_view_def)
  then have "\<not> encodable (Account_val (soData obj))" by (simp add: Account_val_def)
  with write_val_result [of "Account_val (soData obj)" encbuf_reset]
  have "account_bytes (soData obj) = Inl Panic" by (simp add: account_bytes_def EncodeToBytes_def)
  with g obj show ?thesis by (simp add: updateStateObject_def)
qed

text \<open>
  C37.  The fee of a contract call is compared with the sender's balance before the call and deducted
  after it.  When the call leaves the sender less than the fee, the sender's balance becomes negative,
  and storing the account when the state is finalised panics.
\<close>

theorem CalculatingAccounts_overdraws:
  assumes inv: "calm H s" and ty: "BType (txHeader tx) = BlockTypeTx" "Payload tx \<noteq> []"
    and senders: "fst (TxBlock_GetSender E tx) = Inr a" "fst (GetSender E main) = Inr m"
    and gp: "gas_pool (BTx tx) (balance H s a + cr) = Inr gp"
    and call: "A m gp tx (snd (GetBalance a (AddBalance H a cr s))) = Inr ((rc, g, None), u)" and "sdb_inv u"
    and before: "fee (BTx tx) g \<le> balance H s a + cr" and after: "balance H u a < fee (BTx tx) g"
  shows "\<exists>r rc' e t D'. CalculatingAccounts E H A main (BTx tx) cr n s D = Inr ((r, rc', e), t, D') \<and>
    balance H t a < 0 \<and> (\<exists>obj t'. getStateObject a t = (Some obj, t') \<and> updateStateObject obj t' = Inl Panic)"
proof -
  have bal: "fst (GetBalance a (AddBalance H a cr s)) = balance H s a + cr"
    using GetBalance_eq(1) [of "AddBalance H a cr s" a H] inv by (simp add: calm_inv [of H] ledger.ok_intros ledger.bal_simps)
  have ta: "TransferAccounts E H A main (BTx tx) gp (snd (GetBalance a (AddBalance H a cr s))) = Inr ((g, gp < g, rc, None), u)"
    using ty senders call by (simp add: TransferAccounts_def GetType_def)
  obtain rc' e D' where ex: "ExecutionTransaction E H A main (BTx tx) gp n (snd (GetBalance a (AddBalance H a cr s))) D =
      Inr ((fee (BTx tx) g, rc', e), u, D')"
    by (simp add: ExecutionTransaction_def ta Let_def case_prod_beta fee_def)
  define t where "t = snd (GetBalance a (SubBalance H a (fee (BTx tx) g) u))"
  have "CalculatingAccounts E H A main (BTx tx) cr n s D = Inr ((fee (BTx tx) g, Some rc', e), t, D')"
    using senders(1) before gp
    by (simp add: CalculatingAccounts_def Let_def case_prod_beta bal ex deductCost_def t_def)
  moreover have "balance H t a < 0" 
    using \<open>sdb_inv u\<close> after balance_abs [OF GetBalance_eq(2), of "SubBalance H a (fee (BTx tx) g) u" H a]
      records_inv [OF records_SubBalance [OF \<open>sdb_inv u\<close>, of H a "fee (BTx tx) g"]]
    by (simp add: t_def balance_SubBalance)
  ultimately show ?thesis using negative_unstorable by blast
qed

definition sample_call :: TxBlock where
  "sample_call = \<lparr>txHeader = \<lparr>BType = 1, BTime = 4000, GasPrice = 1, GasLimit = 100\<rparr>, txLinks = [5], AccountNonce = 0,
     Outs = [\<lparr>Receiver = 8, Amount = 60\<rparr>], Payload = [1], txV = 0, txR = 0, txS = 0, txSender = Some 7,
     txInfo = zeroInfo, txHash = None\<rparr>"

text \<open>A contract that takes the 60 sent with the call and uses up its gas.\<close>

definition sample_apply :: apply_tx where
  "sample_apply m gp tx s = Inr ((None, gp, None), AddBalance sample_hashing 8 60 (SubBalance sample_hashing 7 60 s))"

theorem CalculatingAccounts_overdraws_witness:
  "\<exists>r rc' e t D'. CalculatingAccounts late_env sample_hashing sample_apply sample_main' (BTx sample_call) 100 1 sample_state empty_db
      = Inr ((r, rc', e), t, D') \<and> balance sample_hashing t 7 < 0"
proof -
  let ?H = sample_hashing
  let ?s = "snd (GetBalance 7 (AddBalance ?H 7 100 sample_state))"
  have inv: "calm ?H ?s" "balance ?H ?s 7 = 100"
    using sample_state_ok by (simp_all add: ledger.bal_simps ledger.ok_intros sample_balance)
  define u where "u = AddBalance ?H 8 60 (SubBalance ?H 7 60 ?s)"
  have u: "sdb_inv u" "balance ?H u 7 = 40" using inv by (simp_all add: u_def calm_inv [of ?H] ledger.bal_simps ledger.ok_intros)
  have fee: "fee (BTx sample_call) 100 = 100"
    by (simp add: fee_def is_main_def sample_call_def ComputeTransactionCost_def GetGasPrice_def zeroInfo_def)
  have "fst (TxBlock_GetSender late_env sample_call) = Inr 7" "fst (GetSender late_env sample_main') = Inr 1"
    "gas_pool (BTx sample_call) (balance ?H sample_state 7 + 100) = Inr 100"
    "BType (txHeader sample_call) = 1" "Payload sample_call \<noteq> []"
    by (simp_all add: TxBlock_GetSender_def sample_call_def MinerBlock_GetSender_def gas_pool_def GetGasLimit_def
        GetGasPrice_def sample_balance)
  then show ?thesis
    using CalculatingAccounts_overdraws [OF sample_state_ok(1), of sample_call late_env 7 sample_main' 1 ?H 100 100 sample_apply
        None 100 u 1 empty_db] u fee
    by (auto simp: sample_apply_def u_def sample_balance)
qed

end
