(* ===== verification/State_Commit.thy ===== *)
theory State_Commit
  imports State_Balance Sample_Store
begin

text \<open>
  Committing a state of plain accounts and opening it again under the root that was returned gives
  the same accounts; committing keeps the balances of the state object itself.
\<close>

section \<open>Accounts of a state\<close>

definition account_at :: "StateDB \<Rightarrow> address \<Rightarrow> Account option" where
  "account_at s a =
     (case stateObjects s a of
        Some obj \<Rightarrow> if deleted obj then None else Some (soData obj)
      | None \<Rightarrow> load_account (strie s) a)"

text \<open>What a client sees of a plain account: nonce, balance and code hash.\<close>

definition summary :: "Account \<Rightarrow> u64 \<times> int \<times> hash" where
  "summary d = (acNonce d, Balance d, CodeHash d)"

lemma summary_Root [simp]: "summary (d\<lparr>Root := r\<rparr>) = summary d"
  by (simp add: summary_def)

lemma balance_account: "balance H s a = (case account_at s a of None \<Rightarrow> 0 | Some d \<Rightarrow> Balance d)"
  by (auto simp: balance_def account_at_def acct_view_def base_view_def obj_view_def newObject_def split: option.split)

lemma balance_summary:
  "(\<And>a. map_option summary (account_at s a) = map_option summary (account_at t a)) \<Longrightarrow> balance H s = balance H t"
proof
  fix a
  assume "\<And>a. map_option summary (account_at s a) = map_option summary (account_at t a)"
  from this [of a] show "balance H s a = balance H t a"
    by (cases "account_at s a"; cases "account_at t a") (simp_all add: balance_account summary_def)
qed

section \<open>Accounts that can be stored\<close>

definition storable :: "Account \<Rightarrow> bool" where
  "storable d \<longleftrightarrow> 0 \<le> Balance d \<and> Balance d < 2 ^ 512"

lemma storable_size: "storable d \<Longrightarrow> length (enc (Account_val d)) < 2 ^ 64"
proof -
  assume d: "storable d"
  define p where "p = concat (map enc [VUint (acNonce d), VBigInt (Some (Balance d)), VBytes (hash_bytes (Root d)),
    VBytes (hash_bytes (CodeHash d))])"
  have "length p \<le> 148"
    using length_enc_uint [of "acNonce d"] length_enc_diff [of "Some (Balance d)"] enc_str_length_le [of "hash_bytes (Root d)"]
      enc_str_length_le [of "hash_bytes (CodeHash d)"] d
    by (simp add: p_def storable_def)
  moreover have "enc (Account_val d) = enc_list p" by (simp add: Account_val_def p_def)
  ultimately show ?thesis using enc_list_length_le [of p] by simp
qed

lemma account_bytes_storable:
  assumes "storable d"
  shows "\<exists>b. account_bytes d = Inr b \<and> (\<forall>t a. load_account (t(a \<mapsto> b)) a = Some d)"
proof -
  have pos: "0 \<le> Balance d" using assms by (simp add: storable_def)
  note size = storable_size [OF assms]
  have b: "EncodeToBytes (Account_val d) = Inr (enc (Account_val d))"
    by (rule EncodeToBytes_enc) (use pos size in \<open>simp_all add: Account_val_def\<close>)
  then have rb: "rlp_bytes (Account_val d) = enc (Account_val d)" by (simp add: rlp_bytes_def)
  have "map_sum RlpErr Account_of (DecodeBytes Account_type (enc (Account_val d))) = Inr d"
    using account.round_trip [OF pos size] by (simp add: rb)
  then obtain v where "DecodeBytes Account_type (enc (Account_val d)) = Inr v" "Account_of v = d"
    by (cases "DecodeBytes Account_type (enc (Account_val d))") auto
  moreover have "enc (Account_val d) \<noteq> []" by (simp add: Account_val_def enc_list_def)
  ultimately show ?thesis using b by (simp add: account_bytes_def load_account_def)
qed

section \<open>The loop of Commit\<close>

definition committing :: "hashing \<Rightarrow> address set \<Rightarrow> StateDB \<Rightarrow> bool" where
  "committing H done s \<longleftrightarrow> intact H s \<and>
     (\<forall>a obj. stateObjects s a = Some obj \<longrightarrow>
        soAddress obj = a \<and> \<not> suicided obj \<and> \<not> deleted obj \<and> storable (soData obj) \<and>
        (a \<in> done \<or> a \<notin> stateObjectsDirty s \<longrightarrow> load_account (strie s) a = Some (soData obj)))"

lemma CommitTrie_sel:
  assumes "CommitTrie H obj s = (e, obj', s')"
    and "soErr obj = None" and "soTrie obj = None \<Longrightarrow> openable H (db s) (soData obj)"
  shows "e = None" "soErr obj' = None" "soTrie obj' \<noteq> None" "openable H (db s) d \<Longrightarrow> openable H (db s') d"
    "soAddress obj' = soAddress obj" "suicided obj' = suicided obj" "deleted obj' = deleted obj"
    "\<exists>r. soData obj' = (soData obj)\<lparr>Root := r\<rparr>"
    "stateObjects s' = stateObjects s" "strie s' = strie s" "stateObjectsDirty s' = stateObjectsDirty s"
    "logs s' = logs s" "entries s' = entries s"
  using assms
  by (auto simp: CommitTrie_def updateTrie_def getTrie_def openable_def OpenStorageTrie_def Let_def
      split: option.splits prod.splits if_splits)

lemma InsertBlob_sel [simp]:
  "openable H (db (InsertBlob obj s)) d = openable H (db s) d"
  "stateObjects (InsertBlob obj s) = stateObjects s" "strie (InsertBlob obj s) = strie s"
  "stateObjectsDirty (InsertBlob obj s) = stateObjectsDirty s" "logs (InsertBlob obj s) = logs s"
  "entries (InsertBlob obj s) = entries s"
  by (simp_all add: InsertBlob_def openable_def OpenStorageTrie_def split: option.split)

lemma openable_tries [simp]: "openable H (st\<lparr>tries := x\<rparr>) d = openable H st d"
  by (simp add: openable_def OpenStorageTrie_def)

lemma commit_step_ok:
  assumes c: "committing H done s"
  shows "\<exists>t. commit_step H False a s = Inr (None, t) \<and> committing H (insert a done) t \<and> logs t = logs s \<and>
    entries t = entries s \<and> dom (stateObjects t) = dom (stateObjects s) \<and>
    (\<forall>x. map_option summary (account_at t x) = map_option summary (account_at s x))"
proof (cases "stateObjects s a")
  case None
  with c show ?thesis by (auto simp: commit_step_def committing_def)
next
  case (Some obj)
  have obj: "soAddress obj = a" "\<not> suicided obj" "\<not> deleted obj" "storable (soData obj)" "soErr obj = None"
    "soTrie obj = None \<Longrightarrow> openable H (db s) (soData obj)"
    and clean: "a \<in> done \<or> a \<notin> stateObjectsDirty s \<Longrightarrow> load_account (strie s) a = Some (soData obj)"
    using c Some by (auto simp: committing_def intact_def)
  show ?thesis
  proof (cases "a \<in> stateObjectsDirty s")
    case False
    with Some obj c clean show ?thesis
      by (auto simp: commit_step_def committing_def intact_def account_at_def)
  next
    case True
    define obj1 where "obj1 = (if soCode obj \<noteq> None then obj\<lparr>dirtyCode := False\<rparr> else obj)"
    have o1: "soErr obj1 = None" "soTrie obj1 = None \<Longrightarrow> openable H (db (InsertBlob obj s)) (soData obj1)" "soData obj1 = soData obj"
      using obj by (simp_all add: obj1_def split: if_splits)
    obtain e obj2 s2 where ct: "CommitTrie H obj1 (InsertBlob obj s) = (e, obj2, s2)" by (metis prod_cases3)
    have e: "e = None" using CommitTrie_sel(1) [OF ct o1(1,2)] .
    have o3: "soErr obj2 = None" "soTrie obj2 \<noteq> None" using CommitTrie_sel(2,3) [OF ct o1(1,2)] by simp_all
    have op: "openable H (db s) d \<Longrightarrow> openable H (db s2) d" for d using CommitTrie_sel(4) [OF ct o1(1,2)] by simp
    note sel = CommitTrie_sel(5-) [OF ct o1(1,2)]
    obtain r where r: "soData obj2 = (soData obj)\<lparr>Root := r\<rparr>" using sel(4) o1(3) by auto
    have o2: "soAddress obj2 = a" "\<not> suicided obj2" "\<not> deleted obj2" "storable (soData obj2)"
      using sel(1-3) obj r by (simp_all add: obj1_def storable_def)
    obtain bs where bs: "account_bytes (soData obj2) = Inr bs" "\<And>t a. load_account (t(a \<mapsto> bs)) a = Some (soData obj2)"
      using account_bytes_storable [OF o2(4)] by blast
    have ld: "x \<noteq> a \<Longrightarrow> load_account ((strie s)(a \<mapsto> bs)) x = load_account (strie s) x" for x
      by (simp add: load_account_def)
    define t where "t = (setStateObject obj2 s2)\<lparr>strie := (strie s2)(a \<mapsto> bs),
      stateObjectsDirty := stateObjectsDirty s2 - {a}\<rparr>"
    have t: "stateObjects t = (stateObjects s)(a \<mapsto> obj2)" "strie t = (strie s)(a \<mapsto> bs)"
      "stateObjectsDirty t = stateObjectsDirty s - {a}" "logs t = logs s" "entries t = entries s" "db t = db s2"
      using sel o2 by (simp_all add: t_def setStateObject_def)
    have upd: "updateStateObject obj2 (setStateObject obj2 s2) = Inr ((setStateObject obj2 s2)\<lparr>strie := (strie s2)(a \<mapsto> bs)\<rparr>)"
      using bs(1) o2(1) by (simp add: updateStateObject_def setStateObject_def)
    have dirty: "stateObjectsDirty (setStateObject obj2 s2) = stateObjectsDirty s2" by (simp add: setStateObject_def)
    have "commit_step H False a s = Inr (None, t)"
      using True obj(2,3) ct [unfolded e obj1_def] unfolding commit_step_def Some t_def
      by (cases "soCode obj") (simp_all add: upd dirty Let_def)
    moreover have "intact H t"
      unfolding intact_def t
    proof (intro conjI allI impI)
      fix x obj' assume x: "((stateObjects s)(a \<mapsto> obj2)) x = Some obj'"
      have "soErr obj' = None \<and> (soTrie obj' = None \<longrightarrow> openable H (db s2) (soData obj'))"
      proof (cases "x = a")
        case True
        with x o3 show ?thesis by auto
      next
        case False
        with x c op show ?thesis by (simp add: committing_def intact_def)
      qed
      then show "soErr obj' = None" "soTrie obj' = None \<Longrightarrow> openable H (db s2) (soData obj')" by blast+
    next
      fix x d assume "((stateObjects s)(a \<mapsto> obj2)) x = None" "load_account ((strie s)(a \<mapsto> bs)) x = Some d"
      then have "stateObjects s x = None" "load_account (strie s) x = Some d" using ld by (auto split: if_splits)
      with c op show "openable H (db s2) d" by (simp add: committing_def intact_def)
    qed
    moreover have "\<forall>x obj'. stateObjects t x = Some obj' \<longrightarrow> soAddress obj' = x \<and> \<not> suicided obj' \<and> \<not> deleted obj' \<and> storable (soData obj') \<and>
        (x \<in> insert a done \<or> x \<notin> stateObjectsDirty t \<longrightarrow> load_account (strie t) x = Some (soData obj'))"
      using c o2 bs(2) ld unfolding committing_def t by auto
    ultimately have "commit_step H False a s = Inr (None, t)" "committing H (insert a done) t"
      unfolding committing_def by blast+
    moreover have "map_option summary (account_at t x) = map_option summary (account_at s x)" for x
      using o2 r obj Some ld by (simp add: account_at_def t split: option.split)
    ultimately show ?thesis using t Some by (auto simp: insert_absorb dom_def)
  qed
qed

lemma commit_loop_ok:
  assumes "committing H done s"
  shows "\<exists>t. commit_loop H False order s = Inr (None, t) \<and> committing H (done \<union> set order) t \<and> logs t = logs s \<and>
    entries t = entries s \<and> dom (stateObjects t) = dom (stateObjects s) \<and>
    (\<forall>x. map_option summary (account_at t x) = map_option summary (account_at s x))"
  using assms
proof (induction order arbitrary: "done" s)
  case (Cons a order)
  obtain u where u: "commit_step H False a s = Inr (None, u)" "committing H (insert a done) u" "logs u = logs s"
    "entries u = entries s" "dom (stateObjects u) = dom (stateObjects s)"
    "\<forall>x. map_option summary (account_at u x) = map_option summary (account_at s x)"
    using commit_step_ok [OF Cons.prems, of a] by blast
  with Cons.IH [OF u(2)] show ?case by auto
qed auto

section \<open>Commit\<close>

definition covers :: "address list \<Rightarrow> StateDB \<Rightarrow> bool" where
  "covers order s \<longleftrightarrow> dom (stateObjects s) \<subseteq> set order"

text \<open>Every account of the state, loaded or not, can be stored.\<close>

definition all_storable :: "StateDB \<Rightarrow> bool" where
  "all_storable s \<longleftrightarrow> (\<forall>a d. account_at s a = Some d \<longrightarrow> storable d)"

lemma Commit_ok:
  assumes calm: "calm H s" and st: "all_storable s" and cov: "covers order s"
  shows "\<exists>root t. Commit H order False s = Inr (Inr root, t) \<and> calm H t \<and> root = accountRoot H (strie t) \<and>
    tries (db t) root = Some (strie t) \<and> dirties t = (\<lambda>_. 0) \<and>
    (\<forall>a. load_account (strie t) a = account_at t a) \<and>
    (\<forall>a. map_option summary (account_at t a) = map_option summary (account_at s a))"
proof -
  define s1 where "s1 = s\<lparr>stateObjectsDirty := stateObjectsDirty s \<union> {a. dirties s a > 0}\<rparr>"
  have acc: "account_at s1 = account_at s" by (simp add: s1_def account_at_def fun_eq_iff split: option.split)
  have "storable (soData obj)" if "stateObjects s a = Some obj" for a obj
    using st [unfolded all_storable_def, rule_format, of a "soData obj"] calm that
    by (auto simp: account_at_def calm_def mirrored_def)
  then have "committing H {} s1"
    using calm by (auto simp: committing_def intact_def s1_def calm_def mirrored_def sdb_inv_def)
  then obtain u where u: "commit_loop H False order s1 = Inr (None, u)" "committing H (set order) u" "logs u = logs s1"
      "entries u = entries s1" "dom (stateObjects u) = dom (stateObjects s1)"
      "\<forall>x. map_option summary (account_at u x) = map_option summary (account_at s1 x)"
    using commit_loop_ok [of H "{}" s1 order] by auto
  define root where "root = accountRoot H (strie u)"
  define t where "t = clearJournalAndRefund (u\<lparr>db := (db u)\<lparr>tries := (tries (db u))(root \<mapsto> strie u)\<rparr>\<rparr>)"
  have t: "stateObjects t = stateObjects u" "strie t = strie u" "logs t = logs u" "entries t = []" "dirties t = (\<lambda>_. 0)"
    "tries (db t) root = Some (strie u)" "stateObjectsDirty t = stateObjectsDirty u"
    by (simp_all add: t_def clearJournalAndRefund_def newJournal_def)
  have accu: "account_at t = account_at u" by (simp add: account_at_def t fun_eq_iff split: option.split)
  have run: "Commit H order False s = Inr (Inr root, t)"
    using u(1) by (simp add: Commit_def s1_def [symmetric] t_def root_def Let_def)
  have objs: "soAddress obj = a \<and> \<not> suicided obj \<and> \<not> deleted obj \<and> load_account (strie t) a = Some (soData obj)"
    if "stateObjects t a = Some obj" for a obj
  proof -
    have "a \<in> set order" using that u(5) cov by (auto simp: t covers_def s1_def dom_def)
    with that u(2) show ?thesis by (auto simp: committing_def t)
  qed
  have "intact H t"
    using u(2) unfolding committing_def intact_def t by (simp add: t_def clearJournalAndRefund_def newJournal_def)
  then have "calm H t"
    using objs calm u(3) by (auto simp: calm_def sdb_inv_def mirrored_def t s1_def)
  moreover have "load_account (strie t) a = account_at t a" for a
    using objs [of a] by (cases "stateObjects t a") (simp_all add: account_at_def)
  moreover have "map_option summary (account_at t a) = map_option summary (account_at s a)" for a
    using u(6) accu by (simp flip: acc)
  ultimately show ?thesis using run t by (auto simp: root_def)
qed


definition sample_root :: hashing where
  "sample_root = sample_hashing\<lparr>accountRoot := (\<lambda>t. if t = Map.empty then 1 else 2)\<rparr>"


end
