(* ===== verification/Chain_Mint.thy ===== *)
theory Chain_Mint
  imports Chain_Rewards State_Commit
begin

text \<open>
  The money supply along the main chain: confirming a list of main blocks raises the sum of all
  balances by exactly the mining rewards of their numbers.
\<close>

lemma balance_le_supply: "solvent H s \<Longrightarrow> balance H s a \<le> total_supply H s"
  unfolding total_supply_def solvent_def by (intro member_le_sum) auto

lemma solvent_storable:
  assumes "solvent H s" and "total_supply H s < 2 ^ 512"
  shows "all_storable s"
  unfolding all_storable_def
proof (intro allI impI)
  fix a d
  assume "account_at s a = Some d"
  then have "Balance d = balance H s a" by (simp add: balance_account)
  moreover have "0 \<le> balance H s a" using assms(1) by (simp add: solvent_def)
  ultimately show "storable d"
    using balance_le_supply [OF assms(1), of a] assms(2) unfolding storable_def by linarith
qed

lemma RewardMiner_bounds: "0 \<le> RewardMiner n" "RewardMiner n \<le> 50 * OneTos"
proof -
  show "0 \<le> RewardMiner n" by (simp add: RewardMiner_nat pos_imp_zdiv_nonneg_iff)
  have "50 div 2 ^ (unat n div 2000000) \<le> (50 :: int)" using zdiv_mono2 [of 50 1 "2 ^ (unat n div 2000000)"] by simp
  then show "RewardMiner n \<le> 50 * OneTos" by (simp add: RewardMiner_nat)
qed

lemma plain_store_writes:
  "WriteMainBlock n mb D = Inr D' \<Longrightarrow> plain_store E D' = plain_store E D"
  "WriteTailMainBlockInfo t D = Inr D' \<Longrightarrow> plain_store E D' = plain_store E D"
  by (simp_all add: plain_store_def)

definition minting :: "chain_params \<Rightarrow> StateDB \<Rightarrow> MainChain \<Rightarrow> bool" where
  "minting P s mc \<longleftrightarrow> calm (cH P) s \<and> solvent (cH P) s \<and> plain_store (cE P) (mcDB mc)"

lemma confirm_finish_mints:
  assumes m: "minting P s mc" and f: "fair q" and cov: "\<forall>s. covers (cOrder P s) s"
    and bound: "total_supply (cH P) s + in_flight q + 50 * OneTos < 2 ^ 512"
    and run: "confirm_finish P sh n b q k s mc = Inr (None, t, mc')"
  shows "minting P t mc' \<and> total_supply (cH P) t = total_supply (cH P) s + in_flight q + RewardMiner n \<and>
    lastState mc' = Some t \<and> tmNumber (MainTail mc') = n"
proof -
  define E H where "E = cE P" and "H = cH P"
  have m': "calm H s" "solvent H s" "plain_store E (mcDB mc)" using m by (simp_all add: minting_def E_def H_def)
  obtain a where a: "fst (GetSender E b) = Inr a"
    using run by (cases "fst (GetSender E b)") (simp_all add: confirm_finish_def CalculatingMinerReward_def E_def)
  define s2 where "s2 = AddBalance H a (in_flight q + RewardMiner n) s"
  have cm: "CalculatingMinerReward (cE P) (cH P) b n q s = (None, s2)"
    using a by (simp add: CalculatingMinerReward_def ComputeMainConfirmReward_def s2_def in_flight_def E_def H_def)
  have s2: "calm H s2" "total_supply H s2 = total_supply H s + in_flight q + RewardMiner n"
    using m' by (simp_all add: s2_def ledger.ok_intros supply_total ledger.total_simps)
  have sol: "solvent H s2"
    using m'(1,2) f RewardMiner_bounds(1) [of n] by (auto simp: s2_def solvent_def ledger.bal_simps in_flight_def fair_def)
  have "all_storable s2"
    using s2(2) bound RewardMiner_bounds(2) [of n] by (intro solvent_storable [OF sol]) (simp add: H_def)
  then obtain root u where u: "Commit (cH P) (cOrder P s2) False s2 = Inr (Inr root, u)" "calm (cH P) u"
      "\<forall>a. map_option summary (account_at u a) = map_option summary (account_at s2 a)"
    using Commit_ok [OF s2(1) _ cov [rule_format]] unfolding H_def by blast
  have bu: "balance H u = balance H s2" using u(3) balance_summary by blast
  obtain D where D: "WriteMainBlock n \<lparr>miHash = fst (GetHash (cE P) b), miRoot = root, ConfirmCount = k\<rparr> (mcDB mc) = Inr D"
    using run by (cases "WriteMainBlock n \<lparr>miHash = fst (GetHash (cE P) b), miRoot = root, ConfirmCount = k\<rparr> (mcDB mc)")
      (simp_all add: confirm_finish_def cm u(1) Let_def)
  have fin: "t = u" "lastState mc' = Some u" "tmNumber (MainTail mc') = n" "plain_store E (mcDB mc') = plain_store E D"
    using run by (auto simp: confirm_finish_def cm u(1) D Let_def plain_store_writes split: sum.splits)
  show ?thesis
    using fin u(2) sol m'(3) plain_store_writes(1) [OF D, of E] supply_balance [OF bu] s2(2) solvent_balance [OF bu]
    by (simp add: minting_def E_def H_def)
qed

lemma confirm_one_mints:
  assumes m: "minting P s mc" and p: "plain b" and cov: "\<forall>s. covers (cOrder P s) s"
    and bound: "total_supply (cH P) s + 50 * OneTos < 2 ^ 512"
    and run: "confirm_one depth P sh n b s mc = Inr (None, t, mc')"
  shows "minting P t mc' \<and> total_supply (cH P) t = total_supply (cH P) s + RewardMiner n \<and>
    lastState mc' = Some t \<and> tmNumber (MainTail mc') = n"
proof -
  define b0 where "b0 = SetStatus (GetStatus b OR BlockMain) b"
  define st0 where "st0 = \<lparr>csCount = 0, csState = s, csChain = mc\<rparr>"
  obtain r e b1 st where sc: "singleBlockConfirm depth P b0 True n b0 st0 = Inr (((r, e), b1), st)"
    using run by (auto simp: confirm_one_def Let_def b0_def st0_def res_bind_eq_Inr_iff)
  have run1: "res_bind (Inr (((r, e), b1), st)) (\<lambda>(((reward, e), b), st).
           let s = csState st; mc = csChain st in
           case e of
             Some e \<Rightarrow> Inr (Some e, s, share sh s mc)
           | None \<Rightarrow>
               (case WriteBlockMutableInfo (fst (GetHash (cE P) b)) (GetMutableInfo b) (mcDB mc) of
                  Inl e \<Rightarrow> Inr (Some e, s, share sh s mc)
                | Inr D \<Rightarrow>
                    (case reward of
                       None \<Rightarrow> Inl Panic
                     | Some reward \<Rightarrow> confirm_finish P sh n b reward (csCount st) s (mc\<lparr>mcDB := D\<rparr>)))) = Inr (None, t, mc')"
    using run unfolding confirm_one_def b0_def [symmetric] st0_def [symmetric] Let_def sc .
  then have e: "e = None" by (cases e) (simp_all add: Let_def)
  obtain D where D: "WriteBlockMutableInfo (fst (GetHash (cE P) b1)) (GetMutableInfo b1) (mcDB (csChain st)) = Inr D"
    using run1 e by (cases "WriteBlockMutableInfo (fst (GetHash (cE P) b1)) (GetMutableInfo b1) (mcDB (csChain st))")
      (simp_all add: Let_def)
  obtain q where q: "r = Some q" using run1 e D by (cases r) (simp_all add: Let_def)
  have fin: "confirm_finish P sh n b1 q (csCount st) (csState st) ((csChain st)\<lparr>mcDB := D\<rparr>) = Inr (None, t, mc')"
    using run1 by (simp add: e D q Let_def)
  have "sound_state (cE P) (cH P) st0" "solvent (cH P) (csState st0)" "csState st0 = s"
    using m by (simp_all add: minting_def st0_def)
  moreover from this have "money_step (cE P) (cH P) ConfirmRewardInfo_Init st0 q st"
    using singleBlockConfirm_money [OF _ _ sc [unfolded q]] p by (simp add: b0_def)
  ultimately have step: "calm (cH P) (csState st)" "solvent (cH P) (csState st)" "fair q" "plain_store (cE P) (mcDB (csChain st))"
    "total_supply (cH P) (csState st) + in_flight q = total_supply (cH P) s"
    by (simp_all add: money_step_def fair_def in_flight_def ConfirmRewardInfo_Init_def)
  then have "minting P (csState st) ((csChain st)\<lparr>mcDB := D\<rparr>)"
    using plain_store_info [OF D, of "cE P"] by (simp add: minting_def)
  from confirm_finish_mints [OF this step(3) cov _ fin] step(5) bound show ?thesis by simp
qed

text \<open>The numbers given to a list of main blocks, and their rewards.\<close>

fun rewards :: "u64 \<Rightarrow> nat \<Rightarrow> int" where
  "rewards n 0 = 0"
| "rewards n (Suc k) = RewardMiner (n + 1) + rewards (n + 1) k"

lemma confirm_list_mints:
  assumes "minting P s mc" and "\<forall>b \<in> set bs. plain b" and cov: "\<forall>s. covers (cOrder P s) s"
    and "total_supply (cH P) s + int (length bs) * (50 * OneTos) < 2 ^ 512"
    and "confirm_list depth P sh n bs s mc = Inr (None, mc')"
  shows "bs = [] \<and> mc' = mc \<or> (\<exists>t. lastState mc' = Some t \<and> minting P t mc' \<and>
    total_supply (cH P) t = total_supply (cH P) s + rewards n (length bs) \<and>
    tmNumber (MainTail mc') = n + word_of_nat (length bs))"
  using assms(1,2,4,5)
proof (induction bs arbitrary: s mc n sh)
  case (Cons b bs)
  from Cons.prems(4) obtain t mc1 where one: "confirm_one depth P sh (n + 1) b s mc = Inr (None, t, mc1)"
    and rest: "confirm_list depth P True (n + 1) bs t mc1 = Inr (None, mc')"
    by (auto simp: res_bind_eq_Inr_iff split: option.splits)
  have b1: "total_supply (cH P) s + 50 * OneTos < 2 ^ 512" using Cons.prems(3) by (simp add: algebra_simps)
  note one' = confirm_one_mints [OF Cons.prems(1) _ cov b1 one]
  have pb: "plain b" "\<forall>b \<in> set bs. plain b" using Cons.prems(2) by simp_all
  have "total_supply (cH P) t + int (length bs) * (50 * OneTos) < 2 ^ 512"
    using Cons.prems(3) one' [OF pb(1)] RewardMiner_bounds(2) [of "n + 1"] by (simp add: algebra_simps)
  from Cons.IH [OF _ pb(2) this rest] one' [OF pb(1)] show ?case by (auto simp: algebra_simps)
qed simp

section \<open>The loop goes through\<close>

lemma GetSender_again [simp]:
  "fst (GetSender E b) = Inr a \<Longrightarrow> fst (GetSender E (snd (GetSender E b))) = Inr a"
  "fst (GetSender E (SetMutableInfo m b)) = fst (GetSender E b)"
  "fst (GetSender E (snd (GetHash E b))) = fst (GetSender E b)"
  by (cases b; auto simp: TxBlock_GetSender_def MinerBlock_GetSender_def TxBlock_GetHash_def MinerBlock_GetHash_def
      GenesisBlock_GetHash_def Let_def split: option.splits sum.splits if_splits)+

lemma GetSender_SetStatus [simp]: "fst (GetSender E (SetStatus f b)) = fst (GetSender E b)"
  by (simp add: SetStatus_def)

lemma confirm_self_sender:
  assumes "confirm_self P main i n b info st = Inr (((r, e), b'), st')" and "fst (GetSender (cE P) b) = Inr a"
  shows "fst (GetSender (cE P) b') = Inr a"
proof -
  obtain e1 where "b' = mark_applied (cE P) e1 (mark_confirmed n (csCount st + 1) b)"
    using confirm_self_InrE [OF assms(1)] by metis
  with assms(2) show ?thesis by (simp add: mark_applied_def mark_confirmed_def Let_def)
qed

lemma singleBlockConfirm_sender:
  assumes "singleBlockConfirm fuel P main i n b st = Inr (((Some r, e), b'), st')" and "fst (GetSender (cE P) b) = Inr a"
  shows "fst (GetSender (cE P) b') = Inr a"
proof (cases fuel)
  case (Suc k)
  from singleBlockConfirm_SomeE [OF assms(1) [unfolded Suc]] confirm_self_sender assms(2) show ?thesis
    by (metis GetSender_again(3))
qed (use assms in simp)

definition same_chain_store :: "env \<Rightarrow> Database \<Rightarrow> Database \<Rightarrow> bool" where
  "same_chain_store E D D' \<longleftrightarrow> same_tables E D D' \<and> putFails D' = putFails D"

lemma same_chain_store_writes:
  "WriteMainBlock n mb D = Inr D' \<Longrightarrow> same_chain_store E D D'"
  "WriteTailMainBlockInfo t D = Inr D' \<Longrightarrow> same_chain_store E D D'"
  "same_chain_store E D D"
  by (simp_all add: same_chain_store_def same_tables_def)
    (auto simp: WriteMainBlock_def WriteTailMainBlockInfo_def Put_Inr)

lemma same_chain_store_good:
  assumes "same_chain_store E D D'"
  shows "good_store E D' = good_store E D" and "complete_store E rank D' = complete_store E rank D"
    and "plain_store E D' = plain_store E D" and "ReadBlock E D' = ReadBlock E D"
  using assms by (auto simp: same_chain_store_def same_tables_def good_store_def complete_store_def plain_store_def)

text \<open>What the loop needs of each main block in its list.\<close>

definition confirmable :: "chain_params \<Rightarrow> (hash \<Rightarrow> nat) \<Rightarrow> nat \<Rightarrow> Database \<Rightarrow> Block \<Rightarrow> bool" where
  "confirmable P rank depth D b \<longleftrightarrow> plain b \<and> sane_info (GetMutableInfo b) \<and> stored (cE P) b D \<and>
     rank (fst (GetHash (cE P) b)) < depth \<and> (\<exists>a. fst (GetSender (cE P) b) = Inr a)"

abbreviation start :: "StateDB \<Rightarrow> MainChain \<Rightarrow> cstate" where
  "start s mc \<equiv> \<lparr>csCount = 0, csState = s, csChain = mc\<rparr>"

lemma ready_minting: "ready P rank (start s mc) \<Longrightarrow> minting P s mc"
  by (simp add: ready_def minting_def)

lemma confirm_finish_total:
  assumes "minting P s mc" and f: "fair q" and cov: "\<forall>s. covers (cOrder P s) s"
    and bound: "total_supply (cH P) s + in_flight q + 50 * OneTos < 2 ^ 512"
    and a: "fst (GetSender (cE P) b) = Inr a" and puts: "putFails (mcDB mc) = (\<lambda>_. False)"
  shows "\<exists>t mc'. confirm_finish P sh n b q k s mc = Inr (None, t, mc') \<and>
    same_chain_store (cE P) (mcDB mc) (mcDB mc') \<and> mq mc' = mq mc"
proof -
  have m': "calm (cH P) s" "solvent (cH P) s" using assms(1) by (simp_all add: minting_def)
  define s2 where "s2 = AddBalance (cH P) a (in_flight q + RewardMiner n) s"
  have cm: "CalculatingMinerReward (cE P) (cH P) b n q s = (None, s2)"
    using a by (simp add: CalculatingMinerReward_def ComputeMainConfirmReward_def s2_def in_flight_def)
  have s2: "calm (cH P) s2" "total_supply (cH P) s2 = total_supply (cH P) s + in_flight q + RewardMiner n"
    using m' by (simp_all add: s2_def ledger.ok_intros supply_total ledger.total_simps)
  have sol: "solvent (cH P) s2"
    using m' f RewardMiner_bounds(1) [of n] by (auto simp: s2_def solvent_def ledger.bal_simps in_flight_def fair_def)
  have "all_storable s2"
    using s2(2) bound RewardMiner_bounds(2) [of n] by (intro solvent_storable [OF sol]) simp
  then obtain root u where u: "Commit (cH P) (cOrder P s2) False s2 = Inr (Inr root, u)"
    using Commit_ok [OF s2(1) _ cov [rule_format]] by blast
  define mb where "mb = \<lparr>miHash = fst (GetHash (cE P) b), miRoot = root, ConfirmCount = k\<rparr>"
  obtain D where D: "WriteMainBlock n mb (mcDB mc) = Inr D" using puts by (simp add: WriteMainBlock_def Put_def)
  have "same_chain_store (cE P) (mcDB mc) D" using same_chain_store_writes(1) [OF D] .
  moreover have "same_chain_store (cE P) D (case WriteTailMainBlockInfo m D of Inl _ \<Rightarrow> D | Inr D \<Rightarrow> D)" for m
    using same_chain_store_writes(2,3) by (auto split: sum.split)
  ultimately have "same_chain_store (cE P) (mcDB mc) (case WriteTailMainBlockInfo m D of Inl _ \<Rightarrow> D | Inr D \<Rightarrow> D)" for m
    by (simp add: same_chain_store_def same_tables_def)
  then show ?thesis by (simp add: confirm_finish_def cm u D Let_def flip: mb_def)
qed

lemma confirm_one_total:
  assumes r: "ready P rank (start s mc)" and b: "confirmable P rank depth (mcDB mc) b"
    and cov: "\<forall>s. covers (cOrder P s) s" and bound: "total_supply (cH P) s + 50 * OneTos < 2 ^ 512"
  shows "\<exists>t mc'. confirm_one depth P sh n b s mc = Inr (None, t, mc') \<and> ready P rank (start t mc') \<and>
    ReadBlock (cE P) (mcDB mc') = ReadBlock (cE P) (mcDB mc)"
proof -
  define b0 where "b0 = SetStatus (GetStatus b OR BlockMain) b"
  have b0: "plain b0" "sane_info (GetMutableInfo b0)" "stored (cE P) b0 (mcDB mc)" "rank (fst (GetHash (cE P) b0)) < depth"
    using b by (simp_all add: b0_def confirmable_def sane_info_def stored_def SetStatus_def)
  obtain a where a: "fst (GetSender (cE P) b0) = Inr a" using b by (auto simp: b0_def confirmable_def)
  obtain q e b1 st where run: "singleBlockConfirm depth P b0 True n b0 (start s mc) = Inr (((Some q, e), b1), st)"
    and mq1: "mq (csChain st) = None"
    using singleBlockConfirm_returns [of P rank depth b0 True n] r b0 unfolding returns_def by fastforce
  have good: "good_store (cE P) (mcDB mc)" and sound: "sound_state (cE P) (cH P) (start s mc)" using r by (simp_all add: ready_def)
  have S: "confirms (cE P) b0 (mcDB mc) (mcDB (csChain st))" "e = None" "sane_info (GetMutableInfo b1)"
    using singleBlockConfirm_store [OF _ b0(2) run] good by simp_all
  have st_step: "store_step (cE P) {fst (GetHash (cE P) b0)} (mcDB mc) (mcDB (csChain st))" using S(1) by (simp add: confirms_def)
  have money: "money_step (cE P) (cH P) ConfirmRewardInfo_Init (start s mc) q st"
    using singleBlockConfirm_money [OF sound b0(1) run] .
  have init: "fair ConfirmRewardInfo_Init" by (simp add: fair_def ConfirmRewardInfo_Init_def)
  note R = ready_step [OF r money init _ mq1, simplified, OF st_step]
  have g1: "good_store (cE P) (mcDB (csChain st))" using R(1) by (simp add: ready_def)
  then obtain D where D: "WriteBlockMutableInfo (fst (GetHash (cE P) b1)) (GetMutableInfo b1) (mcDB (csChain st)) = Inr D"
    by (auto simp: good_store_def WriteBlockMutableInfo_def Put_def)
  note wr = good_store_write [OF g1 D S(3)]
  have rb: "ReadBlock (cE P) D = ReadBlock (cE P) (mcDB mc)" using D st_step by (simp add: store_step_def fun_eq_iff)
  have cs: "complete_store (cE P) rank D"
    using R(1) D wr(2,3) unfolding ready_def complete_store_def by (metis ReadBlock_frame(1))
  have m1: "minting P (csState st) ((csChain st)\<lparr>mcDB := D\<rparr>)"
    using ready_minting R(1) plain_store_info [OF D, of "cE P"] by (simp add: ready_def minting_def)
  have bd: "total_supply (cH P) (csState st) + in_flight q + 50 * OneTos < 2 ^ 512"
    using money bound by (simp add: money_step_def in_flight_def ConfirmRewardInfo_Init_def)
  obtain t mc' where fin: "confirm_finish P sh n b1 q (csCount st) (csState st) ((csChain st)\<lparr>mcDB := D\<rparr>) = Inr (None, t, mc')"
    and same: "same_chain_store (cE P) D (mcDB mc')" and mq': "mq mc' = None"
    using confirm_finish_total [OF m1 R(2) cov bd singleBlockConfirm_sender [OF run a], of sh n "csCount st"] wr(1) mq1
    by (auto simp: good_store_def)
  have "confirm_one depth P sh n b s mc = Inr (None, t, mc')"
    using run D fin S(2) by (simp add: confirm_one_def Let_def flip: b0_def)
  moreover have "minting P t mc'" using confirm_finish_mints [OF m1 R(2) cov bd fin] by blast
  then have "ready P rank (start t mc')"
    using same_chain_store_good [OF same] wr(1) cs mq' by (simp add: ready_def minting_def)
  ultimately show ?thesis using same_chain_store_good(4) [OF same] rb by auto
qed

lemma confirm_list_total:
  assumes "ready P rank (start s mc)" and "\<forall>b \<in> set bs. confirmable P rank depth (mcDB mc) b"
    and cov: "\<forall>s. covers (cOrder P s) s" and "total_supply (cH P) s + int (length bs) * (50 * OneTos) < 2 ^ 512"
  shows "\<exists>mc'. confirm_list depth P sh n bs s mc = Inr (None, mc')"
  using assms(1,2,4)
proof (induction bs arbitrary: s mc n sh)
  case (Cons b bs)
  have b1: "total_supply (cH P) s + 50 * OneTos < 2 ^ 512" using Cons.prems(3) by (simp add: algebra_simps)
  have cb: "confirmable P rank depth (mcDB mc) b" using Cons.prems(2) by simp
  obtain t mc1 where one: "confirm_one depth P sh (n + 1) b s mc = Inr (None, t, mc1)" "ready P rank (start t mc1)"
    "ReadBlock (cE P) (mcDB mc1) = ReadBlock (cE P) (mcDB mc)"
    using confirm_one_total [OF Cons.prems(1) cb cov b1] by blast
  have rest: "\<forall>b \<in> set bs. confirmable P rank depth (mcDB mc1) b"
    using Cons.prems(2) one(3) by (simp add: confirmable_def stored_def)
  have "plain b" using cb by (simp add: confirmable_def)
  then have "total_supply (cH P) t = total_supply (cH P) s + RewardMiner (n + 1)"
    using confirm_one_mints [OF ready_minting [OF Cons.prems(1)] _ cov b1 one(1)] by blast
  then have "total_supply (cH P) t + int (length bs) * (50 * OneTos) < 2 ^ 512"
    using Cons.prems(3) RewardMiner_bounds(2) [of "n + 1"] by (simp add: algebra_simps)
  from Cons.IH [OF one(2) rest this] one(1) show ?case by simp
qed simp

text \<open>
  C3.  The main chain mints exactly its mining rewards, while it confirms plain transfers.  Assume a complete
  acyclic store with sane stored information and working writes that holds only blocks without payload (at
  most three outputs, no negative amount or gas price); a state of plain accounts of which none is overdrawn;
  no message queue; an order of visiting the objects that misses none; and a supply that stays below \<open>2 ^ 512\<close>
  with all rewards added.  Given a nonempty list of such blocks, stored, of rank below the depth and with a
  sender that can be recovered, the loop of \<open>Confirm\<close> goes through without an error; the state it leaves in
  \<open>lastState\<close> holds the old supply plus the mining rewards of the numbers \<open>n + 1, n + 2, ...\<close>, nobody is
  overdrawn, and the main tail has the last number.
\<close>

theorem confirm_list_mints_exactly:
  assumes "ready P rank (start s mc)" and "\<forall>b \<in> set bs. confirmable P rank depth (mcDB mc) b"
    and "\<forall>s. covers (cOrder P s) s" and "total_supply (cH P) s + int (length bs) * (50 * OneTos) < 2 ^ 512"
    and "bs \<noteq> []"
  shows "\<exists>mc' t. confirm_list depth P sh n bs s mc = Inr (None, mc') \<and> lastState mc' = Some t \<and>
    total_supply (cH P) t = total_supply (cH P) s + rewards n (length bs) \<and> solvent (cH P) t \<and>
    tmNumber (MainTail mc') = n + word_of_nat (length bs)"
proof -
  obtain mc' where run: "confirm_list depth P sh n bs s mc = Inr (None, mc')"
    using confirm_list_total [OF assms(1-4)] by blast
  have "\<forall>b \<in> set bs. plain b" using assms(2) by (simp add: confirmable_def)
  from confirm_list_mints [OF ready_minting [OF assms(1)] this assms(3,4) run] assms(5) run show ?thesis
    by (auto simp: minting_def)
qed

definition covering_params :: chain_params where
  "covering_params = sample_params\<lparr>cOrder := (\<lambda>s. sorted_list_of_set (dom (stateObjects s)))\<rparr>"

theorem confirm_list_mints_exactly_witness:
  "\<exists>mc' t. confirm_list 2 covering_params False 0 [sample_main'] sample_state sample_chain = Inr (None, mc') \<and>
     lastState mc' = Some t \<and> total_supply sample_hashing t = 50 * OneTos"
proof -
  have P: "cE covering_params = late_env" "cH covering_params = sample_hashing"
    "cOrder covering_params = (\<lambda>s. sorted_list_of_set (dom (stateObjects s)))"
    by (simp_all add: covering_params_def sample_params_def)
  have "\<forall>s. covers (cOrder covering_params s) s" by (simp add: P covers_def)
  moreover have "ready covering_params sample_rank (start sample_state sample_chain)"
    using sample_ready by (simp add: ready_def P sample_cstate_def sample_params_def)
  moreover have D: "mcDB sample_chain = sample_store" by (simp add: sample_chain_def Let_def)
  have "confirmable covering_params sample_rank 2 (mcDB sample_chain) sample_main'"
    unfolding confirmable_def P D using sample_blocks sample_store_good(5) sample_hashes
    by (simp add: sample_rank_def MinerBlock_GetSender_def)
  ultimately show ?thesis
    using confirm_list_mints_exactly [of covering_params sample_rank sample_state sample_chain "[sample_main']" 2 False 0]
      sample_state_ok(3) [of sample_hashing]
    by (simp add: P RewardMiner_def del: confirm_list.simps) blast
qed

end
