(* ===== verification/Chain_Tail.thy ===== *)
theory Chain_Tail
  imports Chain_Status
begin

text \<open>
  The heaviest chain: the tail is the heaviest block offered so far, the cumulative difficulty of a
  new block is the best its references offer and never falls below theirs, and the search for the
  blocks to confirm walks the chain of heaviest references down to a main block.
\<close>

section \<open>The tail\<close>

definition offered :: "Block \<Rightarrow> int" where
  "offered b = (case GetCumulativeDiff b of Some d \<Rightarrow> d | None \<Rightarrow> 0)"

text \<open>What the tail records of the block it was set from.\<close>

definition tail_of :: "env \<Rightarrow> Block \<Rightarrow> TailMainBlockInfo" where
  "tail_of E b = \<lparr>tmHash = fst (GetHash E b), tmCumulativeDiff = GetCumulativeDiff b, tmNumber = 0, tmTime = GetTime b\<rparr>"

lemma GetCumulativeDiff_upd [simp]:
  "GetCumulativeDiff (SetCumulativeDiff d b) = Some d" "GetCumulativeDiff (SetMaxLink h b) = GetCumulativeDiff b"
  "GetCumulativeDiff (SetStatus f b) = GetCumulativeDiff b" "GetCumulativeDiff (snd (GetHash E b)) = GetCumulativeDiff b"
  "GetMaxLink (SetMaxLink h b) = h" "GetMaxLink (SetStatus f b) = GetMaxLink b" "GetMaxLink (snd (GetHash E b)) = GetMaxLink b"
  by (cases b; simp add: GetCumulativeDiff_def SetCumulativeDiff_def SetMaxLink_def SetStatus_def GetMaxLink_def
      TxBlock_GetHash_def MinerBlock_GetHash_def GenesisBlock_GetHash_def Let_def split: option.split)+

lemma UpdateTail_step:
  assumes "tmCumulativeDiff (Tail mc) = Some d" and "GetCumulativeDiff b = Some c"
  shows "\<exists>mc'. UpdateTail E b mc = Inr mc' \<and> Tail mc' = (if d < c then tail_of E b else Tail mc) \<and>
    PervTail mc' = (if d < c \<and> \<not> IsTheSameTimeSlice (tmTime (Tail mc)) (GetTime b) then Tail mc else PervTail mc)"
  using assms by (simp add: UpdateTail_def tail_check_def tail_write_def tail_of_def Let_def)

lemma UpdateTail_fold:
  assumes "tmCumulativeDiff (Tail mc) = Some d" and "\<forall>b \<in> set bs. GetCumulativeDiff b \<noteq> None"
  shows "\<exists>mc'. fold_res (UpdateTail E) bs mc = Inr mc' \<and>
    tmCumulativeDiff (Tail mc') = Some (foldl max d (map offered bs)) \<and>
    (Tail mc' = Tail mc \<or> (\<exists>b \<in> set bs. Tail mc' = tail_of E b))"
  using assms
proof (induction bs arbitrary: mc d)
  case (Cons b bs)
  then obtain c where c: "GetCumulativeDiff b = Some c" by auto
  obtain mc1 where mc1: "UpdateTail E b mc = Inr mc1" "Tail mc1 = (if d < c then tail_of E b else Tail mc)"
    using UpdateTail_step [OF Cons.prems(1) c] by blast
  have "tmCumulativeDiff (Tail mc1) = Some (max d c)" using mc1(2) Cons.prems(1) c by (simp add: tail_of_def)
  from Cons.IH [OF this] Cons.prems(2) obtain mc' where mc': "fold_res (UpdateTail E) bs mc1 = Inr mc'"
    "tmCumulativeDiff (Tail mc') = Some (foldl max (max d c) (map offered bs))"
    "Tail mc' = Tail mc1 \<or> (\<exists>b \<in> set bs. Tail mc' = tail_of E b)" by auto
  moreover have "offered b = c" using c by (simp add: offered_def)
  ultimately show ?case using mc1 by (auto split: if_splits)
qed simp

lemma foldl_max_Max: "foldl max (d :: int) xs = Max (insert d (set xs))"
proof (induction xs arbitrary: d)
  case (Cons x xs)
  have "Max (insert (max d x) (set xs)) = Max (insert d (insert x (set xs)))"
    by (cases "xs = []") (simp_all add: max.assoc)
  with Cons show ?case by simp
qed simp

text \<open>
  C18.  The tail is the heaviest block.  Offering any sequence of blocks that carry a cumulative
  difficulty to \<open>UpdateTail\<close>, in any order, never fails; the tail's difficulty is then the greatest of
  the old one and those offered, and the tail describes a block that has it (or is unchanged).
\<close>

theorem UpdateTail_heaviest:
  assumes "tmCumulativeDiff (Tail mc) = Some d" and "\<forall>b \<in> set bs. GetCumulativeDiff b \<noteq> None"
  shows "\<exists>mc'. fold_res (UpdateTail E) bs mc = Inr mc' \<and>
    tmCumulativeDiff (Tail mc') = Some (Max (insert d (offered ` set bs))) \<and>
    (Tail mc' = Tail mc \<or>
     (\<exists>b \<in> set bs. offered b = Max (insert d (offered ` set bs)) \<and> Tail mc' = tail_of E b))"
proof -
  obtain mc' where mc': "fold_res (UpdateTail E) bs mc = Inr mc'"
    "tmCumulativeDiff (Tail mc') = Some (Max (insert d (offered ` set bs)))"
    "Tail mc' = Tail mc \<or> (\<exists>b \<in> set bs. Tail mc' = tail_of E b)"
    using UpdateTail_fold [OF assms] by (auto simp: foldl_max_Max)
  then have "Tail mc' = tail_of E b \<Longrightarrow> offered b = Max (insert d (offered ` set bs))" for b
    by (simp add: tail_of_def offered_def)
  with mc' show ?thesis by blast
qed

theorem UpdateTail_heaviest_witness:
  "\<exists>mc'. fold_res (UpdateTail late_env) [SetCumulativeDiff 4 sample_main, SetCumulativeDiff 9 sample_genesis] sample_chain = Inr mc' \<and>
     tmCumulativeDiff (Tail mc') = Some 9"
  using UpdateTail_heaviest [of sample_chain 0 "[SetCumulativeDiff 4 sample_main, SetCumulativeDiff 9 sample_genesis]" late_env]
  by (auto simp: sample_chain_def Let_def offered_def)

text \<open>
  Two goroutines that offer a block each.  A goroutine is idle, or has seen that its block is heavier
  than the tail, or is done; the steps of the two are interleaved.
\<close>

datatype phase = Offering | Heavier | Finished

inductive offer_step :: "env \<Rightarrow> Block \<Rightarrow> phase \<times> MainChain \<Rightarrow> phase \<times> MainChain \<Rightarrow> bool" for E b where
  look: "tail_check b mc = Inr heavier \<Longrightarrow>
    offer_step E b (Offering, mc) (if heavier then Heavier else Finished, mc)"
| set_tail: "offer_step E b (Heavier, mc) (Finished, tail_write E b mc)"

inductive race_step :: "env \<Rightarrow> Block \<Rightarrow> Block \<Rightarrow> phase \<times> phase \<times> MainChain \<Rightarrow> phase \<times> phase \<times> MainChain \<Rightarrow> bool" for E b c where
  left: "offer_step E b (p, mc) (p', mc') \<Longrightarrow> race_step E b c (p, q, mc) (p', q, mc')"
| right: "offer_step E c (q, mc) (q', mc') \<Longrightarrow> race_step E b c (p, q, mc) (p, q', mc')"

inductive_simps offer_step_simps: "offer_step E b (p, mc) (p', mc')"
inductive_cases race_stepE: "race_step E b c s t"

lemma tail_write_diff [simp]: "tmCumulativeDiff (Tail (tail_write E b mc)) = GetCumulativeDiff b"
  by (simp add: tail_write_def Let_def)

text \<open>Nobody else's write in between: the two steps of one goroutine are \<open>UpdateTail\<close>.\<close>

lemma offer_UpdateTail:
  "(offer_step E b)\<^sup>*\<^sup>* (Offering, mc) (Finished, mc') \<Longrightarrow> UpdateTail E b mc = Inr mc'"
proof -
  assume "(offer_step E b)\<^sup>*\<^sup>* (Offering, mc) (Finished, mc')"
  then obtain s where s: "offer_step E b (Offering, mc) s" "(offer_step E b)\<^sup>*\<^sup>* s (Finished, mc')"
    by (auto elim: converse_rtranclpE)
  then obtain h where h: "tail_check b mc = Inr h" "s = (if h then Heavier else Finished, mc)"
    by (cases s) (auto simp: offer_step_simps)
  have fin: "offer_step E b (Finished, x) y \<Longrightarrow> False" for x y by (cases y) (simp add: offer_step_simps)
  show ?thesis
  proof (cases h)
    case True
    then have "(offer_step E b)\<^sup>*\<^sup>* (Heavier, mc) (Finished, mc')" using s(2) h by simp
    then obtain u where "offer_step E b (Heavier, mc) u" "(offer_step E b)\<^sup>*\<^sup>* u (Finished, mc')"
      by (auto elim: converse_rtranclpE)
    then have "(offer_step E b)\<^sup>*\<^sup>* (Finished, tail_write E b mc) (Finished, mc')"
      by (cases u) (auto simp: offer_step_simps)
    then have "mc' = tail_write E b mc" by (auto elim: converse_rtranclpE dest: fin)
    with h True show ?thesis by (simp add: UpdateTail_def)
  next
    case False
    with s(2) h have "mc' = mc" by (auto elim: converse_rtranclpE dest: fin)
    with h False show ?thesis by (simp add: UpdateTail_def)
  qed
qed

text \<open>
  C32.  The tail can lose the heavier of two blocks.  Since the comparison and the write are separate
  steps, two concurrent calls of \<open>UpdateTail\<close> with blocks that are both heavier than the tail can end with
  the lighter one as tail, although either order of the two calls ends with the heavier one.
\<close>

theorem UpdateTail_race:
  assumes "tmCumulativeDiff (Tail mc) = Some d" and "GetCumulativeDiff b = Some x" and "GetCumulativeDiff c = Some y"
    and "d < x" and "x < y"
  shows "\<exists>mc'. (race_step E b c)\<^sup>*\<^sup>* (Offering, Offering, mc) (Finished, Finished, mc') \<and>
      tmCumulativeDiff (Tail mc') = Some x \<and>
      (\<exists>mc1 mc2. fold_res (UpdateTail E) [b, c] mc = Inr mc1 \<and> fold_res (UpdateTail E) [c, b] mc = Inr mc2 \<and>
        tmCumulativeDiff (Tail mc1) = Some y \<and> tmCumulativeDiff (Tail mc2) = Some y)"
proof -
  have look: "tail_check b mc = Inr True" "tail_check c mc = Inr True" using assms by (simp_all add: tail_check_def)
  have "race_step E b c (Offering, Offering, mc) (Heavier, Offering, mc)"
    by (rule race_step.left) (auto simp: offer_step_simps look)
  moreover have "race_step E b c (Heavier, Offering, mc) (Heavier, Heavier, mc)"
    by (rule race_step.right) (auto simp: offer_step_simps look)
  moreover have "race_step E b c (Heavier, Heavier, mc) (Heavier, Finished, tail_write E c mc)"
    by (rule race_step.right) (simp add: offer_step_simps)
  moreover have "race_step E b c (Heavier, Finished, tail_write E c mc) (Finished, Finished, tail_write E b (tail_write E c mc))"
    by (rule race_step.left) (simp add: offer_step_simps)
  ultimately have "(race_step E b c)\<^sup>*\<^sup>* (Offering, Offering, mc) (Finished, Finished, tail_write E b (tail_write E c mc))"
    by (meson rtranclp.rtrancl_into_rtrancl rtranclp.rtrancl_refl)
  moreover have "\<exists>mc1 mc2. fold_res (UpdateTail E) [b, c] mc = Inr mc1 \<and> fold_res (UpdateTail E) [c, b] mc = Inr mc2 \<and>
        tmCumulativeDiff (Tail mc1) = Some y \<and> tmCumulativeDiff (Tail mc2) = Some y"
    using assms by (simp add: UpdateTail_def tail_check_def)
  ultimately show ?thesis using assms(2) by (metis tail_write_diff)
qed

theorem UpdateTail_race_witness:
  "\<exists>mc'. (race_step late_env (SetCumulativeDiff 4 sample_main) (SetCumulativeDiff 9 sample_genesis))\<^sup>*\<^sup>*
      (Offering, Offering, sample_chain) (Finished, Finished, mc') \<and> tmCumulativeDiff (Tail mc') = Some 4"
  using UpdateTail_race [of sample_chain 0 "SetCumulativeDiff 4 sample_main" 4 "SetCumulativeDiff 9 sample_genesis" 9 late_env]
  by (auto simp: sample_chain_def Let_def)

section \<open>Cumulative difficulty\<close>

lemma fold_res_best:
  assumes "fold_res (\<lambda>h acc. res_bind (f h) (\<lambda>x. Inr (better_link acc x))) hs acc = Inr info"
  shows "\<exists>xs. list_all2 (\<lambda>h x. f h = Inr x) hs xs \<and> info = foldl better_link acc xs"
  using assms
proof (induction hs arbitrary: acc)
  case (Cons h hs)
  then obtain x where x: "f h = Inr x"
    "fold_res (\<lambda>h acc. res_bind (f h) (\<lambda>x. Inr (better_link acc x))) hs (better_link acc x) = Inr info"
    by (auto simp: res_bind_eq_Inr_iff)
  from Cons.IH [OF x(2)] obtain xs where "list_all2 (\<lambda>h x. f h = Inr x) hs xs" "info = foldl better_link (better_link acc x) xs"
    by blast
  with x(1) show ?case by (intro exI [of _ "x # xs"]) simp
qed simp

lemma foldl_better_ge:
  "SingleChainCumulativeDiff acc \<le> SingleChainCumulativeDiff (foldl better_link acc xs)"
  "x \<in> set xs \<Longrightarrow> SingleChainCumulativeDiff x \<le> SingleChainCumulativeDiff (foldl better_link acc xs)"
proof (induction xs arbitrary: acc)
  case (Cons y ys)
  { case 1
    show ?case using Cons.IH(1) [of "better_link acc y"] by (simp add: better_link_def split: if_splits) }
  { case 2
    have "SingleChainCumulativeDiff y \<le> SingleChainCumulativeDiff (better_link acc y)" by (simp add: better_link_def)
    with 2 Cons.IH [of "better_link acc y"] show ?case by auto }
qed simp_all

lemma foldl_better_in: "foldl better_link acc xs \<in> insert acc (set xs)"
proof (induction xs arbitrary: acc)
  case (Cons x xs)
  have "better_link acc x \<in> {acc, x}" by (simp add: better_link_def)
  with Cons.IH [of "better_link acc x"] show ?case by auto
qed simp

text \<open>Every reference offers at least its own cumulative difficulty.\<close>

lemma single_link_ge:
  assumes "single_link E D time d h = Inr x" and "load_block E D h = Inr c" and "GetCumulativeDiff c = Some k" and "0 \<le> d"
  shows "k \<le> SingleChainCumulativeDiff x"
  using assms
  by (auto simp: single_link_def Let_def res_bind_eq_Inr_iff split: if_splits)

lemma adopt_link_sel [simp]:
  "GetCumulativeDiff (adopt_link E info b) = Some (SingleChainCumulativeDiff info)"
  "GetMaxLink (adopt_link E info b) = maxLinkHash info"
  by (simp_all add: adopt_link_def Let_def)

text \<open>
  C19.  \<open>ComputeCumulativeDiff\<close> takes the best offer.  When it succeeds, every reference made an offer;
  the new cumulative difficulty is the greatest of zero and the offers, the heaviest reference is the
  one that made it, and the result is at least the cumulative difficulty of every referenced block.
\<close>

theorem ComputeCumulativeDiff_best:
  assumes "ComputeCumulativeDiff E D b = Inr (upd, b')" and "0 \<le> fst (GetDiff E b)"
  shows "\<exists>xs info. list_all2 (\<lambda>h x. single_link E D (GetTime b) (fst (GetDiff E b)) h = Inr x) (GetLinks b) xs \<and>
      info \<in> insert no_link (set xs) \<and>
      (\<forall>x \<in> insert no_link (set xs). SingleChainCumulativeDiff x \<le> SingleChainCumulativeDiff info) \<and>
      upd = isUpdateDiff info \<and> GetMaxLink b' = maxLinkHash info \<and>
      GetCumulativeDiff b' = Some (SingleChainCumulativeDiff info) \<and>
      (\<forall>h \<in> set (GetLinks b). \<forall>c k. load_block E D h = Inr c \<and> GetCumulativeDiff c = Some k \<longrightarrow>
         k \<le> SingleChainCumulativeDiff info)"
proof -
  obtain info where f: "fold_res (\<lambda>h acc. res_bind (single_link E D (GetTime b) (fst (GetDiff E b)) h) (\<lambda>x. Inr (better_link acc x)))
      (GetLinks b) no_link = Inr info"
    and r: "Inr (isUpdateDiff info, adopt_link E info (if GetLinks b = [] then b else snd (GetDiff E b))) = (Inr (upd, b') :: err + bool \<times> Block)"
    using assms(1) unfolding ComputeCumulativeDiff_def by (rule res_bind_eq_InrE)
  define c where "c = (if GetLinks b = [] then b else snd (GetDiff E b))"
  have u: "upd = isUpdateDiff info" and b': "b' = adopt_link E info c"
    using r unfolding c_def [symmetric] by simp_all
  have res: "GetMaxLink b' = maxLinkHash info" "GetCumulativeDiff b' = Some (SingleChainCumulativeDiff info)"
    unfolding b' by (rule adopt_link_sel)+
  obtain xs where xs: "list_all2 (\<lambda>h x. single_link E D (GetTime b) (fst (GetDiff E b)) h = Inr x) (GetLinks b) xs"
    "info = foldl better_link no_link xs" using fold_res_best [OF f] by blast
  have best: "\<forall>x \<in> insert no_link (set xs). SingleChainCumulativeDiff x \<le> SingleChainCumulativeDiff info"
    using foldl_better_ge [where acc = no_link and xs = xs] by (auto simp: xs(2))
  have "k \<le> SingleChainCumulativeDiff info"
    if "h \<in> set (GetLinks b)" "load_block E D h = Inr c" "GetCumulativeDiff c = Some k" for h c k
  proof -
    from that(1) obtain i where "i < length (GetLinks b)" "h = GetLinks b ! i" by (auto simp: in_set_conv_nth)
    with list_all2_nthD [OF xs(1), of i] list_all2_lengthD [OF xs(1)]
    have "xs ! i \<in> set xs" "single_link E D (GetTime b) (fst (GetDiff E b)) h = Inr (xs ! i)" by simp_all
    with single_link_ge [OF _ that(2,3) assms(2)] best show ?thesis by force
  qed
  with xs best u res foldl_better_in [of no_link xs] show ?thesis by blast
qed

theorem ComputeCumulativeDiff_best_witness:
  "\<exists>upd b'. ComputeCumulativeDiff late_env sample_store sample_main = Inr (upd, b') \<and> GetLinks sample_main = [5] \<and>
     (\<exists>k. GetCumulativeDiff b' = Some k \<and> 0 \<le> k)"
proof -
  have l: "load_block late_env sample_store 5 = Inr (SetMutableInfo (norm_info zeroInfo) sample_genesis)"
    using sample_main_hash by (simp add: load_block_def sample_store_reads)
  have links: "GetLinks sample_main = [5]" by (simp add: sample_main_def sample_mbrec_def)
  have t: "\<not> IsTheSameTimeSlice (GetTime sample_main) (GetTime (SetMutableInfo (norm_info zeroInfo) sample_genesis))"
    by (simp add: sample_main_def sample_mbrec_def sample_genesis_def GetTime_def IsTheSameTimeSlice_def GetMainTime_def)
  have d: "0 \<le> fst (GetDiff late_env sample_main)"
    by (simp add: sample_main_def MinerBlock_GetDiff_def sample_mbrec_def zeroInfo_def Let_def)
  obtain upd b' where run: "ComputeCumulativeDiff late_env sample_store sample_main = Inr (upd, b')"
    using t by (simp add: ComputeCumulativeDiff_def links single_link_def l GetCumulativeDiff_def GetStatus_def norm_info_def
        zeroInfo_def)
  from ComputeCumulativeDiff_best [OF run d] run links show ?thesis by (auto simp: no_link_def)
qed

section \<open>Blocks to confirm\<close>

text \<open>
  \<open>max_chain E D h bs loc\<close>: following the heaviest references from \<open>h\<close> one meets the blocks of \<open>bs\<close>, last
  one first, and then \<open>loc\<close>.
\<close>

inductive max_chain :: "env \<Rightarrow> Database \<Rightarrow> hash \<Rightarrow> Block list \<Rightarrow> Block \<Rightarrow> bool" for E D where
  stop: "load_block E D h = Inr b \<Longrightarrow> max_chain E D h [] b"
| step: "load_block E D h = Inr b \<Longrightarrow> max_chain E D (MaxLinkHash (GetMutableInfo b)) bs loc \<Longrightarrow>
    max_chain E D h (bs @ [b]) loc"

inductive_cases max_chain_NilE: "max_chain E D h [] loc"
inductive_simps max_chain_snoc: "max_chain E D h (bs @ [b]) loc"

definition anchor :: "u64 \<Rightarrow> Block \<Rightarrow> bool" where
  "anchor mainTime b \<longleftrightarrow> GetStatus b AND BlockMain \<noteq> 0 \<and> GetTime b \<le> mainTime"

definition mature :: "env \<Rightarrow> Block \<Rightarrow> bool" where
  "mature E b \<longleftrightarrow> TimeSliceDifference (now E) (GetTime b) > ConfirmBlock"

lemma find_loop_confirming:
  assumes "find_loop fuel E D mainTime h True acc = Inr (bs, loc)"
  shows "\<exists>cs. bs = cs @ acc \<and> max_chain E D h cs loc \<and> anchor mainTime loc \<and> (\<forall>b \<in> set cs. \<not> anchor mainTime b)"
  using assms
proof (induction fuel arbitrary: h acc)
  case (Suc fuel)
  then obtain b where b: "load_block E D h = Inr b" by (auto simp: res_bind_eq_Inr_iff)
  show ?case
  proof (cases "anchor mainTime b")
    case True
    with Suc.prems b show ?thesis by (auto simp: anchor_def intro: max_chain.stop)
  next
    case False
    with Suc.prems b have "find_loop fuel E D mainTime (MaxLinkHash (GetMutableInfo b)) True (b # acc) = Inr (bs, loc)"
      by (auto simp: anchor_def)
    from Suc.IH [OF this] b False show ?thesis by (force intro: max_chain.step)
  qed
qed simp

lemma find_loop_searching:
  assumes "find_loop fuel E D mainTime h False [] = Inr (bs, loc)"
  shows "\<exists>young. max_chain E D h (bs @ young) loc \<and> anchor mainTime loc \<and> (\<forall>c \<in> set bs. \<not> anchor mainTime c) \<and>
    (\<forall>c \<in> set young. \<not> mature E c) \<and> (if bs = [] then mature E loc else mature E (last bs))"
  using assms
proof (induction fuel arbitrary: h)
  case (Suc fuel)
  then obtain b where b: "load_block E D h = Inr b" by (auto simp: res_bind_eq_Inr_iff)
  let ?next = "MaxLinkHash (GetMutableInfo b)"
  consider "\<not> mature E b" | "mature E b" "anchor mainTime b" | "mature E b" "\<not> anchor mainTime b" by blast
  then show ?case
  proof cases
    case 1
    with Suc.prems b have "find_loop fuel E D mainTime ?next False [] = Inr (bs, loc)" by (simp add: mature_def)
    from Suc.IH [OF this] obtain young where young: "max_chain E D ?next (bs @ young) loc" "anchor mainTime loc"
      "\<forall>c \<in> set bs. \<not> anchor mainTime c" "\<forall>c \<in> set young. \<not> mature E c"
      "if bs = [] then mature E loc else mature E (last bs)" by blast
    have "max_chain E D h (bs @ young @ [b]) loc" using max_chain.step [OF b young(1)] by simp
    moreover have "\<forall>c \<in> set (young @ [b]). \<not> mature E c" using young(4) 1 by auto
    ultimately show ?thesis using young(2,3,5) by blast
  next
    case 2
    with Suc.prems b have "bs = []" "loc = b" by (auto simp: mature_def anchor_def)
    with 2 b show ?thesis by (intro exI [of _ "[]"]) (simp add: max_chain.stop)
  next
    case 3
    with Suc.prems b have "find_loop fuel E D mainTime ?next True [b] = Inr (bs, loc)"
      by (auto simp: mature_def anchor_def)
    from find_loop_confirming [OF this] obtain cs where "bs = cs @ [b]" "max_chain E D ?next cs loc" "anchor mainTime loc"
      "\<forall>b \<in> set cs. \<not> anchor mainTime b" by blast
    with 3 b show ?thesis by (intro exI [of _ "[]"]) (auto intro: max_chain.step)
  qed
qed simp

lemma find_loop_confirming_conv:
  assumes "max_chain E D h cs loc" and "anchor mainTime loc" and "\<forall>b \<in> set cs. \<not> anchor mainTime b" and "length cs < fuel"
  shows "find_loop fuel E D mainTime h True acc = Inr (cs @ acc, loc)"
  using assms
proof (induction arbitrary: fuel acc rule: max_chain.induct)
  case (stop h b)
  then show ?case by (cases fuel) (auto simp: anchor_def)
next
  case (step h b bs loc)
  then obtain k where k: "fuel = Suc k" "length bs < k" by (cases fuel) auto
  with step show ?case by (simp add: anchor_def)
qed

lemma find_loop_searching_conv:
  assumes "max_chain E D h (bs @ young) loc" and "anchor mainTime loc" and "\<forall>c \<in> set bs. \<not> anchor mainTime c"
    and "\<forall>c \<in> set young. \<not> mature E c" and "if bs = [] then mature E loc else mature E (last bs)"
    and "length (bs @ young) < fuel"
  shows "find_loop fuel E D mainTime h False [] = Inr (bs, loc)"
  using assms
proof (induction young arbitrary: h fuel rule: rev_induct)
  case Nil
  then obtain k where k: "fuel = Suc k" "length bs < Suc k" by (cases fuel) auto
  show ?case
  proof (cases bs rule: rev_cases)
    case Nil
    with Nil.prems k show ?thesis by (auto simp: anchor_def mature_def elim: max_chain_NilE)
  next
    case (snoc cs b)
    with Nil.prems have b: "load_block E D h = Inr b" "max_chain E D (MaxLinkHash (GetMutableInfo b)) cs loc"
      by (auto simp: max_chain_snoc)
    with Nil.prems snoc k have "find_loop k E D mainTime (MaxLinkHash (GetMutableInfo b)) True [b] = Inr (cs @ [b], loc)"
      by (intro find_loop_confirming_conv) auto
    with b Nil.prems snoc k show ?thesis by (auto simp: anchor_def mature_def)
  qed
next
  case (snoc y young)
  then obtain k where k: "fuel = Suc k" by (cases fuel) auto
  from snoc.prems(1) have y: "load_block E D h = Inr y" "max_chain E D (MaxLinkHash (GetMutableInfo y)) (bs @ young) loc"
    by (auto simp: max_chain_snoc simp flip: append_assoc)
  with snoc.IH [OF y(2), of k] snoc.prems k show ?case by (simp add: mature_def)
qed

text \<open>
  C17.  What \<open>findTheMainBlockThatCanConfirmOtherBlocks\<close> finds.  The loop ends with a list and a locator
  exactly when the chain of heaviest references from the tail consists of blocks too young to count,
  then the list, newest first, then the locator: the newest block of the list (or the locator itself)
  is more than eight slices old, the locator is a main block not younger than the main tail, and no
  block of the list is.
\<close>

theorem findTheMainBlock_iff:
  "(\<exists>fuel. findTheMainBlockThatCanConfirmOtherBlocks fuel E mainTail mc = Inr (bs, loc)) \<longleftrightarrow>
   (\<exists>young. max_chain E (mcDB mc) (tmHash (Tail mc)) (bs @ young) loc \<and> anchor (tmTime mainTail) loc \<and>
      \<not> (\<exists>c \<in> set bs. anchor (tmTime mainTail) c) \<and> \<not> (\<exists>c \<in> set young. mature E c) \<and>
      mature E (if bs = [] then loc else last bs))"
    (is "?L \<longleftrightarrow> ?R")
proof
  assume ?L
  then show ?R
    unfolding findTheMainBlockThatCanConfirmOtherBlocks_def by (auto dest!: find_loop_searching split: if_splits)
next
  assume ?R
  then obtain young where young: "max_chain E (mcDB mc) (tmHash (Tail mc)) (bs @ young) loc" "anchor (tmTime mainTail) loc"
      "\<forall>c \<in> set bs. \<not> anchor (tmTime mainTail) c" "\<forall>c \<in> set young. \<not> mature E c"
      "if bs = [] then mature E loc else mature E (last bs)" by (auto split: if_splits)
  show ?L
    unfolding findTheMainBlockThatCanConfirmOtherBlocks_def
    using find_loop_searching_conv [OF young, of "Suc (length (bs @ young))"] by blast
qed

end
