(* ===== verification/EVM_Math.thy ===== *)
theory EVM_Math
  imports Chain_Utils
begin

text \<open>
  The arithmetic under the virtual machine: \<open>src/devbase/common/math\<close> (256-bit truncation, exponentiation
  by squaring over the machine words of the exponent, byte access, checked 64-bit arithmetic), the
  padding of \<open>src/devbase/common/bytes.go\<close>, and \<open>src/sdag/core/vm/common.go\<close>.  A \<open>big.Int\<close> is an \<open>int\<close>;
  its \<open>Bits\<close> are its 64-bit words, least significant first.
\<close>

section \<open>Big integers as lists of machine words\<close>

fun nat_words :: "nat \<Rightarrow> u64 list" where
  "nat_words n = (if n = 0 then [] else word_of_nat n # nat_words (n div 2 ^ 64))"

declare nat_words.simps [simp del]

definition big_Bits :: "int \<Rightarrow> u64 list" where
  "big_Bits x = nat_words (nat \<bar>x\<bar>)"

definition words_val :: "u64 list \<Rightarrow> nat" where
  "words_val ws = foldr (\<lambda>w n. unat w + 2 ^ 64 * n) ws 0"

lemma words_val_simps [simp]: "words_val [] = 0" "words_val (w # ws) = unat w + 2 ^ 64 * words_val ws"
  by (simp_all add: words_val_def)

lemma nat_words_simps: "nat_words 0 = []" "0 < n \<Longrightarrow> nat_words n = word_of_nat n # nat_words (n div 2 ^ 64)"
  by (subst nat_words.simps, simp)+

lemma words_val_nat_words [simp]: "words_val (nat_words n) = n"
proof (induction n rule: nat_words.induct)
  case (1 n)
  show ?case
  proof (cases "n = 0")
    case False
    have "unat (word_of_nat n :: u64) = n mod 2 ^ 64" by (simp add: unsigned_of_nat take_bit_eq_mod)
    with False "1" show ?thesis by (simp add: nat_words_simps)
  qed (simp add: nat_words_simps)
qed

lemma words_val_big_Bits [simp]: "words_val (big_Bits x) = nat \<bar>x\<bar>"
  by (simp add: big_Bits_def)

section \<open>256-bit numbers\<close>

definition tt255 :: int where "tt255 = 2 ^ 255"
definition tt256 :: int where "tt256 = 2 ^ 256"

definition U256 :: "int \<Rightarrow> int" where
  "U256 x = x AND (tt256 - 1)"

definition S256 :: "int \<Rightarrow> int" where
  "S256 x = (if x < tt255 then x else x - tt256)"

definition BigMax :: "int \<Rightarrow> int \<Rightarrow> int" where
  "BigMax x y = (if x < y then y else x)"

definition BigMin :: "int \<Rightarrow> int \<Rightarrow> int" where
  "BigMin x y = (if x > y then y else x)"

text \<open>\<open>big.Int.BitLen\<close>.\<close>

fun nat_bits :: "nat \<Rightarrow> nat" where
  "nat_bits n = (if n = 0 then 0 else Suc (nat_bits (n div 2)))"

declare nat_bits.simps [simp del]

definition BitLen :: "int \<Rightarrow> nat" where
  "BitLen x = nat_bits (nat \<bar>x\<bar>)"

lemma nat_bits_le_iff: "nat_bits n \<le> k \<longleftrightarrow> n < 2 ^ k"
proof (induction n arbitrary: k rule: nat_bits.induct)
  case (1 n)
  show ?case
  proof (cases "n = 0")
    case False
    show ?thesis
    proof (cases k)
      case 0
      with False show ?thesis by (subst nat_bits.simps) simp
    next
      case (Suc j)
      have "n < 2 ^ k \<longleftrightarrow> n div 2 < 2 ^ j" by (simp add: Suc div_less_iff_less_mult mult.commute)
      with "1" [OF False] False Suc show ?thesis by (subst nat_bits.simps) simp
    qed
  qed (simp add: nat_bits.simps)
qed

lemma BitLen_le_iff: "BitLen x \<le> k \<longleftrightarrow> \<bar>x\<bar> < 2 ^ k"
  by (simp add: BitLen_def nat_bits_le_iff nat_less_iff)

lemma and_mask_mod: "(x :: int) AND (2 ^ n - 1) = x mod 2 ^ n"
  by (simp add: take_bit_eq_mask mask_eq_exp_minus_1 flip: take_bit_eq_mod)

lemma tt256_pos [simp]: "0 < tt256" "1 < tt256" "tt256 \<noteq> 0"
  by (simp_all add: tt256_def)

lemma tt255_double: "tt256 = 2 * tt255"
  by (simp add: tt255_def tt256_def)

lemma U256_mod: "U256 x = x mod tt256"
  unfolding U256_def tt256_def by (rule and_mask_mod)

lemma U256_range [simp]: "0 \<le> U256 x" "U256 x < tt256"
  by (simp_all add: U256_mod)

lemma U256_word: "U256 x = uint (word_of_int x :: 256 word)"
  by (simp add: U256_mod tt256_def uint_word_of_int)

lemma uint256_range [simp]: "uint (w :: 256 word) < tt256"
  using unsigned_less [of w, where ?'a = int] by (simp add: tt256_def)

lemma U256_id: "0 \<le> x \<Longrightarrow> x < tt256 \<Longrightarrow> U256 x = x"
  by (simp add: U256_mod)

lemma S256_word: "S256 (uint w) = sint (w :: 256 word)"
proof -
  have "sint w = (uint w + tt255) mod tt256 - tt255"
    by (simp add: sint_uint signed_take_bit_eq_take_bit_shift take_bit_eq_mod tt255_def tt256_def)
  moreover have u: "uint w < 2 * tt255" using uint256_range [of w] by (simp add: tt255_double)
  moreover have "(uint w + tt255) mod tt256 = (uint w - tt255) mod tt256"
    using mod_add_self2 [of "uint w - tt255" tt256] by (simp add: tt255_double add.commute)
  ultimately show ?thesis
    using mod_pos_pos_trivial [of "uint w + tt255" tt256] mod_pos_pos_trivial [of "uint w - tt255" tt256]
    by (cases "uint w < tt255") (simp_all add: S256_def tt255_double tt255_def)
qed

section \<open>Exponentiation\<close>

text \<open>The inner loop over the 64 bits of a word, and the loop over the words.\<close>

primrec Exp_word :: "nat \<Rightarrow> u64 \<Rightarrow> int \<times> int \<Rightarrow> int \<times> int" where
  "Exp_word 0 word s = s"
| "Exp_word (Suc i) word s =
     (let (result, base) = s;
          result = (if word AND 1 = 1 then U256 (result * base) else result);
          base = U256 (base * base)
      in Exp_word i (drop_bit 1 word) (result, base))"

definition Exp :: "int \<Rightarrow> int \<Rightarrow> int" where
  "Exp base exponent = fst (fold (Exp_word 64) (big_Bits exponent) (1, base))"

lemma Exp_word_spec:
  assumes "Exp_word i w (r, b) = (r', b')" and "unat w < 2 ^ i"
  shows "r' mod tt256 = r * b ^ unat w mod tt256 \<and> b' mod tt256 = b ^ (2 ^ i) mod tt256"
  using assms
proof (induction i arbitrary: w r b)
  case (Suc i)
  define r1 where "r1 = (if w AND 1 = 1 then U256 (r * b) else r)"
  have half: "unat (drop_bit (Suc 0) w) = unat w div 2" by (simp add: unat_drop_bit_div)
  have one: "w AND 1 = 1 \<longleftrightarrow> unat w mod 2 = 1"
    by (simp add: and_one_eq word_unat_eq_iff unat_mod_distrib)
  from Suc.prems(1) have "Exp_word i (drop_bit (Suc 0) w) (r1, U256 (b * b)) = (r', b')"
    by (simp add: r1_def Let_def)
  moreover have "unat (drop_bit (Suc 0) w) < 2 ^ i" using Suc.prems(2) unfolding half by simp
  ultimately have IH: "r' mod tt256 = r1 * U256 (b * b) ^ (unat w div 2) mod tt256"
    "b' mod tt256 = U256 (b * b) ^ 2 ^ i mod tt256" using Suc.IH [of "drop_bit (Suc 0) w"] unfolding half by blast+
  have sq: "U256 (b * b) ^ n mod tt256 = b ^ (2 * n) mod tt256" for n
    unfolding U256_mod by (simp only: power_mod power_mult power2_eq_square)
  have r1: "r1 mod tt256 = r * b ^ (unat w mod 2) mod tt256"
    using one by (auto simp: r1_def U256_mod)
  have "r1 * U256 (b * b) ^ (unat w div 2) mod tt256 = (r * b ^ (unat w mod 2)) * b ^ (2 * (unat w div 2)) mod tt256"
    using r1 sq by (rule mod_mult_cong)
  also have "\<dots> = r * b ^ unat w mod tt256"
    by (simp only: mult.assoc flip: power_add) simp
  finally show ?case using IH sq by simp
qed simp

lemma Exp_words_spec:
  "fst (fold (Exp_word 64) ws (r, b)) mod tt256 = r * b ^ words_val ws mod tt256"
proof (induction ws arbitrary: r b)
  case (Cons w ws)
  obtain r' b' where s: "Exp_word 64 w (r, b) = (r', b')" by fastforce
  have w: "unat w < 2 ^ 64" using unsigned_less [of w, where ?'a = nat] by simp
  note e = Exp_word_spec [OF s w]
  have "fst (fold (Exp_word 64) (w # ws) (r, b)) mod tt256 = r' * b' ^ words_val ws mod tt256"
    by (simp only: fold.simps comp_apply s Cons.IH)
  also have "\<dots> = (r * b ^ unat w) * (b ^ 2 ^ 64) ^ words_val ws mod tt256"
    using e power_mod [of b' tt256] power_mod [of "b ^ 2 ^ 64" tt256] by (intro mod_mult_cong) metis+
  also have "\<dots> = r * b ^ words_val (w # ws) mod tt256"
    by (simp only: words_val_simps power_add power_mult mult.assoc)
  finally show ?case .
qed simp

text \<open>The result is reduced whenever it is multiplied.\<close>

lemma Exp_word_range: "0 \<le> r \<and> r < tt256 \<Longrightarrow> 0 \<le> fst (Exp_word i w (r, b)) \<and> fst (Exp_word i w (r, b)) < tt256"
  by (induction i arbitrary: w r b) (simp_all add: Let_def)

lemma Exp_words_range:
  "0 \<le> fst s \<and> fst s < tt256 \<Longrightarrow> 0 \<le> fst (fold (Exp_word 64) ws s) \<and> fst (fold (Exp_word 64) ws s) < tt256"
proof (induction ws arbitrary: s)
  case (Cons w ws)
  then show ?case using Exp_word_range [of "fst s" 64 w "snd s"] by simp
qed simp

lemma Exp_mod: "Exp b e = b ^ nat \<bar>e\<bar> mod tt256"
proof -
  have "0 \<le> Exp b e \<and> Exp b e < tt256" unfolding Exp_def by (rule Exp_words_range) simp
  then have "Exp b e = Exp b e mod tt256" by simp
  also have "\<dots> = b ^ nat \<bar>e\<bar> mod tt256"
    using Exp_words_spec [of "big_Bits e" 1 b] by (simp only: Exp_def words_val_big_Bits mult_1)
  finally show ?thesis .
qed

section \<open>Bytes of a number\<close>

text \<open>\<open>bigEndianByteAt\<close> picks a machine word and shifts; byte 0 is the least significant.\<close>

definition bigEndianByteAt :: "int \<Rightarrow> nat \<Rightarrow> byte" where
  "bigEndianByteAt x n =
     (let words = big_Bits x; i = n div 8 in
      if i \<ge> length words then 0 else ucast (drop_bit (8 * (n mod 8)) (words ! i)))"

definition math_Byte :: "int \<Rightarrow> int \<Rightarrow> int \<Rightarrow> byte" where
  "math_Byte x padlength n = (if n \<ge> padlength then 0 else bigEndianByteAt x (nat (padlength - 1 - n)))"

text \<open>\<open>ReadBits\<close> fills a buffer from its end, at most eight bytes for each word.\<close>

primrec read_word :: "nat \<Rightarrow> u64 \<Rightarrow> nat \<times> bytes \<Rightarrow> nat \<times> bytes" where
  "read_word 0 d s = s"
| "read_word (Suc j) d s =
     (if fst s > 0 then read_word j (drop_bit 8 d) (fst s - 1, (snd s)[fst s - 1 := ucast d]) else s)"

definition ReadBits :: "int \<Rightarrow> bytes \<Rightarrow> bytes" where
  "ReadBits x buf = snd (fold (read_word 8) (big_Bits x) (length buf, buf))"

lemma words_nth: "i < length ws \<Longrightarrow> unat (ws ! i) = words_val ws div 2 ^ (64 * i) mod 2 ^ 64"
proof (induction ws arbitrary: i)
  case (Cons w ws)
  have w: "unat w < 2 ^ 64" using unsigned_less [of w, where ?'a = nat] by simp
  show ?case
  proof (cases i)
    case 0
    with w show ?thesis by simp
  next
    case (Suc j)
    have "words_val (w # ws) div 2 ^ (64 * i) = words_val (w # ws) div 2 ^ 64 div 2 ^ (64 * j)"
      by (simp only: Suc mult_Suc_right power_add div_mult2_eq)
    also have "words_val (w # ws) div 2 ^ 64 = words_val ws" using w by simp
    finally show ?thesis using Cons Suc by simp
  qed
qed simp

lemma words_val_less: "words_val ws < 2 ^ (64 * length ws)"
proof (induction ws)
  case (Cons w ws)
  have "unat w < 2 ^ 64" using unsigned_less [of w, where ?'a = nat] by simp
  with Cons have "unat w + 2 ^ 64 * words_val ws < 2 ^ 64 * 2 ^ (64 * length ws)" by simp
  then show ?case by (simp add: power_add)
qed simp

lemma unat_shifted_byte: "unat (ucast (drop_bit k (w :: u64)) :: byte) = unat w div 2 ^ k mod 256"
  by (simp only: unsigned_ucast_eq unat_drop_bit_div take_bit_eq_mod) simp

lemma bigEndianByteAt_eq: "bigEndianByteAt x n = word_of_nat (nat \<bar>x\<bar> div 256 ^ n)"
proof (cases "n div 8 < length (big_Bits x)")
  case True
  let ?N = "nat \<bar>x\<bar>" and ?k = "8 * (n mod 8)"
  have k: "64 * (n div 8) + ?k = 8 * n" and "?k + 8 \<le> 64" using mult_div_mod_eq [of 8 n] by linarith+
  then have "take_bit 8 (drop_bit ?k (take_bit 64 (drop_bit (64 * (n div 8)) ?N))) = take_bit 8 (drop_bit (8 * n) ?N)"
    by (simp add: drop_bit_take_bit min_def drop_bit_drop_bit add.commute flip: k)
  then have "unat (ucast (drop_bit ?k (big_Bits x ! (n div 8))) :: byte) = unat (word_of_nat (?N div 2 ^ (8 * n)) :: byte)"
    using words_nth [OF True] by (simp add: unat_shifted_byte unsigned_of_nat take_bit_eq_mod drop_bit_eq_div [where ?'a = nat])
  with True show ?thesis
    by (simp add: bigEndianByteAt_def Let_def word_unat_eq_iff power_mult)
next
  case False
  have "nat \<bar>x\<bar> < 2 ^ (64 * length (big_Bits x))" using words_val_less [of "big_Bits x"] by simp
  also have "\<dots> \<le> 2 ^ (8 * n)" using False by (intro power_increasing) simp_all
  finally have "nat \<bar>x\<bar> < 256 ^ n" by (simp add: power_mult)
  with False show ?thesis by (simp add: bigEndianByteAt_def Let_def)
qed

lemma be_fixed_add: "be_fixed (a + b) n = be_fixed a (n div 256 ^ b) @ be_fixed b n"
  by (induction b arbitrary: n) (simp_all add: div_mult2_eq)

lemma be_fixed_mod: "be_fixed k (n mod 256 ^ k) = be_fixed k n"
proof (induction k arbitrary: n)
  case (Suc k)
  have "n mod 256 ^ Suc k div 256 = n div 256 mod 256 ^ k"
    by (simp add: mod_mult2_eq)
  moreover have "n mod 256 ^ Suc k mod 256 = n mod 256" by (simp add: mod_mult2_eq)
  ultimately show ?case using Suc.IH [of "n div 256"] by simp
qed simp

lemma be_fixed_zero: "be_fixed k 0 = replicate k 0"
  by (induction k) (simp_all add: replicate_append_same)

lemma read_word_spec:
  assumes "i \<le> length buf" and "m = min i j"
  shows "read_word j d (i, buf) = (i - j, take (i - m) buf @ be_fixed m (unat d) @ drop i buf)"
  using assms
proof (induction j arbitrary: d i buf m)
  case (Suc j)
  show ?case
  proof (cases i)
    case (Suc i')
    let ?m = "min i' j"
    from Suc Suc.prems have "i' < length buf" by simp
    then have "drop i' (buf[i' := ucast d]) = ucast d # drop (Suc i') buf"
      by (simp add: Cons_nth_drop_Suc [symmetric])
    moreover have "ucast d = (word_of_nat (unat d mod 256) :: byte)"
      by (simp add: word_unat_eq_iff unsigned_ucast_eq unsigned_of_nat take_bit_eq_mod)
    moreover have "unat (drop_bit 8 d) = unat d div 256" by (simp add: unat_drop_bit_div)
    ultimately show ?thesis
      using Suc Suc.prems Suc.IH [of i' "buf[i' := ucast d]" ?m "drop_bit 8 d"] by simp
  qed (use Suc.prems in simp)
qed simp

lemma read_words_spec:
  assumes "i \<le> length buf" and "k = min i (8 * length ws)"
  shows "fold (read_word 8) ws (i, buf) =
    (i - 8 * length ws, take (i - k) buf @ be_fixed k (words_val ws) @ drop i buf)"
  using assms
proof (induction ws arbitrary: i buf k)
  case (Cons w ws)
  let ?buf = "take (i - min i 8) buf @ be_fixed (min i 8) (unat w) @ drop i buf"
  have step: "read_word 8 w (i, buf) = (i - 8, ?buf)" using Cons.prems(1) by (rule read_word_spec) simp
  let ?k = "min (i - 8) (8 * length ws)"
  have IH: "fold (read_word 8) ws (i - 8, ?buf) =
      (i - 8 - 8 * length ws, take (i - 8 - ?k) ?buf @ be_fixed ?k (words_val ws) @ drop (i - 8) ?buf)"
    using Cons.prems(1) by (intro Cons.IH) auto
  show ?case
  proof (cases "i < 8")
    case True
    have "be_fixed i (words_val (w # ws)) = be_fixed i (unat w)"
    proof -
      have "(2 :: nat) ^ 64 = 256 ^ i * 256 ^ (8 - i)" using True by (simp flip: power_add)
      then have "words_val (w # ws) = unat w + 256 ^ i * (256 ^ (8 - i) * words_val ws)"
        by (simp only: words_val_simps mult.assoc)
      then have "words_val (w # ws) mod 256 ^ i = unat w mod 256 ^ i" by (simp only: mod_mult_self2)
      then show ?thesis by (metis be_fixed_mod)
    qed
    with True IH step Cons.prems show ?thesis by simp
  next
    case False
    then have k: "k = ?k + 8" using Cons.prems by simp
    have w: "unat w < 2 ^ 64" using unsigned_less [of w, where ?'a = nat] by simp
    have "be_fixed k (words_val (w # ws)) = be_fixed ?k (words_val (w # ws) div 256 ^ 8) @ be_fixed 8 (words_val (w # ws))"
      unfolding k by (rule be_fixed_add)
    moreover have "words_val (w # ws) div 256 ^ 8 = words_val ws" using w by simp
    moreover have "be_fixed 8 (words_val (w # ws)) = be_fixed 8 (unat w)"
      using be_fixed_mod [of 8 "words_val (w # ws)"] be_fixed_mod [of 8 "unat w"] by simp
    ultimately show ?thesis using False IH step Cons.prems(1) k by (simp add: add.commute)
  qed
qed simp

lemma ReadBits_zeros: "ReadBits x (replicate n 0) = be_fixed n (nat \<bar>x\<bar>)"
proof -
  let ?N = "nat \<bar>x\<bar>" and ?l = "8 * length (big_Bits x)"
  have r: "ReadBits x (replicate n 0) = replicate (n - min n ?l) 0 @ be_fixed (min n ?l) ?N"
    by (simp add: ReadBits_def read_words_spec)
  show ?thesis
  proof (cases "n \<le> ?l")
    case False
    have "?N < 256 ^ ?l" using words_val_less [of "big_Bits x"] by (simp add: power_mult)
    with r False be_fixed_add [of "n - ?l" ?l ?N] show ?thesis by (simp add: be_fixed_zero)
  qed (use r in simp)
qed

lemma math_Byte_eq:
  "n < 32 \<Longrightarrow> math_Byte (uint (w :: 256 word)) 32 (int n) = ucast (drop_bit (8 * (31 - n)) w)"
proof -
  assume n: "n < 32"
  have "unat (ucast (drop_bit (8 * (31 - n)) w) :: byte) = unat w div 2 ^ (8 * (31 - n)) mod 256"
    by (simp only: unsigned_ucast_eq unat_drop_bit_div take_bit_eq_mod) simp
  with n show ?thesis
    by (simp add: math_Byte_def bigEndianByteAt_eq word_unat_eq_iff unsigned_of_nat take_bit_eq_mod power_mult nat_diff_distrib)
qed

section \<open>Checked 64-bit arithmetic\<close>

definition SafeSub :: "u64 \<Rightarrow> u64 \<Rightarrow> u64 \<times> bool" where
  "SafeSub x y = (x - y, x < y)"

definition SafeAdd :: "u64 \<Rightarrow> u64 \<Rightarrow> u64 \<times> bool" where
  "SafeAdd x y = (x + y, y > - 1 - x)"

definition SafeMul :: "u64 \<Rightarrow> u64 \<Rightarrow> u64 \<times> bool" where
  "SafeMul x y = (if x = 0 \<or> y = 0 then (0, False) else (x * y, y > - 1 div x))"

lemma unat_minus_one_u64 [simp]: "unat (- 1 :: u64) = 2 ^ 64 - 1"
  by (simp add: unsigned_minus_1_eq_mask mask_eq_exp_minus_1)

lemma SafeAdd_overflow_iff: "snd (SafeAdd x y) \<longleftrightarrow> 2 ^ 64 \<le> unat x + unat y"
proof -
  have "unat (- 1 - x) = 2 ^ 64 - 1 - unat x"
    using unat_sub_if' [of "- 1" x] unsigned_less [of x, where ?'a = nat] by simp
  then show ?thesis using unsigned_less [of x, where ?'a = nat] by (auto simp: SafeAdd_def word_less_nat_alt)
qed

lemma SafeMul_overflow_iff: "snd (SafeMul x y) \<longleftrightarrow> 2 ^ 64 \<le> unat x * unat y"
proof (cases "x = 0 \<or> y = 0")
  case False
  then have "0 < unat x" by (simp add: unat_gt_0)
  then have "(2 ^ 64 - 1) div unat x < unat y \<longleftrightarrow> 2 ^ 64 - 1 < unat x * unat y"
    by (simp only: div_less_iff_less_mult mult.commute)
  with False show ?thesis by (auto simp: SafeMul_def word_less_nat_alt unat_div)
qed (auto simp: SafeMul_def)

lemma SafeAdd_unat: "\<not> snd (SafeAdd x y) \<Longrightarrow> unat (fst (SafeAdd x y)) = unat x + unat y"
  unfolding SafeAdd_overflow_iff by (simp add: SafeAdd_def unat_word_ariths)

lemma SafeMul_unat: "\<not> snd (SafeMul x y) \<Longrightarrow> unat (fst (SafeMul x y)) = unat x * unat y"
  unfolding SafeMul_overflow_iff by (auto simp: SafeMul_def unat_word_ariths)

section \<open>Data\<close>

text \<open>\<open>data[i:j]\<close>.\<close>

definition subslice :: "nat \<Rightarrow> nat \<Rightarrow> 'a list \<Rightarrow> err + 'a list" where
  "subslice i j xs = (if i \<le> j \<and> j \<le> length xs then Inr (take (j - i) (drop i xs)) else Inl Panic)"

text \<open>
  \<open>make([]byte, l)\<close>: the runtime panics when \<open>l\<close> is negative or above its address space, which has \<open>2 ^ 48\<close>
  bytes on the 64-bit platforms.  Running out of memory below that ends the process and is not modelled.
\<close>

definition make_bytes :: "int \<Rightarrow> err + bytes" where
  "make_bytes l = (if 0 \<le> l \<and> l \<le> 2 ^ 48 then Inr (replicate (nat l) 0) else Inl Panic)"

definition RightPadBytes :: "bytes \<Rightarrow> int \<Rightarrow> err + bytes" where
  "RightPadBytes b l =
     (if l \<le> int (length b) then Inr b
      else res_bind (make_bytes l) (\<lambda>padded. Inr (b @ drop (length b) padded)))"

definition LeftPadBytes :: "bytes \<Rightarrow> int \<Rightarrow> err + bytes" where
  "LeftPadBytes b l =
     (if l \<le> int (length b) then Inr b
      else res_bind (make_bytes l) (\<lambda>padded. Inr (take (nat l - length b) padded @ b)))"

lemma RightPad_eq: "l \<le> 2 ^ 48 \<Longrightarrow> RightPadBytes b l = Inr (b @ replicate (nat l - length b) 0)"
  by (auto simp: RightPadBytes_def make_bytes_def nat_le_iff)

lemma LeftPad_eq: "l \<le> 2 ^ 48 \<Longrightarrow> LeftPadBytes b l = Inr (replicate (nat l - length b) 0 @ b)"
  by (auto simp: LeftPadBytes_def make_bytes_def nat_le_iff min_def)

lemma Pad_no_fuel [simp]: "RightPadBytes b l \<noteq> Inl NoFuel" "LeftPadBytes b l \<noteq> Inl NoFuel"
  by (auto simp: RightPadBytes_def LeftPadBytes_def make_bytes_def)

definition calcMemSize :: "int \<Rightarrow> int \<Rightarrow> int" where
  "calcMemSize off l = (if l = 0 then 0 else off + l)"

definition getData :: "bytes \<Rightarrow> u64 \<Rightarrow> u64 \<Rightarrow> err + bytes" where
  "getData data start sz =
     (let len = (word_of_nat (length data) :: u64);
          start = (if start > len then len else start);
          e = start + sz;
          e = (if e > len then len else e)
      in res_bind (subslice (unat start) (unat e) data) (\<lambda>d. RightPadBytes d (sint sz)))"

definition getDataBig :: "bytes \<Rightarrow> int \<Rightarrow> int \<Rightarrow> err + bytes" where
  "getDataBig data start sz =
     (let dlen = int (length data);
          s = BigMin start dlen;
          e = BigMin (s + sz) dlen
      in res_bind (subslice (unat (big_Uint64 s)) (unat (big_Uint64 e)) data)
           (\<lambda>d. RightPadBytes d (sint (big_Uint64 sz))))"

definition bigUint64 :: "int \<Rightarrow> u64 \<times> bool" where
  "bigUint64 v = (big_Uint64 v, BitLen v > 64)"

definition toWordSize :: "u64 \<Rightarrow> u64" where
  "toWordSize sz = (if sz > - 1 - 31 then - 1 div 32 + 1 else (sz + 31) div 32)"

definition allZero :: "bytes \<Rightarrow> bool" where
  "allZero b = list_all (\<lambda>x. x = 0) b"

lemma toWordSize_ceil: "unat (toWordSize sz) = (unat sz + 31) div 32"
proof (cases "sz > - 1 - 31")
  case True
  then have "2 ^ 64 - 32 < unat sz" by (simp add: word_less_nat_alt)
  moreover have "unat sz < 2 ^ 64" using unsigned_less [of sz, where ?'a = nat] by simp
  ultimately have "(unat sz + 31) div 32 = 2 ^ 59" by (simp add: div_nat_eqI)
  with True show ?thesis by (simp add: toWordSize_def)
next
  case False
  then have "unat sz \<le> 2 ^ 64 - 32" by (simp add: word_less_nat_alt not_less)
  then have "unat (sz + 31) = unat sz + 31" by (simp add: unat_word_ariths)
  with False show ?thesis by (simp add: toWordSize_def unat_div)
qed

text \<open>What a caller that stays in range reads: the data from the offset, filled up with zeros.\<close>

lemma getDataBig_eq:
  assumes "0 \<le> start" and "0 \<le> sz" and "sz \<le> 2 ^ 48" and "length data < 2 ^ 63"
  shows "getDataBig data start sz = Inr (take (nat sz) (drop (nat start) data @ replicate (nat sz) 0))"
proof -
  let ?n = "int (length data)"
  have u: "0 \<le> x \<Longrightarrow> x < 2 ^ 64 \<Longrightarrow> unat (big_Uint64 x) = nat x" for x
    by (simp add: big_Uint64_def unsigned_of_int take_bit_int_eq_self)
  have s: "sint (big_Uint64 sz) = sz"
    using assms(2,3) by (simp add: big_Uint64_def signed_of_int signed_take_bit_int_eq_self)
  define a where "a = BigMin start ?n"
  define b where "b = BigMin (a + sz) ?n"
  have ab: "0 \<le> a" "a \<le> b" "b \<le> ?n" using assms(1,2) by (auto simp: a_def b_def BigMin_def)
  then have "unat (big_Uint64 a) = nat a" "unat (big_Uint64 b) = nat b" using assms(4) by (simp_all add: u)
  then have r: "getDataBig data start sz = Inr (take (nat b - nat a) (drop (nat a) data) @
      replicate (nat sz - length (take (nat b - nat a) (drop (nat a) data))) 0)"
    using ab assms(3) by (simp add: RightPad_eq getDataBig_def Let_def subslice_def s nat_mono nat_le_iff flip: a_def b_def)
  show ?thesis
  proof (cases "start \<ge> ?n")
    case True
    then have "a = ?n" "b = ?n" using assms(2) by (auto simp: a_def b_def BigMin_def)
    with r True show ?thesis by simp
  next
    case False
    then have a: "a = start" by (simp add: a_def BigMin_def)
    show ?thesis
    proof (cases "start + sz \<le> ?n")
      case True
      then have "b = start + sz" by (simp add: a b_def BigMin_def)
      with r a True assms(1,2) show ?thesis by (simp add: nat_add_distrib)
    next
      case False
      then have "b = ?n" by (simp add: a b_def BigMin_def)
      with r a False \<open>\<not> start \<ge> ?n\<close> assms(1,2) show ?thesis
        by (simp add: nat_diff_distrib)
    qed
  qed
qed

end
