(* ===== verification/EVM_Arith.thy ===== *)
theory EVM_Arith
  imports EVM_Math "HOL-Library.Signed_Division"
begin

text \<open>
  The arithmetic, comparison and bit instructions of \<open>src/sdag/core/vm/instructions.go\<close> on the operand
  stack, and the proof that on 256-bit operands they are the operations of a 256-bit machine.  A stack is
  the list of its items, top first; an operation that would pop an empty stack (an index out of range in
  Go) has the value \<open>None\<close>.
\<close>

section \<open>Big integer division\<close>

text \<open>\<open>big.Int.Div\<close> and \<open>Mod\<close> are Euclidean: the remainder is not negative.  The callers exclude zero.\<close>

definition big_Div :: "int \<Rightarrow> int \<Rightarrow> int" where
  "big_Div x y = sgn y * (x div \<bar>y\<bar>)"

definition big_Mod :: "int \<Rightarrow> int \<Rightarrow> int" where
  "big_Mod x y = x mod \<bar>y\<bar>"

definition big_Int64 :: "int \<Rightarrow> int" where
  "big_Int64 x = sint (word_of_int x :: u64)"

section \<open>Instructions\<close>

type_synonym stack_op = "int list \<Rightarrow> int list option"

fun opAdd :: stack_op where
  "opAdd (x # y # st) = Some (U256 (x + y) # st)"
| "opAdd _ = None"

fun opSub :: stack_op where
  "opSub (x # y # st) = Some (U256 (x - y) # st)"
| "opSub _ = None"

fun opMul :: stack_op where
  "opMul (x # y # st) = Some (U256 (x * y) # st)"
| "opMul _ = None"

fun opDiv :: stack_op where
  "opDiv (x # y # st) = Some ((if y \<noteq> 0 then U256 (big_Div x y) else 0) # st)"
| "opDiv _ = None"

fun opSdiv :: stack_op where
  "opSdiv (a # b # st) =
     (let x = S256 a; y = S256 b in
      if y = 0 \<or> x = 0 then Some (0 # st)
      else
        let res = (if sgn x \<noteq> sgn y then - big_Div \<bar>x\<bar> \<bar>y\<bar> else big_Div \<bar>x\<bar> \<bar>y\<bar>)
        in Some (U256 res # st))"
| "opSdiv _ = None"

fun opMod :: stack_op where
  "opMod (x # y # st) = Some ((if y = 0 then 0 else U256 (big_Mod x y)) # st)"
| "opMod _ = None"

fun opSmod :: stack_op where
  "opSmod (a # b # st) =
     (let x = S256 a; y = S256 b in
      if y = 0 then Some (0 # st)
      else
        let res = (if x < 0 then - big_Mod \<bar>x\<bar> \<bar>y\<bar> else big_Mod \<bar>x\<bar> \<bar>y\<bar>)
        in Some (U256 res # st))"
| "opSmod _ = None"

fun opExp :: stack_op where
  "opExp (base # exponent # st) =
     Some ((if exponent < 1 then 1
            else if base = 0 then 0
            else if exponent = 1 then base
            else Exp base exponent) # st)"
| "opExp _ = None"

text \<open>From 31 on \<open>opSignExtend\<close> leaves the second item where it is.\<close>

fun opSignExtend :: stack_op where
  "opSignExtend (back # st) =
     (if back < 31 then
        case st of
          [] \<Rightarrow> None
        | num # st \<Rightarrow>
            (let k = unat (big_Uint64 back * 8 + 7);
                 mask = push_bit k 1 - 1
             in Some (U256 (if bit num k then num OR NOT mask else num AND mask) # st))
      else Some st)"
| "opSignExtend _ = None"

fun opNot :: stack_op where
  "opNot (x # st) = Some (U256 (NOT x) # st)"
| "opNot _ = None"

fun opLt :: stack_op where
  "opLt (x # y # st) = Some ((if x < y then 1 else 0) # st)"
| "opLt _ = None"

fun opGt :: stack_op where
  "opGt (x # y # st) = Some ((if x > y then 1 else 0) # st)"
| "opGt _ = None"

fun opSlt :: stack_op where
  "opSlt (x # y # st) =
     Some ((if x \<ge> tt255 \<and> y < tt255 then 1
            else if x < tt255 \<and> y \<ge> tt255 then 0
            else if x < y then 1 else 0) # st)"
| "opSlt _ = None"

fun opSgt :: stack_op where
  "opSgt (x # y # st) =
     Some ((if x \<ge> tt255 \<and> y < tt255 then 0
            else if x < tt255 \<and> y \<ge> tt255 then 1
            else if x > y then 1 else 0) # st)"
| "opSgt _ = None"

fun opEq :: stack_op where
  "opEq (x # y # st) = Some ((if x = y then 1 else 0) # st)"
| "opEq _ = None"

fun opIszero :: stack_op where
  "opIszero (x # st) = Some ((if x > 0 then 0 else 1) # st)"
| "opIszero _ = None"

fun opAnd :: stack_op where
  "opAnd (x # y # st) = Some ((x AND y) # st)"
| "opAnd _ = None"

fun opOr :: stack_op where
  "opOr (x # y # st) = Some ((x OR y) # st)"
| "opOr _ = None"

fun opXor :: stack_op where
  "opXor (x # y # st) = Some ((x XOR y) # st)"
| "opXor _ = None"

fun opByte :: stack_op where
  "opByte (th # val # st) = Some ((if th < 32 then uint (math_Byte val 32 (big_Int64 th)) else 0) # st)"
| "opByte _ = None"

fun opAddmod :: stack_op where
  "opAddmod (x # y # z # st) = Some ((if z > 0 then U256 (big_Mod (x + y) z) else 0) # st)"
| "opAddmod _ = None"

fun opMulmod :: stack_op where
  "opMulmod (x # y # z # st) = Some ((if z > 0 then U256 (big_Mod (x * y) z) else 0) # st)"
| "opMulmod _ = None"

fun opSHL :: stack_op where
  "opSHL (a # b # st) =
     (let shift = U256 a; val = U256 b in
      Some ((if shift \<ge> 256 then 0 else U256 (push_bit (unat (big_Uint64 shift)) val)) # st))"
| "opSHL _ = None"

fun opSHR :: stack_op where
  "opSHR (a # b # st) =
     (let shift = U256 a; val = U256 b in
      Some ((if shift \<ge> 256 then 0 else U256 (drop_bit (unat (big_Uint64 shift)) val)) # st))"
| "opSHR _ = None"

fun opSAR :: stack_op where
  "opSAR (a # b # st) =
     (let shift = U256 a; val = S256 b in
      Some (U256 (if shift \<ge> 256 then (if val \<ge> 0 then 0 else - 1) else drop_bit (unat (big_Uint64 shift)) val) # st))"
| "opSAR _ = None"

fun opPop :: stack_op where
  "opPop (x # st) = Some st"
| "opPop _ = None"

text \<open>\<open>makeDup n\<close> copies the \<open>n\<close>th item, \<open>makeSwap n\<close> exchanges the top with the item \<open>n\<close> below it.\<close>

definition makeDup :: "nat \<Rightarrow> stack_op" where
  "makeDup n st = (if n - 1 < length st then Some (st ! (n - 1) # st) else None)"

definition makeSwap :: "nat \<Rightarrow> stack_op" where
  "makeSwap n st = (if n < length st then Some (st[0 := st ! n, n := st ! 0]) else None)"

section \<open>A 256-bit machine\<close>

lemma uint_lt_iff: "uint x < uint y \<longleftrightarrow> x < (y :: 256 word)" "uint x \<le> uint y \<longleftrightarrow> x \<le> y"
  by (simp_all add: word_less_def word_le_def)

lemma U256_uint [simp]: "U256 (uint (x :: 256 word)) = uint x"
  by (simp add: U256_id)

lemma big_Uint64_uint: "x < (2 ^ 64 :: 256 word) \<Longrightarrow> unat (big_Uint64 (uint x)) = unat x"
proof -
  assume "x < 2 ^ 64"
  then have "unat x < 2 ^ 64" by (simp add: word_less_nat_alt)
  moreover have "big_Uint64 (uint x) = ucast x" by (simp add: big_Uint64_def)
  ultimately show ?thesis by (simp add: unsigned_ucast_eq take_bit_nat_eq_self)
qed

lemma uint_pos_iff: "0 < uint (x :: 256 word) \<longleftrightarrow> x \<noteq> 0"
  by (metis order_less_le uint_0_iff unsigned_greater_eq)

lemma uint_power: "uint (x ^ n :: 256 word) = uint x ^ n mod tt256"
proof (induction n)
  case (Suc n)
  have "uint (x ^ Suc n) = uint x * uint (x ^ n) mod tt256" by (simp add: uint_word_ariths tt256_def)
  with Suc show ?case by (simp add: mod_mult_right_eq)
qed simp

lemma alu_ring:
  fixes x y :: "256 word"
  shows "opAdd (uint x # uint y # st) = Some (uint (x + y) # st)"
    and "opSub (uint x # uint y # st) = Some (uint (x - y) # st)"
    and "opMul (uint x # uint y # st) = Some (uint (x * y) # st)"
  by (simp_all add: U256_word)

lemma alu_bits:
  fixes x y :: "256 word"
  shows "opNot (uint x # st) = Some (uint (NOT x) # st)"
    and "opAnd (uint x # uint y # st) = Some (uint (x AND y) # st)"
    and "opOr (uint x # uint y # st) = Some (uint (x OR y) # st)"
    and "opXor (uint x # uint y # st) = Some (uint (x XOR y) # st)"
  by (simp_all add: U256_word unsigned_and_eq unsigned_or_eq unsigned_xor_eq of_int_not_eq)

lemma alu_div:
  fixes x y :: "256 word"
  shows "opDiv (uint x # uint y # st) = Some (uint (x div y) # st)"
    and "opMod (uint x # uint y # st) = Some (uint (if y = 0 then 0 else x mod y) # st)"
proof -
  have "big_Div (uint x) (uint y) = uint (x div y)" "big_Mod (uint x) (uint y) = uint (x mod y)"
    by (cases "y = 0"; simp add: big_Div_def big_Mod_def uint_div uint_mod sgn_if uint_lt_0 order_less_le)+
  then show "opDiv (uint x # uint y # st) = Some (uint (x div y) # st)"
    and "opMod (uint x # uint y # st) = Some (uint (if y = 0 then 0 else x mod y) # st)"
    by (auto simp: uint_0_iff)
qed

lemma sdiv_sign: "(x :: int) sdiv y = (if y = 0 \<or> x = 0 then 0 else if sgn x \<noteq> sgn y then - (\<bar>x\<bar> div \<bar>y\<bar>) else \<bar>x\<bar> div \<bar>y\<bar>)"
  by (auto simp: signed_divide_int_def sgn_if)

lemma smod_sign: "y \<noteq> 0 \<Longrightarrow> (x :: int) smod y = (if x < 0 then - (\<bar>x\<bar> mod \<bar>y\<bar>) else \<bar>x\<bar> mod \<bar>y\<bar>)"
  by (auto simp: signed_modulo_int_def signed_divide_int_def sgn_if minus_mult_div_eq_mod [symmetric] algebra_simps)

lemma alu_signed_div:
  fixes x y :: "256 word"
  shows "opSdiv (uint x # uint y # st) = Some (uint (word_of_int (sint x sdiv sint y) :: 256 word) # st)"
    and "opSmod (uint x # uint y # st) = Some (uint (if y = 0 then 0 else word_of_int (sint x smod sint y) :: 256 word) # st)"
  by (simp_all add: S256_word U256_word sdiv_sign smod_sign big_Div_def big_Mod_def Let_def signed_eq_0_iff)

lemma S256_less:
  "0 \<le> a \<Longrightarrow> a < tt256 \<Longrightarrow> 0 \<le> b \<Longrightarrow> b < tt256 \<Longrightarrow>
   S256 a < S256 b \<longleftrightarrow> (if a \<ge> tt255 \<and> b < tt255 then True else if a < tt255 \<and> b \<ge> tt255 then False else a < b)"
  by (auto simp: S256_def tt255_double)

lemma alu_compare:
  fixes x y :: "256 word"
  shows "opLt (uint x # uint y # st) = Some (uint (of_bool (x < y) :: 256 word) # st)"
    and "opGt (uint x # uint y # st) = Some (uint (of_bool (x > y) :: 256 word) # st)"
    and "opEq (uint x # uint y # st) = Some (uint (of_bool (x = y) :: 256 word) # st)"
    and "opIszero (uint x # st) = Some (uint (of_bool (x = 0) :: 256 word) # st)"
    and "opSlt (uint x # uint y # st) = Some (uint (of_bool (x <s y) :: 256 word) # st)"
    and "opSgt (uint x # uint y # st) = Some (uint (of_bool (y <s x) :: 256 word) # st)"
proof -
  have s: "x <s y \<longleftrightarrow> S256 (uint x) < S256 (uint y)" "y <s x \<longleftrightarrow> S256 (uint y) < S256 (uint x)"
    by (simp_all add: S256_word word_sless_alt)
  show "opSlt (uint x # uint y # st) = Some (uint (of_bool (x <s y) :: 256 word) # st)"
    and "opSgt (uint x # uint y # st) = Some (uint (of_bool (y <s x) :: 256 word) # st)"
    unfolding s by (auto simp: S256_less)
qed (auto simp: uint_lt_iff uint_pos_iff simp flip: word_uint_eq_iff)

lemma alu_modular:
  fixes x y z :: "256 word"
  shows "opAddmod (uint x # uint y # uint z # st) = Some (uint (word_of_int ((uint x + uint y) mod uint z) :: 256 word) # st) \<or> z = 0"
    and "opMulmod (uint x # uint y # uint z # st) = Some (uint (word_of_int ((uint x * uint y) mod uint z) :: 256 word) # st) \<or> z = 0"
    and "opAddmod (uint x # uint y # uint (0 :: 256 word) # st) = Some (0 # st)"
    and "opMulmod (uint x # uint y # uint (0 :: 256 word) # st) = Some (0 # st)"
  by (auto simp: U256_word big_Mod_def uint_0_iff order_less_le)

lemma alu_exp:
  fixes x y :: "256 word"
  shows "opExp (uint x # uint y # st) = Some (uint (x ^ unat y) # st)"
proof -
  have "Exp (uint x) (uint y) = uint (x ^ unat y)"
    by (simp add: Exp_mod uint_power flip: unat_eq_nat_uint)
  moreover have "uint y < 1 \<longleftrightarrow> y = 0" using uint_pos_iff [of y] by linarith
  moreover have "uint y = 1 \<Longrightarrow> y = 1" by (simp add: word_uint_eq_iff)
  moreover have "y \<noteq> 0 \<Longrightarrow> (0 :: 256 word) ^ unat y = 0" by (simp add: zero_power unat_gt_0)
  ultimately show ?thesis by (auto simp: uint_0_iff)
qed

lemma bit_mask_extend:
  "(if bit x k then x OR NOT (2 ^ k - 1) else x AND (2 ^ k - 1)) = signed_take_bit k (x :: int)"
proof -
  have "2 ^ k - (1 :: int) = mask k" by (simp add: mask_eq_exp_minus_1)
  then show ?thesis
    by (auto simp: signed_take_bit_def bit_simps intro!: bit_eqI)
qed

lemma word_of_int_signed_take_bit: "word_of_int (signed_take_bit k (uint y)) = signed_take_bit k (y :: 256 word)"
  by (rule bit_word_eqI) (simp add: bit_simps)

lemma alu_signextend:
  fixes x y :: "256 word"
  shows "opSignExtend (uint x # uint y # st) =
    Some (uint (if x < 31 then signed_take_bit (8 * unat x + 7) y else y) # st)"
proof (cases "x < 31")
  case True
  then have "uint x < 31" by (simp add: word_less_def)
  moreover from True have "unat x < 31" by (simp add: word_less_nat_alt)
  moreover from True have "unat (big_Uint64 (uint x)) = unat x"
    by (intro big_Uint64_uint) (simp add: word_less_nat_alt)
  ultimately have "unat (big_Uint64 (uint x) * 8 + 7) = 8 * unat x + 7" by (simp add: unat_word_ariths)
  with True \<open>uint x < 31\<close> show ?thesis
    using bit_mask_extend [of "uint y" "8 * unat x + 7"]
    by (simp add: Let_def U256_word word_of_int_signed_take_bit split: if_splits)
qed (simp add: word_less_def)

lemma alu_shift:
  fixes x y :: "256 word"
  shows "opSHL (uint x # uint y # st) = Some (uint (if x \<ge> 256 then 0 else push_bit (unat x) y) # st)"
    and "opSHR (uint x # uint y # st) = Some (uint (if x \<ge> 256 then 0 else drop_bit (unat x) y) # st)"
    and "opSAR (uint x # uint y # st) =
           Some (uint (if x \<ge> 256 then (if 0 \<le>s y then 0 else - 1) else signed_drop_bit (unat x) y) # st)"
proof -
  have big: "uint x \<ge> 256 \<longleftrightarrow> x \<ge> 256" by (simp add: word_le_def)
  have n: "\<not> x \<ge> 256 \<Longrightarrow> unat (big_Uint64 (uint x)) = unat x"
    by (intro big_Uint64_uint) (simp add: word_less_nat_alt word_le_nat_alt)
  have "word_of_int (push_bit k (uint y)) = push_bit k y" for k
    by (rule bit_word_eqI) (auto simp: bit_simps)
  then show "opSHL (uint x # uint y # st) = Some (uint (if x \<ge> 256 then 0 else push_bit (unat x) y) # st)"
    by (simp add: Let_def big n U256_word)
  have "drop_bit k (uint y) = uint (drop_bit k y)" for k
    by (rule bit_eqI) (auto simp: bit_simps dest: bit_imp_le_length)
  then show "opSHR (uint x # uint y # st) = Some (uint (if x \<ge> 256 then 0 else drop_bit (unat x) y) # st)"
    by (simp add: Let_def big n)
  have "word_of_int (drop_bit k (sint y)) = signed_drop_bit k y" for k
    by (simp flip: sint_signed_drop_bit_eq)
  then show "opSAR (uint x # uint y # st) =
      Some (uint (if x \<ge> 256 then (if 0 \<le>s y then 0 else - 1) else signed_drop_bit (unat x) y) # st)"
    by (simp add: Let_def big n U256_word S256_word word_sle_eq)
qed

lemma alu_byte:
  fixes x y :: "256 word"
  shows "opByte (uint x # uint y # st) =
    Some (uint (if x < 32 then take_bit 8 (drop_bit (8 * (31 - unat x)) y) else 0) # st)"
proof (cases "x < 32")
  case True
  then have x: "uint x < 32" by (simp add: word_less_def)
  from True have n: "unat x < 32" by (simp add: word_less_nat_alt)
  have "- (2 ^ 63) \<le> uint x" by (rule order_trans [of _ 0]) simp_all
  then have "big_Int64 (uint x) = int (unat x)"
    unfolding big_Int64_def signed_of_int using x by (simp add: signed_take_bit_int_eq_self)
  with True x math_Byte_eq [OF n, of y] show ?thesis
    by (simp add: unsigned_ucast_eq unsigned_take_bit_eq)
qed (simp add: word_less_def)

end
