(* ===== verification/EVM_State.thy ===== *)
theory EVM_State
  imports EVM_Arith State_DB
begin

text \<open>
  The state of the virtual machine (\<open>src/sdag/core/vm\<close>): errors, chain rules (\<open>src/params/ethconfig.go\<close>
  and \<open>gas_table.go\<close>), memory (\<open>memory.go\<close>), jump destination analysis (\<open>analysis.go\<close>), contracts
  (\<open>contract.go\<close>), the machine and its call frames (\<open>evm.go\<close>, \<open>interpreter.go\<close>).  Tracing is off, and
  the machine is not cancelled from outside.  The pool of reusable integers (\<open>intpool.go\<close>) has no
  counterpart: an integer is put back only when nothing refers to it.
\<close>

datatype vm_error =
    ErrOutOfGas | ErrCodeStoreOutOfGas | ErrDepth | ErrInsufficientBalance | ErrContractAddressCollision
  | errGasUintOverflow | errWriteProtection | errReturnDataOutOfBounds | errExecutionReverted
  | errMaxCodeSizeExceeded | InvalidOpcode byte | StackUnderflow | StackLimitReached | InvalidJump
  | PrecompileErr string

section \<open>Chain rules\<close>

record ChainConfig =
  HomesteadBlock :: "int option"
  EIP150Block :: "int option"
  EIP158Block :: "int option"
  ByzantiumBlock :: "int option"
  ConstantinopleBlock :: "int option"

definition isForked :: "int option \<Rightarrow> int \<Rightarrow> bool" where
  "isForked s head = (case s of None \<Rightarrow> False | Some n \<Rightarrow> n \<le> head)"

definition MainnetChainConfig :: ChainConfig where
  "MainnetChainConfig =
     \<lparr>HomesteadBlock = Some 0, EIP150Block = Some 0, EIP158Block = Some 0, ByzantiumBlock = Some 0,
      ConstantinopleBlock = Some 0\<rparr>"

definition TestnetChainConfig :: ChainConfig where
  "TestnetChainConfig =
     \<lparr>HomesteadBlock = Some 0, EIP150Block = Some 0, EIP158Block = Some 0, ByzantiumBlock = Some 0,
      ConstantinopleBlock = Some 0\<rparr>"

record GasTable =
  gtExtcodeSize :: u64
  gtExtcodeCopy :: u64
  gtExtcodeHash :: u64
  gtBalance :: u64
  gtSLoad :: u64
  gtCalls :: u64
  gtSuicide :: u64
  gtExpByte :: u64
  gtCreateBySuicide :: u64

definition GasTableHomestead :: GasTable where
  "GasTableHomestead =
     \<lparr>gtExtcodeSize = 20, gtExtcodeCopy = 20, gtExtcodeHash = 0, gtBalance = 20, gtSLoad = 50, gtCalls = 40,
      gtSuicide = 0, gtExpByte = 10, gtCreateBySuicide = 0\<rparr>"

definition GasTableEIP150 :: GasTable where
  "GasTableEIP150 =
     \<lparr>gtExtcodeSize = 700, gtExtcodeCopy = 700, gtExtcodeHash = 0, gtBalance = 400, gtSLoad = 200, gtCalls = 700,
      gtSuicide = 5000, gtExpByte = 10, gtCreateBySuicide = 25000\<rparr>"

definition GasTableEIP158 :: GasTable where
  "GasTableEIP158 =
     \<lparr>gtExtcodeSize = 700, gtExtcodeCopy = 700, gtExtcodeHash = 0, gtBalance = 400, gtSLoad = 200, gtCalls = 700,
      gtSuicide = 5000, gtExpByte = 50, gtCreateBySuicide = 25000\<rparr>"

definition GasTableConstantinople :: GasTable where
  "GasTableConstantinople =
     \<lparr>gtExtcodeSize = 700, gtExtcodeCopy = 700, gtExtcodeHash = 400, gtBalance = 400, gtSLoad = 200, gtCalls = 700,
      gtSuicide = 5000, gtExpByte = 50, gtCreateBySuicide = 25000\<rparr>"

definition config_GasTable :: "ChainConfig \<Rightarrow> int \<Rightarrow> GasTable" where
  "config_GasTable c num =
     (if isForked (ConstantinopleBlock c) num then GasTableConstantinople
      else if isForked (EIP158Block c) num then GasTableEIP158
      else if isForked (EIP150Block c) num then GasTableEIP150
      else GasTableHomestead)"

section \<open>Memory\<close>

record Memory =
  mStore :: bytes
  lastGasCost :: u64

definition NewMemory :: Memory where
  "NewMemory = \<lparr>mStore = [], lastGasCost = 0\<rparr>"

text \<open>\<open>copy(m.store[offset:offset+size], value)\<close>; both bounds are 64-bit sums.\<close>

definition mem_write :: "nat \<Rightarrow> bytes \<Rightarrow> bytes \<Rightarrow> bytes" where
  "mem_write off b st = take off st @ b @ drop (off + length b) st"

definition mem_Set :: "u64 \<Rightarrow> u64 \<Rightarrow> bytes \<Rightarrow> Memory \<Rightarrow> err + Memory" where
  "mem_Set offset sz val m =
     (if sz > 0 then
        if offset + sz > word_of_nat (length (mStore m)) \<or> offset > offset + sz then Inl Panic
        else Inr (m\<lparr>mStore := mem_write (unat offset) (take (unat sz) val) (mStore m)\<rparr>)
      else Inr m)"

definition mem_Set32 :: "u64 \<Rightarrow> int \<Rightarrow> Memory \<Rightarrow> err + Memory" where
  "mem_Set32 offset val m =
     (if offset + 32 > word_of_nat (length (mStore m)) \<or> offset > offset + 32 then Inl Panic
      else Inr (m\<lparr>mStore := mem_write (unat offset) (ReadBits val (replicate 32 0)) (mStore m)\<rparr>))"

definition mem_Resize :: "u64 \<Rightarrow> Memory \<Rightarrow> Memory" where
  "mem_Resize sz m =
     (if word_of_nat (length (mStore m)) < sz
      then m\<lparr>mStore := mStore m @ replicate (unat (sz - word_of_nat (length (mStore m)))) 0\<rparr> else m)"

text \<open>\<open>Get\<close> copies and \<open>GetPtr\<close> refers to the memory of a frame that is done with it; the bytes are the same.\<close>

definition mem_Get :: "int \<Rightarrow> int \<Rightarrow> Memory \<Rightarrow> err + bytes" where
  "mem_Get offset sz m =
     (if sz = 0 then Inr []
      else if int (length (mStore m)) > offset then
        if 0 \<le> offset \<and> 0 \<le> sz then subslice (nat offset) (nat (offset + sz)) (mStore m) else Inl Panic
      else Inr [])"

definition mem_GetPtr :: "int \<Rightarrow> int \<Rightarrow> Memory \<Rightarrow> err + bytes" where
  "mem_GetPtr offset sz m =
     (if sz = 0 then Inr []
      else if int (length (mStore m)) > offset then
        if 0 \<le> offset \<and> 0 \<le> sz then subslice (nat offset) (nat (offset + sz)) (mStore m) else Inl Panic
      else Inr [])"

section \<open>Jump destinations\<close>

abbreviation (input) PUSH1 :: byte where "PUSH1 \<equiv> 0x60"
abbreviation (input) PUSH32 :: byte where "PUSH32 \<equiv> 0x7f"
abbreviation (input) JUMPDEST :: byte where "JUMPDEST \<equiv> 0x5b"

type_synonym bitvec = bytes

definition bits_or :: "nat \<Rightarrow> byte \<Rightarrow> bitvec \<Rightarrow> err + bitvec" where
  "bits_or i b bits = (if i < length bits then Inr (bits[i := bits ! i OR b]) else Inl Panic)"

definition bits_set :: "nat \<Rightarrow> bitvec \<Rightarrow> err + bitvec" where
  "bits_set pos bits = bits_or (pos div 8) (drop_bit (pos mod 8) 0x80) bits"

definition bits_set8 :: "nat \<Rightarrow> bitvec \<Rightarrow> err + bitvec" where
  "bits_set8 pos bits =
     res_bind (bits_or (pos div 8) (drop_bit (pos mod 8) 0xFF) bits)
       (bits_or (pos div 8 + 1) (NOT (drop_bit (pos mod 8) 0xFF)))"

definition codeSegment :: "nat \<Rightarrow> bitvec \<Rightarrow> err + bool" where
  "codeSegment pos bits =
     (if pos div 8 < length bits then Inr (bits ! (pos div 8) AND drop_bit (pos mod 8) 0x80 = 0) else Inl Panic)"

text \<open>The two loops over the immediate bytes of a push, then the loop over the code.\<close>

fun push_bits :: "nat \<Rightarrow> nat \<Rightarrow> bitvec \<Rightarrow> err + bitvec" where
  "push_bits pc numbits bits =
     (if numbits \<ge> 8 then res_bind (bits_set8 pc bits) (push_bits (pc + 8) (numbits - 8))
      else if numbits > 0 then res_bind (bits_set pc bits) (push_bits (pc + 1) (numbits - 1))
      else Inr bits)"

declare push_bits.simps [simp del]

definition numbits :: "byte \<Rightarrow> nat" where
  "numbits opc = (if PUSH1 \<le> opc \<and> opc \<le> PUSH32 then unat (opc - PUSH1 + 1) else 0)"

function codeBitmap_loop :: "bytes \<Rightarrow> nat \<Rightarrow> bitvec \<Rightarrow> err + bitvec" where
  "codeBitmap_loop code pc bits =
     (if pc < length code then
        res_bind (push_bits (pc + 1) (numbits (code ! pc)) bits)
          (codeBitmap_loop code (pc + 1 + numbits (code ! pc)))
      else Inr bits)"
  by auto
termination by (relation "measure (\<lambda>(code, pc, bits). length code - pc)") auto

declare codeBitmap_loop.simps [simp del]

definition codeBitmap :: "bytes \<Rightarrow> err + bitvec" where
  "codeBitmap code = codeBitmap_loop code 0 (replicate (length code div 8 + 1 + 4) 0)"

section \<open>Contracts\<close>

record Contract =
  CallerAddress :: address
  ctSelf :: address
  analysis :: "bitvec option"
  ctCode :: bytes
  ctCodeHash :: hash
  ctCodeAddr :: "address option"
  ctInput :: bytes
  ctGas :: u64
  ctValue :: "int option"

datatype ContractRef = AccountRef address | ContractOf Contract

fun ref_Address :: "ContractRef \<Rightarrow> address" where
  "ref_Address (AccountRef a) = a"
| "ref_Address (ContractOf c) = ctSelf c"

text \<open>
  The analyses by code hash (\<open>jumpdests\<close>) are shared by all contracts under one call from outside,
  which starts with an empty map: they are part of the machine's state below.
\<close>

definition NewContract :: "ContractRef \<Rightarrow> address \<Rightarrow> int option \<Rightarrow> u64 \<Rightarrow> Contract" where
  "NewContract caller object val gas =
     \<lparr>CallerAddress = ref_Address caller, ctSelf = object, analysis = None, ctCode = [], ctCodeHash = 0,
      ctCodeAddr = None, ctInput = [], ctGas = gas, ctValue = val\<rparr>"

definition AsDelegate :: "ContractRef \<Rightarrow> Contract \<Rightarrow> err + Contract" where
  "AsDelegate caller c =
     (case caller of
        AccountRef _ \<Rightarrow> Inl Panic
      | ContractOf parent \<Rightarrow> Inr (c\<lparr>CallerAddress := CallerAddress parent, ctValue := ctValue parent\<rparr>))"

definition GetByte :: "u64 \<Rightarrow> Contract \<Rightarrow> byte" where
  "GetByte n c = (if n < word_of_nat (length (ctCode c)) then ctCode c ! unat n else 0)"

definition GetOp :: "u64 \<Rightarrow> Contract \<Rightarrow> byte" where
  "GetOp n c = GetByte n c"

definition UseGas :: "u64 \<Rightarrow> Contract \<Rightarrow> bool \<times> Contract" where
  "UseGas gas c = (if ctGas c < gas then (False, c) else (True, c\<lparr>ctGas := ctGas c - gas\<rparr>))"

definition SetCallCode :: "address \<Rightarrow> hash \<Rightarrow> bytes \<Rightarrow> Contract \<Rightarrow> Contract" where
  "SetCallCode a h code c = c\<lparr>ctCode := code, ctCodeHash := h, ctCodeAddr := Some a\<rparr>"

definition validJumpdest :: "int \<Rightarrow> Contract \<Rightarrow> (hash \<rightharpoonup> bitvec) \<Rightarrow> err + bool \<times> Contract \<times> (hash \<rightharpoonup> bitvec)" where
  "validJumpdest dest c jumpdests =
     (let udest = big_Uint64 dest in
      if BitLen dest \<ge> 63 \<or> udest \<ge> word_of_nat (length (ctCode c)) then Inr (False, c, jumpdests)
      else if ctCode c ! unat udest \<noteq> JUMPDEST then Inr (False, c, jumpdests)
      else if ctCodeHash c \<noteq> 0 then
        (case jumpdests (ctCodeHash c) of
           Some a \<Rightarrow> res_bind (codeSegment (unat udest) a) (\<lambda>ok. Inr (ok, c, jumpdests))
         | None \<Rightarrow>
             res_bind (codeBitmap (ctCode c)) (\<lambda>a.
               res_bind (codeSegment (unat udest) a) (\<lambda>ok. Inr (ok, c, jumpdests(ctCodeHash c \<mapsto> a)))))
      else
        (case analysis c of
           Some a \<Rightarrow> res_bind (codeSegment (unat udest) a) (\<lambda>ok. Inr (ok, c, jumpdests))
         | None \<Rightarrow>
             res_bind (codeBitmap (ctCode c)) (\<lambda>a.
               res_bind (codeSegment (unat udest) a) (\<lambda>ok. Inr (ok, c\<lparr>analysis := Some a\<rparr>, jumpdests)))))"

section \<open>The machine\<close>

text \<open>
  \<open>machine\<close> is what does not change during an execution: the context of the transaction, the rules, the
  configuration, the hash functions and the precompiled contracts.
\<close>

record precompiled =
  RequiredGas :: "bytes \<Rightarrow> err + u64"
  pcRun :: "bytes \<Rightarrow> err + (vm_error + bytes)"

record machine =
  GetHashFn :: "u64 \<Rightarrow> err + hash"
  Origin :: address
  vmGasPrice :: int
  Coinbase :: address
  vmGasLimit :: u64
  BlockNumber :: int
  vmTime :: int
  Difficulty :: int
  chainConfig :: ChainConfig
  NoRecursion :: bool
  EnablePreimageRecording :: bool
  vmH :: hashing
  vmKeccak :: "bytes \<Rightarrow> hash"
  precompiles :: "address \<Rightarrow> precompiled option"

abbreviation IsHomestead :: "machine \<Rightarrow> bool" where "IsHomestead W \<equiv> isForked (HomesteadBlock (chainConfig W)) (BlockNumber W)"
abbreviation IsEIP150 :: "machine \<Rightarrow> bool" where "IsEIP150 W \<equiv> isForked (EIP150Block (chainConfig W)) (BlockNumber W)"
abbreviation IsEIP158 :: "machine \<Rightarrow> bool" where "IsEIP158 W \<equiv> isForked (EIP158Block (chainConfig W)) (BlockNumber W)"
abbreviation IsByzantium :: "machine \<Rightarrow> bool" where "IsByzantium W \<equiv> isForked (ByzantiumBlock (chainConfig W)) (BlockNumber W)"
abbreviation IsConstantinople :: "machine \<Rightarrow> bool" where
  "IsConstantinople W \<equiv> isForked (ConstantinopleBlock (chainConfig W)) (BlockNumber W)"

definition gasTable :: "machine \<Rightarrow> GasTable" where
  "gasTable W = config_GasTable (chainConfig W) (BlockNumber W)"

text \<open>What changes: the account state and the interpreter's registers that all frames share.\<close>

record EVM =
  statedb :: StateDB
  depth :: nat
  callGasTemp :: u64
  readOnly :: bool
  returnData :: bytes
  jumpdests :: "hash \<rightharpoonup> bitvec"

record frame =
  pc :: u64
  contract :: Contract
  mem :: Memory
  stk :: "int list"

definition GetCodeSize :: "address \<Rightarrow> StateDB \<Rightarrow> nat \<times> StateDB" where
  "GetCodeSize a s =
     (case getStateObject a s of
        (None, s) \<Rightarrow> (0, s)
      | (Some obj, s) \<Rightarrow>
          ((case soCode obj of
              Some c \<Rightarrow> length c
            | None \<Rightarrow> (case codes (db s) (CodeHash (soData obj)) of Some c \<Rightarrow> length c | None \<Rightarrow> 0)), s))"

definition BigToAddress :: "int \<Rightarrow> address" where
  "BigToAddress x = word_of_int \<bar>x\<bar>"

definition BigToHash :: "int \<Rightarrow> hash" where
  "BigToHash x = word_of_int \<bar>x\<bar>"

end
