(* ===== verification/EVM_Ops.thy ===== *)
theory EVM_Ops
  imports EVM_State
begin

text \<open>
  The instructions of \<open>src/sdag/core/vm/instructions.go\<close> that read the environment, the memory, the code
  and the account state, and those that jump, log and end a frame.  An \<open>executionFunc\<close> returns the bytes
  and the error the Go function returns, with the frame and the machine state it leaves behind.
\<close>

type_synonym exec_result = "err + (bytes \<times> vm_error option) \<times> frame \<times> EVM"

definition proceed :: "frame \<Rightarrow> EVM \<Rightarrow> exec_result" where
  "proceed fr ev = Inr (([], None), fr, ev)"

text \<open>An instruction that only touches the stack.\<close>

definition on_stack :: "stack_op \<Rightarrow> machine \<Rightarrow> frame \<Rightarrow> EVM \<Rightarrow> exec_result" where
  "on_stack f W fr ev = (case f (stk fr) of None \<Rightarrow> Inl Panic | Some st \<Rightarrow> proceed (fr\<lparr>stk := st\<rparr>) ev)"

definition push :: "int \<Rightarrow> frame \<Rightarrow> EVM \<Rightarrow> exec_result" where
  "push x fr ev = proceed (fr\<lparr>stk := x # stk fr\<rparr>) ev"

section \<open>Environment\<close>

definition opAddress :: "machine \<Rightarrow> frame \<Rightarrow> EVM \<Rightarrow> exec_result" where
  "opAddress W fr = push (uint (ctSelf (contract fr))) fr"

definition opOrigin :: "machine \<Rightarrow> frame \<Rightarrow> EVM \<Rightarrow> exec_result" where
  "opOrigin W fr = push (uint (Origin W)) fr"

definition opCaller :: "machine \<Rightarrow> frame \<Rightarrow> EVM \<Rightarrow> exec_result" where
  "opCaller W fr = push (uint (CallerAddress (contract fr))) fr"

definition opCallValue :: "machine \<Rightarrow> frame \<Rightarrow> EVM \<Rightarrow> exec_result" where
  "opCallValue W fr ev = (case ctValue (contract fr) of None \<Rightarrow> Inl Panic | Some v \<Rightarrow> push v fr ev)"

definition opCallDataSize :: "machine \<Rightarrow> frame \<Rightarrow> EVM \<Rightarrow> exec_result" where
  "opCallDataSize W fr = push (int (length (ctInput (contract fr)))) fr"

definition opReturnDataSize :: "machine \<Rightarrow> frame \<Rightarrow> EVM \<Rightarrow> exec_result" where
  "opReturnDataSize W fr ev = push (int (length (returnData ev))) fr ev"

definition opCodeSize :: "machine \<Rightarrow> frame \<Rightarrow> EVM \<Rightarrow> exec_result" where
  "opCodeSize W fr = push (int (length (ctCode (contract fr)))) fr"

definition opGasprice :: "machine \<Rightarrow> frame \<Rightarrow> EVM \<Rightarrow> exec_result" where
  "opGasprice W fr = push (vmGasPrice W) fr"

definition opCoinbase :: "machine \<Rightarrow> frame \<Rightarrow> EVM \<Rightarrow> exec_result" where
  "opCoinbase W fr = push (uint (Coinbase W)) fr"

definition opTimestamp :: "machine \<Rightarrow> frame \<Rightarrow> EVM \<Rightarrow> exec_result" where
  "opTimestamp W fr = push (U256 (vmTime W)) fr"

definition opNumber :: "machine \<Rightarrow> frame \<Rightarrow> EVM \<Rightarrow> exec_result" where
  "opNumber W fr = push (U256 (BlockNumber W)) fr"

definition opDifficulty :: "machine \<Rightarrow> frame \<Rightarrow> EVM \<Rightarrow> exec_result" where
  "opDifficulty W fr = push (U256 (Difficulty W)) fr"

definition opGasLimit :: "machine \<Rightarrow> frame \<Rightarrow> EVM \<Rightarrow> exec_result" where
  "opGasLimit W fr = push (U256 (uint (vmGasLimit W))) fr"

definition opPc :: "machine \<Rightarrow> frame \<Rightarrow> EVM \<Rightarrow> exec_result" where
  "opPc W fr = push (uint (pc fr)) fr"

definition opMsize :: "machine \<Rightarrow> frame \<Rightarrow> EVM \<Rightarrow> exec_result" where
  "opMsize W fr = push (int (length (mStore (mem fr)))) fr"

definition opGas :: "machine \<Rightarrow> frame \<Rightarrow> EVM \<Rightarrow> exec_result" where
  "opGas W fr = push (uint (ctGas (contract fr))) fr"

definition opBlockhash :: "machine \<Rightarrow> frame \<Rightarrow> EVM \<Rightarrow> exec_result" where
  "opBlockhash W fr ev =
     (case stk fr of
        num # st \<Rightarrow>
          (if num > BlockNumber W - 257 \<and> num < BlockNumber W
           then res_bind (GetHashFn W (big_Uint64 num)) (\<lambda>h. push (uint h) (fr\<lparr>stk := st\<rparr>) ev)
           else push 0 (fr\<lparr>stk := st\<rparr>) ev)
      | _ \<Rightarrow> Inl Panic)"

section \<open>Data and memory\<close>

definition set_bytes :: "bytes \<Rightarrow> int" where
  "set_bytes b = int (be_val b)"

definition opCallDataLoad :: "machine \<Rightarrow> frame \<Rightarrow> EVM \<Rightarrow> exec_result" where
  "opCallDataLoad W fr ev =
     (case stk fr of
        x # st \<Rightarrow>
          res_bind (getDataBig (ctInput (contract fr)) x 32) (\<lambda>d. push (set_bytes d) (fr\<lparr>stk := st\<rparr>) ev)
      | _ \<Rightarrow> Inl Panic)"

text \<open>The instructions that copy data to memory: offset in memory, offset in the data, length.\<close>

definition copy_data :: "bytes \<Rightarrow> int \<Rightarrow> int \<Rightarrow> int \<Rightarrow> frame \<Rightarrow> EVM \<Rightarrow> exec_result" where
  "copy_data data memOffset dataOffset len fr ev =
     res_bind (getDataBig data dataOffset len) (\<lambda>d.
       res_bind (mem_Set (big_Uint64 memOffset) (big_Uint64 len) d (mem fr)) (\<lambda>m. proceed (fr\<lparr>mem := m\<rparr>) ev))"

definition opCallDataCopy :: "machine \<Rightarrow> frame \<Rightarrow> EVM \<Rightarrow> exec_result" where
  "opCallDataCopy W fr ev =
     (case stk fr of
        memOffset # dataOffset # len # st \<Rightarrow>
          copy_data (ctInput (contract fr)) memOffset dataOffset len (fr\<lparr>stk := st\<rparr>) ev
      | _ \<Rightarrow> Inl Panic)"

definition opCodeCopy :: "machine \<Rightarrow> frame \<Rightarrow> EVM \<Rightarrow> exec_result" where
  "opCodeCopy W fr ev =
     (case stk fr of
        memOffset # codeOffset # len # st \<Rightarrow>
          copy_data (ctCode (contract fr)) memOffset codeOffset len (fr\<lparr>stk := st\<rparr>) ev
      | _ \<Rightarrow> Inl Panic)"

definition opExtCodeCopy :: "machine \<Rightarrow> frame \<Rightarrow> EVM \<Rightarrow> exec_result" where
  "opExtCodeCopy W fr ev =
     (case stk fr of
        a # memOffset # codeOffset # len # st \<Rightarrow>
          (case GetCode (vmH W) (BigToAddress a) (statedb ev) of
             (code, s) \<Rightarrow>
               copy_data (case code of None \<Rightarrow> [] | Some c \<Rightarrow> c) memOffset codeOffset len
                 (fr\<lparr>stk := st\<rparr>) (ev\<lparr>statedb := s\<rparr>))
      | _ \<Rightarrow> Inl Panic)"

definition opReturnDataCopy :: "machine \<Rightarrow> frame \<Rightarrow> EVM \<Rightarrow> exec_result" where
  "opReturnDataCopy W fr ev =
     (case stk fr of
        memOffset # dataOffset # len # st \<Rightarrow>
          (let e = dataOffset + len; fr = fr\<lparr>stk := st\<rparr> in
           if BitLen e > 64 \<or> word_of_nat (length (returnData ev)) < big_Uint64 e
           then Inr (([], Some errReturnDataOutOfBounds), fr, ev)
           else
             res_bind (subslice (unat (big_Uint64 dataOffset)) (unat (big_Uint64 e)) (returnData ev)) (\<lambda>d.
               res_bind (mem_Set (big_Uint64 memOffset) (big_Uint64 len) d (mem fr)) (\<lambda>m.
                 proceed (fr\<lparr>mem := m\<rparr>) ev)))
      | _ \<Rightarrow> Inl Panic)"

definition opSha3 :: "machine \<Rightarrow> frame \<Rightarrow> EVM \<Rightarrow> exec_result" where
  "opSha3 W fr ev =
     (case stk fr of
        offset # sz # st \<Rightarrow>
          res_bind (mem_Get (big_Int64 offset) (big_Int64 sz) (mem fr)) (\<lambda>data.
            let h = vmKeccak W data;
                ev = (if EnablePreimageRecording W then ev\<lparr>statedb := AddPreimage h data (statedb ev)\<rparr> else ev)
            in push (uint h) (fr\<lparr>stk := st\<rparr>) ev)
      | _ \<Rightarrow> Inl Panic)"

definition opMload :: "machine \<Rightarrow> frame \<Rightarrow> EVM \<Rightarrow> exec_result" where
  "opMload W fr ev =
     (case stk fr of
        offset # st \<Rightarrow>
          res_bind (mem_Get (big_Int64 offset) 32 (mem fr)) (\<lambda>d. push (set_bytes d) (fr\<lparr>stk := st\<rparr>) ev)
      | _ \<Rightarrow> Inl Panic)"

definition opMstore :: "machine \<Rightarrow> frame \<Rightarrow> EVM \<Rightarrow> exec_result" where
  "opMstore W fr ev =
     (case stk fr of
        mStart # val # st \<Rightarrow>
          res_bind (mem_Set32 (big_Uint64 mStart) val (mem fr)) (\<lambda>m. proceed (fr\<lparr>stk := st, mem := m\<rparr>) ev)
      | _ \<Rightarrow> Inl Panic)"

definition opMstore8 :: "machine \<Rightarrow> frame \<Rightarrow> EVM \<Rightarrow> exec_result" where
  "opMstore8 W fr ev =
     (case stk fr of
        a # b # st \<Rightarrow>
          (let off = big_Int64 a; val = big_Int64 b; m = mStore (mem fr) in
           if 0 \<le> off \<and> off < int (length m)
           then proceed (fr\<lparr>stk := st, mem := (mem fr)\<lparr>mStore := m[nat off := word_of_int (val AND 0xff)]\<rparr>\<rparr>) ev
           else Inl Panic)
      | _ \<Rightarrow> Inl Panic)"

text \<open>\<open>makePush\<close> reads past the end of the code as zeros and skips the immediate bytes.\<close>

definition makePush :: "u64 \<Rightarrow> nat \<Rightarrow> machine \<Rightarrow> frame \<Rightarrow> EVM \<Rightarrow> exec_result" where
  "makePush sz pushByteSize W fr ev =
     (let code = ctCode (contract fr);
          codeLen = int (length code);
          startMin = (if sint (pc fr + 1) < codeLen then sint (pc fr + 1) else codeLen);
          endMin = (if startMin + int pushByteSize < codeLen then startMin + int pushByteSize else codeLen)
      in if startMin < 0 then Inl Panic
         else res_bind (subslice (nat startMin) (nat endMin) code) (\<lambda>d.
                res_bind (RightPadBytes d (int pushByteSize)) (\<lambda>d.
                  push (set_bytes d) (fr\<lparr>pc := pc fr + sz\<rparr>) ev)))"

section \<open>Account state\<close>

definition opBalance :: "machine \<Rightarrow> frame \<Rightarrow> EVM \<Rightarrow> exec_result" where
  "opBalance W fr ev =
     (case stk fr of
        slot # st \<Rightarrow>
          (case GetBalance (BigToAddress slot) (statedb ev) of
             (b, s) \<Rightarrow> push b (fr\<lparr>stk := st\<rparr>) (ev\<lparr>statedb := s\<rparr>))
      | _ \<Rightarrow> Inl Panic)"

definition opExtCodeSize :: "machine \<Rightarrow> frame \<Rightarrow> EVM \<Rightarrow> exec_result" where
  "opExtCodeSize W fr ev =
     (case stk fr of
        slot # st \<Rightarrow>
          (case GetCodeSize (BigToAddress slot) (statedb ev) of
             (n, s) \<Rightarrow> push (int n) (fr\<lparr>stk := st\<rparr>) (ev\<lparr>statedb := s\<rparr>))
      | _ \<Rightarrow> Inl Panic)"

definition opExtCodeHash :: "machine \<Rightarrow> frame \<Rightarrow> EVM \<Rightarrow> exec_result" where
  "opExtCodeHash W fr ev =
     (case stk fr of
        slot # st \<Rightarrow>
          (case Empty (vmH W) (BigToAddress slot) (statedb ev) of
             (e, s) \<Rightarrow>
               if e then push 0 (fr\<lparr>stk := st\<rparr>) (ev\<lparr>statedb := s\<rparr>)
               else (case GetCodeHash (BigToAddress slot) s of
                       (h, s) \<Rightarrow> push (uint h) (fr\<lparr>stk := st\<rparr>) (ev\<lparr>statedb := s\<rparr>)))
      | _ \<Rightarrow> Inl Panic)"

definition opSload :: "machine \<Rightarrow> frame \<Rightarrow> EVM \<Rightarrow> exec_result" where
  "opSload W fr ev =
     (case stk fr of
        loc # st \<Rightarrow>
          (case GetState (vmH W) (ctSelf (contract fr)) (BigToHash loc) (statedb ev) of
             (v, s) \<Rightarrow> push (uint v) (fr\<lparr>stk := st\<rparr>) (ev\<lparr>statedb := s\<rparr>))
      | _ \<Rightarrow> Inl Panic)"

definition opSstore :: "machine \<Rightarrow> frame \<Rightarrow> EVM \<Rightarrow> exec_result" where
  "opSstore W fr ev =
     (case stk fr of
        loc # val # st \<Rightarrow>
          proceed (fr\<lparr>stk := st\<rparr>)
            (ev\<lparr>statedb := SetState (vmH W) (ctSelf (contract fr)) (BigToHash loc) (BigToHash val) (statedb ev)\<rparr>)
      | _ \<Rightarrow> Inl Panic)"

definition opSuicide :: "machine \<Rightarrow> frame \<Rightarrow> EVM \<Rightarrow> exec_result" where
  "opSuicide W fr ev =
     (case stk fr of
        a # st \<Rightarrow>
          (let self = ctSelf (contract fr);
               (b, s) = GetBalance self (statedb ev);
               s = AddBalance (vmH W) (BigToAddress a) b s
           in proceed (fr\<lparr>stk := st\<rparr>) (ev\<lparr>statedb := snd (Suicide self s)\<rparr>))
      | _ \<Rightarrow> Inl Panic)"

definition makeLog :: "nat \<Rightarrow> machine \<Rightarrow> frame \<Rightarrow> EVM \<Rightarrow> exec_result" where
  "makeLog n W fr ev =
     (case stk fr of
        mStart # mSize # st \<Rightarrow>
          if length st < n then Inl Panic
          else
            res_bind (mem_Get (big_Int64 mStart) (big_Int64 mSize) (mem fr)) (\<lambda>d.
              proceed (fr\<lparr>stk := drop n st\<rparr>)
                (ev\<lparr>statedb := AddLog
                  \<lparr>logAddress = ctSelf (contract fr), Topics = map BigToHash (take n st), logData = d,
                   logBlockNumber = big_Uint64 (BlockNumber W), logTxHash = 0, logTxIndex = 0, logBlockHash = 0,
                   logIndex = 0, Removed = False\<rparr> (statedb ev)\<rparr>))
      | _ \<Rightarrow> Inl Panic)"

section \<open>Control\<close>

definition jump_to :: "int \<Rightarrow> frame \<Rightarrow> EVM \<Rightarrow> exec_result" where
  "jump_to pos fr ev =
     res_bind (validJumpdest pos (contract fr) (jumpdests ev)) (\<lambda>(ok, c, jd).
       let fr = fr\<lparr>contract := c\<rparr>; ev = ev\<lparr>jumpdests := jd\<rparr> in
       if \<not> ok then Inr (([], Some InvalidJump), fr, ev)
       else proceed (fr\<lparr>pc := big_Uint64 pos\<rparr>) ev)"

definition opJump :: "machine \<Rightarrow> frame \<Rightarrow> EVM \<Rightarrow> exec_result" where
  "opJump W fr ev =
     (case stk fr of
        pos # st \<Rightarrow> jump_to pos (fr\<lparr>stk := st\<rparr>) ev
      | _ \<Rightarrow> Inl Panic)"

definition opJumpi :: "machine \<Rightarrow> frame \<Rightarrow> EVM \<Rightarrow> exec_result" where
  "opJumpi W fr ev =
     (case stk fr of
        pos # cond # st \<Rightarrow>
          if cond \<noteq> 0 then jump_to pos (fr\<lparr>stk := st\<rparr>) ev
          else proceed (fr\<lparr>stk := st, pc := pc fr + 1\<rparr>) ev
      | _ \<Rightarrow> Inl Panic)"

definition opJumpdest :: "machine \<Rightarrow> frame \<Rightarrow> EVM \<Rightarrow> exec_result" where
  "opJumpdest W fr ev = proceed fr ev"

definition opStop :: "machine \<Rightarrow> frame \<Rightarrow> EVM \<Rightarrow> exec_result" where
  "opStop W fr ev = proceed fr ev"

definition opReturn :: "machine \<Rightarrow> frame \<Rightarrow> EVM \<Rightarrow> exec_result" where
  "opReturn W fr ev =
     (case stk fr of
        offset # sz # st \<Rightarrow>
          res_bind (mem_GetPtr (big_Int64 offset) (big_Int64 sz) (mem fr)) (\<lambda>d. Inr ((d, None), fr\<lparr>stk := st\<rparr>, ev))
      | _ \<Rightarrow> Inl Panic)"

definition opRevert :: "machine \<Rightarrow> frame \<Rightarrow> EVM \<Rightarrow> exec_result" where
  "opRevert W fr ev =
     (case stk fr of
        offset # sz # st \<Rightarrow>
          res_bind (mem_GetPtr (big_Int64 offset) (big_Int64 sz) (mem fr)) (\<lambda>d. Inr ((d, None), fr\<lparr>stk := st\<rparr>, ev))
      | _ \<Rightarrow> Inl Panic)"

end
