(* ===== verification/EVM_Gas.thy ===== *)
theory EVM_Gas
  imports EVM_Ops
begin

text \<open>
  What an instruction costs: \<open>memory_table.go\<close> (the memory it needs), \<open>gas.go\<close> and \<open>gas_table.go\<close> of
  \<open>src/sdag/core/vm\<close>.  A gas function reads the stack and returns an error or an amount; it may record
  the new memory fee, the gas reserved for a call, and refunds in the account state.
\<close>

definition Back :: "nat \<Rightarrow> int list \<Rightarrow> err + int" where
  "Back n st = (if n < length st then Inr (st ! n) else Inl Panic)"

section \<open>Memory an instruction needs\<close>

definition mem_size :: "nat \<Rightarrow> nat \<Rightarrow> int list \<Rightarrow> err + int" where
  "mem_size i j st = res_bind (Back i st) (\<lambda>off. res_bind (Back j st) (\<lambda>l. Inr (calcMemSize off l)))"

definition memorySha3 :: "int list \<Rightarrow> err + int" where "memorySha3 = mem_size 0 1"
definition memoryCallDataCopy :: "int list \<Rightarrow> err + int" where "memoryCallDataCopy = mem_size 0 2"
definition memoryReturnDataCopy :: "int list \<Rightarrow> err + int" where "memoryReturnDataCopy = mem_size 0 2"
definition memoryCodeCopy :: "int list \<Rightarrow> err + int" where "memoryCodeCopy = mem_size 0 2"
definition memoryExtCodeCopy :: "int list \<Rightarrow> err + int" where "memoryExtCodeCopy = mem_size 1 3"
definition memoryMLoad :: "int list \<Rightarrow> err + int" where
  "memoryMLoad st = res_bind (Back 0 st) (\<lambda>off. Inr (calcMemSize off 32))"
definition memoryMStore8 :: "int list \<Rightarrow> err + int" where
  "memoryMStore8 st = res_bind (Back 0 st) (\<lambda>off. Inr (calcMemSize off 1))"
definition memoryMStore :: "int list \<Rightarrow> err + int" where
  "memoryMStore st = res_bind (Back 0 st) (\<lambda>off. Inr (calcMemSize off 32))"
definition memoryCreate :: "int list \<Rightarrow> err + int" where "memoryCreate = mem_size 1 2"
definition memoryCreate2 :: "int list \<Rightarrow> err + int" where "memoryCreate2 = mem_size 1 2"
definition memoryCall :: "int list \<Rightarrow> err + int" where
  "memoryCall st = res_bind (mem_size 5 6 st) (\<lambda>x. res_bind (mem_size 3 4 st) (\<lambda>y. Inr (BigMax x y)))"
definition memoryDelegateCall :: "int list \<Rightarrow> err + int" where
  "memoryDelegateCall st = res_bind (mem_size 4 5 st) (\<lambda>x. res_bind (mem_size 2 3 st) (\<lambda>y. Inr (BigMax x y)))"
definition memoryStaticCall :: "int list \<Rightarrow> err + int" where
  "memoryStaticCall st = res_bind (mem_size 4 5 st) (\<lambda>x. res_bind (mem_size 2 3 st) (\<lambda>y. Inr (BigMax x y)))"
definition memoryReturn :: "int list \<Rightarrow> err + int" where "memoryReturn = mem_size 0 1"
definition memoryRevert :: "int list \<Rightarrow> err + int" where "memoryRevert = mem_size 0 1"
definition memoryLog :: "int list \<Rightarrow> err + int" where "memoryLog = mem_size 0 1"

section \<open>Gas computations\<close>

type_synonym 'a gas_fun = "Memory \<times> EVM \<Rightarrow> err + (vm_error + 'a) \<times> (Memory \<times> EVM)"

definition gas_ret :: "'a \<Rightarrow> 'a gas_fun" where "gas_ret x s = Inr (Inr x, s)"
definition gas_fail :: "vm_error \<Rightarrow> 'a gas_fun" where "gas_fail e s = Inr (Inl e, s)"

definition gas_bind :: "'a gas_fun \<Rightarrow> ('a \<Rightarrow> 'b gas_fun) \<Rightarrow> 'b gas_fun" where
  "gas_bind m f s =
     res_bind (m s) (\<lambda>(r, s). case r of Inl e \<Rightarrow> Inr (Inl e, s) | Inr x \<Rightarrow> f x s)"

text \<open>A checked operation; reading the stack; a question to the account state.\<close>

definition checked :: "u64 \<times> bool \<Rightarrow> u64 gas_fun" where
  "checked r = (if snd r then gas_fail errGasUintOverflow else gas_ret (fst r))"

definition gas_Back :: "nat \<Rightarrow> int list \<Rightarrow> int gas_fun" where
  "gas_Back n st s = res_bind (Back n st) (\<lambda>x. gas_ret x s)"

definition ask :: "(StateDB \<Rightarrow> 'a \<times> StateDB) \<Rightarrow> 'a gas_fun" where
  "ask q s = (case q (statedb (snd s)) of (x, sdb) \<Rightarrow> gas_ret x (fst s, (snd s)\<lparr>statedb := sdb\<rparr>))"

definition tell :: "(StateDB \<Rightarrow> err + StateDB) \<Rightarrow> unit gas_fun" where
  "tell f s = res_bind (f (statedb (snd s))) (\<lambda>sdb. gas_ret () (fst s, (snd s)\<lparr>statedb := sdb\<rparr>))"

abbreviation (input) GasQuickStep :: u64 where "GasQuickStep \<equiv> 2"
abbreviation (input) GasFastestStep :: u64 where "GasFastestStep \<equiv> 3"
abbreviation (input) GasFastStep :: u64 where "GasFastStep \<equiv> 5"
abbreviation (input) GasMidStep :: u64 where "GasMidStep \<equiv> 8"
abbreviation (input) GasSlowStep :: u64 where "GasSlowStep \<equiv> 10"
abbreviation (input) GasExtStep :: u64 where "GasExtStep \<equiv> 20"
abbreviation (input) MemoryGas :: u64 where "MemoryGas \<equiv> 3"
abbreviation (input) QuadCoeffDiv :: u64 where "QuadCoeffDiv \<equiv> 512"
abbreviation (input) CopyGas :: u64 where "CopyGas \<equiv> 3"
abbreviation (input) Sha3Gas :: u64 where "Sha3Gas \<equiv> 30"
abbreviation (input) Sha3WordGas :: u64 where "Sha3WordGas \<equiv> 6"
abbreviation (input) LogGas :: u64 where "LogGas \<equiv> 375"
abbreviation (input) LogTopicGas :: u64 where "LogTopicGas \<equiv> 375"
abbreviation (input) LogDataGas :: u64 where "LogDataGas \<equiv> 8"
abbreviation (input) CreateGas :: u64 where "CreateGas \<equiv> 32000"
abbreviation (input) Create2Gas :: u64 where "Create2Gas \<equiv> 32000"
abbreviation (input) CallNewAccountGas :: u64 where "CallNewAccountGas \<equiv> 25000"
abbreviation (input) CallValueTransferGas :: u64 where "CallValueTransferGas \<equiv> 9000"
abbreviation (input) SuicideRefundGas :: u64 where "SuicideRefundGas \<equiv> 24000"
abbreviation (input) JumpdestGas :: u64 where "JumpdestGas \<equiv> 1"

text \<open>The fee of a memory of \<open>w\<close> words, computed with 64-bit wrap-around.\<close>

definition memory_fee :: "u64 \<Rightarrow> u64" where
  "memory_fee w = w * MemoryGas + w * w div QuadCoeffDiv"

definition memoryGasCost :: "u64 \<Rightarrow> u64 gas_fun" where
  "memoryGasCost newMemSize s =
     (let m = fst s in
      if newMemSize = 0 then gas_ret 0 s
      else if newMemSize > 0xffffffffe0 then gas_fail errGasUintOverflow s
      else
        let newMemSizeWords = toWordSize newMemSize;
            newMemSize = newMemSizeWords * 32
        in if newMemSize > word_of_nat (length (mStore m)) then
             (let newTotalFee = memory_fee newMemSizeWords in
              gas_ret (newTotalFee - lastGasCost m) (m\<lparr>lastGasCost := newTotalFee\<rparr>, snd s))
           else gas_ret 0 s)"

definition callGas :: "GasTable \<Rightarrow> u64 \<Rightarrow> u64 \<Rightarrow> int \<Rightarrow> vm_error + u64" where
  "callGas gt availableGas base callCost =
     (let over = (if BitLen callCost > 64 then Inl errGasUintOverflow else Inr (big_Uint64 callCost)) in
      if gtCreateBySuicide gt > 0 then
        (let availableGas = availableGas - base;
             gas = availableGas - availableGas div 64
         in if BitLen callCost > 64 \<or> gas < big_Uint64 callCost then Inr gas else over)
      else over)"

text \<open>A gas function of the instruction table: the machine, the contract, the stack and the requested memory size.\<close>

type_synonym gasFunc = "machine \<Rightarrow> Contract \<Rightarrow> int list \<Rightarrow> u64 \<Rightarrow> u64 gas_fun"

definition constGasFunc :: "u64 \<Rightarrow> gasFunc" where
  "constGasFunc gas W c st memorySize = gas_ret gas"

text \<open>The part the copying instructions share: memory, a base price, a price for each word of the item \<open>n\<close>.\<close>

definition word_gas :: "nat \<Rightarrow> u64 \<Rightarrow> int list \<Rightarrow> u64 \<Rightarrow> u64 gas_fun" where
  "word_gas n price st gas =
     gas_bind (gas_Back n st) (\<lambda>x.
       gas_bind (checked (bigUint64 x)) (\<lambda>words.
         gas_bind (checked (SafeMul (toWordSize words) price)) (\<lambda>words. checked (SafeAdd gas words))))"

definition gasCallDataCopy :: gasFunc where
  "gasCallDataCopy W c st memorySize =
     gas_bind (memoryGasCost memorySize) (\<lambda>gas.
       gas_bind (checked (SafeAdd gas GasFastestStep)) (word_gas 2 CopyGas st))"

definition gasReturnDataCopy :: gasFunc where
  "gasReturnDataCopy W c st memorySize =
     gas_bind (memoryGasCost memorySize) (\<lambda>gas.
       gas_bind (checked (SafeAdd gas GasFastestStep)) (word_gas 2 CopyGas st))"

definition gasCodeCopy :: gasFunc where
  "gasCodeCopy W c st memorySize =
     gas_bind (memoryGasCost memorySize) (\<lambda>gas.
       gas_bind (checked (SafeAdd gas GasFastestStep)) (word_gas 2 CopyGas st))"

definition gasExtCodeCopy :: gasFunc where
  "gasExtCodeCopy W c st memorySize =
     gas_bind (memoryGasCost memorySize) (\<lambda>gas.
       gas_bind (checked (SafeAdd gas (gtExtcodeCopy (gasTable W)))) (word_gas 3 CopyGas st))"

definition gasSha3 :: gasFunc where
  "gasSha3 W c st memorySize =
     gas_bind (memoryGasCost memorySize) (\<lambda>gas.
       gas_bind (checked (SafeAdd gas Sha3Gas)) (word_gas 1 Sha3WordGas st))"

definition gasCreate2 :: gasFunc where
  "gasCreate2 W c st memorySize =
     gas_bind (memoryGasCost memorySize) (\<lambda>gas.
       gas_bind (checked (SafeAdd gas Create2Gas)) (word_gas 2 Sha3WordGas st))"

definition gasCreate :: gasFunc where
  "gasCreate W c st memorySize =
     gas_bind (memoryGasCost memorySize) (\<lambda>gas. checked (SafeAdd gas CreateGas))"

text \<open>\<open>gasMLoad\<close>, \<open>gasMStore\<close> and \<open>gasMStore8\<close> turn an error of the memory fee into an overflow.\<close>

definition gasMLoad :: gasFunc where
  "gasMLoad W c st memorySize =
     gas_bind (memoryGasCost memorySize) (\<lambda>gas. checked (SafeAdd gas GasFastestStep))"

definition gasMStore8 :: gasFunc where
  "gasMStore8 W c st memorySize =
     gas_bind (memoryGasCost memorySize) (\<lambda>gas. checked (SafeAdd gas GasFastestStep))"

definition gasMStore :: gasFunc where
  "gasMStore W c st memorySize =
     gas_bind (memoryGasCost memorySize) (\<lambda>gas. checked (SafeAdd gas GasFastestStep))"

definition gasReturn :: gasFunc where
  "gasReturn W c st memorySize = memoryGasCost memorySize"

definition gasRevert :: gasFunc where
  "gasRevert W c st memorySize = memoryGasCost memorySize"

definition makeGasLog :: "u64 \<Rightarrow> gasFunc" where
  "makeGasLog n W c st memorySize =
     gas_bind (gas_Back 1 st) (\<lambda>x.
       gas_bind (checked (bigUint64 x)) (\<lambda>requestedSize.
         gas_bind (memoryGasCost memorySize) (\<lambda>gas.
           gas_bind (checked (SafeAdd gas LogGas)) (\<lambda>gas.
             gas_bind (checked (SafeAdd gas (n * LogTopicGas))) (\<lambda>gas.
               gas_bind (checked (SafeMul requestedSize LogDataGas)) (\<lambda>memorySizeGas.
                 checked (SafeAdd gas memorySizeGas)))))))"

definition gasExtCodeHash :: gasFunc where
  "gasExtCodeHash W c st memorySize = gas_ret (gtExtcodeHash (gasTable W))"

definition gasBalance :: gasFunc where
  "gasBalance W c st memorySize = gas_ret (gtBalance (gasTable W))"

definition gasExtCodeSize :: gasFunc where
  "gasExtCodeSize W c st memorySize = gas_ret (gtExtcodeSize (gasTable W))"

definition gasSLoad :: gasFunc where
  "gasSLoad W c st memorySize = gas_ret (gtSLoad (gasTable W))"

definition gasPush :: gasFunc where "gasPush W c st memorySize = gas_ret GasFastestStep"
definition gasSwap :: gasFunc where "gasSwap W c st memorySize = gas_ret GasFastestStep"
definition gasDup :: gasFunc where "gasDup W c st memorySize = gas_ret GasFastestStep"

definition gasExp :: gasFunc where
  "gasExp W c st memorySize =
     gas_bind (gas_Back 1 st) (\<lambda>e.
       let expByteLen = word_of_nat ((BitLen e + 7) div 8) in
       checked (SafeAdd (expByteLen * gtExpByte (gasTable W)) GasSlowStep))"

text \<open>Storage: the refunds are recorded here, before the gas is taken.\<close>

definition gasSStore_net :: "machine \<Rightarrow> address \<Rightarrow> hash \<Rightarrow> hash \<Rightarrow> hash \<Rightarrow> u64 gas_fun" where
  "gasSStore_net W self key val current =
     (if current = val then gas_ret 200
      else
        gas_bind (ask (GetCommittedState (vmH W) self key)) (\<lambda>original.
          if original = current then
            if original = 0 then gas_ret 20000
            else gas_bind (if val = 0 then tell (\<lambda>s. Inr (AddRefund 15000 s)) else gas_ret ()) (\<lambda>_. gas_ret 5000)
          else
            gas_bind
              (if original \<noteq> 0 then
                 if current = 0 then tell (SubRefund 15000)
                 else if val = 0 then tell (\<lambda>s. Inr (AddRefund 15000 s))
                 else gas_ret ()
               else gas_ret ()) (\<lambda>_.
            gas_bind
              (if original = val then
                 if original = 0 then tell (\<lambda>s. Inr (AddRefund 19800 s))
                 else tell (\<lambda>s. Inr (AddRefund 4800 s))
               else gas_ret ()) (\<lambda>_.
            gas_ret 200))))"

definition gasSStore :: gasFunc where
  "gasSStore W c st memorySize =
     gas_bind (gas_Back 1 st) (\<lambda>y.
       gas_bind (gas_Back 0 st) (\<lambda>x.
         gas_bind (ask (GetState (vmH W) (ctSelf c) (BigToHash x))) (\<lambda>current.
           if \<not> IsConstantinople W then
             if current = 0 \<and> y \<noteq> 0 then gas_ret 20000
             else if current \<noteq> 0 \<and> y = 0 then gas_bind (tell (\<lambda>s. Inr (AddRefund 15000 s))) (\<lambda>_. gas_ret 5000)
             else gas_ret 5000
           else gasSStore_net W (ctSelf c) (BigToHash x) (BigToHash y) current)))"

text \<open>The gas reserved for a call goes to \<open>callGasTemp\<close>, zero when it cannot be computed.\<close>

definition reserve :: "GasTable \<Rightarrow> Contract \<Rightarrow> int list \<Rightarrow> u64 \<Rightarrow> u64 gas_fun" where
  "reserve gt c st gas =
     gas_bind (gas_Back 0 st) (\<lambda>x s.
       case callGas gt (ctGas c) gas x of
         Inl e \<Rightarrow> gas_fail e (fst s, (snd s)\<lparr>callGasTemp := 0\<rparr>)
       | Inr g \<Rightarrow> checked (SafeAdd gas g) (fst s, (snd s)\<lparr>callGasTemp := g\<rparr>))"

definition gasCall :: gasFunc where
  "gasCall W c st memorySize =
     gas_bind (gas_Back 2 st) (\<lambda>val.
       gas_bind (gas_Back 1 st) (\<lambda>a.
         gas_bind
           (if IsEIP158 W then
              if val \<noteq> 0 then gas_bind (ask (Empty (vmH W) (BigToAddress a))) (\<lambda>e. gas_ret (if e then CallNewAccountGas else 0))
              else gas_ret 0
            else gas_bind (ask (Exist (BigToAddress a))) (\<lambda>e. gas_ret (if e then 0 else CallNewAccountGas))) (\<lambda>new.
           let gas = gtCalls (gasTable W) + new + (if val \<noteq> 0 then CallValueTransferGas else 0) in
           gas_bind (memoryGasCost memorySize) (\<lambda>memoryGas.
             gas_bind (checked (SafeAdd gas memoryGas)) (reserve (gasTable W) c st)))))"

definition gasCallCode :: gasFunc where
  "gasCallCode W c st memorySize =
     gas_bind (gas_Back 2 st) (\<lambda>val.
       let gas = gtCalls (gasTable W) + (if val \<noteq> 0 then CallValueTransferGas else 0) in
       gas_bind (memoryGasCost memorySize) (\<lambda>memoryGas.
         gas_bind (checked (SafeAdd gas memoryGas)) (reserve (gasTable W) c st)))"

definition gasDelegateCall :: gasFunc where
  "gasDelegateCall W c st memorySize =
     gas_bind (memoryGasCost memorySize) (\<lambda>gas.
       gas_bind (checked (SafeAdd gas (gtCalls (gasTable W)))) (reserve (gasTable W) c st))"

definition gasStaticCall :: gasFunc where
  "gasStaticCall W c st memorySize =
     gas_bind (memoryGasCost memorySize) (\<lambda>gas.
       gas_bind (checked (SafeAdd gas (gtCalls (gasTable W)))) (reserve (gasTable W) c st))"

definition gasSuicide :: gasFunc where
  "gasSuicide W c st memorySize =
     gas_bind
       (if IsEIP150 W then
          gas_bind (gas_Back 0 st) (\<lambda>x.
            let a = BigToAddress x; gt = gasTable W in
            gas_bind
              (if IsEIP158 W then
                 gas_bind (ask (Empty (vmH W) a)) (\<lambda>e.
                   if e then gas_bind (ask (GetBalance (ctSelf c))) (\<lambda>b. gas_ret (b \<noteq> 0)) else gas_ret False)
               else gas_bind (ask (Exist a)) (\<lambda>e. gas_ret (\<not> e))) (\<lambda>new.
            gas_ret (gtSuicide gt + (if new then gtCreateBySuicide gt else 0))))
        else gas_ret 0) (\<lambda>gas.
       gas_bind (ask (HasSuicided (ctSelf c))) (\<lambda>dead.
         gas_bind (if \<not> dead then tell (\<lambda>s. Inr (AddRefund SuicideRefundGas s)) else gas_ret ()) (\<lambda>_. gas_ret gas)))"

end
