(* ===== verification/EVM_Calls.thy ===== *)
theory EVM_Calls
  imports EVM_Gas
begin

text \<open>
  Calls and contract creation: \<open>src/sdag/core/vm/evm.go\<close>, the transfer functions of \<open>src/sdag/core/evm.go\<close>
  it is given, \<open>RunPrecompiledContract\<close> of \<open>contracts.go\<close>, and the instructions that call.  The interpreter
  (\<open>Run\<close>) is an argument of these definitions, which ties the recursion in the theory that defines it.
\<close>

type_synonym run_result = "err + (bytes \<times> vm_error option) \<times> Contract \<times> EVM"
type_synonym runner = "Contract \<Rightarrow> bytes \<Rightarrow> bool \<Rightarrow> EVM \<Rightarrow> run_result"
type_synonym call_result = "err + (bytes \<times> u64 \<times> vm_error option) \<times> EVM"

section \<open>Transfers and addresses\<close>

definition CanTransfer :: "address \<Rightarrow> int \<Rightarrow> StateDB \<Rightarrow> bool \<times> StateDB" where
  "CanTransfer a amount s = (case GetBalance a s of (b, s) \<Rightarrow> (b \<ge> amount, s))"

definition Transfer :: "hashing \<Rightarrow> address \<Rightarrow> address \<Rightarrow> int \<Rightarrow> StateDB \<Rightarrow> StateDB" where
  "Transfer H sender recipient amount s = AddBalance H recipient amount (SubBalance H sender amount s)"

definition CreateAddress :: "(bytes \<Rightarrow> hash) \<Rightarrow> address \<Rightarrow> u64 \<Rightarrow> address" where
  "CreateAddress kec b nonce = ucast (kec (rlp_bytes (VList [VBytes (address_bytes b), VUint nonce])))"

definition CreateAddress2 :: "(bytes \<Rightarrow> hash) \<Rightarrow> address \<Rightarrow> hash \<Rightarrow> bytes \<Rightarrow> address" where
  "CreateAddress2 kec b salt code = ucast (kec ([0xff] @ address_bytes b @ hash_bytes salt @ code))"

section \<open>Calls\<close>

abbreviation (input) CallCreateDepth :: nat where "CallCreateDepth \<equiv> 1024"
abbreviation (input) CallStipend :: u64 where "CallStipend \<equiv> 2300"
abbreviation (input) CreateDataGas :: u64 where "CreateDataGas \<equiv> 200"
abbreviation (input) MaxCodeSize :: nat where "MaxCodeSize \<equiv> 24576"

definition RunPrecompiledContract :: "precompiled \<Rightarrow> bytes \<Rightarrow> Contract \<Rightarrow> err + (bytes \<times> vm_error option) \<times> Contract" where
  "RunPrecompiledContract p input c =
     res_bind (RequiredGas p input) (\<lambda>gas.
       case UseGas gas c of
         (False, c) \<Rightarrow> Inr (([], Some ErrOutOfGas), c)
       | (True, c) \<Rightarrow>
           res_bind (pcRun p input) (\<lambda>r. case r of Inl e \<Rightarrow> Inr (([], Some e), c) | Inr ret \<Rightarrow> Inr ((ret, None), c)))"

definition vm_run :: "machine \<Rightarrow> runner \<Rightarrow> runner" where
  "vm_run W run c input ro ev =
     (case ctCodeAddr c of
        None \<Rightarrow> run c input ro ev
      | Some a \<Rightarrow>
          (case precompiles W a of
             None \<Rightarrow> run c input ro ev
           | Some p \<Rightarrow> res_bind (RunPrecompiledContract p input c) (\<lambda>(r, c). Inr (r, c, ev))))"

text \<open>A contract created by a caller from outside starts an empty map of jump analyses.\<close>

definition share_jumpdests :: "ContractRef \<Rightarrow> EVM \<Rightarrow> EVM" where
  "share_jumpdests caller ev = (case caller of AccountRef _ \<Rightarrow> ev\<lparr>jumpdests := Map.empty\<rparr> | ContractOf _ \<Rightarrow> ev)"

definition load_code :: "machine \<Rightarrow> address \<Rightarrow> Contract \<Rightarrow> EVM \<Rightarrow> Contract \<times> EVM" where
  "load_code W a c ev =
     (let (h, s) = GetCodeHash a (statedb ev);
          (code, s) = GetCode (vmH W) a s
      in (SetCallCode a h (case code of None \<Rightarrow> [] | Some b \<Rightarrow> b) c, ev\<lparr>statedb := s\<rparr>))"

text \<open>The common end: an error reverts the state, and takes all gas unless it is a revert.\<close>

definition conclude :: "int \<Rightarrow> (bytes \<times> vm_error option) \<times> Contract \<times> EVM \<Rightarrow> call_result" where
  "conclude snapshot r =
     (case r of ((ret, e), c, ev) \<Rightarrow>
        case e of
          None \<Rightarrow> Inr ((ret, ctGas c, None), ev)
        | Some er \<Rightarrow>
            res_bind (RevertToSnapshot snapshot (statedb ev)) (\<lambda>s.
              Inr ((ret, if er \<noteq> errExecutionReverted then 0 else ctGas c, Some er), ev\<lparr>statedb := s\<rparr>)))"

text \<open>The end the four kinds of call share: load the code, run it, conclude.\<close>

definition enter ::
    "machine \<Rightarrow> runner \<Rightarrow> ContractRef \<Rightarrow> address \<Rightarrow> Contract \<Rightarrow> bytes \<Rightarrow> bool \<Rightarrow> int \<Rightarrow> EVM \<Rightarrow> call_result" where
  "enter W run caller addr c input ro snapshot ev =
     (case load_code W addr c ev of (c, ev) \<Rightarrow>
        res_bind (vm_run W run c input ro (share_jumpdests caller ev)) (conclude snapshot))"

definition vm_Call :: "machine \<Rightarrow> runner \<Rightarrow> ContractRef \<Rightarrow> address \<Rightarrow> bytes \<Rightarrow> u64 \<Rightarrow> int \<Rightarrow> EVM \<Rightarrow> call_result" where
  "vm_Call W run caller addr input gas val ev =
     (if NoRecursion W \<and> depth ev > 0 then Inr (([], gas, None), ev)
      else if depth ev > CallCreateDepth then Inr (([], gas, Some ErrDepth), ev)
      else
        (let (can, s) = CanTransfer (ref_Address caller) val (statedb ev) in
         if \<not> can then Inr (([], gas, Some ErrInsufficientBalance), ev\<lparr>statedb := s\<rparr>)
         else
           (let (snapshot, s) = Snapshot s;
                (exist, s) = Exist addr s
            in if \<not> exist \<and> precompiles W addr = None \<and> IsEIP158 W \<and> val = 0
               then Inr (([], gas, None), ev\<lparr>statedb := s\<rparr>)
               else
                 (let s = (if \<not> exist then CreateAccount (vmH W) addr s else s);
                      s = Transfer (vmH W) (ref_Address caller) addr val s
                  in enter W run caller addr (NewContract caller addr (Some val) gas) input False snapshot (ev\<lparr>statedb := s\<rparr>)))))"

definition vm_CallCode :: "machine \<Rightarrow> runner \<Rightarrow> ContractRef \<Rightarrow> address \<Rightarrow> bytes \<Rightarrow> u64 \<Rightarrow> int \<Rightarrow> EVM \<Rightarrow> call_result" where
  "vm_CallCode W run caller addr input gas val ev =
     (if NoRecursion W \<and> depth ev > 0 then Inr (([], gas, None), ev)
      else if depth ev > CallCreateDepth then Inr (([], gas, Some ErrDepth), ev)
      else
        (let (can, s) = CanTransfer (ref_Address caller) val (statedb ev) in
         if \<not> can then Inr (([], gas, Some ErrInsufficientBalance), ev\<lparr>statedb := s\<rparr>)
         else
           (let (snapshot, s) = Snapshot s
            in enter W run caller addr (NewContract caller (ref_Address caller) (Some val) gas) input False snapshot
                 (ev\<lparr>statedb := s\<rparr>))))"

definition vm_DelegateCall :: "machine \<Rightarrow> runner \<Rightarrow> ContractRef \<Rightarrow> address \<Rightarrow> bytes \<Rightarrow> u64 \<Rightarrow> EVM \<Rightarrow> call_result" where
  "vm_DelegateCall W run caller addr input gas ev =
     (if NoRecursion W \<and> depth ev > 0 then Inr (([], gas, None), ev)
      else if depth ev > CallCreateDepth then Inr (([], gas, Some ErrDepth), ev)
      else
        (let (snapshot, s) = Snapshot (statedb ev) in
         res_bind (AsDelegate caller (NewContract caller (ref_Address caller) None gas)) (\<lambda>c.
           enter W run caller addr c input False snapshot (ev\<lparr>statedb := s\<rparr>))))"

definition vm_StaticCall :: "machine \<Rightarrow> runner \<Rightarrow> ContractRef \<Rightarrow> address \<Rightarrow> bytes \<Rightarrow> u64 \<Rightarrow> EVM \<Rightarrow> call_result" where
  "vm_StaticCall W run caller addr input gas ev =
     (if NoRecursion W \<and> depth ev > 0 then Inr (([], gas, None), ev)
      else if depth ev > CallCreateDepth then Inr (([], gas, Some ErrDepth), ev)
      else
        (let (snapshot, s) = Snapshot (statedb ev)
         in enter W run caller addr (NewContract caller addr (Some 0) gas) input True snapshot (ev\<lparr>statedb := s\<rparr>)))"

section \<open>Creation\<close>

type_synonym create_result = "err + (bytes \<times> address \<times> u64 \<times> vm_error option) \<times> EVM"

text \<open>Storing the code that the initialisation returned; a nil result is stored as nil.\<close>

definition store_code ::
    "machine \<Rightarrow> address \<Rightarrow> (bytes \<times> vm_error option) \<times> Contract \<times> EVM \<Rightarrow> (bytes \<times> vm_error option) \<times> Contract \<times> EVM" where
  "store_code W a r =
     (case r of ((ret, e), c, ev) \<Rightarrow>
        if e = None \<and> \<not> (IsEIP158 W \<and> length ret > MaxCodeSize) then
          (case UseGas (word_of_nat (length ret) * CreateDataGas) c of
             (True, c) \<Rightarrow>
               ((ret, None), c,
                ev\<lparr>statedb := SetCode (vmH W) a (if ret = [] then None else Some ret) (statedb ev)\<rparr>)
           | (False, c) \<Rightarrow> ((ret, Some ErrCodeStoreOutOfGas), c, ev))
        else r)"

definition conclude_create ::
    "machine \<Rightarrow> address \<Rightarrow> int \<Rightarrow> (bytes \<times> vm_error option) \<times> Contract \<times> EVM \<Rightarrow> create_result" where
  "conclude_create W a snapshot r =
     (case r of ((ret, e), c, ev) \<Rightarrow>
        (let exceeded = (IsEIP158 W \<and> length ret > MaxCodeSize) in
         res_bind
           (if exceeded \<or> (e \<noteq> None \<and> (IsHomestead W \<or> e \<noteq> Some ErrCodeStoreOutOfGas))
            then res_bind (RevertToSnapshot snapshot (statedb ev)) (\<lambda>s.
                   Inr (if e \<noteq> Some errExecutionReverted then 0 else ctGas c, ev\<lparr>statedb := s\<rparr>))
            else Inr (ctGas c, ev))
           (\<lambda>(gas, ev). Inr ((ret, a, gas, if exceeded \<and> e = None then Some errMaxCodeSizeExceeded else e), ev))))"

definition vm_create ::
    "machine \<Rightarrow> runner \<Rightarrow> ContractRef \<Rightarrow> bytes \<Rightarrow> hash \<Rightarrow> u64 \<Rightarrow> int \<Rightarrow> address \<Rightarrow> EVM \<Rightarrow> create_result" where
  "vm_create W run caller code codeHash gas val addr ev =
     (if depth ev > CallCreateDepth then Inr (([], 0, gas, Some ErrDepth), ev)
      else
        (let self = ref_Address caller; H = vmH W;
             (can, s) = CanTransfer self val (statedb ev) in
         if \<not> can then Inr (([], 0, gas, Some ErrInsufficientBalance), ev\<lparr>statedb := s\<rparr>)
         else
           (let (nonce, s) = GetNonce self s;
                s = SetNonce H self (nonce + 1) s;
                (contractHash, s) = GetCodeHash addr s;
                (n, s) = GetNonce addr s in
            if n \<noteq> 0 \<or> (contractHash \<noteq> 0 \<and> contractHash \<noteq> emptyCodeHash H)
            then Inr (([], 0, 0, Some ErrContractAddressCollision), ev\<lparr>statedb := s\<rparr>)
            else
              (let (snapshot, s) = Snapshot s;
                   s = CreateAccount H addr s;
                   s = (if IsEIP158 W then SetNonce H addr 1 s else s);
                   s = Transfer H self addr val s;
                   c = SetCallCode addr codeHash code (NewContract caller addr (Some val) gas);
                   ev = ev\<lparr>statedb := s\<rparr> in
               if NoRecursion W \<and> depth ev > 0 then Inr (([], addr, gas, None), ev)
               else
                 res_bind (vm_run W run c [] False (share_jumpdests caller ev)) (\<lambda>r.
                   conclude_create W addr snapshot (store_code W addr r))))))"

definition vm_Create :: "machine \<Rightarrow> runner \<Rightarrow> ContractRef \<Rightarrow> bytes \<Rightarrow> u64 \<Rightarrow> int \<Rightarrow> EVM \<Rightarrow> create_result" where
  "vm_Create W run caller code gas val ev =
     (let (nonce, s) = GetNonce (ref_Address caller) (statedb ev) in
      vm_create W run caller code 0 gas val (CreateAddress (vmKeccak W) (ref_Address caller) nonce) (ev\<lparr>statedb := s\<rparr>))"

definition vm_Create2 :: "machine \<Rightarrow> runner \<Rightarrow> ContractRef \<Rightarrow> bytes \<Rightarrow> u64 \<Rightarrow> int \<Rightarrow> int \<Rightarrow> EVM \<Rightarrow> create_result" where
  "vm_Create2 W run caller code gas endowment salt ev =
     (let h = vmKeccak W code in
      vm_create W run caller code h gas endowment
        (CreateAddress2 (vmKeccak W) (ref_Address caller) (BigToHash salt) (hash_bytes h)) ev)"

section \<open>The instructions that call\<close>

definition add_gas :: "u64 \<Rightarrow> Contract \<Rightarrow> Contract" where
  "add_gas g c = c\<lparr>ctGas := ctGas c + g\<rparr>"

text \<open>After a call: the flag on the stack, the result in memory, the gas that came back.\<close>

definition after_call :: "frame \<Rightarrow> int \<Rightarrow> int \<Rightarrow> (bytes \<times> u64 \<times> vm_error option) \<times> EVM \<Rightarrow> exec_result" where
  "after_call fr retOffset retSize r =
     (case r of ((ret, returnGas, e), ev) \<Rightarrow>
        res_bind
          (if e = None \<or> e = Some errExecutionReverted
           then mem_Set (big_Uint64 retOffset) (big_Uint64 retSize) ret (mem fr) else Inr (mem fr))
          (\<lambda>m. Inr ((ret, None),
             fr\<lparr>stk := (if e = None then 1 else 0) # stk fr, mem := m, contract := add_gas returnGas (contract fr)\<rparr>, ev)))"

definition opCall :: "runner \<Rightarrow> machine \<Rightarrow> frame \<Rightarrow> EVM \<Rightarrow> exec_result" where
  "opCall run W fr ev =
     (case stk fr of
        _ # a # val # inOffset # inSize # retOffset # retSize # st \<Rightarrow>
          (let val = U256 val; fr = fr\<lparr>stk := st\<rparr> in
           res_bind (mem_Get (big_Int64 inOffset) (big_Int64 inSize) (mem fr)) (\<lambda>args.
             let gas = callGasTemp ev + (if val \<noteq> 0 then CallStipend else 0) in
             res_bind (vm_Call W run (ContractOf (contract fr)) (BigToAddress a) args gas val ev)
               (after_call fr retOffset retSize)))
      | _ \<Rightarrow> Inl Panic)"

definition opCallCode :: "runner \<Rightarrow> machine \<Rightarrow> frame \<Rightarrow> EVM \<Rightarrow> exec_result" where
  "opCallCode run W fr ev =
     (case stk fr of
        _ # a # val # inOffset # inSize # retOffset # retSize # st \<Rightarrow>
          (let val = U256 val; fr = fr\<lparr>stk := st\<rparr> in
           res_bind (mem_Get (big_Int64 inOffset) (big_Int64 inSize) (mem fr)) (\<lambda>args.
             let gas = callGasTemp ev + (if val \<noteq> 0 then CallStipend else 0) in
             res_bind (vm_CallCode W run (ContractOf (contract fr)) (BigToAddress a) args gas val ev)
               (after_call fr retOffset retSize)))
      | _ \<Rightarrow> Inl Panic)"

definition opDelegateCall :: "runner \<Rightarrow> machine \<Rightarrow> frame \<Rightarrow> EVM \<Rightarrow> exec_result" where
  "opDelegateCall run W fr ev =
     (case stk fr of
        _ # a # inOffset # inSize # retOffset # retSize # st \<Rightarrow>
          (let fr = fr\<lparr>stk := st\<rparr> in
           res_bind (mem_Get (big_Int64 inOffset) (big_Int64 inSize) (mem fr)) (\<lambda>args.
             res_bind (vm_DelegateCall W run (ContractOf (contract fr)) (BigToAddress a) args (callGasTemp ev) ev)
               (after_call fr retOffset retSize)))
      | _ \<Rightarrow> Inl Panic)"

definition opStaticCall :: "runner \<Rightarrow> machine \<Rightarrow> frame \<Rightarrow> EVM \<Rightarrow> exec_result" where
  "opStaticCall run W fr ev =
     (case stk fr of
        _ # a # inOffset # inSize # retOffset # retSize # st \<Rightarrow>
          (let fr = fr\<lparr>stk := st\<rparr> in
           res_bind (mem_Get (big_Int64 inOffset) (big_Int64 inSize) (mem fr)) (\<lambda>args.
             res_bind (vm_StaticCall W run (ContractOf (contract fr)) (BigToAddress a) args (callGasTemp ev) ev)
               (after_call fr retOffset retSize)))
      | _ \<Rightarrow> Inl Panic)"

text \<open>After a creation: the address or zero on the stack; only a reverted creation has return data.\<close>

definition after_create :: "frame \<Rightarrow> bool \<Rightarrow> (bytes \<times> address \<times> u64 \<times> vm_error option) \<times> EVM \<Rightarrow> exec_result" where
  "after_create fr failed r =
     (case r of ((res, a, returnGas, e), ev) \<Rightarrow>
        Inr ((if e = Some errExecutionReverted then res else [], None),
          fr\<lparr>stk := (if failed then 0 else uint a) # stk fr, contract := add_gas returnGas (contract fr)\<rparr>, ev))"

definition opCreate :: "runner \<Rightarrow> machine \<Rightarrow> frame \<Rightarrow> EVM \<Rightarrow> exec_result" where
  "opCreate run W fr ev =
     (case stk fr of
        val # offset # sz # st \<Rightarrow>
          (let fr = fr\<lparr>stk := st\<rparr> in
           res_bind (mem_Get (big_Int64 offset) (big_Int64 sz) (mem fr)) (\<lambda>input.
             let gas = ctGas (contract fr);
                 gas = (if IsEIP150 W then gas - gas div 64 else gas);
                 fr = fr\<lparr>contract := snd (UseGas gas (contract fr))\<rparr>
             in res_bind (vm_Create W run (ContractOf (contract fr)) input gas val ev) (\<lambda>r.
                  let e = snd (snd (snd (fst r))) in
                  after_create fr (IsHomestead W \<and> e = Some ErrCodeStoreOutOfGas \<or> e \<noteq> None \<and> e \<noteq> Some ErrCodeStoreOutOfGas) r)))
      | _ \<Rightarrow> Inl Panic)"

definition opCreate2 :: "runner \<Rightarrow> machine \<Rightarrow> frame \<Rightarrow> EVM \<Rightarrow> exec_result" where
  "opCreate2 run W fr ev =
     (case stk fr of
        endowment # offset # sz # salt # st \<Rightarrow>
          (let fr = fr\<lparr>stk := st\<rparr> in
           res_bind (mem_Get (big_Int64 offset) (big_Int64 sz) (mem fr)) (\<lambda>input.
             let gas = ctGas (contract fr);
                 gas = gas - gas div 64;
                 fr = fr\<lparr>contract := snd (UseGas gas (contract fr))\<rparr>
             in res_bind (vm_Create2 W run (ContractOf (contract fr)) input gas endowment salt ev) (\<lambda>r.
                  after_create fr (snd (snd (snd (fst r))) \<noteq> None) r)))
      | _ \<Rightarrow> Inl Panic)"

end
