(* ===== verification/EVM_Run.thy ===== *)
theory EVM_Run
  imports EVM_Calls
begin

text \<open>
  The instruction tables (\<open>src/sdag/core/vm/jump_table.go\<close>, \<open>opcodes.go\<close>, \<open>stack_table.go\<close>) and the
  interpreter (\<open>interpreter.go\<close>).  The main loop has a bound (fuel), which also bounds the depth of the
  recursion through calls; the theory of gas shows that more fuel than gas is always enough.
\<close>

section \<open>Opcodes\<close>

abbreviation (input) STOP :: byte where "STOP \<equiv> 0x00"
abbreviation (input) CALL :: byte where "CALL \<equiv> 0xf1"
abbreviation (input) DUP1 :: byte where "DUP1 \<equiv> 0x80"
abbreviation (input) SWAP1 :: byte where "SWAP1 \<equiv> 0x90"
abbreviation (input) LOG0 :: byte where "LOG0 \<equiv> 0xa0"

section \<open>Instruction tables\<close>

record operation =
  execute :: "runner \<Rightarrow> machine \<Rightarrow> frame \<Rightarrow> EVM \<Rightarrow> exec_result"
  gasCost :: gasFunc
  minStack :: nat
  pushes :: nat
  memorySize :: "(int list \<Rightarrow> err + int) option"
  halts :: bool
  jumps :: bool
  writes :: bool
  reverts :: bool
  returns_data :: bool

text \<open>\<open>makeStackFunc pop push\<close>: enough items, and at most 1024 afterwards.\<close>

abbreviation (input) StackLimit :: nat where "StackLimit \<equiv> 1024"

definition validateStack :: "operation \<Rightarrow> int list \<Rightarrow> vm_error option" where
  "validateStack operation st =
     (if length st < minStack operation then Some StackUnderflow
      else if length st + pushes operation - minStack operation > StackLimit then Some StackLimitReached
      else None)"

definition plain_op :: "(machine \<Rightarrow> frame \<Rightarrow> EVM \<Rightarrow> exec_result) \<Rightarrow> gasFunc \<Rightarrow> nat \<Rightarrow> nat \<Rightarrow> operation" where
  "plain_op ex gas n k =
     \<lparr>execute = (\<lambda>run. ex), gasCost = gas, minStack = n, pushes = k, memorySize = None, halts = False,
      jumps = False, writes = False, reverts = False, returns_data = False\<rparr>"

definition call_op :: "(runner \<Rightarrow> machine \<Rightarrow> frame \<Rightarrow> EVM \<Rightarrow> exec_result) \<Rightarrow> gasFunc \<Rightarrow> nat \<Rightarrow> (int list \<Rightarrow> err + int) \<Rightarrow> operation" where
  "call_op ex gas n msize =
     \<lparr>execute = ex, gasCost = gas, minStack = n, pushes = 1, memorySize = Some msize, halts = False,
      jumps = False, writes = False, reverts = False, returns_data = True\<rparr>"

definition with_memory :: "(int list \<Rightarrow> err + int) \<Rightarrow> operation \<Rightarrow> operation" where
  "with_memory msize operation = operation\<lparr>memorySize := Some msize\<rparr>"

text \<open>The frontier instructions: arithmetic and comparison.\<close>

definition frontier_arith :: "(byte \<times> operation) list" where
  "frontier_arith =
     [(0x00, (plain_op opStop (constGasFunc 0) 0 0)\<lparr>halts := True\<rparr>),
      (0x01, plain_op (on_stack opAdd) (constGasFunc GasFastestStep) 2 1),
      (0x02, plain_op (on_stack opMul) (constGasFunc GasFastStep) 2 1),
      (0x03, plain_op (on_stack opSub) (constGasFunc GasFastestStep) 2 1),
      (0x04, plain_op (on_stack opDiv) (constGasFunc GasFastStep) 2 1),
      (0x05, plain_op (on_stack opSdiv) (constGasFunc GasFastStep) 2 1),
      (0x06, plain_op (on_stack opMod) (constGasFunc GasFastStep) 2 1),
      (0x07, plain_op (on_stack opSmod) (constGasFunc GasFastStep) 2 1),
      (0x08, plain_op (on_stack opAddmod) (constGasFunc GasMidStep) 3 1),
      (0x09, plain_op (on_stack opMulmod) (constGasFunc GasMidStep) 3 1),
      (0x0a, plain_op (on_stack opExp) gasExp 2 1),
      (0x0b, plain_op (on_stack opSignExtend) (constGasFunc GasFastStep) 2 1),
      (0x10, plain_op (on_stack opLt) (constGasFunc GasFastestStep) 2 1),
      (0x11, plain_op (on_stack opGt) (constGasFunc GasFastestStep) 2 1),
      (0x12, plain_op (on_stack opSlt) (constGasFunc GasFastestStep) 2 1),
      (0x13, plain_op (on_stack opSgt) (constGasFunc GasFastestStep) 2 1),
      (0x14, plain_op (on_stack opEq) (constGasFunc GasFastestStep) 2 1),
      (0x15, plain_op (on_stack opIszero) (constGasFunc GasFastestStep) 1 1),
      (0x16, plain_op (on_stack opAnd) (constGasFunc GasFastestStep) 2 1),
      (0x17, plain_op (on_stack opOr) (constGasFunc GasFastestStep) 2 1),
      (0x18, plain_op (on_stack opXor) (constGasFunc GasFastestStep) 2 1),
      (0x19, plain_op (on_stack opNot) (constGasFunc GasFastestStep) 1 1),
      (0x1a, plain_op (on_stack opByte) (constGasFunc GasFastestStep) 2 1)]"

text \<open>Closure state, block information, storage and flow.\<close>

definition frontier_closure :: "(byte \<times> operation) list" where
  "frontier_closure =
     [(0x20, with_memory memorySha3 (plain_op opSha3 gasSha3 2 1)),
      (0x30, plain_op opAddress (constGasFunc GasQuickStep) 0 1),
      (0x31, plain_op opBalance gasBalance 1 1),
      (0x32, plain_op opOrigin (constGasFunc GasQuickStep) 0 1),
      (0x33, plain_op opCaller (constGasFunc GasQuickStep) 0 1),
      (0x34, plain_op opCallValue (constGasFunc GasQuickStep) 0 1),
      (0x35, plain_op opCallDataLoad (constGasFunc GasFastestStep) 1 1),
      (0x36, plain_op opCallDataSize (constGasFunc GasQuickStep) 0 1),
      (0x37, with_memory memoryCallDataCopy (plain_op opCallDataCopy gasCallDataCopy 3 0)),
      (0x38, plain_op opCodeSize (constGasFunc GasQuickStep) 0 1),
      (0x39, with_memory memoryCodeCopy (plain_op opCodeCopy gasCodeCopy 3 0)),
      (0x3a, plain_op opGasprice (constGasFunc GasQuickStep) 0 1),
      (0x3b, plain_op opExtCodeSize gasExtCodeSize 1 1),
      (0x3c, with_memory memoryExtCodeCopy (plain_op opExtCodeCopy gasExtCodeCopy 4 0)),
      (0x40, plain_op opBlockhash (constGasFunc GasExtStep) 1 1),
      (0x41, plain_op opCoinbase (constGasFunc GasQuickStep) 0 1),
      (0x42, plain_op opTimestamp (constGasFunc GasQuickStep) 0 1),
      (0x43, plain_op opNumber (constGasFunc GasQuickStep) 0 1),
      (0x44, plain_op opDifficulty (constGasFunc GasQuickStep) 0 1),
      (0x45, plain_op opGasLimit (constGasFunc GasQuickStep) 0 1)]"

definition frontier_flow :: "(byte \<times> operation) list" where
  "frontier_flow =
     [(0x50, plain_op (on_stack opPop) (constGasFunc GasQuickStep) 1 0),
      (0x51, with_memory memoryMLoad (plain_op opMload gasMLoad 1 1)),
      (0x52, with_memory memoryMStore (plain_op opMstore gasMStore 2 0)),
      (0x53, with_memory memoryMStore8 (plain_op opMstore8 gasMStore8 2 0)),
      (0x54, plain_op opSload gasSLoad 1 1),
      (0x55, (plain_op opSstore gasSStore 2 0)\<lparr>writes := True\<rparr>),
      (0x56, (plain_op opJump (constGasFunc GasMidStep) 1 0)\<lparr>jumps := True\<rparr>),
      (0x57, (plain_op opJumpi (constGasFunc GasSlowStep) 2 0)\<lparr>jumps := True\<rparr>),
      (0x58, plain_op opPc (constGasFunc GasQuickStep) 0 1),
      (0x59, plain_op opMsize (constGasFunc GasQuickStep) 0 1),
      (0x5a, plain_op opGas (constGasFunc GasQuickStep) 0 1),
      (0x5b, plain_op opJumpdest (constGasFunc JumpdestGas) 0 0)]"

text \<open>\<open>PUSH1\<close> to \<open>PUSH32\<close>, \<open>DUP1\<close> to \<open>DUP16\<close>, \<open>SWAP1\<close> to \<open>SWAP16\<close>, \<open>LOG0\<close> to \<open>LOG4\<close>.\<close>

definition frontier_push :: "(byte \<times> operation) list" where
  "frontier_push =
     map (\<lambda>i. (PUSH1 + word_of_nat i, plain_op (makePush (word_of_nat (i + 1)) (i + 1)) gasPush 0 1)) [0..<32]"

definition frontier_dup :: "(byte \<times> operation) list" where
  "frontier_dup =
     map (\<lambda>i. (DUP1 + word_of_nat i, plain_op (on_stack (makeDup (i + 1))) gasDup (i + 1) (i + 2))) [0..<16]"

definition frontier_swap :: "(byte \<times> operation) list" where
  "frontier_swap =
     map (\<lambda>i. (SWAP1 + word_of_nat i, plain_op (on_stack (makeSwap (i + 1))) gasSwap (i + 2) (i + 2))) [0..<16]"

definition frontier_log :: "(byte \<times> operation) list" where
  "frontier_log =
     map (\<lambda>i. (LOG0 + word_of_nat i,
                 (with_memory memoryLog (plain_op (makeLog i) (makeGasLog (word_of_nat i)) (i + 2) 0))\<lparr>writes := True\<rparr>)) [0..<5]"

definition frontier_calls :: "(byte \<times> operation) list" where
  "frontier_calls =
     [(0xf0, (call_op opCreate gasCreate 3 memoryCreate)\<lparr>writes := True\<rparr>),
      (0xf1, call_op opCall gasCall 7 memoryCall),
      (0xf2, call_op opCallCode gasCallCode 7 memoryCall),
      (0xf3, (with_memory memoryReturn (plain_op opReturn gasReturn 2 0))\<lparr>halts := True\<rparr>),
      (0xff, (plain_op opSuicide gasSuicide 1 0)\<lparr>halts := True, writes := True\<rparr>)]"

definition newFrontierInstructionSet :: "(byte \<times> operation) list" where
  "newFrontierInstructionSet =
     frontier_arith @ frontier_closure @ frontier_flow @ frontier_push @ frontier_dup @ frontier_swap @
     frontier_log @ frontier_calls"

definition newHomesteadInstructionSet :: "(byte \<times> operation) list" where
  "newHomesteadInstructionSet =
     (0xf4, call_op opDelegateCall gasDelegateCall 6 memoryDelegateCall) # newFrontierInstructionSet"

definition newByzantiumInstructionSet :: "(byte \<times> operation) list" where
  "newByzantiumInstructionSet =
     [(0xfa, call_op opStaticCall gasStaticCall 6 memoryStaticCall),
      (0x3d, plain_op opReturnDataSize (constGasFunc GasQuickStep) 0 1),
      (0x3e, with_memory memoryReturnDataCopy (plain_op opReturnDataCopy gasReturnDataCopy 3 0)),
      (0xfd, (with_memory memoryRevert (plain_op opRevert gasRevert 2 0))\<lparr>reverts := True, returns_data := True\<rparr>)]
     @ newHomesteadInstructionSet"

definition newConstantinopleInstructionSet :: "(byte \<times> operation) list" where
  "newConstantinopleInstructionSet =
     [(0x1b, plain_op (on_stack opSHL) (constGasFunc GasFastestStep) 2 1),
      (0x1c, plain_op (on_stack opSHR) (constGasFunc GasFastestStep) 2 1),
      (0x1d, plain_op (on_stack opSAR) (constGasFunc GasFastestStep) 2 1),
      (0x3f, plain_op opExtCodeHash gasExtCodeHash 1 1),
      (0xf5, (call_op opCreate2 gasCreate2 4 memoryCreate2)\<lparr>writes := True\<rparr>)]
     @ newByzantiumInstructionSet"

definition instructionSet :: "machine \<Rightarrow> (byte \<times> operation) list" where
  "instructionSet W =
     (if IsConstantinople W then newConstantinopleInstructionSet
      else if IsByzantium W then newByzantiumInstructionSet
      else if IsHomestead W then newHomesteadInstructionSet
      else newFrontierInstructionSet)"

section \<open>Interpreter\<close>

definition enforceRestrictions :: "machine \<Rightarrow> byte \<Rightarrow> operation \<Rightarrow> int list \<Rightarrow> EVM \<Rightarrow> err + vm_error option" where
  "enforceRestrictions W opc operation st ev =
     (if IsByzantium W \<and> readOnly ev then
        if writes operation then Inr (Some errWriteProtection)
        else if opc = CALL then
          res_bind (Back 2 st) (\<lambda>v. Inr (if BitLen v > 0 then Some errWriteProtection else None))
        else Inr None
      else Inr None)"

text \<open>The memory size an instruction asks for, rounded up to words.\<close>

definition requested_memory :: "operation \<Rightarrow> int list \<Rightarrow> err + (vm_error + u64)" where
  "requested_memory operation st =
     (case memorySize operation of
        None \<Rightarrow> Inr (Inr 0)
      | Some f \<Rightarrow>
          res_bind (f st) (\<lambda>x.
            let (memSize, overflow) = bigUint64 x in
            if overflow then Inr (Inl errGasUintOverflow)
            else let (memSize, overflow) = SafeMul (toWordSize memSize) 32 in
              if overflow then Inr (Inl errGasUintOverflow) else Inr (Inr memSize)))"

text \<open>
  One round of the main loop.  \<open>Inl\<close> on the right is a result the loop returns, \<open>Inr\<close> a frame it goes on
  with.  What the frame holds after an error is of no consequence, except for its gas.
\<close>

type_synonym step_result = "err + ((bytes \<times> vm_error option) + unit) \<times> frame \<times> EVM"

definition abandon :: "vm_error \<Rightarrow> frame \<Rightarrow> EVM \<Rightarrow> step_result" where
  "abandon e fr ev = Inr (Inl ([], Some e), fr, ev)"

definition perform :: "runner \<Rightarrow> machine \<Rightarrow> operation \<Rightarrow> frame \<Rightarrow> EVM \<Rightarrow> step_result" where
  "perform run W operation fr ev =
     res_bind (execute operation run W fr ev) (\<lambda>((res, e), fr, ev).
       let ev = (if returns_data operation then ev\<lparr>returnData := res\<rparr> else ev) in
       case e of
         Some e \<Rightarrow> abandon e fr ev
       | None \<Rightarrow>
           if reverts operation then Inr (Inl (res, Some errExecutionReverted), fr, ev)
           else if halts operation then Inr (Inl (res, None), fr, ev)
           else if \<not> jumps operation then Inr (Inr (), fr\<lparr>pc := pc fr + 1\<rparr>, ev)
           else Inr (Inr (), fr, ev))"

text \<open>The gas is taken, the memory grows, the instruction is performed.\<close>

definition charge :: "runner \<Rightarrow> machine \<Rightarrow> operation \<Rightarrow> u64 \<Rightarrow> frame \<Rightarrow> EVM \<Rightarrow> step_result" where
  "charge run W operation memSize fr ev =
     res_bind (gasCost operation W (contract fr) (stk fr) memSize (mem fr, ev)) (\<lambda>(r, m, ev).
       case r of
         Inl e \<Rightarrow> abandon ErrOutOfGas (fr\<lparr>mem := m\<rparr>) ev
       | Inr cost \<Rightarrow>
           (case UseGas cost (contract fr) of
              (False, c) \<Rightarrow> abandon ErrOutOfGas (fr\<lparr>mem := m\<rparr>) ev
            | (True, c) \<Rightarrow>
                perform run W operation
                  (fr\<lparr>contract := c, mem := (if memSize > 0 then mem_Resize memSize m else m)\<rparr>) ev))"

definition step :: "runner \<Rightarrow> machine \<Rightarrow> frame \<Rightarrow> EVM \<Rightarrow> step_result" where
  "step run W fr ev =
     (let opc = GetOp (pc fr) (contract fr) in
      case map_of (instructionSet W) opc of
        None \<Rightarrow> abandon (InvalidOpcode opc) fr ev
      | Some operation \<Rightarrow>
          (case validateStack operation (stk fr) of
             Some e \<Rightarrow> abandon e fr ev
           | None \<Rightarrow>
               res_bind (enforceRestrictions W opc operation (stk fr) ev) (\<lambda>r.
                 case r of
                   Some e \<Rightarrow> abandon e fr ev
                 | None \<Rightarrow>
                     res_bind (requested_memory operation (stk fr)) (\<lambda>r.
                       case r of
                         Inl e \<Rightarrow> abandon e fr ev
                       | Inr memSize \<Rightarrow> charge run W operation memSize fr ev))))"

text \<open>\<open>Run\<close> around the loop: depth, write protection, return data, and nothing to do without code.\<close>

definition vm_Run :: "(frame \<Rightarrow> EVM \<Rightarrow> run_result) \<Rightarrow> runner" where
  "vm_Run loop c input ro ev =
     (let protect = (ro \<and> \<not> readOnly ev);
          ev = ev\<lparr>depth := depth ev + 1, readOnly := readOnly ev \<or> protect, returnData := []\<rparr>
      in res_bind
           (if ctCode c = [] then Inr (([], None), c, ev)
            else loop \<lparr>pc = 0, contract = c\<lparr>ctInput := input\<rparr>, mem = NewMemory, stk = []\<rparr> ev)
           (\<lambda>(r, c, ev).
              Inr (r, c, ev\<lparr>depth := depth ev - 1, readOnly := (if protect then False else readOnly ev)\<rparr>)))"

primrec interp :: "nat \<Rightarrow> machine \<Rightarrow> frame \<Rightarrow> EVM \<Rightarrow> run_result" where
  "interp 0 W fr ev = Inl NoFuel"
| "interp (Suc fuel) W fr ev =
     res_bind (step (vm_Run (interp fuel W)) W fr ev) (\<lambda>(r, fr, ev).
       case r of
         Inl res \<Rightarrow> Inr (res, contract fr, ev)
       | Inr _ \<Rightarrow> interp fuel W fr ev)"

text \<open>The calls from outside.\<close>

definition Run :: "nat \<Rightarrow> machine \<Rightarrow> runner" where
  "Run fuel W = vm_Run (interp fuel W)"

end
