(* ===== verification/EVM_Alu.thy ===== *)
theory EVM_Alu
  imports EVM_Run
begin

text \<open>
  The arithmetic, comparison, bit and shift instructions against a reference: the operations of 256-bit
  machine words of the library.  The code computes on unbounded integers and reduces the result.
\<close>

type_synonym word256 = "256 word"

text \<open>The reference: for an opcode the number of operands and the function on words.\<close>

definition word_ops :: "(byte \<times> nat \<times> (word256 list \<Rightarrow> word256)) list" where
  "word_ops =
     [(0x01, 2, \<lambda>v. v ! 0 + v ! 1),
      (0x02, 2, \<lambda>v. v ! 0 * v ! 1),
      (0x03, 2, \<lambda>v. v ! 0 - v ! 1),
      (0x04, 2, \<lambda>v. v ! 0 div v ! 1),
      (0x05, 2, \<lambda>v. word_of_int (sint (v ! 0) sdiv sint (v ! 1))),
      (0x06, 2, \<lambda>v. if v ! 1 = 0 then 0 else v ! 0 mod v ! 1),
      (0x07, 2, \<lambda>v. if v ! 1 = 0 then 0 else word_of_int (sint (v ! 0) smod sint (v ! 1))),
      (0x08, 3, \<lambda>v. if v ! 2 = 0 then 0 else word_of_int ((uint (v ! 0) + uint (v ! 1)) mod uint (v ! 2))),
      (0x09, 3, \<lambda>v. if v ! 2 = 0 then 0 else word_of_int ((uint (v ! 0) * uint (v ! 1)) mod uint (v ! 2))),
      (0x0a, 2, \<lambda>v. v ! 0 ^ unat (v ! 1)),
      (0x0b, 2, \<lambda>v. if v ! 0 < 31 then signed_take_bit (8 * unat (v ! 0) + 7) (v ! 1) else v ! 1),
      (0x10, 2, \<lambda>v. of_bool (v ! 0 < v ! 1)),
      (0x11, 2, \<lambda>v. of_bool (v ! 0 > v ! 1)),
      (0x12, 2, \<lambda>v. of_bool (v ! 0 <s v ! 1)),
      (0x13, 2, \<lambda>v. of_bool (v ! 1 <s v ! 0)),
      (0x14, 2, \<lambda>v. of_bool (v ! 0 = v ! 1)),
      (0x15, 1, \<lambda>v. of_bool (v ! 0 = 0)),
      (0x16, 2, \<lambda>v. v ! 0 AND v ! 1),
      (0x17, 2, \<lambda>v. v ! 0 OR v ! 1),
      (0x18, 2, \<lambda>v. v ! 0 XOR v ! 1),
      (0x19, 1, \<lambda>v. NOT (v ! 0)),
      (0x1a, 2, \<lambda>v. if v ! 0 < 32 then take_bit 8 (drop_bit (8 * (31 - unat (v ! 0))) (v ! 1)) else 0),
      (0x1b, 2, \<lambda>v. if v ! 0 \<ge> 256 then 0 else push_bit (unat (v ! 0)) (v ! 1)),
      (0x1c, 2, \<lambda>v. if v ! 0 \<ge> 256 then 0 else drop_bit (unat (v ! 0)) (v ! 1)),
      (0x1d, 2, \<lambda>v. if v ! 0 \<ge> 256 then (if 0 \<le>s v ! 1 then 0 else - 1) else signed_drop_bit (unat (v ! 0)) (v ! 1))]"

definition alu_table :: "(byte \<times> stack_op) list" where
  "alu_table =
     [(0x01, opAdd), (0x02, opMul), (0x03, opSub), (0x04, opDiv), (0x05, opSdiv), (0x06, opMod), (0x07, opSmod),
      (0x08, opAddmod), (0x09, opMulmod), (0x0a, opExp), (0x0b, opSignExtend), (0x10, opLt), (0x11, opGt),
      (0x12, opSlt), (0x13, opSgt), (0x14, opEq), (0x15, opIszero), (0x16, opAnd), (0x17, opOr), (0x18, opXor),
      (0x19, opNot), (0x1a, opByte), (0x1b, opSHL), (0x1c, opSHR), (0x1d, opSAR)]"

lemma alu_addmod: "opAddmod (uint x # uint y # uint (z :: word256) # st) =
    Some (uint (if z = 0 then 0 else word_of_int ((uint x + uint y) mod uint z) :: word256) # st)"
  for x y :: word256
  using alu_modular(1) [of x y z st] alu_modular(3) [of x y st] by auto

lemma alu_mulmod: "opMulmod (uint x # uint y # uint (z :: word256) # st) =
    Some (uint (if z = 0 then 0 else word_of_int ((uint x * uint y) mod uint z) :: word256) # st)"
  for x y :: word256
  using alu_modular(2) [of x y z st] alu_modular(4) [of x y st] by auto

lemmas alu = alu_ring alu_bits alu_div alu_signed_div alu_compare alu_addmod alu_mulmod alu_exp alu_signextend alu_shift alu_byte

lemma all_of_length:
  "(\<forall>v. length v = 1 \<longrightarrow> P v) \<longleftrightarrow> (\<forall>x. P [x])"
  "(\<forall>v. length v = 2 \<longrightarrow> P v) \<longleftrightarrow> (\<forall>x y. P [x, y])"
  "(\<forall>v. length v = 3 \<longrightarrow> P v) \<longleftrightarrow> (\<forall>x y z. P [x, y, z])"
  by (auto simp: length_Suc_conv numeral_eq_Suc)

definition agrees :: "nat \<Rightarrow> (word256 list \<Rightarrow> word256) \<Rightarrow> stack_op \<Rightarrow> bool" where
  "agrees n f g \<longleftrightarrow> (\<forall>v. length v = n \<longrightarrow> (\<forall>st. g (map uint v @ st) = Some (uint (f v) # st)))"

lemma agrees_simps:
  "agrees 1 f g \<longleftrightarrow> (\<forall>x st. g (uint x # st) = Some (uint (f [x]) # st))"
  "agrees 2 f g \<longleftrightarrow> (\<forall>x y st. g (uint x # uint y # st) = Some (uint (f [x, y]) # st))"
  "agrees 3 f g \<longleftrightarrow> (\<forall>x y z st. g (uint x # uint y # uint z # st) = Some (uint (f [x, y, z]) # st))"
  by (simp_all only: agrees_def all_of_length list.map append.simps)

text \<open>The pairs one by one.\<close>

lemma word_ops_alu:
  "list_all2 (\<lambda>(c, n, f) (c', g). c = c' \<and> agrees n f g) word_ops alu_table"
  unfolding word_ops_def alu_table_def list.rel_inject prod.case agrees_simps
  by (intro conjI list.rel_intros(1); (rule refl)?) (simp_all only: alu agrees_simps nth_Cons_0 nth_Cons_Suc numeral_2_eq_2 One_nat_def simp_thms)

lemma plain_op_exists [simp]: "\<exists>gas n. plain_op e a b k = plain_op e gas n k"
  by blast

lemma alu_table_installed:
  "list_all (\<lambda>(c, g). \<exists>gas n. map_of newConstantinopleInstructionSet c = Some (plain_op (on_stack g) gas n 1)) alu_table"
  by (simp add: alu_table_def newConstantinopleInstructionSet_def newByzantiumInstructionSet_def
      newHomesteadInstructionSet_def newFrontierInstructionSet_def frontier_arith_def)

lemma map_of_list_all2:
  "list_all2 (\<lambda>(c, n, f) (c', g). c = c' \<and> R n f g) xs ys \<Longrightarrow> map_of xs c = Some (n, f) \<Longrightarrow>
   \<exists>g. map_of ys c = Some g \<and> R n f g"
  by (induction xs ys rule: list_all2_induct) (auto split: if_splits)

lemma list_all_map_of: "list_all (\<lambda>(c, g). P c g) xs \<Longrightarrow> map_of xs c = Some g \<Longrightarrow> P c g"
  by (auto simp: list_all_iff dest: map_of_SomeD)

text \<open>
  C25. The instruction at each arithmetic opcode of the installed table takes the words \<open>v\<close> from the top of
  the stack and leaves the word that the 256-bit machine operation gives on them, with nothing else changed.
\<close>

theorem alu_words:
  assumes "map_of word_ops opc = Some (n, f)" "length v = n"
    and "map_of newConstantinopleInstructionSet opc = Some operation"
  shows "execute operation run W (fr\<lparr>stk := map uint v @ st\<rparr>) ev = proceed (fr\<lparr>stk := uint (f v) # st\<rparr>) ev"
proof -
  obtain g where g: "map_of alu_table opc = Some g" "agrees n f g"
    using map_of_list_all2 [OF word_ops_alu assms(1)] by blast
  obtain gas m where "operation = plain_op (on_stack g) gas m 1"
    using list_all_map_of [OF alu_table_installed g(1)] assms(3) by auto
  with g(2) assms(2) show ?thesis by (simp add: plain_op_def on_stack_def agrees_def)
qed

theorem alu_words_witness:
  "\<exists>operation. map_of newConstantinopleInstructionSet 0x0a = Some operation \<and>
    (\<forall>W ev. execute operation (\<lambda>_ _ _ _. Inl Panic) W \<lparr>pc = 0, contract = NewContract (AccountRef 0) 0 None 0, mem = NewMemory, stk = [3, 5]\<rparr> ev
    = proceed \<lparr>pc = 0, contract = NewContract (AccountRef 0) 0 None 0, mem = NewMemory, stk = [243]\<rparr> ev)"
proof -
  let ?fr = "\<lparr>pc = 0, contract = NewContract (AccountRef 0) 0 None 0, mem = NewMemory, stk = []\<rparr>"
  have "map_of newConstantinopleInstructionSet 0x0a = Some (plain_op (on_stack opExp) gasExp 2 1)"
    by (simp add: newConstantinopleInstructionSet_def newByzantiumInstructionSet_def
      newHomesteadInstructionSet_def newFrontierInstructionSet_def frontier_arith_def)
  moreover have "map_of word_ops 0x0a = Some (2, \<lambda>v. v ! 0 ^ unat (v ! 1))" by (simp add: word_ops_def)
  ultimately show ?thesis
    using alu_words [of "0x0a" 2 "\<lambda>v. v ! 0 ^ unat (v ! 1)" "[3, 5]" _ "\<lambda>_ _ _ _. Inl Panic" _ "[]" ?fr] by simp
qed

end
