(* ===== verification/EVM_Jump.thy ===== *)
theory EVM_Jump
  imports EVM_State
begin

text \<open>
  The analysis of jump destinations (\<open>src/sdag/core/vm/analysis.go\<close>) against its purpose: the bit vector
  marks exactly the bytes that no instruction starts at, for every code and without leaving its bounds.
\<close>

section \<open>Bits of the vector\<close>

definition marked :: "bitvec \<Rightarrow> nat \<Rightarrow> bool" where
  "marked bits i = bit (bits ! (i div 8)) (7 - i mod 8)"

lemma drop_0x80: "k < 8 \<Longrightarrow> drop_bit k (0x80 :: byte) = 2 ^ (7 - k)"
proof -
  assume "k < 8"
  then have "k \<in> {0,1,2,3,4,5,6,7}" by auto
  then show ?thesis by (elim insertE emptyE) (simp_all add: drop_bit_eq_div)
qed

lemma bit_drop_0xFF: "bit (drop_bit k (0xFF :: byte)) m \<longleftrightarrow> k + m < 8"
proof -
  have "(0xFF :: byte) = mask 8" by (simp add: mask_eq_exp_minus_1)
  show ?thesis unfolding \<open>0xFF = mask 8\<close> by (auto simp: bit_simps)
qed

lemma codeSegment_marked: "pos < 8 * length bits \<Longrightarrow> codeSegment pos bits = Inr (\<not> marked bits pos)"
  by (auto simp: codeSegment_def marked_def drop_0x80 and_exp_eq_0_iff_not_bit)

lemma bits_or_marked:
  assumes "i < length bits"
  shows "\<exists>b'. bits_or i b bits = Inr b' \<and> length b' = length bits \<and>
    (\<forall>p < 8 * length bits. marked b' p \<longleftrightarrow> marked bits p \<or> p div 8 = i \<and> bit b (7 - p mod 8))"
  using assms by (auto simp: bits_or_def marked_def bit_simps nth_list_update)

text \<open>\<open>adds\<close>: an operation that succeeds and marks exactly the positions of a set.\<close>

definition adds :: "nat set \<Rightarrow> bitvec \<Rightarrow> err + bitvec \<Rightarrow> bool" where
  "adds S bits r \<longleftrightarrow> (\<exists>b'. r = Inr b' \<and> length b' = length bits \<and>
     (\<forall>p < 8 * length bits. marked b' p \<longleftrightarrow> marked bits p \<or> p \<in> S))"

lemma adds_bind:
  assumes "adds S bits r" "\<And>b'. r = Inr b' \<Longrightarrow> length b' = length bits \<Longrightarrow> adds S' b' (f b')"
  shows "adds (S \<union> S') bits (res_bind r f)"
proof -
  from assms(1) obtain b where b: "r = Inr b" "length b = length bits"
    "\<And>p. p < 8 * length bits \<Longrightarrow> marked b p \<longleftrightarrow> marked bits p \<or> p \<in> S" unfolding adds_def by blast
  from assms(2) [OF b(1,2)] obtain b' where "f b = Inr b'" "length b' = length b"
    "\<And>p. p < 8 * length b \<Longrightarrow> marked b' p \<longleftrightarrow> marked b p \<or> p \<in> S'" unfolding adds_def by blast
  with b show ?thesis by (auto simp: adds_def)
qed

lemma adds_none: "adds {} bits (Inr bits)"
  by (simp add: adds_def)

lemma div8_mod8: "p div 8 = q div 8 \<and> 7 - p mod 8 = 7 - q mod 8 \<longleftrightarrow> p = (q :: nat)"
proof
  assume a: "p div 8 = q div 8 \<and> 7 - p mod 8 = 7 - q mod 8"
  have "p mod 8 < 8" "q mod 8 < 8" by simp_all
  with a have "p mod 8 = q mod 8" by linarith
  with a show "p = q" by (metis div_mult_mod_eq)
qed simp

lemma bits_or_adds:
  assumes "i < length bits" "S = {p. p div 8 = i \<and> bit b (7 - p mod 8)}"
  shows "adds S bits (bits_or i b bits)"
  using bits_or_marked [OF assms(1), of b] unfolding adds_def assms(2) by simp

lemma bits_set_adds: "pos < 8 * length bits \<Longrightarrow> adds {pos} bits (bits_set pos bits)"
  unfolding bits_set_def
proof (rule bits_or_adds)
  have "bit (drop_bit (pos mod 8) (0x80 :: byte)) (7 - p mod 8) \<longleftrightarrow> 7 - p mod 8 = 7 - pos mod 8" for p
    by (auto simp: drop_0x80 bit_exp_iff)
  then show "{pos} = {p. p div 8 = pos div 8 \<and> bit (drop_bit (pos mod 8) (0x80 :: byte)) (7 - p mod 8)}"
    using div8_mod8 [of _ pos] by auto
qed simp

lemma bits_set8_adds:
  assumes "pos + 8 < 8 * length bits"
  shows "adds {pos..<pos + 8} bits (bits_set8 pos bits)"
proof -
  let ?A = "{p. p div 8 = pos div 8 \<and> pos mod 8 + (7 - p mod 8) < 8}"
  let ?B = "{p. p div 8 = pos div 8 + 1 \<and> \<not> pos mod 8 + (7 - p mod 8) < 8}"
  have "pos div 8 < length bits" "pos div 8 + 1 < length bits" using assms by linarith+
  then have "adds (?A \<union> ?B) bits (bits_set8 pos bits)"
    unfolding bits_set8_def
    by (intro adds_bind bits_or_adds) (auto simp: bit_not_iff bit_drop_0xFF)
  moreover have "?A \<union> ?B = {pos..<pos + 8}"
  proof (rule set_eqI)
    fix p
    have "(a = c \<and> m + (7 - b) < 8 \<or> a = c + 1 \<and> \<not> m + (7 - b) < 8) \<longleftrightarrow> 8 * c + m \<le> 8 * a + b \<and> 8 * a + b < 8 * c + m + 8"
      if "b < 8" "m < 8" for a b c m :: nat
    proof -
      consider "a < c" | "a = c" | "a = c + 1" | "a > c + 1" by linarith
      then show ?thesis using that by cases auto
    qed
    from this [of "p mod 8" "pos mod 8" "p div 8" "pos div 8"] show "p \<in> ?A \<union> ?B \<longleftrightarrow> p \<in> {pos..<pos + 8}"
      by simp
  qed
  ultimately show ?thesis by simp
qed

lemma push_bits_adds:
  "pos + n < 8 * length bits \<Longrightarrow> adds {pos..<pos + n} bits (push_bits pos n bits)"
proof (induction pos n bits rule: push_bits.induct)
  case (1 pos n bits)
  show ?case
  proof (cases "n \<ge> 8")
    case True
    with 1 have "adds ({pos..<pos + 8} \<union> {pos + 8..<pos + 8 + (n - 8)}) bits (push_bits pos n bits)"
      unfolding push_bits.simps [of pos n] if_P [OF True]
      by (intro adds_bind bits_set8_adds) simp_all
    with True show ?thesis by (simp add: ivl_disj_un_two(3))
  next
    case False
    show ?thesis
    proof (cases "n > 0")
      case True
      with False 1 have "adds ({pos} \<union> {pos + 1..<pos + 1 + (n - 1)}) bits (push_bits pos n bits)"
        unfolding push_bits.simps [of pos n] if_not_P [OF False] if_P [OF True]
        by (intro adds_bind bits_set_adds) simp_all
      moreover have "{pos} \<union> {pos + 1..<pos + 1 + (n - 1)} = {pos..<pos + n}" using True by auto
      ultimately show ?thesis by simp
    qed (simp add: push_bits.simps [of pos 0] adds_none)
  qed
qed

section \<open>Instruction starts\<close>

inductive op_start :: "bytes \<Rightarrow> nat \<Rightarrow> bool" for code :: bytes where
  first: "op_start code 0"
| following: "op_start code i \<Longrightarrow> i < length code \<Longrightarrow> op_start code (i + 1 + numbits (code ! i))"

definition next_op :: "bytes \<Rightarrow> nat \<Rightarrow> nat" where
  "next_op code i = (if i < length code then i + 1 + numbits (code ! i) else i)"

lemma op_start_iterates: "op_start code i \<Longrightarrow> \<exists>n. i = (next_op code ^^ n) 0"
proof (induction rule: op_start.induct)
  case first
  show ?case by (rule exI [of _ 0]) simp
next
  case (following i)
  then obtain n where "i = (next_op code ^^ n) 0" by blast
  then have "i + 1 + numbits (code ! i) = (next_op code ^^ Suc n) 0"
    using following.hyps(2) unfolding funpow.simps comp_def by (simp add: next_op_def)
  then show ?case by blast
qed

lemma next_op_mono: "m \<le> n \<Longrightarrow> (next_op code ^^ m) 0 \<le> (next_op code ^^ n) 0"
proof (induction n rule: dec_induct)
  case (step n)
  have "(next_op code ^^ n) 0 \<le> next_op code ((next_op code ^^ n) 0)" by (simp add: next_op_def)
  with step show ?case by simp
qed simp

text \<open>No instruction starts among the immediate bytes of another.\<close>

lemma op_start_gap:
  assumes "op_start code i" "op_start code j" "i < length code" "i < j"
  shows "i + 1 + numbits (code ! i) \<le> j"
proof -
  obtain m n where mn: "i = (next_op code ^^ m) 0" "j = (next_op code ^^ n) 0"
    using assms(1,2) op_start_iterates by metis
  with assms(4) have "m < n" using next_op_mono [of n m code] by (meson leD not_le_imp_less)
  then have "(next_op code ^^ Suc m) 0 \<le> j" unfolding mn(2) by (intro next_op_mono) simp
  with assms(3) show ?thesis by (simp add: next_op_def flip: mn(1))
qed

lemma numbits_le: "numbits opc \<le> 32"
proof (cases "PUSH1 \<le> opc \<and> opc \<le> PUSH32")
  case True
  then have "unat opc \<ge> 0x60" "unat opc \<le> 0x7f" by (simp_all add: word_le_nat_alt)
  then have "unat (opc - PUSH1 + 1) \<le> 32" by (simp add: unat_word_ariths unat_sub_if')
  with True show ?thesis by (simp add: numbits_def)
next
  case False
  show ?thesis unfolding numbits_def if_not_P [OF False] by simp
qed

lemma codeBitmap_loop_marks:
  assumes "op_start code i" "length bits = length code div 8 + 5"
  shows "\<exists>b'. codeBitmap_loop code i bits = Inr b' \<and> length b' = length bits \<and>
    (\<forall>p < length code. marked b' p \<longleftrightarrow> marked bits p \<or> i \<le> p \<and> \<not> op_start code p)"
  using assms
proof (induction code i bits rule: codeBitmap_loop.induct)
  case (1 code i bits)
  show ?case
  proof (cases "i < length code")
    case True
    let ?n = "numbits (code ! i)"
    have "adds {i + 1..<i + 1 + ?n} bits (push_bits (i + 1) ?n bits)"
      using True "1.prems"(2) numbits_le [of "code ! i"] by (intro push_bits_adds) linarith
    then obtain b where b: "push_bits (i + 1) ?n bits = Inr b" "length b = length bits"
      "\<And>p. p < 8 * length bits \<Longrightarrow> marked b p \<longleftrightarrow> marked bits p \<or> p \<in> {i + 1..<i + 1 + ?n}"
      unfolding adds_def by blast
    have "op_start code (i + 1 + ?n)" using "1.prems"(1) True by (rule op_start.following)
    with 1 True b obtain b' where b': "codeBitmap_loop code (i + 1 + ?n) b = Inr b'" "length b' = length b"
      "\<And>p. p < length code \<Longrightarrow> marked b' p \<longleftrightarrow> marked b p \<or> i + 1 + ?n \<le> p \<and> \<not> op_start code p"
      by (metis (no_types, lifting))
    have "marked b' p \<longleftrightarrow> marked bits p \<or> i \<le> p \<and> \<not> op_start code p" if "p < length code" for p
      using b(3) [of p] b'(3) [of p] that "1.prems" op_start_gap [of code i p] True by (cases "p = i") auto
    with True b b' show ?thesis by (subst codeBitmap_loop.simps) simp
  qed (auto simp: codeBitmap_loop.simps [of code i])
qed

text \<open>
  C26. The analysis never leaves the bounds of its vector, and afterwards a position of the code counts as a
  code segment exactly when an instruction starts there.
\<close>

theorem codeBitmap_starts:
  assumes "pos < length code"
  shows "res_bind (codeBitmap code) (codeSegment pos) = Inr (op_start code pos)"
proof -
  let ?z = "replicate (length code div 8 + 5) 0 :: bitvec"
  have "codeBitmap code = codeBitmap_loop code 0 ?z" by (simp add: codeBitmap_def add.commute)
  then obtain b where b: "codeBitmap code = Inr b" "length b = length code div 8 + 5"
    "\<forall>p < length code. marked b p \<longleftrightarrow> marked ?z p \<or> \<not> op_start code p"
    using codeBitmap_loop_marks [OF op_start.first, of ?z code] by fastforce
  have "pos < 8 * length b" using assms b(2) by linarith
  moreover have "\<not> marked (replicate (length code div 8 + 5) 0) pos" using assms by (simp add: marked_def)
  ultimately show ?thesis using b assms by (simp add: codeSegment_marked)
qed

theorem codeBitmap_starts_witness:
  "res_bind (codeBitmap [0x60, 0x5b, 0x5b]) (codeSegment 2) = Inr True \<and>
   res_bind (codeBitmap [0x60, 0x5b, 0x5b]) (codeSegment 1) = Inr False"
proof -
  let ?code = "[0x60, 0x5b, 0x5b] :: bytes"
  have n: "numbits 0x60 = 1" by (simp add: numbits_def word_le_nat_alt)
  then have s: "op_start ?code 2" using op_start.following [OF op_start.first [of ?code]] by (simp add: numeral_2_eq_2)
  have "\<not> op_start ?code 1" using op_start_gap [OF op_start.first [of ?code], of 1] n by auto
  with s show ?thesis using codeBitmap_starts [of 2 ?code] codeBitmap_starts [of 1 ?code] by simp
qed

end
