(* ===== verification/EVM_Effect.thy ===== *)
theory EVM_Effect
  imports EVM_Run EVM_Jump State_Undo
begin

text \<open>
  What an instruction that does not call another contract may change: at most the jump analysis of its
  contract, the contents but not the size of the memory, as many stack items as the instruction table says,
  and the account state through the operations of \<open>StateDB\<close>.  The gas functions are treated the same way.
  The facts for the single instructions are collected in \<open>effects\<close> and \<open>gas_effects\<close>.
\<close>

section \<open>Operations on the account state outside of calls\<close>

inductive vm_op :: "hashing \<Rightarrow> bool \<Rightarrow> StateDB \<Rightarrow> StateDB \<Rightarrow> bool" for H w where
  query: "vm_op H w s (snd (getStateObject a s))"
| GetState: "vm_op H w s (snd (GetState H a k s))"
| GetCode: "vm_op H w s (snd (GetCode H a s))"
| AddPreimage: "vm_op H w s (AddPreimage h b s)"
| SetState: "w \<Longrightarrow> vm_op H w s (SetState H a k v s)"
| AddLog: "w \<Longrightarrow> vm_op H w s (AddLog l s)"
| AddRefund: "w \<Longrightarrow> vm_op H w s (AddRefund g s)"
| SubRefund: "w \<Longrightarrow> SubRefund g s = Inr t \<Longrightarrow> vm_op H w s t"
| destruct: "w \<Longrightarrow> vm_op H w s (snd (Suicide a (AddBalance H b (fst (GetBalance a s)) (snd (GetBalance a s)))))"

abbreviation vm_ops :: "hashing \<Rightarrow> bool \<Rightarrow> StateDB \<Rightarrow> StateDB \<Rightarrow> bool" where
  "vm_ops H w \<equiv> (vm_op H w)\<^sup>*\<^sup>*"

lemma vm_ops_trans: "vm_ops H w s t \<Longrightarrow> vm_ops H w t u \<Longrightarrow> vm_ops H w s u"
  by (rule rtranclp_trans)

lemma vm_ops_step: "vm_op H w s t \<Longrightarrow> vm_ops H w s t"
  by (rule r_into_rtranclp)

text \<open>The queries leave the state that looking up the object leaves.\<close>

lemma query_states:
  "snd (GetBalance a s) = snd (getStateObject a s)" "snd (GetNonce a s) = snd (getStateObject a s)"
  "snd (GetCodeHash a s) = snd (getStateObject a s)" "snd (HasSuicided a s) = snd (getStateObject a s)"
  "snd (Exist a s) = snd (getStateObject a s)" "snd (Empty H a s) = snd (getStateObject a s)"
  "snd (GetCodeSize a s) = snd (getStateObject a s)"
  by (simp_all add: GetBalance_def GetNonce_def GetCodeHash_def HasSuicided_def Exist_def Empty_def GetCodeSize_def
      split: prod.splits option.splits)

lemma GetCommittedState_eq: "GetCommittedState = GetState"
  unfolding GetCommittedState_def [abs_def] GetState_def [abs_def] so_GetCommittedState_eq ..

text \<open>A question is asked by a function whose state is one of these.\<close>

definition asks :: "hashing \<Rightarrow> (StateDB \<Rightarrow> 'a \<times> StateDB) \<Rightarrow> bool" where
  "asks H q \<longleftrightarrow> (\<forall>w s. vm_ops H w s (snd (q s)))"

lemma asks_queries [simp]:
  "asks H (GetBalance a)" "asks H (GetNonce a)" "asks H (GetCodeHash a)" "asks H (HasSuicided a)" "asks H (Exist a)"
  "asks H (Empty H' a)" "asks H (GetCodeSize a)" "asks H (GetState H a k)" "asks H (GetCommittedState H a k)" "asks H (GetCode H a)"
  by (auto simp: asks_def query_states GetCommittedState_eq intro: vm_ops_step vm_op.intros)

lemma asksD: "asks H q \<Longrightarrow> q s = (x, t) \<Longrightarrow> vm_ops H w s t"
  by (metis asks_def snd_conv)

section \<open>Instructions\<close>

definition same_contract :: "Contract \<Rightarrow> Contract \<Rightarrow> bool" where
  "same_contract c c' \<longleftrightarrow> c' = c\<lparr>analysis := analysis c'\<rparr>"

definition same_regs :: "EVM \<Rightarrow> EVM \<Rightarrow> bool" where
  "same_regs ev ev' \<longleftrightarrow> depth ev' = depth ev \<and> readOnly ev' = readOnly ev \<and> callGasTemp ev' = callGasTemp ev"

lemma same_parts_refl [simp]: "same_contract c c" "same_regs ev ev"
  by (simp_all add: same_contract_def same_regs_def)

lemma same_contract_sel: "same_contract c c' \<Longrightarrow> ctGas c' = ctGas c \<and> ctSelf c' = ctSelf c \<and> ctCode c' = ctCode c"
  unfolding same_contract_def by (metis Contract.select_convs(2,4,8) Contract.surjective Contract.update_convs(3))

lemma same_regs_upd [simp]:
  "same_regs ev (ev\<lparr>statedb := s\<rparr>)" "same_regs ev (ev\<lparr>jumpdests := jd\<rparr>)" "same_regs ev (ev\<lparr>returnData := d\<rparr>)"
  by (simp_all add: same_regs_def)

text \<open>A condition \<open>ok\<close> on how an execution may fail, and \<open>Q\<close> on what it leaves behind otherwise.\<close>

definition outcome_on :: "(err \<Rightarrow> bool) \<Rightarrow> (frame \<Rightarrow> EVM \<Rightarrow> bool) \<Rightarrow> exec_result \<Rightarrow> bool" where
  "outcome_on ok Q r \<longleftrightarrow> (case r of Inl e \<Rightarrow> ok e | Inr (x, fr, ev) \<Rightarrow> Q fr ev)"

abbreviation outcome :: "(frame \<Rightarrow> EVM \<Rightarrow> bool) \<Rightarrow> exec_result \<Rightarrow> bool" where
  "outcome \<equiv> outcome_on (\<lambda>e. e \<noteq> NoFuel)"

lemma outcome_simps [simp]:
  "outcome_on ok Q (Inl e) = ok e" "outcome_on ok Q (Inr (x, fr, ev)) = Q fr ev" "outcome_on ok Q (proceed fr ev) = Q fr ev"
  "outcome_on ok Q (push v fr ev) = Q (fr\<lparr>stk := v # stk fr\<rparr>) ev"
  by (simp_all add: outcome_on_def proceed_def push_def)

lemma outcome_bind:
  "(\<And>e. m = Inl e \<Longrightarrow> ok e) \<Longrightarrow> (\<And>x. m = Inr x \<Longrightarrow> outcome_on ok Q (f x)) \<Longrightarrow> outcome_on ok Q (res_bind m f)"
  by (cases m) auto

lemma outcome_mono:
  "outcome_on ok Q r \<Longrightarrow> (\<And>fr ev. Q fr ev \<Longrightarrow> Q' fr ev) \<Longrightarrow> outcome_on ok Q' r"
  by (auto simp: outcome_on_def split: sum.splits)

lemma outcome_weaken:
  "outcome_on ok Q r \<Longrightarrow> (\<And>e. ok e \<Longrightarrow> ok' e) \<Longrightarrow> (\<And>fr ev. Q fr ev \<Longrightarrow> Q' fr ev) \<Longrightarrow> outcome_on ok' Q' r"
  by (auto simp: outcome_on_def split: sum.splits)

text \<open>
  Where the gas price, the value of the call and the balances are not negative, neither is anything on the
  stack.  The machine's words are numbers below \<open>2 ^ 256\<close>, so this is the part of their type that matters.
\<close>

definition nonneg_env :: "machine \<Rightarrow> frame \<Rightarrow> EVM \<Rightarrow> bool" where
  "nonneg_env W fr ev \<longleftrightarrow> 0 \<le> vmGasPrice W \<and> (\<forall>v. ctValue (contract fr) = Some v \<longrightarrow> 0 \<le> v) \<and>
     (\<forall>a. 0 \<le> fst (GetBalance a (statedb ev))) \<and> (\<forall>x \<in> set (stk fr). 0 \<le> x)"

definition kept :: "bool \<Rightarrow> int \<Rightarrow> machine \<Rightarrow> frame \<Rightarrow> EVM \<Rightarrow> frame \<Rightarrow> EVM \<Rightarrow> bool" where
  "kept w k W fr ev fr' ev' \<longleftrightarrow>
     same_contract (contract fr) (contract fr') \<and> length (mStore (mem fr')) = length (mStore (mem fr)) \<and>
     int (length (stk fr')) = int (length (stk fr)) + k \<and> same_regs ev ev' \<and> vm_ops (vmH W) w (statedb ev) (statedb ev') \<and>
     (nonneg_env W fr ev \<longrightarrow> (\<forall>x \<in> set (stk fr'). 0 \<le> x))"

lemma U256_nonneg [simp]: "0 \<le> U256 x" "0 \<le> set_bytes b"
  by (simp_all add: U256_def set_bytes_def)

text \<open>\<open>effect w n k ex\<close>: with \<open>n\<close> items or more on the stack, \<open>ex\<close> replaces \<open>n\<close> of them by \<open>k\<close>.\<close>

definition effect :: "bool \<Rightarrow> nat \<Rightarrow> nat \<Rightarrow> machine \<Rightarrow> (machine \<Rightarrow> frame \<Rightarrow> EVM \<Rightarrow> exec_result) \<Rightarrow> bool" where
  "effect w n k W ex \<longleftrightarrow>
     (\<forall>fr ev. n \<le> length (stk fr) \<longrightarrow> outcome (kept w (int k - int n) W fr ev) (ex W fr ev))"

definition fuel_free :: "machine \<Rightarrow> bool" where
  "fuel_free W \<longleftrightarrow> (\<forall>n. GetHashFn W n \<noteq> Inl NoFuel) \<and>
     (\<forall>a p i. precompiles W a = Some p \<longrightarrow> RequiredGas p i \<noteq> Inl NoFuel \<and> pcRun p i \<noteq> Inl NoFuel)"

text \<open>Reading memory and data never runs out of fuel, and writing keeps the size.\<close>

lemma subslice_no_fuel [simp]: "subslice i j xs \<noteq> Inl NoFuel"
  by (simp add: subslice_def)

lemma data_no_fuel [simp]:
  "mem_Get o1 z m \<noteq> Inl NoFuel" "mem_GetPtr o1 z m \<noteq> Inl NoFuel" "getDataBig d a b \<noteq> Inl NoFuel"
  "mem_Set u v bs m \<noteq> Inl NoFuel" "mem_Set32 u i m \<noteq> Inl NoFuel" "codeSegment p bv \<noteq> Inl NoFuel"
  by (auto simp: mem_Get_def mem_GetPtr_def getDataBig_def mem_Set_def mem_Set32_def codeSegment_def Let_def
      res_bind_def split: sum.split if_split)

lemma length_mem_write: "off + length b \<le> length st \<Longrightarrow> length (mem_write off b st) = length st"
  by (simp add: mem_write_def)

lemma mem_Set_length: "mem_Set u v b m = Inr m' \<Longrightarrow> length (mStore m') = length (mStore m)"
proof -
  assume m: "mem_Set u v b m = Inr m'"
  show ?thesis
  proof (cases "v > 0")
    case True
    with m have v: "u + v \<le> word_of_nat (length (mStore m))" "u \<le> u + v"
      and m': "m' = m\<lparr>mStore := mem_write (unat u) (take (unat v) b) (mStore m)\<rparr>"
      by (auto simp: mem_Set_def split: if_splits)
    from v(1) have "unat (u + v) \<le> unat (word_of_nat (length (mStore m)) :: u64)" by (simp add: word_le_nat_alt)
    also have "\<dots> \<le> length (mStore m)" by (simp add: unsigned_of_nat take_bit_eq_mod)
    finally have "unat u + unat v \<le> length (mStore m)" using v(2) by (simp add: unat_plus_simple)
    then show ?thesis by (simp add: m' length_mem_write)
  qed (use m in \<open>simp add: mem_Set_def\<close>)
qed

lemma length_ReadBits: "length (ReadBits x (replicate n 0)) = n"
  by (simp add: ReadBits_zeros)

lemma mem_Set32_length: "mem_Set32 u i m = Inr m' \<Longrightarrow> length (mStore m') = length (mStore m)"
proof -
  assume m: "mem_Set32 u i m = Inr m'"
  then have v: "u + 32 \<le> word_of_nat (length (mStore m))" "u \<le> u + 32"
    and m': "m' = m\<lparr>mStore := mem_write (unat u) (ReadBits i (replicate 32 0)) (mStore m)\<rparr>"
    by (auto simp: mem_Set32_def split: if_splits)
  from v(1) have "unat (u + 32) \<le> unat (word_of_nat (length (mStore m)) :: u64)" by (simp add: word_le_nat_alt)
  also have "\<dots> \<le> length (mStore m)" by (simp add: unsigned_of_nat take_bit_eq_mod)
  finally have "unat u + 32 \<le> length (mStore m)" using v(2) by (simp add: unat_plus_simple)
  then show ?thesis by (simp add: m' length_mem_write length_ReadBits)
qed

lemma codeBitmap_total: "\<exists>b. codeBitmap code = Inr b \<and> length b = length code div 8 + 5"
  using codeBitmap_loop_marks [OF op_start.first, of "replicate (length code div 8 + 1 + 4) 0" code]
  by (auto simp: codeBitmap_def)

lemma validJumpdest_kept:
  "validJumpdest d c jd \<noteq> Inl NoFuel"
  "validJumpdest d c jd = Inr (ok, c', jd') \<Longrightarrow> same_contract c c'"
  using codeBitmap_total [of "ctCode c"]
  by (auto simp: validJumpdest_def same_contract_def Let_def res_bind_def split: sum.splits option.splits if_splits)

text \<open>The pure stack instructions.\<close>

definition stack_effect :: "nat \<Rightarrow> nat \<Rightarrow> stack_op \<Rightarrow> bool" where
  "stack_effect n k f \<longleftrightarrow> (\<forall>st. n \<le> length st \<longrightarrow> (\<exists>st'. f st = Some st' \<and> length st' + n = length st + k \<and>
       ((\<forall>x \<in> set st. 0 \<le> x) \<longrightarrow> (\<forall>x \<in> set st'. 0 \<le> x))))"

lemma length_ge:
  "1 \<le> length st \<longleftrightarrow> (\<exists>x xs. st = x # xs)" "2 \<le> length st \<longleftrightarrow> (\<exists>x y xs. st = x # y # xs)"
  "3 \<le> length st \<longleftrightarrow> (\<exists>x y z xs. st = x # y # z # xs)"
  by (auto simp: numeral_eq_Suc Suc_le_length_iff)

lemma Exp_nonneg [simp]: "0 \<le> x \<Longrightarrow> 0 \<le> y \<Longrightarrow> 0 \<le> Exp x y"
  by (simp add: Exp_mod)

lemma stack_effects [simp]:
  "stack_effect 2 1 opAdd" "stack_effect 2 1 opSub" "stack_effect 2 1 opMul" "stack_effect 2 1 opDiv" "stack_effect 2 1 opSdiv"
  "stack_effect 2 1 opMod" "stack_effect 2 1 opSmod" "stack_effect 2 1 opExp" "stack_effect 2 1 opSignExtend" "stack_effect 1 1 opNot"
  "stack_effect 2 1 opLt" "stack_effect 2 1 opGt" "stack_effect 2 1 opSlt" "stack_effect 2 1 opSgt" "stack_effect 2 1 opEq"
  "stack_effect 1 1 opIszero" "stack_effect 2 1 opAnd" "stack_effect 2 1 opOr" "stack_effect 2 1 opXor" "stack_effect 2 1 opByte"
  "stack_effect 3 1 opAddmod" "stack_effect 3 1 opMulmod" "stack_effect 2 1 opSHL" "stack_effect 2 1 opSHR" "stack_effect 2 1 opSAR"
  "stack_effect 1 0 opPop"
  unfolding stack_effect_def length_ge by (auto simp: Let_def)

lemmas [simp] = stack_effects [unfolded One_nat_def]

lemma stack_effect_dup: "0 < n \<Longrightarrow> stack_effect n (Suc n) (makeDup n)"
  by (auto simp: stack_effect_def makeDup_def)

lemma stack_effect_swap: "stack_effect (Suc n) (Suc n) (makeSwap n)"
  unfolding stack_effect_def
proof (intro allI impI)
  fix st :: "int list"
  assume n: "Suc n \<le> length st"
  then have "st ! 0 \<in> set st" "st ! n \<in> set st" by (auto intro!: nth_mem)
  with n show "\<exists>st'. makeSwap n st = Some st' \<and> length st' + Suc n = length st + Suc n \<and>
      ((\<forall>x \<in> set st. 0 \<le> x) \<longrightarrow> (\<forall>x \<in> set st'. 0 \<le> x))"
    by (auto simp: makeSwap_def dest!: set_update_subset_insert [THEN subsetD])
qed

lemma effect_on_stack: "stack_effect n k f \<Longrightarrow> effect w n k W (on_stack f)"
  by (fastforce simp: effect_def stack_effect_def on_stack_def kept_def nonneg_env_def)

section \<open>Effects of the instructions\<close>

named_theorems effects

lemma effect_env [effects]:
  "effect w 0 1 W opAddress" "effect w 0 1 W opOrigin" "effect w 0 1 W opCaller" "effect w 0 1 W opCallValue"
  "effect w 0 1 W opCallDataSize" "effect w 0 1 W opReturnDataSize" "effect w 0 1 W opCodeSize" "effect w 0 1 W opGasprice"
  "effect w 0 1 W opCoinbase" "effect w 0 1 W opTimestamp" "effect w 0 1 W opNumber" "effect w 0 1 W opDifficulty"
  "effect w 0 1 W opGasLimit" "effect w 0 1 W opPc" "effect w 0 1 W opMsize" "effect w 0 1 W opGas"
  "effect w 0 0 W opJumpdest" "effect w 0 0 W opStop"
  by (auto simp: effect_def kept_def nonneg_env_def opAddress_def opOrigin_def opCaller_def opCallValue_def opCallDataSize_def
      opReturnDataSize_def opCodeSize_def opGasprice_def opCoinbase_def opTimestamp_def opNumber_def opDifficulty_def
      opGasLimit_def opPc_def opMsize_def opGas_def opJumpdest_def opStop_def split: option.split)

lemma effect_stackI1:
  "(\<And>fr ev x st. stk fr = x # st \<Longrightarrow> outcome (kept w (int k - 1) W fr ev) (ex W fr ev)) \<Longrightarrow> effect w 1 k W ex"
  unfolding effect_def length_ge by auto

lemma effect_stackI2:
  "(\<And>fr ev x y st. stk fr = x # y # st \<Longrightarrow> outcome (kept w (int k - 2) W fr ev) (ex W fr ev)) \<Longrightarrow> effect w 2 k W ex"
  unfolding effect_def length_ge by auto

lemma effect_stackI3:
  "(\<And>fr ev x y z st. stk fr = x # y # z # st \<Longrightarrow> outcome (kept w (int k - 3) W fr ev) (ex W fr ev)) \<Longrightarrow> effect w 3 k W ex"
  unfolding effect_def length_ge by auto

lemma effect_blockhash [effects]: "fuel_free W \<Longrightarrow> effect w 1 1 W opBlockhash"
  by (rule effect_stackI1) (auto simp: opBlockhash_def kept_def nonneg_env_def fuel_free_def intro!: outcome_bind)

lemma effect_reading [effects]:
  "effect w 1 1 W opCallDataLoad" "effect w 1 1 W opMload"
  by (rule effect_stackI1; auto simp: opCallDataLoad_def opMload_def kept_def nonneg_env_def intro!: outcome_bind)+

lemma effect_ending [effects]: "effect w 2 0 W opReturn" "effect w 2 0 W opRevert"
  by (rule effect_stackI2; auto simp: opReturn_def opRevert_def kept_def nonneg_env_def intro!: outcome_bind)+

lemma outcome_copy_data:
  "(\<And>m. length (mStore m) = length (mStore (mem fr)) \<Longrightarrow> Q (fr\<lparr>mem := m\<rparr>) ev) \<Longrightarrow> outcome Q (copy_data d a b c fr ev)"
  by (auto simp: copy_data_def dest: mem_Set_length intro!: outcome_bind)

lemma effect_copying [effects]: "effect w 3 0 W opCallDataCopy" "effect w 3 0 W opCodeCopy"
  by (rule effect_stackI3; auto simp: opCallDataCopy_def opCodeCopy_def kept_def nonneg_env_def intro!: outcome_copy_data)+

lemma effect_returndatacopy [effects]: "effect w 3 0 W opReturnDataCopy"
  by (rule effect_stackI3)
    (auto simp: opReturnDataCopy_def kept_def nonneg_env_def Let_def dest: mem_Set_length intro!: outcome_bind)

lemma effect_mstore [effects]: "effect w 2 0 W opMstore" "effect w 2 0 W opMstore8"
  by (rule effect_stackI2;
      auto simp: opMstore_def opMstore8_def kept_def nonneg_env_def Let_def dest: mem_Set32_length intro!: outcome_bind)+

lemma effect_push [effects]: "effect w 0 1 W (makePush u n)"
  by (auto simp: effect_def makePush_def kept_def nonneg_env_def Let_def intro!: outcome_bind)

lemma outcome_ask:
  "asks H q \<Longrightarrow> (\<And>x s'. vm_ops H w s s' \<Longrightarrow> x = fst (q s) \<Longrightarrow> outcome Q (f x s')) \<Longrightarrow> outcome Q (case q s of (x, s') \<Rightarrow> f x s')"
  by (cases "q s") (auto dest: asksD)

lemma effect_queries [effects]:
  "effect w 1 1 W opBalance" "effect w 1 1 W opExtCodeSize" "effect w 1 1 W opSload"
  by (rule effect_stackI1; auto simp: opBalance_def opExtCodeSize_def opSload_def kept_def nonneg_env_def
      intro!: outcome_ask [where H = "vmH W" and w = w])+

lemma effect_extcodehash [effects]: "effect w 1 1 W opExtCodeHash"
  by (rule effect_stackI1) (auto simp: opExtCodeHash_def kept_def nonneg_env_def
      intro!: outcome_ask [where H = "vmH W" and w = w] intro: vm_ops_trans)

lemma effect_extcodecopy [effects]: "effect w 4 0 W opExtCodeCopy"
  unfolding effect_def
proof (intro allI impI)
  fix fr :: frame and ev
  assume "4 \<le> length (stk fr)"
  then obtain a b c d st where "stk fr = a # b # c # d # st" by (auto simp: numeral_eq_Suc Suc_le_length_iff)
  then show "outcome (kept w (int 0 - int 4) W fr ev) (opExtCodeCopy W fr ev)"
    by (auto simp: opExtCodeCopy_def kept_def nonneg_env_def intro!: outcome_ask [where H = "vmH W" and w = w] outcome_copy_data)
qed

lemma effect_sha3 [effects]: "effect w 2 1 W opSha3"
  by (rule effect_stackI2)
    (auto simp: opSha3_def kept_def nonneg_env_def Let_def intro!: outcome_bind vm_ops_step vm_op.AddPreimage)

lemma effect_writing [effects]: "effect True 2 0 W opSstore"
  by (rule effect_stackI2) (auto simp: opSstore_def kept_def nonneg_env_def intro!: vm_ops_step vm_op.SetState)

lemma effect_suicide [effects]: "effect True 1 0 W opSuicide"
  by (rule effect_stackI1)
    (auto simp: opSuicide_def kept_def nonneg_env_def Let_def case_prod_beta intro!: vm_ops_step vm_op.destruct)

lemma effect_log [effects]: "effect True (n + 2) 0 W (makeLog n)"
  unfolding effect_def
proof (intro allI impI)
  fix fr :: frame and ev
  assume "n + 2 \<le> length (stk fr)"
  then obtain a b st where "stk fr = a # b # st" "n \<le> length st" by (auto simp: numeral_eq_Suc Suc_le_length_iff)
  then show "outcome (kept True (int 0 - int (n + 2)) W fr ev) (makeLog n W fr ev)"
    by (auto simp: makeLog_def kept_def nonneg_env_def dest!: in_set_dropD intro!: outcome_bind vm_ops_step vm_op.AddLog)
qed

lemma outcome_jump_to:
  assumes "\<And>c jd p. same_contract (contract fr) c \<Longrightarrow> Q (fr\<lparr>contract := c, pc := p\<rparr>) (ev\<lparr>jumpdests := jd\<rparr>)"
    "\<And>c jd. same_contract (contract fr) c \<Longrightarrow> Q (fr\<lparr>contract := c\<rparr>) (ev\<lparr>jumpdests := jd\<rparr>)"
  shows "outcome Q (jump_to d fr ev)"
  using assms by (auto simp: jump_to_def Let_def validJumpdest_kept(1) dest: validJumpdest_kept(2) intro!: outcome_bind)

lemma effect_jumps [effects]: "effect w 1 0 W opJump" "effect w 2 0 W opJumpi"
  by (rule effect_stackI1 effect_stackI2;
      auto simp: opJump_def opJumpi_def kept_def nonneg_env_def intro!: outcome_jump_to)+

section \<open>Gas functions\<close>

text \<open>The weakest precondition of a gas computation: \<open>E\<close> after an error of the machine, \<open>Q\<close> after a result.\<close>

type_synonym gas_state = "Memory \<times> EVM"

definition gwp :: "'a gas_fun \<Rightarrow> (gas_state \<Rightarrow> bool) \<Rightarrow> ('a \<Rightarrow> gas_state \<Rightarrow> bool) \<Rightarrow> gas_state \<Rightarrow> bool" where
  "gwp g E Q s \<longleftrightarrow>
     (case g s of
        Inl e \<Rightarrow> e \<noteq> NoFuel
      | Inr (r, s') \<Rightarrow> (case r of Inl _ \<Rightarrow> E s' | Inr x \<Rightarrow> Q x s'))"

lemma gwp_mono: "gwp g E Q s \<Longrightarrow> (\<And>s. E s \<Longrightarrow> E' s) \<Longrightarrow> (\<And>x s. Q x s \<Longrightarrow> Q' x s) \<Longrightarrow> gwp g E' Q' s"
  by (auto simp: gwp_def split: sum.splits)

lemma gwp_simps [simp]:
  "gwp (gas_ret x) E Q s = Q x s"
  "gwp (gas_fail e) E Q s = E s"
  "gwp (gas_bind m f) E Q s = gwp m E (\<lambda>x. gwp (f x) E Q) s"
  "gwp (checked r) E Q1 s = (if snd r then E s else Q1 (fst r) s)"
  "gwp (gas_Back n st) E Q2 s = (n < length st \<longrightarrow> Q2 (st ! n) s)"
  by (auto simp: gwp_def gas_ret_def gas_fail_def gas_bind_def checked_def gas_Back_def Back_def res_bind_def split: sum.splits)

lemma gwp_ask:
  "asks H q \<Longrightarrow> (\<And>x t. vm_ops H w (statedb (snd s)) t \<Longrightarrow> Q x (fst s, (snd s)\<lparr>statedb := t\<rparr>)) \<Longrightarrow> gwp (ask q) E Q s"
  by (cases "q (statedb (snd s))") (auto simp: gwp_def ask_def gas_ret_def dest!: asksD [where w = w])

lemma gwp_AddRefund: "gwp (tell (\<lambda>s. Inr (AddRefund n s))) E Q s = Q () (fst s, (snd s)\<lparr>statedb := AddRefund n (statedb (snd s))\<rparr>)"
  by (simp add: gwp_def tell_def gas_ret_def)

lemma gwp_SubRefund:
  "(\<And>t. SubRefund n (statedb (snd s)) = Inr t \<Longrightarrow> Q () (fst s, (snd s)\<lparr>statedb := t\<rparr>)) \<Longrightarrow> gwp (tell (SubRefund n)) E Q s"
  by (auto simp: gwp_def tell_def gas_ret_def SubRefund_def)

definition gsafe :: "bool \<Rightarrow> machine \<Rightarrow> gas_state \<Rightarrow> gas_state \<Rightarrow> bool" where
  "gsafe w W s s' \<longleftrightarrow> mStore (fst s') = mStore (fst s) \<and> depth (snd s') = depth (snd s) \<and>
     readOnly (snd s') = readOnly (snd s) \<and> vm_ops (vmH W) w (statedb (snd s)) (statedb (snd s'))"

definition gas_effect :: "bool \<Rightarrow> nat \<Rightarrow> machine \<Rightarrow> gasFunc \<Rightarrow> bool" where
  "gas_effect w lo W g \<longleftrightarrow>
     (\<forall>c st ms s. gwp (g W c st ms) (gsafe w W s) (\<lambda>x s'. gsafe w W s s' \<and> lo \<le> unat x) s)"

lemma gsafe_refl [simp]: "gsafe w W s s"
  by (simp add: gsafe_def)

lemma gwp_memory:
  "(\<And>m. mStore m = mStore (fst s) \<Longrightarrow> E (m, snd s)) \<Longrightarrow>
   (\<And>x m. mStore m = mStore (fst s) \<Longrightarrow> Q x (m, snd s)) \<Longrightarrow> gwp (memoryGasCost n) E Q s"
  by (cases s) (auto simp: gwp_def memoryGasCost_def gas_ret_def gas_fail_def Let_def)

declare SafeAdd_unat [simp]

named_theorems gas_effects

lemma gas_const [gas_effects]: "lo \<le> unat g \<Longrightarrow> gas_effect w lo W (constGasFunc g)"
  by (simp add: gas_effect_def constGasFunc_def)

lemma gas_fixed [gas_effects]:
  "gas_effect w 3 W gasPush" "gas_effect w 3 W gasSwap" "gas_effect w 3 W gasDup"
  by (simp_all add: gas_effect_def gasPush_def gasSwap_def gasDup_def)

lemma gas_tables [gas_effects]:
  "gas_effect w 20 W gasBalance" "gas_effect w 20 W gasExtCodeSize" "gas_effect w 50 W gasSLoad"
  by (simp_all add: gas_effect_def gasBalance_def gasExtCodeSize_def gasSLoad_def gasTable_def config_GasTable_def
      GasTableConstantinople_def GasTableEIP158_def GasTableEIP150_def GasTableHomestead_def)

lemma gas_extcodehash [gas_effects]: "IsConstantinople W \<Longrightarrow> gas_effect w 400 W gasExtCodeHash"
  by (simp add: gas_effect_def gasExtCodeHash_def gasTable_def config_GasTable_def GasTableConstantinople_def)

lemma gas_exp [gas_effects]: "gas_effect w 10 W gasExp"
  by (simp add: gas_effect_def gasExp_def Let_def)

lemma gwp_word_gas:
  assumes "E s" "\<And>x. unat g \<le> unat x \<Longrightarrow> Q x s"
  shows "gwp (word_gas n price st g) E Q s"
  using assms by (auto simp: word_gas_def)

lemma gsafe_mem: "gsafe w W s (m, snd s) \<longleftrightarrow> mStore m = mStore (fst s)" "gsafe w W (m0, ev) (m, ev) \<longleftrightarrow> mStore m = mStore m0"
  by (simp_all add: gsafe_def)

text \<open>A fee on top of the memory fee.\<close>

lemma gwp_memory_plus:
  assumes "\<And>m. mStore m = mStore (fst s) \<Longrightarrow> E (m, snd s)"
    and "\<And>m x. mStore m = mStore (fst s) \<Longrightarrow> unat b \<le> unat x \<Longrightarrow> Q x (m, snd s)"
  shows "gwp (memoryGasCost n) E (\<lambda>g s'. if snd (SafeAdd g b) then E s' else Q (fst (SafeAdd g b)) s') s"
  using assms by (auto intro!: gwp_memory)

lemma gas_memory [gas_effects]:
  "gas_effect w 3 W gasCallDataCopy" "gas_effect w 3 W gasReturnDataCopy" "gas_effect w 3 W gasCodeCopy"
  "gas_effect w 30 W gasSha3" "gas_effect w 32000 W gasCreate2" "gas_effect w 32000 W gasCreate"
  "gas_effect w 3 W gasMLoad" "gas_effect w 3 W gasMStore" "gas_effect w 3 W gasMStore8"
  "gas_effect w 0 W gasReturn" "gas_effect w 0 W gasRevert"
  by (auto simp: gas_effect_def gasCallDataCopy_def gasReturnDataCopy_def gasCodeCopy_def gasSha3_def gasCreate2_def
      gasCreate_def gasMLoad_def gasMStore_def gasMStore8_def gasReturn_def gasRevert_def gsafe_mem
      intro!: gwp_memory gwp_word_gas)

lemma gas_extcodecopy [gas_effects]: "gas_effect w 20 W gasExtCodeCopy"
  by (auto simp: gas_effect_def gasExtCodeCopy_def gsafe_mem gasTable_def config_GasTable_def GasTableConstantinople_def
      GasTableEIP158_def GasTableEIP150_def GasTableHomestead_def intro!: gwp_memory gwp_word_gas)

lemma gas_log [gas_effects]: "gas_effect w 375 W (makeGasLog n)"
  by (auto simp: gas_effect_def makeGasLog_def gsafe_mem intro!: gwp_memory)

lemma gsafe_statedb: "gsafe w W s (fst s, (snd s)\<lparr>statedb := t\<rparr>) \<longleftrightarrow> vm_ops (vmH W) w (statedb (snd s)) t"
  by (simp add: gsafe_def)

lemma gsafe_trans: "gsafe w W s t \<Longrightarrow> gsafe w W t u \<Longrightarrow> gsafe w W s u"
  by (auto simp: gsafe_def intro: vm_ops_trans)

lemma gsafe_write: "vm_op (vmH W) w (statedb (snd s)) t \<Longrightarrow> gsafe w W s (fst s, (snd s)\<lparr>statedb := t\<rparr>)"
  by (auto simp: gsafe_statedb)

text \<open>Steps of a gas function that only need the state to stay safe.\<close>

lemma gwp_ask_safe:
  assumes "asks (vmH W) q" "gsafe w W s0 s" "\<And>x s. gsafe w W s0 s \<Longrightarrow> Q x s"
  shows "gwp (ask q) E Q s"
  by (rule gwp_ask [where w = w, OF assms(1)], rule assms(3), rule gsafe_trans [OF assms(2)]) (simp add: gsafe_statedb)

lemma gwp_AddRefund_safe:
  assumes "gsafe True W s0 s" "\<And>s. gsafe True W s0 s \<Longrightarrow> Q () s"
  shows "gwp (tell (\<lambda>s. Inr (AddRefund n s))) E Q s"
  unfolding gwp_AddRefund
  by (rule assms(2), rule gsafe_trans [OF assms(1)], rule gsafe_write) (simp add: vm_op.AddRefund)

lemma gwp_SubRefund_safe:
  assumes "gsafe True W s0 s" "\<And>s. gsafe True W s0 s \<Longrightarrow> Q () s"
  shows "gwp (tell (SubRefund n)) E Q s"
  by (rule gwp_SubRefund, rule assms(2), rule gsafe_trans [OF assms(1)], rule gsafe_write) (simp add: vm_op.SubRefund)

lemma gwp_if: "(b \<Longrightarrow> gwp f E Q s) \<Longrightarrow> (\<not> b \<Longrightarrow> gwp g E Q s) \<Longrightarrow> gwp (if b then f else g) E Q s"
  by simp

lemma gas_sstore_net:
  assumes "gsafe True W s0 s" "\<And>x s. gsafe True W s0 s \<Longrightarrow> 200 \<le> unat x \<Longrightarrow> Q x s"
  shows "gwp (gasSStore_net W self k v cur) E Q s"
  unfolding gasSStore_net_def using assms
  by (auto intro!: gwp_if gwp_ask_safe [where w = True and W = W and ?s0.0 = s0]
      gwp_AddRefund_safe [where W = W and ?s0.0 = s0] gwp_SubRefund_safe [where W = W and ?s0.0 = s0])

lemma gas_sstore [gas_effects]: "gas_effect True 200 W gasSStore"
  unfolding gas_effect_def
proof (intro allI)
  fix c st ms s
  show "gwp (gasSStore W c st ms) (gsafe True W s) (\<lambda>x s'. gsafe True W s s' \<and> 200 \<le> unat x) s"
    unfolding gasSStore_def
    by (auto intro!: gwp_if gas_sstore_net [where ?s0.0 = s] gwp_ask_safe [where w = True and W = W and ?s0.0 = s]
        gwp_AddRefund_safe [where W = W and ?s0.0 = s])
qed

lemma gas_suicide [gas_effects]: "gas_effect True 0 W gasSuicide"
  unfolding gas_effect_def
proof (intro allI)
  fix c st ms s
  show "gwp (gasSuicide W c st ms) (gsafe True W s) (\<lambda>x s'. gsafe True W s s' \<and> 0 \<le> unat x) s"
    unfolding gasSuicide_def
    by (auto simp: Let_def intro!: gwp_if gwp_ask_safe [where w = True and W = W and ?s0.0 = s]
        gwp_AddRefund_safe [where W = W and ?s0.0 = s])
qed

section \<open>Gas of the calls\<close>

lemma gwp_reserve:
  assumes "\<And>g. E (fst s, (snd s)\<lparr>callGasTemp := g\<rparr>)"
    and "\<And>g x. unat x = unat gas + unat g \<Longrightarrow> Q x (fst s, (snd s)\<lparr>callGasTemp := g\<rparr>)"
  shows "gwp (reserve gt c st gas) E Q s"
proof -
  have f: "gwp (\<lambda>s. gas_fail e (h s)) E Q s = E (h s)" "gwp (\<lambda>s. checked r (h s)) E Q s = (if snd r then E (h s) else Q (fst r) (h s))"
    for e r h by (auto simp: gwp_def gas_fail_def gas_ret_def checked_def)
  have "gwp (\<lambda>s. case callGas gt (ctGas c) gas x of
         Inl e \<Rightarrow> gas_fail e (fst s, (snd s)\<lparr>callGasTemp := 0\<rparr>)
       | Inr g \<Rightarrow> checked (SafeAdd gas g) (fst s, (snd s)\<lparr>callGasTemp := g\<rparr>)) E Q s" for x
    using assms by (cases "callGas gt (ctGas c) gas x") (simp_all add: f)
  then show ?thesis by (auto simp: reserve_def)
qed

text \<open>What a call instruction pays covers the gas it hands on, the stipend and one more unit.\<close>

definition call_gas_effect :: "machine \<Rightarrow> (int list \<Rightarrow> nat) \<Rightarrow> gasFunc \<Rightarrow> bool" where
  "call_gas_effect W extra g \<longleftrightarrow>
     (\<forall>c st ms s. gwp (g W c st ms) (gsafe False W s)
       (\<lambda>x s'. gsafe False W s s' \<and> unat (callGasTemp (snd s')) + extra st < unat x) s)"

definition stipend :: "int list \<Rightarrow> nat" where
  "stipend st = (if st ! 2 = 0 then 0 else 2300)"

lemma gsafe_temp: "gsafe w W s0 s \<Longrightarrow> mStore m = mStore (fst s) \<Longrightarrow> gsafe w W s0 (m, (snd s)\<lparr>callGasTemp := g\<rparr>)"
  by (simp add: gsafe_def)

lemma gtCalls_cases: "gtCalls (gasTable W) = 40 \<or> gtCalls (gasTable W) = 700"
  by (simp add: gasTable_def config_GasTable_def GasTableConstantinople_def
      GasTableEIP158_def GasTableEIP150_def GasTableHomestead_def)

abbreviation (input) call_post :: "machine \<Rightarrow> gas_state \<Rightarrow> nat \<Rightarrow> u64 \<Rightarrow> gas_state \<Rightarrow> bool" where
  "call_post W s n \<equiv> \<lambda>x s'. gsafe False W s s' \<and> unat (callGasTemp (snd s')) + n < unat x"

lemma gwp_call_tail:
  assumes "gsafe False W s0 s" "n < unat gas"
  shows "gwp (memoryGasCost ms) (gsafe False W s0)
      (\<lambda>x. gwp (gas_bind (checked (SafeAdd gas x)) (reserve gt c st)) (gsafe False W s0) (call_post W s0 n)) s"
    and "gwp (memoryGasCost ms) (gsafe False W s0)
      (\<lambda>x. gwp (gas_bind (checked (SafeAdd x gas)) (reserve gt c st)) (gsafe False W s0) (call_post W s0 n)) s"
  using assms by (auto intro!: gwp_memory gwp_reserve intro: gsafe_temp simp: gsafe_def)

lemmas gwp_call_tails = gwp_call_tail gwp_call_tail [where n = 0, unfolded add_0_right]

lemma gas_call: "call_gas_effect W stipend gasCall"
  unfolding call_gas_effect_def
proof (intro allI)
  fix c st ms s
  show "gwp (gasCall W c st ms) (gsafe False W s) (call_post W s (stipend st)) s"
    using gtCalls_cases [of W] unfolding gasCall_def
    by (auto simp: Let_def stipend_def intro!: gwp_if gwp_ask_safe [where w = False and W = W and ?s0.0 = s] gwp_call_tails)
qed

lemma gas_callcode: "call_gas_effect W stipend gasCallCode"
  unfolding call_gas_effect_def
proof (intro allI)
  fix c st ms s
  show "gwp (gasCallCode W c st ms) (gsafe False W s) (call_post W s (stipend st)) s"
    using gtCalls_cases [of W] unfolding gasCallCode_def
    by (auto simp: Let_def stipend_def intro!: gwp_call_tails)
qed

lemma gas_delegatecall:
  "call_gas_effect W (\<lambda>_. 0) gasDelegateCall" "call_gas_effect W (\<lambda>_. 0) gasStaticCall"
  using gtCalls_cases [of W]
  by (auto simp: call_gas_effect_def gasDelegateCall_def gasStaticCall_def simp del: gwp_simps(4) intro!: gwp_call_tails)

section \<open>The instruction table\<close>

definition call_table :: "(byte \<times> operation) list" where
  "call_table =
     [(0xf0, (call_op opCreate gasCreate 3 memoryCreate)\<lparr>writes := True\<rparr>), (0xf5, (call_op opCreate2 gasCreate2 4 memoryCreate2)\<lparr>writes := True\<rparr>),
      (CALL, call_op opCall gasCall 7 memoryCall), (0xf2, call_op opCallCode gasCallCode 7 memoryCall),
      (0xf4, call_op opDelegateCall gasDelegateCall 6 memoryDelegateCall), (0xfa, call_op opStaticCall gasStaticCall 6 memoryStaticCall)]"

definition plain :: "machine \<Rightarrow> operation \<Rightarrow> bool" where
  "plain W operation \<longleftrightarrow>
     (\<exists>ex. execute operation = (\<lambda>run. ex) \<and> effect (writes operation) (minStack operation) (pushes operation) W ex) \<and>
     gas_effect (writes operation) (if halts operation \<or> reverts operation then 0 else 1) W (gasCost operation)"

lemma plain_upd [simp]:
  "plain W (operation\<lparr>memorySize := m\<rparr>) = plain W operation" "plain W (operation\<lparr>jumps := b\<rparr>) = plain W operation"
  "plain W (operation\<lparr>returns_data := b\<rparr>) = plain W operation" "with_memory f operation = operation\<lparr>memorySize := Some f\<rparr>"
  by (simp_all add: plain_def with_memory_def)

lemma gas_effect_mono: "gas_effect w lo W g \<Longrightarrow> lo' \<le> lo \<Longrightarrow> gas_effect w lo' W g"
  unfolding gas_effect_def by (intro allI, elim allE, erule gwp_mono) auto

lemma constant_eq [simp]: "(\<lambda>_. x) = (\<lambda>_. y) \<longleftrightarrow> x = y"
  by (rule iffI) (drule fun_cong, simp_all)

lemma gas_effect_pos: "gas_effect w lo W g \<Longrightarrow> 0 < lo \<Longrightarrow> gas_effect w 1 W g"
  by (erule gas_effect_mono) simp

lemma gas_effect_zero: "gas_effect w lo W g \<Longrightarrow> gas_effect w 0 W g"
  by (erule gas_effect_mono) simp

lemma plain_plain_op:
  "effect False n k W ex \<Longrightarrow> gas_effect False lo W g \<Longrightarrow> 0 < lo \<Longrightarrow> plain W (plain_op ex g n k)"
  "effect False n k W ex \<Longrightarrow> gas_effect False lo W g \<Longrightarrow> plain W ((plain_op ex g n k)\<lparr>halts := True\<rparr>)"
  "effect False n k W ex \<Longrightarrow> gas_effect False lo W g \<Longrightarrow> plain W ((plain_op ex g n k)\<lparr>reverts := True\<rparr>)"
  "effect True n k W ex \<Longrightarrow> gas_effect True lo W g \<Longrightarrow> 0 < lo \<Longrightarrow> plain W ((plain_op ex g n k)\<lparr>writes := True\<rparr>)"
  "effect True n k W ex \<Longrightarrow> gas_effect True lo W g \<Longrightarrow> plain W ((plain_op ex g n k)\<lparr>halts := True, writes := True\<rparr>)"
  by (simp_all add: plain_def plain_op_def gas_effect_pos gas_effect_zero del: One_nat_def)

lemma plain_const:
  "effect False n k W ex \<Longrightarrow> 0 < unat u \<Longrightarrow> plain W (plain_op ex (constGasFunc u) n k)"
  by (rule plain_plain_op(1) [OF _ gas_const [OF order_refl]])

lemma plain_alu:
  "stack_effect n k f \<Longrightarrow> 0 < unat u \<Longrightarrow> plain W (plain_op (on_stack f) (constGasFunc u) n k)"
  by (intro plain_const effect_on_stack)

lemma plain_arith: "list_all (\<lambda>(c, operation). plain W operation) frontier_arith"
  unfolding frontier_arith_def list.pred_inject prod.case
  by (intro conjI TrueI plain_alu plain_plain_op(2) [OF effect_env(18)] gas_const plain_plain_op(1) [OF effect_on_stack gas_exp])
    (simp_all only: stack_effects, simp_all)

lemma plain_closure: "fuel_free W \<Longrightarrow> list_all (\<lambda>(c, operation). plain W operation) frontier_closure"
  unfolding frontier_closure_def list.pred_inject prod.case plain_upd
  by (intro conjI TrueI plain_const plain_plain_op(1) [OF effect_queries(1) gas_tables(1)]
      plain_plain_op(1) [OF effect_queries(2) gas_tables(2)] plain_plain_op(1) [OF effect_extcodecopy gas_extcodecopy]
      plain_plain_op(1) [OF effect_sha3 gas_memory(4)] plain_plain_op(1) [OF effect_copying(1) gas_memory(1)]
      plain_plain_op(1) [OF effect_copying(2) gas_memory(3)] effects) simp_all

lemma plain_flow: "list_all (\<lambda>(c, operation). plain W operation) frontier_flow"
  unfolding frontier_flow_def list.pred_inject prod.case plain_upd
  by (intro conjI TrueI plain_alu plain_const plain_plain_op(4) [OF effect_writing gas_sstore]
      plain_plain_op(1) [OF effect_reading(2) gas_memory(7)] plain_plain_op(1) [OF effect_mstore(1) gas_memory(8)]
      plain_plain_op(1) [OF effect_mstore(2) gas_memory(9)] plain_plain_op(1) [OF effect_queries(3) gas_tables(3)] effects) simp_all

lemma plain_pushes: "list_all (\<lambda>(c, operation). plain W operation) frontier_push"
proof -
  have "plain W (plain_op (makePush u i) gasPush 0 1)" for u i
    by (rule plain_plain_op(1) [OF effect_push gas_fixed(1)]) simp
  then show ?thesis unfolding frontier_push_def list_all_iff by auto
qed

lemma plain_dups: "list_all (\<lambda>(c, operation). plain W operation) frontier_dup"
proof -
  have "plain W (plain_op (on_stack (makeDup (i + 1))) gasDup (i + 1) (i + 2))" for i
    using plain_plain_op(1) [OF effect_on_stack [OF stack_effect_dup [of "i + 1"]] gas_fixed(3)] by simp
  then show ?thesis unfolding frontier_dup_def list_all_iff by auto
qed

lemma plain_swaps: "list_all (\<lambda>(c, operation). plain W operation) frontier_swap"
proof -
  have "plain W (plain_op (on_stack (makeSwap (i + 1))) gasSwap (i + 2) (i + 2))" for i
    using plain_plain_op(1) [OF effect_on_stack [OF stack_effect_swap [of "i + 1"]] gas_fixed(2)] by simp
  then show ?thesis unfolding frontier_swap_def list_all_iff by auto
qed

lemma plain_logs: "list_all (\<lambda>(c, operation). plain W operation) frontier_log"
proof -
  have "plain W ((with_memory m (plain_op (makeLog i) (makeGasLog u) (i + 2) 0))\<lparr>writes := True\<rparr>)" for i m u
  proof -
    have "plain W ((plain_op (makeLog i) (makeGasLog u) (i + 2) 0)\<lparr>writes := True\<rparr>)"
      by (rule plain_plain_op(4) [OF effect_log gas_log]) simp
    then show ?thesis by (simp add: plain_def)
  qed
  then show ?thesis unfolding frontier_log_def list_all_iff by auto
qed

definition regular :: "machine \<Rightarrow> byte \<times> operation \<Rightarrow> bool" where
  "regular W = (\<lambda>(c, operation). plain W operation \<or> (c, operation) \<in> set call_table)"

lemma plain_regular: "list_all (\<lambda>(c, operation). plain W operation) xs \<Longrightarrow> list_all (regular W) xs"
  by (auto simp: list_all_iff regular_def)

lemma regular_simps: "regular W (c, operation) \<longleftrightarrow> plain W operation \<or> (c, operation) \<in> set call_table"
  by (simp add: regular_def)

lemma regular_calls: "list_all (regular W) frontier_calls"
proof -
  have "plain W ((with_memory memoryReturn (plain_op opReturn gasReturn 2 0))\<lparr>halts := True\<rparr>)"
    using plain_plain_op(2) [OF effect_ending(1) gas_memory(10)] by (simp add: plain_def)
  moreover have "plain W ((plain_op opSuicide gasSuicide 1 0)\<lparr>halts := True, writes := True\<rparr>)"
    by (rule plain_plain_op(5) [OF effect_suicide gas_suicide])
  ultimately show ?thesis
    unfolding frontier_calls_def list.pred_inject regular_simps call_table_def by simp
qed

lemma regular_frontier: "fuel_free W \<Longrightarrow> list_all (regular W) newFrontierInstructionSet"
  unfolding newFrontierInstructionSet_def list_all_append
  by (intro conjI plain_regular [OF plain_arith] plain_regular [OF plain_closure] plain_regular [OF plain_flow]
      plain_regular [OF plain_pushes] plain_regular [OF plain_dups] plain_regular [OF plain_swaps]
      plain_regular [OF plain_logs] regular_calls)

lemma regular_homestead: "fuel_free W \<Longrightarrow> list_all (regular W) newHomesteadInstructionSet"
  by (simp add: newHomesteadInstructionSet_def regular_frontier regular_simps call_table_def)

lemma regular_byzantium: "fuel_free W \<Longrightarrow> list_all (regular W) newByzantiumInstructionSet"
proof -
  have "plain W ((with_memory memoryRevert (plain_op opRevert gasRevert 2 0))\<lparr>reverts := True, returns_data := True\<rparr>)"
    using plain_plain_op(3) [OF effect_ending(2) gas_memory(11)] by (simp add: plain_def)
  moreover have "plain W (plain_op opReturnDataSize (constGasFunc GasQuickStep) 0 1)"
    by (rule plain_const [OF effect_env(6)]) simp
  moreover have "plain W (with_memory memoryReturnDataCopy (plain_op opReturnDataCopy gasReturnDataCopy 3 0))"
    using plain_plain_op(1) [OF effect_returndatacopy gas_memory(2)] by simp
  ultimately show "fuel_free W \<Longrightarrow> ?thesis"
    unfolding newByzantiumInstructionSet_def list_all_append list.pred_inject regular_simps
    by (simp add: regular_homestead call_table_def)
qed

lemma regular_constantinople:
  assumes "IsConstantinople W" "fuel_free W"
  shows "list_all (regular W) newConstantinopleInstructionSet"
proof -
  have "plain W (plain_op opExtCodeHash gasExtCodeHash 1 1)"
    by (rule plain_plain_op(1) [OF effect_extcodehash gas_extcodehash [OF assms(1)]]) simp
  moreover have "plain W (plain_op (on_stack opSHL) (constGasFunc GasFastestStep) 2 1)"
    "plain W (plain_op (on_stack opSHR) (constGasFunc GasFastestStep) 2 1)"
    "plain W (plain_op (on_stack opSAR) (constGasFunc GasFastestStep) 2 1)"
    by (rule plain_alu; simp)+
  ultimately show ?thesis
    unfolding newConstantinopleInstructionSet_def list_all_append list.pred_inject regular_simps
    by (simp add: regular_byzantium [OF assms(2)] call_table_def)
qed

lemma instruction_cases:
  assumes "map_of (instructionSet W) c = Some operation" "fuel_free W"
  obtains "plain W operation" | "(c, operation) \<in> set call_table"
proof -
  have "list_all (regular W) (instructionSet W)"
    using assms(2) by (simp add: instructionSet_def regular_constantinople regular_byzantium regular_homestead regular_frontier)
  with map_of_SomeD [OF assms(1)] that show ?thesis by (auto simp: list_all_iff regular_def)
qed

lemma res_bind_no_fuel: "res_bind m f = Inl NoFuel \<longleftrightarrow> m = Inl NoFuel \<or> (\<exists>x. m = Inr x \<and> f x = Inl NoFuel)"
  by (cases m) auto

section \<open>A round of the main loop\<close>

text \<open>The memory an instruction asks for is computed without running out of fuel.\<close>

lemma mem_size_no_fuel [simp]: "mem_size i j st \<noteq> Inl NoFuel" "Back i st \<noteq> Inl NoFuel"
  by (simp_all add: mem_size_def Back_def res_bind_no_fuel)

lemmas memory_defs = memorySha3_def memoryCallDataCopy_def memoryReturnDataCopy_def memoryCodeCopy_def
  memoryExtCodeCopy_def memoryMLoad_def memoryMStore8_def memoryMStore_def memoryCreate_def memoryCreate2_def
  memoryCall_def memoryDelegateCall_def memoryStaticCall_def memoryReturn_def memoryRevert_def memoryLog_def

definition sized :: "byte \<times> operation \<Rightarrow> bool" where
  "sized = (\<lambda>(c, operation). \<forall>f st. memorySize operation = Some f \<longrightarrow> f st \<noteq> Inl NoFuel)"

lemma sized_simps:
  "sized (c, operation) \<longleftrightarrow> (case memorySize operation of None \<Rightarrow> True | Some f \<Rightarrow> \<forall>st. f st \<noteq> Inl NoFuel)"
  by (auto simp: sized_def split: option.split)

lemma call_op_sel [simp]:
  "execute (call_op ex g n f) = ex" "gasCost (call_op ex g n f) = g" "minStack (call_op ex g n f) = n"
  "pushes (call_op ex g n f) = 1" "memorySize (call_op ex g n f) = Some f" "halts (call_op ex g n f) = False"
  "reverts (call_op ex g n f) = False" "jumps (call_op ex g n f) = False" "writes (call_op ex g n f) = False"
  by (simp_all add: call_op_def)

lemma plain_op_sel [simp]: "memorySize (plain_op ex g n k) = None"
  by (simp add: plain_op_def)

lemma sized_frontier: "list_all sized newFrontierInstructionSet"
proof -
  have "list_all sized (frontier_arith @ frontier_closure @ frontier_flow)"
    "list_all sized (frontier_log @ frontier_calls)"
    by (simp_all add: frontier_arith_def frontier_closure_def frontier_flow_def frontier_log_def frontier_calls_def
        sized_simps memory_defs res_bind_no_fuel list.pred_map comp_def list.pred_True)
  moreover have "list_all sized (frontier_push @ frontier_dup @ frontier_swap)"
    by (auto simp: frontier_push_def frontier_dup_def frontier_swap_def list_all_iff sized_simps)
  ultimately show ?thesis by (simp add: newFrontierInstructionSet_def)
qed

lemma sized_instructions: "map_of (instructionSet W) c = Some operation \<Longrightarrow> memorySize operation = Some f \<Longrightarrow> f st \<noteq> Inl NoFuel"
proof -
  have "list_all sized newHomesteadInstructionSet"
    by (simp add: newHomesteadInstructionSet_def sized_frontier sized_simps memory_defs res_bind_no_fuel)
  then have "list_all sized newByzantiumInstructionSet"
    by (simp add: newByzantiumInstructionSet_def sized_simps memory_defs res_bind_no_fuel)
  then have "list_all sized newConstantinopleInstructionSet"
    by (simp add: newConstantinopleInstructionSet_def sized_simps memory_defs res_bind_no_fuel)
  with \<open>list_all sized newByzantiumInstructionSet\<close> \<open>list_all sized newHomesteadInstructionSet\<close> sized_frontier
  have "list_all sized (instructionSet W)" by (simp add: instructionSet_def)
  then show "map_of (instructionSet W) c = Some operation \<Longrightarrow> memorySize operation = Some f \<Longrightarrow> f st \<noteq> Inl NoFuel"
    by (auto simp: list_all_iff sized_def dest!: map_of_SomeD)
qed

lemma requested_memory_no_fuel:
  "map_of (instructionSet W) c = Some operation \<Longrightarrow> requested_memory operation st \<noteq> Inl NoFuel"
  using sized_instructions [of W c operation]
  by (auto simp: requested_memory_def res_bind_no_fuel Let_def split: option.splits prod.splits if_splits)

lemma enforceRestrictions_no_fuel [simp]: "enforceRestrictions W c operation st ev \<noteq> Inl NoFuel"
  by (simp add: enforceRestrictions_def res_bind_no_fuel)

lemma validateStack_None: "validateStack operation st = None \<Longrightarrow>
    minStack operation \<le> length st \<and> length st + pushes operation \<le> 1024 + minStack operation"
  by (auto simp: validateStack_def split: if_splits)

text \<open>The result of a round: \<open>D\<close> when the loop ends, \<open>C\<close> when it goes on.\<close>

definition turn :: "(err \<Rightarrow> bool) \<Rightarrow> (frame \<Rightarrow> EVM \<Rightarrow> bool) \<Rightarrow> (frame \<Rightarrow> EVM \<Rightarrow> bool) \<Rightarrow> step_result \<Rightarrow> bool" where
  "turn ok D C r \<longleftrightarrow>
     (case r of Inl e \<Rightarrow> ok e | Inr (x, fr, ev) \<Rightarrow> (case x of Inl _ \<Rightarrow> D fr ev | Inr _ \<Rightarrow> C fr ev))"

lemma turn_simps [simp]: "turn ok D C (abandon e fr ev) = D fr ev"
  by (simp add: turn_def abandon_def)

lemma turn_bind:
  "(\<And>e. m = Inl e \<Longrightarrow> ok e) \<Longrightarrow> (\<And>x. m = Inr x \<Longrightarrow> turn ok D C (f x)) \<Longrightarrow> turn ok D C (res_bind m f)"
  by (cases m) (auto simp: turn_def)

lemma turn_perform:
  assumes ex: "outcome_on ok Q (execute operation run W fr ev)"
    and D: "\<And>fr ev d. Q fr ev \<Longrightarrow> D fr (ev\<lparr>returnData := d\<rparr>)"
    and C: "\<And>fr ev d p. Q fr ev \<Longrightarrow> \<not> halts operation \<Longrightarrow> \<not> reverts operation \<Longrightarrow> C (fr\<lparr>pc := p\<rparr>) (ev\<lparr>returnData := d\<rparr>)"
  shows "turn ok D C (perform run W operation fr ev)"
proof (cases "execute operation run W fr ev")
  case (Inl e)
  with ex show ?thesis by (simp add: perform_def turn_def outcome_on_def)
next
  case (Inr x)
  obtain res e fr' ev' where x: "x = ((res, e), fr', ev')" by (metis prod.collapse)
  with ex Inr have "Q fr' ev'" by (simp add: outcome_on_def)
  then have "D fr' ev'" "D fr' (ev'\<lparr>returnData := res\<rparr>)"
    and "\<not> halts operation \<Longrightarrow> \<not> reverts operation \<Longrightarrow>
      C (fr'\<lparr>pc := p\<rparr>) ev' \<and> C fr' ev' \<and> C (fr'\<lparr>pc := p\<rparr>) (ev'\<lparr>returnData := res\<rparr>) \<and> C fr' (ev'\<lparr>returnData := res\<rparr>)" for p
    using D [of fr' ev' "returnData ev'"] D [of fr' ev' res] C [of fr' ev' p "returnData ev'"] C [of fr' ev' p res]
      C [of fr' ev' "pc fr'" "returnData ev'"] C [of fr' ev' "pc fr'" res] by simp_all
  then show ?thesis
    by (auto simp: perform_def Inr x Let_def turn_def abandon_def split: option.split)
qed

text \<open>The round, given what holds before an instruction is performed.\<close>

lemma turn_step:
  assumes ok: "\<And>e. e \<noteq> NoFuel \<Longrightarrow> ok e" and D0: "D fr ev0"
    and go: "\<And>c operation ms. map_of (instructionSet W) c = Some operation \<Longrightarrow> validateStack operation (stk fr) = None \<Longrightarrow>
      enforceRestrictions W c operation (stk fr) ev0 = Inr None \<Longrightarrow>
      gwp (gasCost operation W (contract fr) (stk fr) ms) (\<lambda>(m, ev). D (fr\<lparr>mem := m\<rparr>) ev)
        (\<lambda>cost (m, ev). D (fr\<lparr>mem := m\<rparr>) ev \<and>
           (cost \<le> ctGas (contract fr) \<longrightarrow>
             turn ok D C (perform run W operation
               (fr\<lparr>contract := (contract fr)\<lparr>ctGas := ctGas (contract fr) - cost\<rparr>,
                   mem := (if ms > 0 then mem_Resize ms m else m)\<rparr>) ev)))
        (mem fr, ev0)"
  shows "turn ok D C (step run W fr ev0)"
proof -
  have g: "turn ok D C (charge run W operation ms fr ev0)"
    if "map_of (instructionSet W) c = Some operation" "validateStack operation (stk fr) = None"
      "enforceRestrictions W c operation (stk fr) ev0 = Inr None" for c operation ms
    unfolding charge_def
  proof (rule turn_bind)
    note w = go [OF that, of ms]
    show "gasCost operation W (contract fr) (stk fr) ms (mem fr, ev0) = Inl e \<Longrightarrow> ok e" for e
      using w by (auto simp: gwp_def intro: ok)
    fix x
    assume x: "gasCost operation W (contract fr) (stk fr) ms (mem fr, ev0) = Inr x"
    obtain r m ev where x': "x = (r, m, ev)" by (metis prod.collapse)
    show "turn ok D C (case x of (r, m, ev) \<Rightarrow>
             case r of
               Inl e \<Rightarrow> abandon ErrOutOfGas (fr\<lparr>mem := m\<rparr>) ev
             | Inr cost \<Rightarrow>
                 (case UseGas cost (contract fr) of
                    (False, c) \<Rightarrow> abandon ErrOutOfGas (fr\<lparr>mem := m\<rparr>) ev
                  | (True, c) \<Rightarrow>
                      perform run W operation
                        (fr\<lparr>contract := c, mem := (if ms > 0 then mem_Resize ms m else m)\<rparr>) ev))"
      using w x by (cases r) (auto simp: gwp_def x' UseGas_def not_less)
  qed
  show ?thesis
    unfolding step_def Let_def
    by (auto simp: D0 requested_memory_no_fuel split: option.split sum.split intro!: turn_bind g ok)
qed

end
