(* ===== verification/EVM_Halt.thy ===== *)
theory EVM_Halt
  imports EVM_Effect
begin

text \<open>
  Every execution ends: each instruction that does not end its frame costs gas, and a call is paid with
  more than the callee receives.  A frame with less gas than the fuel therefore never runs out of fuel.
\<close>

text \<open>What a run of the interpreter may do with gas below a bound: return, or fail otherwise, and never gain gas.\<close>

definition runs_below :: "nat \<Rightarrow> runner \<Rightarrow> bool" where
  "runs_below b run \<longleftrightarrow>
     (\<forall>c input ro ev. unat (ctGas c) < b \<longrightarrow>
       (case run c input ro ev of Inl e \<Rightarrow> e \<noteq> NoFuel | Inr (r, c', ev') \<Rightarrow> ctGas c' \<le> ctGas c))"

definition call_pays :: "u64 \<Rightarrow> call_result \<Rightarrow> bool" where
  "call_pays gas r \<longleftrightarrow> (case r of Inl e \<Rightarrow> e \<noteq> NoFuel | Inr ((ret, left, e), ev) \<Rightarrow> left \<le> gas)"

definition create_pays :: "u64 \<Rightarrow> create_result \<Rightarrow> bool" where
  "create_pays gas r \<longleftrightarrow> (case r of Inl e \<Rightarrow> e \<noteq> NoFuel | Inr ((ret, a, left, e), ev) \<Rightarrow> left \<le> gas)"

lemma pays_simps [simp]:
  "call_pays gas (Inr ((ret, left, e), ev)) \<longleftrightarrow> left \<le> gas" "create_pays gas (Inr ((ret, a, left, e), ev)) \<longleftrightarrow> left \<le> gas"
  "call_pays gas (Inl Panic)" "create_pays gas (Inl Panic)"
  by (simp_all add: call_pays_def create_pays_def)

lemma entry_revert_error: "entry_revert e s = Inl x \<Longrightarrow> x = Panic"
  by (cases e) (auto simp: on_object_def Let_def split: option.splits prod.splits if_splits)

lemma revert_entries_error: "revert_entries es s = Inl x \<Longrightarrow> x = Panic"
proof (induction es arbitrary: s)
  case (Cons e es)
  then show ?case using entry_revert_error by (cases "entry_revert e s") auto
qed simp

lemma no_fuel_state [simp]: "RevertToSnapshot i s \<noteq> Inl NoFuel" "AsDelegate r c \<noteq> Inl NoFuel"
  using revert_entries_error
  by (auto simp: RevertToSnapshot_def journal_revert_def AsDelegate_def Let_def res_bind_def
      split: if_splits sum.splits ContractRef.splits)

lemma pays_bind:
  "m \<noteq> Inl NoFuel \<Longrightarrow> (\<And>x. m = Inr x \<Longrightarrow> call_pays gas (f x)) \<Longrightarrow> call_pays gas (res_bind m f)"
  "m' \<noteq> Inl NoFuel \<Longrightarrow> (\<And>x. m' = Inr x \<Longrightarrow> create_pays gas (f' x)) \<Longrightarrow> create_pays gas (res_bind m' f')"
  by (cases m; auto simp: call_pays_def) (cases m'; auto simp: create_pays_def)

section \<open>Calls\<close>

lemma UseGas_cases: "UseGas g c = (ok, c') \<Longrightarrow> (if ok then c' = c\<lparr>ctGas := ctGas c - g\<rparr> \<and> g \<le> ctGas c else c' = c)"
  by (auto simp: UseGas_def not_less split: if_splits)

lemma UseGas_le: "UseGas g c = (ok, c') \<Longrightarrow> ctGas c' \<le> ctGas c"
  by (auto dest!: UseGas_cases simp: word_sub_le split: if_splits)

lemma runs_below_vm_run: "runs_below b run \<Longrightarrow> fuel_free W \<Longrightarrow> runs_below b (vm_run W run)"
  unfolding runs_below_def
proof (intro allI impI)
  fix c :: Contract and input ro and ev :: EVM
  assume run: "\<forall>c input ro ev. unat (ctGas c) < b \<longrightarrow>
       (case run c input ro ev of Inl e \<Rightarrow> e \<noteq> NoFuel | Inr (r, c', ev') \<Rightarrow> ctGas c' \<le> ctGas c)"
    and W: "fuel_free W" and b: "unat (ctGas c) < b"
  have "case res_bind (RunPrecompiledContract p input c) (\<lambda>(r, c). Inr (r, c, ev)) of
      Inl e \<Rightarrow> e \<noteq> NoFuel | Inr (r, c', ev') \<Rightarrow> ctGas c' \<le> ctGas c" if "precompiles W a = Some p" for a p
  proof -
    have p: "RequiredGas p input \<noteq> Inl NoFuel" "pcRun p input \<noteq> Inl NoFuel" using W that by (auto simp: fuel_free_def)
    then show ?thesis
      by (cases "RequiredGas p input"; cases "pcRun p input")
        (auto simp: RunPrecompiledContract_def dest!: UseGas_le split: prod.splits bool.splits sum.splits)
  qed
  with run b show "case vm_run W run c input ro ev of Inl e \<Rightarrow> e \<noteq> NoFuel | Inr (r, c', ev') \<Rightarrow> ctGas c' \<le> ctGas c"
    unfolding vm_run_def by (auto split: option.split)
qed

lemma runs_belowD:
  assumes "runs_below b run" "unat (ctGas c) < b"
  shows "run c input ro ev \<noteq> Inl NoFuel" "run c input ro ev = Inr (r, c', ev') \<Longrightarrow> ctGas c' \<le> ctGas c"
proof -
  have r: "case run c input ro ev of Inl e \<Rightarrow> e \<noteq> NoFuel | Inr (r, c', ev') \<Rightarrow> ctGas c' \<le> ctGas c"
    using assms by (simp add: runs_below_def)
  show "run c input ro ev \<noteq> Inl NoFuel" using r by (cases "run c input ro ev") simp_all
  show "run c input ro ev = Inr (r, c', ev') \<Longrightarrow> ctGas c' \<le> ctGas c" using r by simp
qed

lemma load_code_gas: "load_code W a c ev = (c', ev') \<Longrightarrow> ctGas c' = ctGas c"
  by (auto simp: load_code_def SetCallCode_def Let_def split: prod.splits)

lemma NewContract_gas [simp]: "ctGas (NewContract r a v g) = g"
  by (simp add: NewContract_def)

lemma AsDelegate_gas: "AsDelegate r c = Inr c' \<Longrightarrow> ctGas c' = ctGas c"
  by (auto simp: AsDelegate_def split: ContractRef.splits)

lemma conclude_pays:
  assumes "runs_below b run" "fuel_free W" "unat gas < b" "ctGas c = gas"
  shows "call_pays gas (res_bind (vm_run W run c input ro ev) (conclude i))"
proof (rule pays_bind(1))
  note run = runs_belowD [OF runs_below_vm_run [OF assms(1,2)], of c] assms(3,4)
  then show "vm_run W run c input ro ev \<noteq> Inl NoFuel" by simp
  fix x
  assume x: "vm_run W run c input ro ev = Inr x"
  obtain ret e c' ev' where x': "x = ((ret, e), c', ev')" by (metis prod.collapse)
  then have "ctGas c' \<le> gas" using run x by fastforce
  then show "call_pays gas (conclude i x)" by (auto simp: x' conclude_def intro!: pays_bind split: option.split)
qed

lemma enter_pays:
  assumes "runs_below b run" "fuel_free W" "unat gas < b" "ctGas c = gas"
  shows "call_pays gas (enter W run caller a c input ro i ev)"
  using conclude_pays [OF assms(1-3)] load_code_gas [of W a c ev] assms(4)
  by (auto simp: enter_def split: prod.split)

lemma calls_pay:
  assumes "runs_below b run" "fuel_free W" "unat gas < b"
  shows "call_pays gas (vm_Call W run caller a input gas val ev)"
    and "call_pays gas (vm_CallCode W run caller a input gas val ev)"
    and "call_pays gas (vm_DelegateCall W run caller a input gas ev)"
    and "call_pays gas (vm_StaticCall W run caller a input gas ev)"
  unfolding vm_Call_def vm_CallCode_def vm_DelegateCall_def vm_StaticCall_def Let_def
  by (auto split: prod.split intro!: enter_pays [OF assms] pays_bind dest!: AsDelegate_gas)

lemma create_pays_gas:
  assumes "runs_below b run" "fuel_free W" "unat gas < b"
  shows "create_pays gas (vm_create W run caller code h gas val a ev)"
proof -
  have store: "ctGas (fst (snd (store_code W a x))) \<le> ctGas (fst (snd x))" for x
    by (auto simp: store_code_def dest!: UseGas_le split: prod.split bool.split)
  have pay: "create_pays gas (conclude_create W a i x)" if "ctGas (fst (snd x)) \<le> gas" for x i
    using that
    by (auto simp: conclude_create_def Let_def res_bind_no_fuel intro!: pays_bind split: prod.splits if_splits)
  have fin: "create_pays gas (res_bind (vm_run W run c [] False ev) (\<lambda>r. conclude_create W a i (store_code W a r)))"
    if "ctGas c = gas" for c ev i
  proof (rule pays_bind(2))
    note run = runs_belowD [OF runs_below_vm_run [OF assms(1,2)], of c]
    show "vm_run W run c [] False ev \<noteq> Inl NoFuel" using run(1) assms(3) that by simp
    fix x
    assume x: "vm_run W run c [] False ev = Inr x"
    obtain r c' ev' where x': "x = (r, c', ev')" by (metis prod.collapse)
    have "ctGas (fst (snd x)) \<le> gas" using run(2) [of "[]" False ev r c' ev'] assms(3) that x by (simp add: x')
    then show "create_pays gas (conclude_create W a i (store_code W a x))"
      using store [of x] by (intro pay) (rule order_trans)
  qed
  show ?thesis
    unfolding vm_create_def Let_def by (auto simp: SetCallCode_def split: prod.split intro!: fin)
qed

lemma creates_pay:
  assumes "runs_below b run" "fuel_free W" "unat gas < b"
  shows "create_pays gas (vm_Create W run caller code gas val ev)"
    and "create_pays gas (vm_Create2 W run caller code gas val salt ev)"
  unfolding vm_Create_def vm_Create2_def Let_def
  using create_pays_gas [OF assms] by (auto split: prod.split)

section \<open>Instructions\<close>

lemma unat_add_le: "unat (x + y) \<le> unat x + unat (y :: u64)"
  by (simp add: unat_word_ariths)

lemma outcome_after_call:
  assumes "call_pays gas r" "unat (ctGas (contract fr)) + unat gas \<le> n"
  shows "outcome (\<lambda>fr' ev'. unat (ctGas (contract fr')) \<le> n) (res_bind r (after_call fr o1 o2))"
proof (cases r)
  case (Inl e)
  with assms(1) show ?thesis by (simp add: call_pays_def outcome_on_def)
next
  case (Inr x)
  obtain ret left e ev where x: "x = ((ret, left, e), ev)" by (metis prod.collapse)
  with assms Inr have "left \<le> gas" by simp
  then have "unat (ctGas (contract fr) + left) \<le> n"
    using assms(2) unat_add_le [of "ctGas (contract fr)" left] by (simp add: word_le_nat_alt)
  then show ?thesis by (auto simp: Inr x after_call_def add_gas_def intro!: outcome_bind)
qed

lemma outcome_after_create:
  assumes "create_pays gas r" "unat (ctGas (contract fr)) + unat gas \<le> n"
  shows "outcome (\<lambda>fr' ev'. unat (ctGas (contract fr')) \<le> n) (res_bind r (\<lambda>r. after_create fr (b r) r))"
proof (cases r)
  case (Inl e)
  with assms(1) show ?thesis by (simp add: create_pays_def outcome_on_def)
next
  case (Inr x)
  obtain ret a left e ev where x: "x = ((ret, a, left, e), ev)" by (metis prod.collapse)
  with assms Inr have "left \<le> gas" by simp
  then have "unat (ctGas (contract fr) + left) \<le> n"
    using assms(2) unat_add_le [of "ctGas (contract fr)" left] by (simp add: word_le_nat_alt)
  then show ?thesis by (auto simp: Inr x after_create_def add_gas_def)
qed

abbreviation (input) gas_at_most :: "nat \<Rightarrow> exec_result \<Rightarrow> bool" where
  "gas_at_most n \<equiv> outcome (\<lambda>fr' ev'. unat (ctGas (contract fr')) \<le> n)"

lemma stack_cases:
  "7 \<le> length st \<Longrightarrow> \<exists>a b c d e f g xs. st = a # b # c # d # e # f # g # xs"
  "6 \<le> length st \<Longrightarrow> \<exists>a b c d e f xs. st = a # b # c # d # e # f # xs"
  "4 \<le> length st \<Longrightarrow> \<exists>a b c d xs. st = a # b # c # d # xs"
  "3 \<le> length st \<Longrightarrow> \<exists>a b c xs. st = a # b # c # xs"
  by (auto simp: numeral_eq_Suc Suc_le_length_iff)

lemma exec_calls:
  assumes "runs_below b run" "fuel_free W"
  shows "7 \<le> length (stk fr) \<Longrightarrow> unat (callGasTemp ev) + stipend (stk fr) < b \<Longrightarrow>
      gas_at_most (unat (ctGas (contract fr)) + (unat (callGasTemp ev) + stipend (stk fr))) (opCall run W fr ev)"
    and "7 \<le> length (stk fr) \<Longrightarrow> unat (callGasTemp ev) + stipend (stk fr) < b \<Longrightarrow>
      gas_at_most (unat (ctGas (contract fr)) + (unat (callGasTemp ev) + stipend (stk fr))) (opCallCode run W fr ev)"
    and "6 \<le> length (stk fr) \<Longrightarrow> unat (callGasTemp ev) < b \<Longrightarrow>
      gas_at_most (unat (ctGas (contract fr)) + unat (callGasTemp ev)) (opDelegateCall run W fr ev)"
    and "6 \<le> length (stk fr) \<Longrightarrow> unat (callGasTemp ev) < b \<Longrightarrow>
      gas_at_most (unat (ctGas (contract fr)) + unat (callGasTemp ev)) (opStaticCall run W fr ev)"
proof -
  have g: "unat (callGasTemp ev + (if U256 v \<noteq> 0 then CallStipend else 0)) \<le> unat (callGasTemp ev) + (if v = 0 then 0 else 2300)" for v
    using unat_add_le [of "callGasTemp ev" CallStipend] by (auto simp: U256_def)
  {
    assume "7 \<le> length (stk fr)" and lt: "unat (callGasTemp ev) + stipend (stk fr) < b"
    then obtain c d v e f g h st where st: "stk fr = c # d # v # e # f # g # h # st" using stack_cases(1) by blast
    let ?gas = "callGasTemp ev + (if U256 v \<noteq> 0 then CallStipend else 0)"
    have le: "unat ?gas \<le> unat (callGasTemp ev) + stipend (stk fr)" using g [of v] by (simp add: st stipend_def)
    with lt have gas: "unat ?gas < b" by simp
    show "gas_at_most (unat (ctGas (contract fr)) + (unat (callGasTemp ev) + stipend (stk fr))) (opCall run W fr ev)"
      unfolding opCall_def st list.case Let_def
      by (rule outcome_bind, fastforce, rule outcome_after_call [where gas = ?gas], rule calls_pay(1) [OF assms gas])
        (use le in \<open>simp add: st\<close>)
    show "gas_at_most (unat (ctGas (contract fr)) + (unat (callGasTemp ev) + stipend (stk fr))) (opCallCode run W fr ev)"
      unfolding opCallCode_def st list.case Let_def
      by (rule outcome_bind, fastforce, rule outcome_after_call [where gas = ?gas], rule calls_pay(2) [OF assms gas])
        (use le in \<open>simp add: st\<close>)
  }
  {
    assume "6 \<le> length (stk fr)" and gas: "unat (callGasTemp ev) < b"
    then obtain c d e f g h st where st: "stk fr = c # d # e # f # g # h # st" using stack_cases(2) by blast
    show "gas_at_most (unat (ctGas (contract fr)) + unat (callGasTemp ev)) (opDelegateCall run W fr ev)"
      using calls_pay(3) [OF assms gas]
      by (auto simp: opDelegateCall_def st Let_def intro!: outcome_bind outcome_after_call)
    show "gas_at_most (unat (ctGas (contract fr)) + unat (callGasTemp ev)) (opStaticCall run W fr ev)"
      using calls_pay(4) [OF assms gas]
      by (auto simp: opStaticCall_def st Let_def intro!: outcome_bind outcome_after_call)
  }
qed

lemma UseGas_share:
  "unat (ctGas (snd (UseGas (ctGas c - ctGas c div 64) c))) + unat (ctGas c - ctGas c div 64) = unat (ctGas c)"
  "unat (ctGas (snd (UseGas (ctGas c) c))) + unat (ctGas c) = unat (ctGas c)"
proof -
  have d: "ctGas c div 64 \<le> ctGas c" by (simp add: word_le_nat_alt unat_div)
  have "ctGas c - ctGas c div 64 \<le> ctGas c" using d by (rule word_sub_le)
  then have "snd (UseGas (ctGas c - ctGas c div 64) c) = c\<lparr>ctGas := ctGas c div 64\<rparr>" by (simp add: UseGas_def not_less)
  then show "unat (ctGas (snd (UseGas (ctGas c - ctGas c div 64) c))) + unat (ctGas c - ctGas c div 64) = unat (ctGas c)"
    using d by (simp add: unat_sub word_le_nat_alt)
qed (simp add: UseGas_def)

lemma exec_creates:
  assumes "runs_below b run" "fuel_free W" "unat (ctGas (contract fr)) < b"
  shows "3 \<le> length (stk fr) \<Longrightarrow> gas_at_most (unat (ctGas (contract fr))) (opCreate run W fr ev)"
    and "4 \<le> length (stk fr) \<Longrightarrow> gas_at_most (unat (ctGas (contract fr))) (opCreate2 run W fr ev)"
proof -
  let ?G = "ctGas (contract fr)"
  have share: "unat (?G - ?G div 64) < b" using UseGas_share(1) [of "contract fr"] assms(3) by linarith
  show "gas_at_most (unat ?G) (opCreate run W fr ev)" if three: "3 \<le> length (stk fr)"
  proof -
    obtain v off sz st where st: "stk fr = v # off # sz # st" using stack_cases(4) [OF three] by blast
    define gas where "gas = (if IsEIP150 W then ?G - ?G div 64 else ?G)"
    have gas: "unat gas < b" "unat (ctGas (snd (UseGas gas (contract fr)))) + unat gas = unat ?G"
      using share assms(3) UseGas_share [of "contract fr"] by (auto simp: gas_def)
    show ?thesis unfolding opCreate_def st list.case Let_def
      by (rule outcome_bind, fastforce, rule outcome_after_create [where gas = gas])
        (cases "IsEIP150 W"; use creates_pay(1) [OF assms(1,2) gas(1)] gas(2) in \<open>simp add: gas_def\<close>)+
  qed
  show "gas_at_most (unat ?G) (opCreate2 run W fr ev)" if four: "4 \<le> length (stk fr)"
  proof -
    obtain v off sz sa st where st: "stk fr = v # off # sz # sa # st" using stack_cases(3) [OF four] by blast
    show ?thesis unfolding opCreate2_def st list.case Let_def
      by (rule outcome_bind, fastforce, rule outcome_after_create [where gas = "?G - ?G div 64"])
        (use creates_pay(2) [OF assms(1,2) share] UseGas_share(1) [of "contract fr"] in simp_all)
  qed
qed

text \<open>
  An instruction of the table, paid from \<open>G\<close> and performed, leaves less than \<open>G\<close> unless it ends the frame.
\<close>

definition pays :: "nat \<Rightarrow> runner \<Rightarrow> machine \<Rightarrow> operation \<Rightarrow> bool" where
  "pays b run W operation \<longleftrightarrow>
     (\<forall>fr m ev ms (m1 :: Memory \<Rightarrow> Memory). unat (ctGas (contract fr)) \<le> b \<longrightarrow> minStack operation \<le> length (stk fr) \<longrightarrow>
       gwp (gasCost operation W (contract fr) (stk fr) ms) (\<lambda>_. True)
         (\<lambda>cost (m', ev'). cost \<le> ctGas (contract fr) \<longrightarrow>
            outcome (\<lambda>fr' _. unat (ctGas (contract fr')) +
                (if halts operation \<or> reverts operation then 0 else 1) \<le> unat (ctGas (contract fr)))
              (execute operation run W (fr\<lparr>contract := (contract fr)\<lparr>ctGas := ctGas (contract fr) - cost\<rparr>, mem := m1 m'\<rparr>) ev'))
         (m, ev))"

lemma pays_plain:
  assumes "plain W operation"
  shows "pays b run W operation"
  unfolding pays_def
proof (intro allI impI)
  fix fr :: frame and m ev ms and m1 :: "Memory \<Rightarrow> Memory"
  let ?e = "if halts operation \<or> reverts operation then 0 else 1 :: nat"
  assume n: "minStack operation \<le> length (stk fr)"
  obtain ex where ex: "execute operation = (\<lambda>run. ex)" "effect (writes operation) (minStack operation) (pushes operation) W ex"
    and g: "gas_effect (writes operation) ?e W (gasCost operation)" using assms unfolding plain_def by blast
  show "gwp (gasCost operation W (contract fr) (stk fr) ms) (\<lambda>_. True)
         (\<lambda>cost (m', ev'). cost \<le> ctGas (contract fr) \<longrightarrow>
            outcome (\<lambda>fr' _. unat (ctGas (contract fr')) + ?e \<le> unat (ctGas (contract fr)))
              (execute operation run W (fr\<lparr>contract := (contract fr)\<lparr>ctGas := ctGas (contract fr) - cost\<rparr>, mem := m1 m'\<rparr>) ev'))
         (m, ev)"
  proof (rule gwp_mono [OF g [unfolded gas_effect_def, rule_format]])
    fix cost :: u64 and s :: gas_state
    assume c: "gsafe (writes operation) W (m, ev) s \<and> ?e \<le> unat cost"
    obtain m' ev' where s: "s = (m', ev')" by fastforce
    have "outcome (\<lambda>fr' _. unat (ctGas (contract fr')) + ?e \<le> unat (ctGas (contract fr)))
        (execute operation run W (fr\<lparr>contract := (contract fr)\<lparr>ctGas := ctGas (contract fr) - cost\<rparr>, mem := m1 m'\<rparr>) ev')"
      if "cost \<le> ctGas (contract fr)"
      unfolding ex(1)
    proof (rule outcome_mono [OF ex(2) [unfolded effect_def, rule_format]])
      fix fr' ev''
      assume "kept (writes operation) (int (pushes operation) - int (minStack operation)) W
        (fr\<lparr>contract := (contract fr)\<lparr>ctGas := ctGas (contract fr) - cost\<rparr>, mem := m1 m'\<rparr>) ev' fr' ev''"
      then have "ctGas (contract fr') = ctGas (contract fr) - cost" by (auto simp: kept_def dest!: same_contract_sel)
      with that c show "unat (ctGas (contract fr')) + ?e \<le> unat (ctGas (contract fr))"
        by (auto simp: unat_sub word_le_nat_alt)
    qed (use n in simp)
    then show "case s of (m', ev') \<Rightarrow> cost \<le> ctGas (contract fr) \<longrightarrow>
        outcome (\<lambda>fr' _. unat (ctGas (contract fr')) + ?e \<le> unat (ctGas (contract fr)))
          (execute operation run W (fr\<lparr>contract := (contract fr)\<lparr>ctGas := ctGas (contract fr) - cost\<rparr>, mem := m1 m'\<rparr>) ev')"
      by (simp add: s)
  qed simp
qed

lemma pays_call:
  assumes g: "call_gas_effect W extra g"
    and ex: "\<And>fr ev. n \<le> length (stk fr) \<Longrightarrow> unat (callGasTemp ev) + extra (stk fr) < b \<Longrightarrow>
      gas_at_most (unat (ctGas (contract fr)) + (unat (callGasTemp ev) + extra (stk fr))) (ex run W fr ev)"
  shows "pays b run W (call_op ex g n f)"
  unfolding pays_def call_op_sel
proof (intro allI impI)
  fix fr :: frame and m ev ms and m1 :: "Memory \<Rightarrow> Memory"
  assume b: "unat (ctGas (contract fr)) \<le> b" and n: "n \<le> length (stk fr)"
  let ?fr = "\<lambda>cost m'. fr\<lparr>contract := (contract fr)\<lparr>ctGas := ctGas (contract fr) - cost\<rparr>, mem := m1 m'\<rparr>"
  let ?Q = "\<lambda>fr' _. unat (ctGas (contract fr')) + (if False \<or> False then 0 else 1) \<le> unat (ctGas (contract fr))"
  have "outcome ?Q (ex run W (?fr cost m') ev')"
    if c: "unat (callGasTemp ev') + extra (stk fr) < unat cost" "cost \<le> ctGas (contract fr)" for cost m' ev'
  proof -
    have le: "unat cost \<le> unat (ctGas (contract fr))" using c(2) by (simp add: word_le_nat_alt)
    have "gas_at_most (unat (ctGas (contract (?fr cost m'))) + (unat (callGasTemp ev') + extra (stk (?fr cost m')))) (ex run W (?fr cost m') ev')"
      by (rule ex) (use n c le b in simp_all)
    then show ?thesis by (rule outcome_mono) (use c le in \<open>simp add: unat_sub\<close>)
  qed
  then show "gwp (g W (contract fr) (stk fr) ms) (\<lambda>_. True)
      (\<lambda>cost (m', ev'). cost \<le> ctGas (contract fr) \<longrightarrow> outcome ?Q (ex run W (?fr cost m') ev')) (m, ev)"
    by (intro gwp_mono [OF g [unfolded call_gas_effect_def, rule_format]]) (auto split: prod.split)
qed

lemma pays_writes: "pays b run W (operation\<lparr>writes := w\<rparr>) = pays b run W operation"
  by (simp add: pays_def)

lemma pays_create:
  assumes g: "gas_effect w lo W g" "0 < lo"
    and ex: "\<And>fr ev. n \<le> length (stk fr) \<Longrightarrow> unat (ctGas (contract fr)) < b \<Longrightarrow>
      gas_at_most (unat (ctGas (contract fr))) (ex run W fr ev)"
  shows "pays b run W ((call_op ex g n f)\<lparr>writes := True\<rparr>)"
  unfolding pays_writes unfolding pays_def call_op_sel
proof (intro allI impI)
  fix fr :: frame and m ev ms and m1 :: "Memory \<Rightarrow> Memory"
  assume b: "unat (ctGas (contract fr)) \<le> b" and n: "n \<le> length (stk fr)"
  let ?fr = "\<lambda>cost m'. fr\<lparr>contract := (contract fr)\<lparr>ctGas := ctGas (contract fr) - cost\<rparr>, mem := m1 m'\<rparr>"
  let ?Q = "\<lambda>fr' _. unat (ctGas (contract fr')) + (if False \<or> False then 0 else 1) \<le> unat (ctGas (contract fr))"
  have "outcome ?Q (ex run W (?fr cost m') ev')" if c: "lo \<le> unat cost" "cost \<le> ctGas (contract fr)" for cost m' ev'
  proof -
    have le: "unat (ctGas (contract (?fr cost m'))) < unat (ctGas (contract fr))"
      using c g(2) by (simp add: unat_sub word_le_nat_alt)
    have "gas_at_most (unat (ctGas (contract (?fr cost m')))) (ex run W (?fr cost m') ev')"
      by (rule ex) (use n le b in simp_all)
    then show ?thesis by (rule outcome_mono) (use le in simp)
  qed
  then show "gwp (g W (contract fr) (stk fr) ms) (\<lambda>_. True)
      (\<lambda>cost (m', ev'). cost \<le> ctGas (contract fr) \<longrightarrow> outcome ?Q (ex run W (?fr cost m') ev')) (m, ev)"
    by (intro gwp_mono [OF g(1) [unfolded gas_effect_def, rule_format]]) (auto split: prod.split)
qed

lemma pays_call_ops:
  assumes "runs_below b run" "fuel_free W" "(c, operation) \<in> set call_table"
  shows "pays b run W operation"
proof -
  have "list_all (\<lambda>(c, operation). pays b run W operation) call_table"
    unfolding call_table_def list.pred_inject prod.case
    by (intro conjI TrueI pays_call [OF gas_call] pays_call [OF gas_callcode] pays_call [OF gas_delegatecall(1)]
        pays_call [OF gas_delegatecall(2)] pays_create [OF gas_memory(6)] pays_create [OF gas_memory(5)])
      (use exec_calls [OF assms(1,2)] exec_creates [OF assms(1,2)] in simp_all)
  with assms(3) show ?thesis by (auto simp: list_all_iff)
qed

section \<open>The main loop\<close>

lemma step_gas:
  assumes W: "fuel_free W" and run: "runs_below b run" and b: "unat (ctGas (contract fr)) \<le> b"
  shows "turn (\<lambda>e. e \<noteq> NoFuel) (\<lambda>fr' _. unat (ctGas (contract fr')) \<le> unat (ctGas (contract fr)))
    (\<lambda>fr' _. unat (ctGas (contract fr')) < unat (ctGas (contract fr))) (step run W fr ev)"
proof (rule turn_step)
  fix c operation ms
  assume op: "map_of (instructionSet W) c = Some operation" "validateStack operation (stk fr) = None"
  have p: "pays b run W operation"
    using instruction_cases [OF op(1) W] pays_plain pays_call_ops [OF run W] by metis
  let ?D = "\<lambda>fr' _ :: EVM. unat (ctGas (contract fr')) \<le> unat (ctGas (contract fr))"
  let ?C = "\<lambda>fr' _ :: EVM. unat (ctGas (contract fr')) < unat (ctGas (contract fr))"
  show "gwp (gasCost operation W (contract fr) (stk fr) ms) (\<lambda>(m, ev). ?D (fr\<lparr>mem := m\<rparr>) ev)
        (\<lambda>cost (m, ev). ?D (fr\<lparr>mem := m\<rparr>) ev \<and>
           (cost \<le> ctGas (contract fr) \<longrightarrow>
             turn (\<lambda>e. e \<noteq> NoFuel) ?D ?C (perform run W operation
               (fr\<lparr>contract := (contract fr)\<lparr>ctGas := ctGas (contract fr) - cost\<rparr>,
                   mem := (if ms > 0 then mem_Resize ms m else m)\<rparr>) ev)))
        (mem fr, ev)"
  proof (rule gwp_mono [OF p [unfolded pays_def, rule_format, OF b]])
    show "minStack operation \<le> length (stk fr)" using validateStack_None [OF op(2)] by simp
    fix cost and s :: gas_state
    assume "case s of (m', ev') \<Rightarrow> cost \<le> ctGas (contract fr) \<longrightarrow>
        outcome (\<lambda>fr' _. unat (ctGas (contract fr')) + (if halts operation \<or> reverts operation then 0 else 1) \<le> unat (ctGas (contract fr)))
          (execute operation run W (fr\<lparr>contract := (contract fr)\<lparr>ctGas := ctGas (contract fr) - cost\<rparr>,
             mem := (\<lambda>m. if ms > 0 then mem_Resize ms m else m) m'\<rparr>) ev')"
    then show "case s of (m, ev) \<Rightarrow> ?D (fr\<lparr>mem := m\<rparr>) ev \<and>
           (cost \<le> ctGas (contract fr) \<longrightarrow>
             turn (\<lambda>e. e \<noteq> NoFuel) ?D ?C (perform run W operation
               (fr\<lparr>contract := (contract fr)\<lparr>ctGas := ctGas (contract fr) - cost\<rparr>,
                   mem := (if ms > 0 then mem_Resize ms m else m)\<rparr>) ev))"
      by (auto elim!: turn_perform)
  qed simp
qed simp_all

lemma runs_below_Run:
  assumes "\<And>fr ev. unat (ctGas (contract fr)) < b \<Longrightarrow>
    (case loop fr ev of Inl e \<Rightarrow> e \<noteq> NoFuel | Inr (r, c, ev') \<Rightarrow> ctGas c \<le> ctGas (contract fr))"
  shows "runs_below b (vm_Run loop)"
  unfolding runs_below_def
proof (intro allI impI)
  fix c :: Contract and input ro and ev :: EVM
  assume c: "unat (ctGas c) < b"
  let ?fr = "\<lparr>pc = 0, contract = c\<lparr>ctInput := input\<rparr>, mem = NewMemory, stk = []\<rparr>"
  have "case loop ?fr ev of Inl e \<Rightarrow> e \<noteq> NoFuel | Inr (r, c', ev') \<Rightarrow> ctGas c' \<le> ctGas c" for ev
    using assms [of ?fr ev] c by (auto split: sum.splits)
  then have r: "case (if ctCode c = [] then Inr (([], None), c, ev) else loop ?fr ev) of
      Inl e \<Rightarrow> e \<noteq> NoFuel | Inr (r, c', ev') \<Rightarrow> ctGas c' \<le> ctGas c" for ev
    by simp
  have "case res_bind m (\<lambda>(r, c, ev). Inr (r, c, f ev)) of Inl e \<Rightarrow> e \<noteq> NoFuel | Inr (r, c', ev') \<Rightarrow> ctGas c' \<le> ctGas c"
    if "case m of Inl e \<Rightarrow> e \<noteq> NoFuel | Inr (r, c', ev') \<Rightarrow> ctGas c' \<le> ctGas c" for m :: run_result and f :: "EVM \<Rightarrow> EVM"
    using that by (cases m) auto
  from this [OF r] show "case vm_Run loop c input ro ev of Inl e \<Rightarrow> e \<noteq> NoFuel | Inr (r, c', ev') \<Rightarrow> ctGas c' \<le> ctGas c"
    unfolding vm_Run_def Let_def .
qed

lemma interp_gas:
  assumes W: "fuel_free W"
  shows "unat (ctGas (contract fr)) < fuel \<Longrightarrow>
    (case interp fuel W fr ev of Inl e \<Rightarrow> e \<noteq> NoFuel | Inr (r, c, ev') \<Rightarrow> ctGas c \<le> ctGas (contract fr))"
proof (induction fuel arbitrary: fr ev)
  case (Suc fuel)
  have run: "runs_below fuel (vm_Run (interp fuel W))" by (rule runs_below_Run) (rule Suc.IH)
  show ?case
  proof (cases "step (vm_Run (interp fuel W)) W fr ev")
    case (Inl e)
    with step_gas [OF W run, of fr ev] Suc.prems show ?thesis by (simp add: turn_def)
  next
    case (Inr x)
    obtain r fr' ev' where x: "x = (r, fr', ev')" by (metis prod.collapse)
    show ?thesis
    proof (cases r)
      case (Inl res)
      with step_gas [OF W run, of fr ev] Suc.prems Inr x show ?thesis by (simp add: turn_def word_le_nat_alt)
    next
      case r: (Inr u)
      with step_gas [OF W run, of fr ev] Suc.prems Inr x have lt: "unat (ctGas (contract fr')) < unat (ctGas (contract fr))"
        by (simp add: turn_def)
      with Suc.IH [of fr' ev'] Suc.prems have "case interp fuel W fr' ev' of Inl e \<Rightarrow> e \<noteq> NoFuel | Inr (r, c, ev') \<Rightarrow> ctGas c \<le> ctGas (contract fr')"
        by simp
      moreover have "ctGas (contract fr') \<le> ctGas (contract fr)" using lt by (simp add: word_le_nat_alt)
      ultimately show ?thesis
        by (cases "interp fuel W fr' ev'") (auto simp: Inr x r)
    qed
  qed
qed simp

lemma runs_below_fuel: "fuel_free W \<Longrightarrow> runs_below fuel (Run fuel W)"
  unfolding Run_def by (rule runs_below_Run) (rule interp_gas)

section \<open>The fuel does not show\<close>

text \<open>\<open>below m m'\<close>: the results are the same, or the first ran out of fuel.\<close>

definition below :: "err + 'a \<Rightarrow> err + 'a \<Rightarrow> bool" where
  "below m m' \<longleftrightarrow> m = Inl NoFuel \<or> m = m'"

lemma below_refl [simp]: "below m m"
  by (simp add: below_def)

lemma below_bind: "below m m' \<Longrightarrow> (\<And>x. below (f x) (f' x)) \<Longrightarrow> below (res_bind m f) (res_bind m' f')"
  unfolding below_def by (cases m'; cases m) force+

definition runner_below :: "runner \<Rightarrow> runner \<Rightarrow> bool" where
  "runner_below run run' \<longleftrightarrow> (\<forall>c i ro ev. below (run c i ro ev) (run' c i ro ev))"

lemma below_if: "(b \<Longrightarrow> below x x') \<Longrightarrow> (\<not> b \<Longrightarrow> below y y') \<Longrightarrow> below (if b then x else y) (if b then x' else y')"
  by simp

lemma below_pair: "(\<And>a b. below (f a b) (f' a b)) \<Longrightarrow> below (case p of (a, b) \<Rightarrow> f a b) (case p of (a, b) \<Rightarrow> f' a b)"
  by (cases p) simp

lemma below_option:
  "below x x' \<Longrightarrow> (\<And>a. below (f a) (f' a)) \<Longrightarrow> below (case p of None \<Rightarrow> x | Some a \<Rightarrow> f a) (case p of None \<Rightarrow> x' | Some a \<Rightarrow> f' a)"
  by (cases p) simp_all

lemmas below_intros = below_if below_pair below_option

lemma below_vm_run: "runner_below run run' \<Longrightarrow> below (vm_run W run c i ro ev) (vm_run W run' c i ro ev)"
  by (auto simp: vm_run_def runner_below_def split: option.split)

lemma below_enter: "runner_below run run' \<Longrightarrow> below (enter W run caller a c input ro i ev) (enter W run' caller a c input ro i ev)"
  unfolding enter_def by (intro below_intros below_bind below_vm_run below_refl)

lemma below_calls:
  assumes "runner_below run run'"
  shows "below (vm_Call W run caller a input gas val ev) (vm_Call W run' caller a input gas val ev)"
    and "below (vm_CallCode W run caller a input gas val ev) (vm_CallCode W run' caller a input gas val ev)"
    and "below (vm_DelegateCall W run caller a input gas ev) (vm_DelegateCall W run' caller a input gas ev)"
    and "below (vm_StaticCall W run caller a input gas ev) (vm_StaticCall W run' caller a input gas ev)"
  unfolding vm_Call_def vm_CallCode_def vm_DelegateCall_def vm_StaticCall_def Let_def
  by (intro below_intros below_bind below_enter assms below_refl)+

lemma below_creates:
  assumes "runner_below run run'"
  shows "below (vm_Create W run caller code gas val ev) (vm_Create W run' caller code gas val ev)"
    and "below (vm_Create2 W run caller code gas val salt ev) (vm_Create2 W run' caller code gas val salt ev)"
  unfolding vm_Create_def vm_Create2_def vm_create_def Let_def
  by (intro below_intros below_bind below_vm_run assms below_refl)+

lemma below_call_ops:
  assumes "runner_below run run'" "(c, operation) \<in> set call_table"
  shows "below (execute operation run W fr ev) (execute operation run' W fr ev)"
proof -
  have "below (opCall run W fr ev) (opCall run' W fr ev)" "below (opCallCode run W fr ev) (opCallCode run' W fr ev)"
    "below (opDelegateCall run W fr ev) (opDelegateCall run' W fr ev)" "below (opStaticCall run W fr ev) (opStaticCall run' W fr ev)"
    "below (opCreate run W fr ev) (opCreate run' W fr ev)" "below (opCreate2 run W fr ev) (opCreate2 run' W fr ev)"
    by (auto simp: opCall_def opCallCode_def opDelegateCall_def opStaticCall_def opCreate_def opCreate2_def Let_def
        split: list.split intro!: below_bind below_calls below_creates assms(1))
  then show ?thesis using assms(2) by (auto simp: call_table_def)
qed

lemma below_step:
  assumes run: "runner_below run run'" and W: "fuel_free W"
  shows "below (step run W fr ev) (step run' W fr ev)"
proof -
  have e: "below (execute operation run W fr ev) (execute operation run' W fr ev)"
    if "map_of (instructionSet W) c = Some operation" for operation c fr ev
    using instruction_cases [OF that W] below_call_ops [OF run] plain_def below_refl by metis
  have "below (charge run W operation ms fr ev) (charge run' W operation ms fr ev)"
    if "map_of (instructionSet W) c = Some operation" for operation c ms
    unfolding charge_def perform_def Let_def
    by (rule below_bind, simp) (auto split: sum.split prod.split bool.split intro!: below_bind e [OF that])
  then show ?thesis
    unfolding step_def Let_def by (auto split: option.split sum.split intro!: below_bind)
qed

lemma runner_below_Run: "(\<And>fr ev. below (loop fr ev) (loop' fr ev)) \<Longrightarrow> runner_below (vm_Run loop) (vm_Run loop')"
  unfolding runner_below_def vm_Run_def Let_def by (intro allI below_bind below_if below_refl)

lemma interp_more:
  assumes W: "fuel_free W"
  shows "below (interp fuel W fr ev) (interp (Suc fuel) W fr ev)"
proof (induction fuel arbitrary: fr ev)
  case 0
  show ?case by (simp add: below_def)
next
  case (Suc fuel)
  have "runner_below (vm_Run (interp fuel W)) (vm_Run (interp (Suc fuel) W))"
    by (rule runner_below_Run) (rule Suc.IH)
  from below_step [OF this W] Suc.IH show ?case
    unfolding interp.simps(2) [of "Suc fuel"] interp.simps(2) [of fuel W fr ev]
    by (auto split: sum.split prod.split intro!: below_bind)
qed

lemma interp_enough:
  assumes "fuel_free W" "fuel \<le> fuel'"
  shows "below (interp fuel W fr ev) (interp fuel' W fr ev)"
  using assms(2)
proof (induction rule: dec_induct)
  case (step n)
  then show ?case using interp_more [OF assms(1), of n fr ev] by (auto simp: below_def)
qed simp

section \<open>Calls from outside\<close>

lemma runner_below_fuel: "fuel_free W \<Longrightarrow> fuel \<le> fuel' \<Longrightarrow> runner_below (Run fuel W) (Run fuel' W)"
  unfolding Run_def by (rule runner_below_Run) (rule interp_enough)

text \<open>A machine and a state in which account 7 has a contract that loops for ever: \<open>JUMPDEST; PUSH1 0; JUMP\<close>.\<close>

definition sample_machine :: machine where
  "sample_machine = \<lparr>GetHashFn = (\<lambda>_. Inr 0), Origin = 1, vmGasPrice = 1, Coinbase = 2, vmGasLimit = 1000000,
     BlockNumber = 1, vmTime = 1, Difficulty = 1, chainConfig = MainnetChainConfig, NoRecursion = False,
     EnablePreimageRecording = False, vmH = sample_hashing, vmKeccak = (\<lambda>b. word_of_nat (length b)),
     precompiles = Map.empty\<rparr>"

definition sample_EVM :: EVM where
  "sample_EVM = \<lparr>statedb = SetCode sample_hashing 7 (Some [0x5b, 0x60, 0, 0x56]) sample_state, depth = 0, callGasTemp = 0,
     readOnly = False, returnData = [], jumpdests = Map.empty\<rparr>"

lemma fuel_free_sample [simp]: "fuel_free sample_machine"
  by (simp add: fuel_free_def sample_machine_def)

text \<open>
  C16. A call with less gas than the fuel of the model ends: it returns a result or panics, more fuel does
  not change what it does, and it never hands back more gas than it was given.
\<close>

theorem Call_terminates:
  assumes "fuel_free W" and "unat gas < fuel"
  shows "vm_Call W (Run fuel W) caller a input gas val ev \<noteq> Inl NoFuel \<and>
    (\<forall>fuel'. vm_Call W (Run (fuel + fuel') W) caller a input gas val ev = vm_Call W (Run fuel W) caller a input gas val ev) \<and>
    (\<forall>ret left e ev'. vm_Call W (Run fuel W) caller a input gas val ev = Inr ((ret, left, e), ev') \<longrightarrow> left \<le> gas)"
proof -
  have pays: "call_pays gas (vm_Call W (Run fuel W) caller a input gas val ev)"
    using calls_pay(1) [OF runs_below_fuel [OF assms(1)] assms] .
  have "below (vm_Call W (Run fuel W) caller a input gas val ev) (vm_Call W (Run (fuel + fuel') W) caller a input gas val ev)" for fuel'
    using below_calls(1) [OF runner_below_fuel [OF assms(1)]] by simp
  then have same: "vm_Call W (Run fuel W) caller a input gas val ev = Inl NoFuel \<or>
      vm_Call W (Run (fuel + fuel') W) caller a input gas val ev = vm_Call W (Run fuel W) caller a input gas val ev" for fuel'
    unfolding below_def by metis
  show ?thesis
  proof (cases "vm_Call W (Run fuel W) caller a input gas val ev")
    case (Inl e)
    with pays same show ?thesis by (simp add: call_pays_def)
  next
    case (Inr x)
    obtain ret left e ev' where "x = ((ret, left, e), ev')" by (metis prod.collapse)
    with Inr pays same show ?thesis by simp
  qed
qed

theorem Call_terminates_witness:
  "vm_Call sample_machine (Run 31 sample_machine) (AccountRef 1) 7 [] 30 0 sample_EVM \<noteq> Inl NoFuel"
  using Call_terminates [of sample_machine 30 31 "AccountRef 1" 7 "[]" 0 sample_EVM] by simp

end
