(* ===== verification/State_Journey.thy ===== *)
theory State_Journey
  imports State_Balance
begin

text \<open>
  What a piece of code that works on a \<open>StateDB\<close> through its operations, snapshots and reverts to its own
  snapshots does to the state as seen from outside: it keeps every older snapshot valid.  On top of that,
  the operations that leave all accounts as they are, and those that create no money.
\<close>

section \<open>Journeys\<close>

definition good :: "StateDB \<Rightarrow> bool" where
  "good s \<longleftrightarrow> sdb_inv s \<and> revs_ok s"

definition journey :: "hashing \<Rightarrow> StateDB \<Rightarrow> StateDB \<Rightarrow> bool" where
  "journey H s t \<longleftrightarrow> (good s \<longrightarrow> good t \<and> nextRevisionId s \<le> nextRevisionId t \<and>
     (\<forall>i s0. i < nextRevisionId s \<longrightarrow> evolves H i s0 s \<longrightarrow> evolves H i s0 t))"

lemma journey_refl [simp]: "journey H s s"
  by (simp add: journey_def)

lemma journey_trans: "journey H s t \<Longrightarrow> journey H t u \<Longrightarrow> journey H s u"
  unfolding journey_def by (meson order.trans order.strict_trans2)

lemma journey_good: "journey H s t \<Longrightarrow> good s \<Longrightarrow> good t"
  by (simp add: journey_def)

lemma journey_op:
  assumes "sdb_op H s t"
  shows "journey H s t"
  using sdb_op_records [OF assms] revs_ok_records [of H s t] assms
  by (auto simp: journey_def good_def records_def intro: evolves_op)

lemma journey_snapshot: "journey H s (snd (Snapshot s))"
  by (auto simp: journey_def good_def Snapshot_sel revs_ok_Snapshot intro: evolves_snapshot)

text \<open>Going back to one's own snapshot succeeds, shows the old state again, and is a journey.\<close>

lemma journey_rollback:
  assumes snap: "Snapshot s = (i, t)" and j: "journey H t u" and s: "good s"
  shows "\<exists>v. RevertToSnapshot i u = Inr v \<and> abs H v = abs H s \<and> journey H s v"
proof -
  have t: "t = snd (Snapshot s)" "i = nextRevisionId s" using snap by (auto simp: Snapshot_def)
  have next_t: "nextRevisionId t = nextRevisionId s + 1" by (simp add: t Snapshot_sel)
  have gt: "good t" using journey_good [OF journey_snapshot s] by (simp add: t)
  with j have gu: "good u" and next_u: "nextRevisionId t \<le> nextRevisionId u"
    and ev: "\<And>k s0. k < nextRevisionId t \<Longrightarrow> evolves H k s0 t \<Longrightarrow> evolves H k s0 u" by (auto simp: journey_def)
  have "evolves H i t u" using ev [of i t] next_t t(2) by (simp add: evolves_refl)
  then obtain v where v: "RevertToSnapshot i u = Inr v" "abs H v = abs H s"
    using RevertToSnapshot_restores [OF _ _ snap] s by (auto simp: good_def)
  obtain xs k ys where "validRevisions u = xs @ (i, k) # ys" using RevertToSnapshot_found [OF v(1)] by blast
  note f = roll_facts [OF _ _ this v(1)]
  have gv: "good v" and "nextRevisionId v = nextRevisionId u" using gu f(4,5,7) by (simp_all add: good_def)
  moreover have "evolves H k s0 v" if "k < nextRevisionId s" "evolves H k s0 s" for k s0
  proof (rule evolves_revert [OF ev])
    show "evolves H k s0 t" using that(2) by (auto simp: t intro: evolves_snapshot)
    show "k < i" "k < nextRevisionId t" using that(1) next_t t(2) by simp_all
  qed (rule v(1))
  ultimately show ?thesis using v next_u next_t by (auto simp: journey_def)
qed

section \<open>States that show the same\<close>

text \<open>What the state shows of its accounts, refunds and logs, up to accounts that are new and empty.\<close>

definition blank :: "hashing \<Rightarrow> acct \<Rightarrow> bool" where
  "blank H v \<longleftrightarrow> vNonce v = 0 \<and> vBalance v = 0 \<and> vCodeHash v = emptyCodeHash H \<and> \<not> vSuicided v"

definition quiet :: "hashing \<Rightarrow> StateDB \<Rightarrow> StateDB \<Rightarrow> bool" where
  "quiet H s t \<longleftrightarrow> refund t = refund s \<and> logs t = logs s \<and> logSize t = logSize s \<and>
     (\<forall>a. acct_view H t a = acct_view H s a \<or>
        acct_view H s a = None \<and> (\<exists>v. acct_view H t a = Some v \<and> blank H v))"

lemma quiet_refl [simp]: "quiet H s s"
  by (simp add: quiet_def)

lemma quiet_trans: "quiet H s t \<Longrightarrow> quiet H t u \<Longrightarrow> quiet H s u"
  unfolding quiet_def by (metis option.distinct(1))

lemma quiet_abs: "abs H t = abs H s \<Longrightarrow> quiet H s t"
  by (simp add: quiet_def abs_def)

lemma blank_new: "blank H (obj_view H st (newObject a (emptyAccount H)))"
  by (simp add: blank_def obj_view_def newObject_def emptyAccount_def)

lemma abs_getStateObject: "abs H (snd (getStateObject a s)) = abs H s"
  by (rule getStateObject_view(2) [OF prod.collapse [symmetric]])

text \<open>Replacing a live object by one with the same view.\<close>

lemma abs_cache:
  assumes "stateObjects s a = Some obj" "\<not> deleted obj" "deleted obj' = deleted obj"
    and "obj_view H (db s) obj' = obj_view H (db s) obj"
  shows "abs H (upd_obj a (\<lambda>_. obj') s) = abs H s"
proof -
  have "acct_view H (upd_obj a (\<lambda>_. obj') s) = (acct_view H s)(a \<mapsto> obj_view H (db s) obj')"
    using assms by (intro acct_view_upd_obj)
  also have "\<dots> = acct_view H s" using assms by (auto simp: acct_view_def fun_eq_iff)
  finally show ?thesis by (intro abs_eqI) simp_all
qed

lemma abs_GetState: "sdb_inv s \<Longrightarrow> abs H (snd (GetState H a k s)) = abs H s"
proof -
  assume inv: "sdb_inv s"
  obtain r s1 where g: "getStateObject a s = (r, s1)" by fastforce
  show ?thesis
  proof (cases r)
    case (Some obj)
    obtain v obj' where o: "so_GetState H (db s1) k obj = (v, obj')" by fastforce
    then have "abs H (upd_obj a (\<lambda>_. obj') s1) = abs H s1"
      using so_GetState_view [of H "db s1" k obj] getStateObject_Some [OF _ inv] g Some by (intro abs_cache) simp_all
    with o g Some abs_getStateObject [of H a s] show ?thesis by (simp add: GetState_def)
  qed (use g abs_getStateObject [of H a s] in \<open>simp add: GetState_def\<close>)
qed

lemma abs_GetCode: "sdb_inv s \<Longrightarrow> abs H (snd (GetCode H a s)) = abs H s"
proof -
  assume inv: "sdb_inv s"
  obtain r s1 where g: "getStateObject a s = (r, s1)" by fastforce
  show ?thesis
  proof (cases r)
    case (Some obj)
    obtain v obj' where o: "so_Code H (db s1) obj = (v, obj')" by fastforce
    then have "abs H (upd_obj a (\<lambda>_. obj') s1) = abs H s1"
      using so_Code_view(2-5) [of H "db s1" obj] getStateObject_Some [OF _ inv] g Some by (intro abs_cache) simp_all
    with o g Some abs_getStateObject [of H a s] show ?thesis by (simp add: GetCode_def)
  qed (use g abs_getStateObject [of H a s] in \<open>simp add: GetCode_def\<close>)
qed

lemma quiet_AddPreimage: "quiet H s (AddPreimage h b s)"
proof -
  have "acct_view H (AddPreimage h b s) = acct_view H s"
    by (auto simp: AddPreimage_def acct_view_def fun_eq_iff split: option.split)
  then show ?thesis by (simp add: quiet_def) (simp add: AddPreimage_def)
qed

lemma quiet_createObject:
  assumes inv: "sdb_inv s" and c: "createObject H a s = (None, t)"
  shows "quiet H s t"
proof -
  have g: "getStateObject a s = (None, s)"
    using c getStateObject_None(1) [OF _ inv] by (cases "getStateObject a s") (auto simp: createObject_def)
  have n: "setNonce 0 (newObject a (emptyAccount H)) = newObject a (emptyAccount H)"
    by (simp add: setNonce_def newObject_def emptyAccount_def)
  have t: "t = setStateObject (newObject a (emptyAccount H)) (journal_append (createObjectChange a) s)"
    using c g n by (simp add: createObject_def)
  have "acct_view H s a = None" using getStateObject_view(1) [OF g] by simp
  moreover have "acct_view H t b = (if b = a then Some (obj_view H (db s) (newObject a (emptyAccount H))) else acct_view H s b)" for b
    by (simp add: t acct_view_def split: option.split)
  ultimately show ?thesis
    unfolding quiet_def by (auto simp: blank_new) (simp_all add: t)
qed

lemma GetOrNew_cases:
  assumes inv: "sdb_inv s"
  obtains (old) obj where "getStateObject a s = (Some obj, GetOrNewStateObject H a s)"
    | (new) "createObject H a s = (None, GetOrNewStateObject H a s)"
proof (cases "getStateObject a s")
  case (Pair r s1)
  show ?thesis
  proof (cases r)
    case None
    then have "s1 = s" using Pair getStateObject_None(1) [OF _ inv] by simp
    with None Pair new show ?thesis by (simp add: GetOrNewStateObject_def createObject_def)
  next
    case (Some obj)
    then have "\<not> deleted obj" using Pair getStateObject_Some [OF _ inv] by simp
    with Some Pair old show ?thesis by (simp add: GetOrNewStateObject_def)
  qed
qed

lemma quiet_GetOrNew: "sdb_inv s \<Longrightarrow> quiet H s (GetOrNewStateObject H a s)"
  by (rule GetOrNew_cases [of s a H]) (auto intro: quiet_createObject quiet_abs getStateObject_view(2))

text \<open>A transfer of nothing.\<close>

lemma quiet_add_zero: "sdb_inv s \<Longrightarrow> quiet H s (AddBalance H a 0 s)"
proof -
  have "quiet H t (so_touch b t)" for t b
    by (rule quiet_abs) (simp add: so_touch_def Let_def journal_dirty_def abs_def)
  then have "quiet H t (so_AddBalance H b 0 t)" for t b
    by (simp add: so_AddBalance_def split: option.split)
  then show "sdb_inv s \<Longrightarrow> quiet H s (AddBalance H a 0 s)"
    unfolding AddBalance_def by (blast intro: quiet_trans quiet_GetOrNew)
qed

lemma quiet_sub_zero: "sdb_inv s \<Longrightarrow> quiet H s (SubBalance H a 0 s)"
proof -
  have "so_SubBalance b 0 t = t" for t b by (simp add: so_SubBalance_def split: option.split)
  then show "sdb_inv s \<Longrightarrow> quiet H s (SubBalance H a 0 s)" by (simp add: SubBalance_def quiet_GetOrNew)
qed

lemma quiet_CreateAccount: "sdb_inv s \<Longrightarrow> getStateObject a s = (None, t) \<Longrightarrow> quiet H s (CreateAccount H a t)"
proof -
  assume inv: "sdb_inv s" and g: "getStateObject a s = (None, t)"
  then have "t = s" using getStateObject_None(1) by blast
  then obtain u where "createObject H a s = (None, u)" using g by (auto simp: createObject_def)
  with quiet_createObject [OF inv] \<open>t = s\<close> show ?thesis by (simp add: CreateAccount_def)
qed

section \<open>Operations that create no money\<close>

lemma balance_upd_obj:
  assumes "stateObjects s a = Some obj" "\<not> deleted obj" "deleted (f obj) = deleted obj"
  shows "balance H (upd_obj a f s) = (balance H s)(a := Balance (soData (f obj)))"
  using acct_view_upd_obj [of s a obj f H] assms by (auto simp: balance_def fun_eq_iff obj_view_def)

lemma balance_same [simp]:
  "balance H (journal_append e s) = balance H s" "balance H (AddLog l s) = balance H s"
  "balance H (AddRefund g s) = balance H s" "balance H (AddPreimage h b s) = balance H s"
  "balance H (s\<lparr>refund := r\<rparr>) = balance H s" "balance H (snd (getStateObject a s)) = balance H s"
  using balance_abs [OF abs_getStateObject]
  by (simp_all add: balance_def AddLog_def AddRefund_def AddPreimage_def Let_def fun_eq_iff)

lemma balance_SubRefund: "SubRefund g s = Inr t \<Longrightarrow> balance H t = balance H s"
  by (auto simp: SubRefund_def split: if_splits)

lemma balance_setter:
  assumes "sdb_inv s"
    and "\<And>t obj. stateObjects t a = Some obj \<Longrightarrow> \<not> deleted obj \<Longrightarrow> balance H (f t) = (balance H t)(a := Balance (soData obj))"
  shows "balance H (f (GetOrNewStateObject H a s)) = balance H s"
proof -
  obtain obj where "stateObjects (GetOrNewStateObject H a s) a = Some obj" "\<not> deleted obj"
    using GetOrNew_live(2) [OF assms(1) refl] by blast
  note obj = this assms(2) [OF this]
  moreover have "balance H s a = Balance (soData obj)"
    using balance_live [OF obj(1,2), of H] GetOrNew_view(1) [OF assms(1) refl, of H a] by simp
  ultimately show ?thesis using GetOrNew_view(1) [OF assms(1) refl, of H a] by (simp add: fun_upd_idem)
qed

lemma balance_SetState: "sdb_inv s \<Longrightarrow> balance H (SetState H a k v s) = balance H s"
  unfolding SetState_def
proof (rule balance_setter)
  fix t :: StateDB and obj
  assume obj: "stateObjects t a = Some obj" "\<not> deleted obj"
  obtain p obj' where g: "so_GetState H (db t) k obj = (p, obj')" by fastforce
  have "soData obj' = soData obj" "deleted obj' = deleted obj"
    using so_GetState_view(4) [of H "db t" k obj] g by (auto simp: so_GetState_def getTrie_def Let_def split: option.splits)
  with obj g show "balance H (so_SetState H a k v t) = (balance H t)(a := Balance (soData obj))"
    by (simp add: so_SetState_def balance_upd_obj [where obj = obj] balance_upd_obj [where obj = obj'])
      (simp add: setState_def)
qed

lemma balance_SetCode: "sdb_inv s \<Longrightarrow> balance H (SetCode H a c s) = balance H s"
  unfolding SetCode_def
proof (rule balance_setter)
  fix t :: StateDB and obj
  let ?h = "codeHashOf H (case c of None \<Rightarrow> [] | Some c \<Rightarrow> c)"
  assume obj: "stateObjects t a = Some obj" "\<not> deleted obj"
  obtain p obj' where g: "so_Code H (db t) obj = (p, obj')" by fastforce
  have "soData obj' = soData obj" "deleted obj' = deleted obj"
    using so_Code_view(4,5) [of H "db t" obj] g by simp_all
  with obj g show "balance H (so_SetCode H a ?h c t) = (balance H t)(a := Balance (soData obj))"
    by (simp add: so_SetCode_def balance_upd_obj [where obj = obj] balance_upd_obj [where obj = obj'])
      (simp add: setCode_def)
qed

lemma balance_Suicide: "sdb_inv s \<Longrightarrow> balance H (snd (Suicide a s)) = (balance H s)(a := 0)"
proof -
  assume inv: "sdb_inv s"
  obtain r s1 where g: "getStateObject a s = (r, s1)" by fastforce
  have b: "balance H s1 = balance H s" using balance_same(6) [of H a s] g by simp
  show ?thesis
  proof (cases r)
    case None
    then have "balance H s a = 0" using getStateObject_view(1) [OF g] by (simp add: balance_def)
    with None g b show ?thesis by (simp add: Suicide_def fun_upd_idem)
  next
    case (Some obj)
    with getStateObject_Some [OF _ inv] g have "stateObjects s1 a = Some obj" "\<not> deleted obj" by simp_all
    with Some g b show ?thesis
      by (simp add: Suicide_def balance_upd_obj [where obj = obj]) (simp add: setBalance_def)
  qed
qed

lemma balance_CreateAccount: "sdb_inv s \<Longrightarrow> balance H (CreateAccount H a s) = balance H s"
proof -
  assume inv: "sdb_inv s"
  obtain prev t where c: "createObject H a s = (prev, t)" by fastforce
  obtain s1 where g: "getStateObject a s = (prev, s1)" using c by (auto simp: createObject_def split: prod.splits)
  have n: "setNonce 0 (newObject a (emptyAccount H)) = newObject a (emptyAccount H)"
    by (simp add: setNonce_def newObject_def emptyAccount_def)
  obtain e where t: "t = setStateObject (newObject a (emptyAccount H)) (journal_append e s1)"
    using c g n by (simp add: createObject_def) metis
  have s1: "balance H s1 = balance H s" using balance_same(6) [of H a s] g by simp
  have bal: "balance H t = (balance H s)(a := 0)"
    unfolding s1 [symmetric]
    by (auto simp: t balance_def acct_view_def obj_view_def newObject_def emptyAccount_def fun_eq_iff split: option.split)
  show ?thesis
  proof (cases prev)
    case None
    then have "balance H s a = 0" using getStateObject_view(1) [OF g] by (simp add: balance_def)
    with bal None c show ?thesis by (simp add: CreateAccount_def fun_upd_idem)
  next
    case (Some p)
    then have "balance H s a = Balance (soData p)"
      using getStateObject_view(1) [OF g] by (simp add: balance_def obj_view_def)
    with bal Some c t show ?thesis
      by (simp add: CreateAccount_def balance_upd_obj [where obj = "newObject a (emptyAccount H)"])
        (simp add: setBalance_def fun_upd_idem)
  qed
qed

definition thrifty :: "hashing \<Rightarrow> StateDB \<Rightarrow> StateDB \<Rightarrow> bool" where
  "thrifty H s t \<longleftrightarrow> (solvent H s \<longrightarrow> solvent H t \<and> total_supply H t \<le> total_supply H s)"

lemma thrifty_trans: "thrifty H s t \<Longrightarrow> thrifty H t u \<Longrightarrow> thrifty H s u"
  by (auto simp: thrifty_def)

lemma thrifty_balance: "balance H t = balance H s \<Longrightarrow> thrifty H s t"
  by (simp add: thrifty_def solvent_def total_supply_def)

lemma supply_upd: "(\<Sum>x \<in> UNIV. (f(a := v)) (x :: address)) = (\<Sum>x \<in> UNIV. f x) - f a + (v :: int)"
  by (rule ledger.sum_fun_upd)

text \<open>A payment out of what an account has, and the end of an account, whose heir may be itself.\<close>

lemma thrifty_transfer:
  assumes inv: "sdb_inv s" and v: "0 \<le> v" "v \<le> balance H s a"
  shows "thrifty H s (AddBalance H b v (SubBalance H a v s))"
proof -
  have "sdb_inv (SubBalance H a v s)" using records_inv [OF records_SubBalance [OF inv]] .
  then have "balance H (AddBalance H b v (SubBalance H a v s)) =
      (let f = (balance H s)(a := balance H s a - v) in f(b := f b + v))"
    by (simp add: balance_AddBalance balance_SubBalance inv Let_def)
  with v show ?thesis
    by (auto simp: thrifty_def solvent_def total_supply_def Let_def supply_upd simp del: fun_upd_apply)
      (auto simp: fun_upd_def split: if_splits)
qed

lemma thrifty_destruct:
  assumes inv: "sdb_inv s"
  shows "thrifty H s (snd (Suicide a (AddBalance H b (fst (GetBalance a s)) (snd (GetBalance a s)))))"
proof -
  let ?t = "snd (GetBalance a s)"
  have t: "sdb_inv ?t" "balance H ?t = balance H s" "fst (GetBalance a s) = balance H s a"
    using GetBalance_eq(1) [OF inv, where H = H and a = a] GetBalance_eq(3) [OF inv, of a]
      balance_abs [OF GetBalance_eq(2) [OF inv, where H = H and a = a]] by simp_all
  have "sdb_inv (AddBalance H b (balance H s a) ?t)" using records_inv [OF records_AddBalance [OF t(1)]] .
  then have "balance H (snd (Suicide a (AddBalance H b (fst (GetBalance a s)) ?t))) =
      (let f = (balance H s)(b := balance H s b + balance H s a) in f(a := 0))"
    using t by (simp add: balance_Suicide balance_AddBalance Let_def)
  then show ?thesis
    by (auto simp: thrifty_def solvent_def total_supply_def Let_def supply_upd simp del: fun_upd_apply)
      (auto simp: fun_upd_def split: if_splits)
qed

end
