(* ===== verification/EVM_World.thy ===== *)
theory EVM_World
  imports EVM_Halt State_Journey
begin

text \<open>
  What an execution does to the account state.  The locale \<open>vm_relation\<close> states what a relation between
  account states has to satisfy so that every call relates the state it finds to the state it leaves: closure
  under the operations the machine uses, and under going back to a snapshot.  The induction over the
  interpreter is done once, in the locale; its interpretations are the journeys, the states that show the same
  under write protection, and the states in which no money has been created.
\<close>

text \<open>Whether a frame may write, by the protection it runs under.\<close>

definition may_write :: "machine \<Rightarrow> bool \<Rightarrow> bool" where
  "may_write W ro \<longleftrightarrow> \<not> (IsByzantium W \<and> ro)"

definition value_ok :: "Contract \<Rightarrow> bool" where
  "value_ok c \<longleftrightarrow> (\<forall>v. ctValue c = Some v \<longrightarrow> 0 \<le> v)"

lemma vm_run_cases: "vm_run W run c i ro ev = Inr (r, c', ev') \<Longrightarrow> run c i ro ev = Inr (r, c', ev') \<or> ev' = ev"
  by (auto simp: vm_run_def split: option.splits)

lemma BitLen_0: "BitLen v = 0 \<longleftrightarrow> v = 0"
  using nat_bits_le_iff [of "nat \<bar>v\<bar>" 0] by (auto simp: BitLen_def)

lemma enforce_writes:
  assumes "enforceRestrictions W c operation st ev = Inr None"
  shows "writes operation \<Longrightarrow> may_write W (readOnly ev)"
    and "c = CALL \<Longrightarrow> 2 < length st \<Longrightarrow> st ! 2 \<noteq> 0 \<Longrightarrow> may_write W (readOnly ev)"
  using assms by (auto simp: enforceRestrictions_def may_write_def Back_def BitLen_0 split: if_splits)

lemma CanTransfer_state: "CanTransfer a v s = (b, t) \<Longrightarrow> t = snd (getStateObject a s)"
  using query_states(1) [of a s] by (auto simp: CanTransfer_def split: prod.splits)

lemma Exist_state: "Exist a s = (b, t) \<Longrightarrow> t = snd (getStateObject a s)"
  using query_states(5) [of a s] by simp

text \<open>
  \<open>safe\<close> is an invariant of the states that holds all along when \<open>strict\<close> is set, and \<open>funds a v s\<close> says that
  the account \<open>a\<close> can pay \<open>v\<close>.
\<close>

locale vm_relation =
  fixes W :: machine and R :: "bool \<Rightarrow> StateDB \<Rightarrow> StateDB \<Rightarrow> bool"
    and strict :: bool and safe :: "StateDB \<Rightarrow> bool" and funds :: "address \<Rightarrow> int \<Rightarrow> StateDB \<Rightarrow> bool"
  assumes R_refl: "R w s s"
    and R_trans: "R w s t \<Longrightarrow> R w t u \<Longrightarrow> R w s u"
    and R_weaken: "R w s t \<Longrightarrow> R True s t"
    and R_op: "(strict \<Longrightarrow> safe s) \<Longrightarrow> vm_op (vmH W) w s t \<Longrightarrow> R w s t"
    and R_setters: "R True s (SetNonce (vmH W) a n s)" "R True s (SetCode (vmH W) a c s)" "R True s (CreateAccount (vmH W) a s)"
    and R_missing: "Exist a s = (False, t) \<Longrightarrow> R w s (CreateAccount (vmH W) a t)"
    and R_transfer: "(v \<noteq> 0 \<Longrightarrow> w) \<Longrightarrow> (strict \<Longrightarrow> 0 \<le> v \<and> safe s \<and> funds a v s) \<Longrightarrow> R w s (Transfer (vmH W) a b v s)"
    and R_snapshot: "R w s (snd (Snapshot s))"
    and R_rollback: "Snapshot s = (i, t) \<Longrightarrow> R w t u \<Longrightarrow> RevertToSnapshot i u = Inr x \<Longrightarrow> R w s x"
    and safe_R: "strict \<Longrightarrow> safe s \<Longrightarrow> R w s t \<Longrightarrow> safe t"
    and safe_price: "strict \<Longrightarrow> 0 \<le> vmGasPrice W"
    and safe_balance: "strict \<Longrightarrow> safe s \<Longrightarrow> 0 \<le> fst (GetBalance a s)"
    and funds_check: "strict \<Longrightarrow> safe s \<Longrightarrow> CanTransfer a v s = (True, t) \<Longrightarrow> funds a v t"
    and funds_query: "strict \<Longrightarrow> safe s \<Longrightarrow> funds a v s \<Longrightarrow> funds a v (snd (getStateObject b s))"
    and funds_snapshot: "strict \<Longrightarrow> safe s \<Longrightarrow> funds a v s \<Longrightarrow> funds a v (snd (Snapshot s))"
    and funds_setters: "strict \<Longrightarrow> safe s \<Longrightarrow> funds a v s \<Longrightarrow> funds a v (SetNonce (vmH W) b n s)"
      "strict \<Longrightarrow> safe s \<Longrightarrow> funds a v s \<Longrightarrow> funds a v (CreateAccount (vmH W) b s)"
begin

lemma R_query: "(strict \<Longrightarrow> safe s) \<Longrightarrow> R w s (snd (getStateObject a s))"
  by (rule R_op) (auto intro: vm_op.query)

lemma R_ops: "vm_ops (vmH W) w s t \<Longrightarrow> (strict \<Longrightarrow> safe s) \<Longrightarrow> R w s t"
proof (induction rule: rtranclp_induct)
  case (step t u)
  then have st: "R w s t" by blast
  with step.prems have "strict \<Longrightarrow> safe t" using safe_R by blast
  with step.hyps(2) have "R w t u" using R_op by blast
  with st show ?case by (rule R_trans)
qed (rule R_refl)

definition world :: "bool \<Rightarrow> EVM \<Rightarrow> EVM \<Rightarrow> bool" where
  "world w ev ev' \<longleftrightarrow> R w (statedb ev) (statedb ev') \<and> readOnly ev' = readOnly ev \<and> depth ev' = depth ev"

lemma world_refl [simp]: "world w ev ev"
  by (simp add: world_def R_refl)

lemma world_trans: "world w ev ev' \<Longrightarrow> world w ev' ev'' \<Longrightarrow> world w ev ev''"
  unfolding world_def by (metis R_trans)

lemma world_cong:
  "statedb ev1 = statedb ev \<Longrightarrow> readOnly ev1 = readOnly ev \<Longrightarrow> depth ev1 = depth ev \<Longrightarrow> world w ev1 ev' = world w ev ev'"
  "statedb ev1 = statedb ev' \<Longrightarrow> readOnly ev1 = readOnly ev' \<Longrightarrow> depth ev1 = depth ev' \<Longrightarrow> world w ev ev1 = world w ev ev'"
  by (simp_all add: world_def)

lemma world_weaken: "world w ev ev' \<Longrightarrow> (w \<Longrightarrow> w') \<Longrightarrow> world w' ev ev'"
  by (cases w; cases w') (auto simp: world_def intro: R_weaken)

definition runs :: "runner \<Rightarrow> bool" where
  "runs run \<longleftrightarrow> (\<forall>c i ro ev r c' ev'. (strict \<longrightarrow> safe (statedb ev) \<and> value_ok c) \<longrightarrow>
     run c i ro ev = Inr (r, c', ev') \<longrightarrow> world (may_write W (readOnly ev \<or> ro)) ev ev')"

lemma runsD:
  "runs run \<Longrightarrow> run c i ro ev = Inr (r, c', ev') \<Longrightarrow> (strict \<Longrightarrow> safe (statedb ev) \<and> value_ok c) \<Longrightarrow>
   world (may_write W (readOnly ev \<or> ro)) ev ev'"
  unfolding runs_def by blast

lemma runs_vm_run: "runs run \<Longrightarrow> runs (vm_run W run)"
  unfolding runs_def
proof (intro allI impI)
  fix c :: Contract and i ro and ev :: EVM and r c' ev'
  assume run: "\<forall>c i ro ev r c' ev'. (strict \<longrightarrow> safe (statedb ev) \<and> value_ok c) \<longrightarrow>
     run c i ro ev = Inr (r, c', ev') \<longrightarrow> world (may_write W (readOnly ev \<or> ro)) ev ev'"
    and safe: "strict \<longrightarrow> safe (statedb ev) \<and> value_ok c" and v: "vm_run W run c i ro ev = Inr (r, c', ev')"
  from vm_run_cases [OF v] show "world (may_write W (readOnly ev \<or> ro)) ev ev'"
  proof
    assume "run c i ro ev = Inr (r, c', ev')"
    with run safe show ?thesis by blast
  qed simp
qed

text \<open>The two parts of a call: from the snapshot on, and what the caller adds before.\<close>

lemma load_code_world:
  assumes "load_code W a c ev = (c', ev')" and safe: "strict \<Longrightarrow> safe (statedb ev)"
  shows "world w ev ev'" and "ctValue c' = ctValue c" and "strict \<Longrightarrow> safe (statedb ev')"
proof -
  obtain h s where h: "GetCodeHash a (statedb ev) = (h, s)" by fastforce
  obtain code t where c: "GetCode (vmH W) a s = (code, t)" by fastforce
  have "vm_ops (vmH W) w (statedb ev) t"
    using asksD [OF asks_queries(3) h] asksD [OF asks_queries(10) c] by (rule vm_ops_trans)
  then have R: "R w (statedb ev) t" using safe by (rule R_ops)
  have ev': "ev' = ev\<lparr>statedb := t\<rparr>" and "ctValue c' = ctValue c"
    using assms(1) by (auto simp: load_code_def h c SetCallCode_def)
  then show "ctValue c' = ctValue c" by simp
  show "world w ev ev'" using R by (simp add: ev' world_def)
  show "strict \<Longrightarrow> safe (statedb ev')" using safe_R [OF _ safe R] by (simp add: ev')
qed

lemma share_jumpdests_sel [simp]:
  "statedb (share_jumpdests r ev) = statedb ev" "readOnly (share_jumpdests r ev) = readOnly ev" "depth (share_jumpdests r ev) = depth ev"
  by (simp_all add: share_jumpdests_def split: ContractRef.split)

lemma enter_run:
  assumes run: "runs run" and safe: "strict \<Longrightarrow> safe (statedb ev) \<and> value_ok c"
    and w: "may_write W (readOnly ev \<or> ro) \<Longrightarrow> w" and r: "enter W run caller a c input ro i ev = Inr x"
  obtains ret1 e1 c2 ev2 where "conclude i ((ret1, e1), c2, ev2) = Inr x" "world w ev ev2"
proof -
  obtain c1 ev1 where l: "load_code W a c ev = (c1, ev1)" by fastforce
  have l1: "world w ev ev1" "ctValue c1 = ctValue c" "strict \<Longrightarrow> safe (statedb ev1)"
    using load_code_world [OF l] safe by auto
  obtain ret1 e1 c2 ev2 where v: "vm_run W run c1 input ro (share_jumpdests caller ev1) = Inr ((ret1, e1), c2, ev2)"
    and k: "conclude i ((ret1, e1), c2, ev2) = Inr x"
    using r by (auto simp: enter_def l res_bind_eq_Inr_iff)
  have "world (may_write W (readOnly ev1 \<or> ro)) ev1 ev2"
    using runsD [OF runs_vm_run [OF run] v] l1(2,3) safe by (simp add: world_def value_ok_def)
  moreover have "readOnly ev1 = readOnly ev" using l1(1) by (simp add: world_def)
  ultimately have "world w ev1 ev2" using world_weaken w by auto
  with l1(1) have "world w ev ev2" by (rule world_trans)
  with k that show thesis by blast
qed

lemma enter_world:
  assumes run: "runs run" and snap: "Snapshot s0 = (i, s1)" and R: "R w s1 (statedb ev)"
    and safe: "strict \<Longrightarrow> safe (statedb ev) \<and> value_ok c"
    and w: "may_write W (readOnly ev \<or> ro) \<Longrightarrow> w"
    and r: "enter W run caller a c input ro i ev = Inr ((ret, left, e), ev')"
  shows "world w (ev\<lparr>statedb := s0\<rparr>) ev'"
proof -
  obtain ret1 e1 c2 ev2 where k: "conclude i ((ret1, e1), c2, ev2) = Inr ((ret, left, e), ev')" and w2: "world w ev ev2"
    using enter_run [OF run safe w r] .
  then have e2: "R w s1 (statedb ev2)" "readOnly ev2 = readOnly ev" "depth ev2 = depth ev"
    using R_trans [OF R] by (auto simp: world_def)
  show ?thesis
  proof (cases e1)
    case None
    have "R w s0 s1" using R_snapshot [of w s0] snap by simp
    with None k e2 show ?thesis using R_trans [OF \<open>R w s0 s1\<close>] by (auto simp: conclude_def world_def)
  next
    case (Some er)
    with k obtain s where "RevertToSnapshot i (statedb ev2) = Inr s" "ev' = ev2\<lparr>statedb := s\<rparr>"
      by (auto simp: conclude_def res_bind_eq_Inr_iff)
    with R_rollback [OF snap e2(1)] e2 show ?thesis by (simp add: world_def)
  qed
qed

definition call_world :: "bool \<Rightarrow> EVM \<Rightarrow> err + 'a \<times> EVM \<Rightarrow> bool" where
  "call_world w ev r \<longleftrightarrow> (case r of Inl _ \<Rightarrow> True | Inr (_, ev') \<Rightarrow> world w ev ev')"

lemma call_world_simps [simp]:
  "call_world w ev (Inr (x, ev')) = world w ev ev'" "call_world w ev (Inl e)"
  by (simp_all add: call_world_def)

lemma call_world_enter:
  assumes run: "runs run" and snap: "Snapshot s0 = (i, s1)" and R0: "R w (statedb ev) s0" and R: "R w s1 s2"
    and safe: "strict \<Longrightarrow> safe s2 \<and> value_ok c" and w: "may_write W (readOnly ev \<or> ro) \<Longrightarrow> w"
  shows "call_world w ev (enter W run caller a c input ro i (ev\<lparr>statedb := s2\<rparr>))"
proof (cases "enter W run caller a c input ro i (ev\<lparr>statedb := s2\<rparr>)")
  case (Inr x)
  obtain ret left e ev' where x: "x = ((ret, left, e), ev')" by (metis prod.collapse)
  have "world w ((ev\<lparr>statedb := s2\<rparr>)\<lparr>statedb := s0\<rparr>) ev'"
    by (rule enter_world [OF run snap, where c = c and ro = ro]) (use R safe w Inr x in simp_all)
  moreover have "world w ev (ev\<lparr>statedb := s0\<rparr>)" using R0 by (simp add: world_def)
  ultimately show ?thesis using world_trans by (simp add: Inr x)
qed simp

lemma value_ok_New [simp]: "value_ok (NewContract r a v g) \<longleftrightarrow> (\<forall>x. v = Some x \<longrightarrow> 0 \<le> x)"
  by (simp add: value_ok_def NewContract_def)

text \<open>What the calls do first: check the balance, and take a snapshot.\<close>

lemma check_world:
  assumes can: "CanTransfer a v (statedb ev) = (can, s0)" and safe: "strict \<Longrightarrow> safe (statedb ev)"
  shows "R w (statedb ev) s0" and "strict \<Longrightarrow> safe s0" and "strict \<Longrightarrow> can \<Longrightarrow> funds a v s0"
proof -
  show s0: "R w (statedb ev) s0" for w using CanTransfer_state [OF can] R_query safe by simp
  show "strict \<Longrightarrow> safe s0" using safe_R [OF _ _ s0] safe by simp
  show "strict \<Longrightarrow> can \<Longrightarrow> funds a v s0" using funds_check [of _ a v] safe can by simp
qed

lemma snapshot_world:
  assumes snap: "Snapshot s0 = (i, s1)" and safe: "strict \<Longrightarrow> safe s0"
  shows "R w s0 s1" and "strict \<Longrightarrow> safe s1" and "strict \<Longrightarrow> funds a v s0 \<Longrightarrow> funds a v s1"
proof -
  show s1: "R w s0 s1" for w using R_snapshot [of w s0] snap by simp
  show "strict \<Longrightarrow> safe s1" using safe_R [OF _ safe s1] by simp
  show "strict \<Longrightarrow> funds a v s0 \<Longrightarrow> funds a v s1" using funds_snapshot [OF _ safe] snap by (metis snd_conv)
qed

lemma call_world_Call:
  assumes run: "runs run" and w: "may_write W (readOnly ev) \<Longrightarrow> w" and v0: "v \<noteq> 0 \<Longrightarrow> w"
    and safe: "strict \<Longrightarrow> safe (statedb ev)" and v: "strict \<Longrightarrow> 0 \<le> v"
  shows "call_world w ev (vm_Call W run caller a input gas v ev)"
proof -
  let ?c = "ref_Address caller"
  obtain can s0 where can: "CanTransfer ?c v (statedb ev) = (can, s0)" by fastforce
  note s0 = check_world [OF can safe]
  obtain i s1 where snap: "Snapshot s0 = (i, s1)" by fastforce
  note s1 = snapshot_world [OF snap s0(2)]
  obtain exist s2 where ex: "Exist a s1 = (exist, s2)" by fastforce
  have s2: "R w s1 s2" using Exist_state [OF ex] R_query s1(2) by simp
  have safe2: "strict \<Longrightarrow> safe s2" using safe_R [OF _ s1(2) s2] by simp
  define s3 where "s3 = (if \<not> exist then CreateAccount (vmH W) a s2 else s2)"
  have s3: "R w s1 s3" using s2 ex R_missing by (auto simp: s3_def)
  have safe3: "strict \<Longrightarrow> safe s3" using safe_R [OF _ s1(2) s3] by simp
  have funds: "strict \<Longrightarrow> funds ?c v s3" if "can"
    using s1(3) [of ?c v] s0(3) that funds_query [OF _ s1(2), of ?c v a] Exist_state [OF ex]
      funds_setters(2) [OF _ safe2, of ?c v a] by (auto simp: s3_def)
  have s4: "R w s1 (Transfer (vmH W) ?c a v s3)" if "can"
    by (rule R_trans [OF s3 R_transfer]) (use v0 v safe3 funds that in auto)
  have safe4: "strict \<Longrightarrow> safe (Transfer (vmH W) ?c a v s3)" if "can" using safe_R [OF _ s1(2) s4] that by simp
  have "call_world w ev (enter W run caller a (NewContract caller a (Some v) gas) input False i
      (ev\<lparr>statedb := Transfer (vmH W) ?c a v s3\<rparr>))" if "can"
    by (rule call_world_enter [OF run snap s0(1) s4]) (use that safe4 v w in auto)
  moreover have "R w (statedb ev) s2" using R_trans [OF s0(1) R_trans [OF s1(1) s2]] .
  ultimately show ?thesis
    using s0(1) by (auto simp: vm_Call_def can snap ex Let_def world_def simp flip: s3_def)
qed

lemma call_world_CallCode:
  assumes run: "runs run" and w: "may_write W (readOnly ev) \<Longrightarrow> w"
    and safe: "strict \<Longrightarrow> safe (statedb ev)" and v: "strict \<Longrightarrow> 0 \<le> v"
  shows "call_world w ev (vm_CallCode W run caller a input gas v ev)"
proof -
  obtain can s0 where can: "CanTransfer (ref_Address caller) v (statedb ev) = (can, s0)" by fastforce
  note s0 = check_world [OF can safe]
  obtain i s1 where snap: "Snapshot s0 = (i, s1)" by fastforce
  note s1 = snapshot_world [OF snap s0(2)]
  have "call_world w ev (enter W run caller a (NewContract caller (ref_Address caller) (Some v) gas) input False i
      (ev\<lparr>statedb := s1\<rparr>))"
    by (rule call_world_enter [OF run snap s0(1) R_refl]) (use s1(2) v w in auto)
  with s0(1) show ?thesis by (simp add: vm_CallCode_def can snap world_def)
qed

lemma call_world_StaticCall:
  assumes run: "runs run" and w: "may_write W True \<Longrightarrow> w" and safe: "strict \<Longrightarrow> safe (statedb ev)"
  shows "call_world w ev (vm_StaticCall W run caller a input gas ev)"
proof -
  obtain i s1 where snap: "Snapshot (statedb ev) = (i, s1)" by fastforce
  note s1 = snapshot_world [OF snap safe]
  have "call_world w ev (enter W run caller a (NewContract caller a (Some 0) gas) input True i (ev\<lparr>statedb := s1\<rparr>))"
    by (rule call_world_enter [OF run snap R_refl R_refl]) (use s1(2) w in auto)
  then show ?thesis by (simp add: vm_StaticCall_def snap)
qed

lemma call_world_DelegateCall:
  assumes run: "runs run" and w: "may_write W (readOnly ev) \<Longrightarrow> w" and safe: "strict \<Longrightarrow> safe (statedb ev)"
    and v: "\<And>c. strict \<Longrightarrow> caller = ContractOf c \<Longrightarrow> value_ok c"
  shows "call_world w ev (vm_DelegateCall W run caller a input gas ev)"
proof -
  obtain i s1 where snap: "Snapshot (statedb ev) = (i, s1)" by fastforce
  note s1 = snapshot_world [OF snap safe]
  let ?c = "NewContract caller (ref_Address caller) None gas"
  show ?thesis
  proof (cases "AsDelegate caller ?c")
    case (Inr c)
    then have "strict \<Longrightarrow> value_ok c" using v by (auto simp: AsDelegate_def value_ok_def split: ContractRef.splits)
    then have "call_world w ev (enter W run caller a c input False i (ev\<lparr>statedb := s1\<rparr>))"
      by (intro call_world_enter [OF run snap R_refl R_refl]) (use s1(2) w in auto)
    with Inr show ?thesis by (simp add: vm_DelegateCall_def snap)
  qed (simp add: vm_DelegateCall_def snap)
qed

text \<open>Creation.\<close>

lemma create_world:
  assumes run: "runs run" and safe: "strict \<Longrightarrow> safe (statedb ev)" and v: "strict \<Longrightarrow> 0 \<le> v"
  shows "call_world True ev (vm_create W run caller code h gas v a ev)"
proof -
  let ?c = "ref_Address caller" and ?H = "vmH W"
  obtain can s0 where can: "CanTransfer ?c v (statedb ev) = (can, s0)" by fastforce
  note s0 = check_world [OF can safe]
  obtain nonce t1 where t1: "GetNonce ?c s0 = (nonce, t1)" by fastforce
  define t2 where "t2 = SetNonce ?H ?c (nonce + 1) t1"
  obtain ch t3 where t3: "GetCodeHash a t2 = (ch, t3)" by fastforce
  obtain n t4 where t4: "GetNonce a t3 = (n, t4)" by fastforce
  have q: "t1 = snd (getStateObject ?c s0)" "t3 = snd (getStateObject a t2)" "t4 = snd (getStateObject a t3)"
    by (metis query_states(2) t1 snd_conv, metis query_states(3) t3 snd_conv, metis query_states(2) t4 snd_conv)
  have r1: "R True s0 t1" unfolding q(1) by (rule R_query) (rule s0(2))
  have safe1: "strict \<Longrightarrow> safe t1" using safe_R [OF _ s0(2) r1] by simp
  have r2: "R True t1 t2" unfolding t2_def by (rule R_setters)
  have safe2: "strict \<Longrightarrow> safe t2" using safe_R [OF _ safe1 r2] by simp
  have r3: "R True t2 t3" unfolding q(2) by (rule R_query) (rule safe2)
  have safe3: "strict \<Longrightarrow> safe t3" using safe_R [OF _ safe2 r3] by simp
  have r4: "R True t3 t4" unfolding q(3) by (rule R_query) (rule safe3)
  have safe4: "strict \<Longrightarrow> safe t4" using safe_R [OF _ safe3 r4] by simp
  have R4: "R True (statedb ev) t4"
    by (rule R_trans [OF s0(1) R_trans [OF r1 R_trans [OF r2 R_trans [OF r3 r4]]]])
  have f4: "strict \<Longrightarrow> can \<Longrightarrow> funds ?c v t4"
    using funds_query [OF _ s0(2), of ?c v ?c] funds_setters(1) [OF _ safe1, of ?c v ?c "nonce + 1"]
      funds_query [OF _ safe2, of ?c v a] funds_query [OF _ safe3, of ?c v a] s0(3)
    by (simp flip: q add: t2_def [symmetric])
  obtain i s1 where snap: "Snapshot t4 = (i, s1)" by fastforce
  note s1 = snapshot_world [OF snap safe4]
  define s2 where "s2 = CreateAccount ?H a s1"
  have r5: "R True s1 s2" unfolding s2_def by (rule R_setters)
  have safe5: "strict \<Longrightarrow> safe s2" using safe_R [OF _ s1(2) r5] by simp
  define s3 where "s3 = (if IsEIP158 W then SetNonce ?H a 1 s2 else s2)"
  have r6: "R True s1 s3" using r5 R_trans [OF r5 R_setters(1)] by (simp add: s3_def)
  have safe6: "strict \<Longrightarrow> safe s3" using safe_R [OF _ s1(2) r6] by simp
  have f6: "strict \<Longrightarrow> can \<Longrightarrow> funds ?c v s3"
    using s1(3) [of ?c v] f4 funds_setters(2) [OF _ s1(2), of ?c v a] funds_setters(1) [OF _ safe5, of ?c v a 1]
    by (simp add: s3_def s2_def)
  have r7: "R True s1 (Transfer ?H ?c a v s3)" if can
    by (rule R_trans [OF r6 R_transfer]) (use v safe6 f6 that in auto)
  have safe7: "strict \<Longrightarrow> safe (Transfer ?H ?c a v s3)" if can using safe_R [OF _ s1(2) r7] that by simp
  let ?C = "SetCallCode a h code (NewContract caller a (Some v) gas)" and ?ev = "ev\<lparr>statedb := Transfer ?H ?c a v s3\<rparr>"
  have body: "call_world True ev (res_bind (vm_run W run ?C [] False (share_jumpdests caller ?ev))
      (\<lambda>r. conclude_create W a i (store_code W a r)))" if can
  proof (cases "vm_run W run ?C [] False (share_jumpdests caller ?ev)")
    case (Inr x)
    obtain ret e c ev2 where x: "x = ((ret, e), c, ev2)" by (metis prod.collapse)
    have "world (may_write W (readOnly (share_jumpdests caller ?ev) \<or> False)) (share_jumpdests caller ?ev) ev2"
      by (rule runsD [OF runs_vm_run [OF run] Inr [unfolded x]])
        (use safe7 [OF that] v in \<open>auto simp: value_ok_def SetCallCode_def NewContract_def\<close>)
    then have "world True (share_jumpdests caller ?ev) ev2" by (rule world_weaken) simp
    then have e2: "R True s1 (statedb ev2)" "readOnly ev2 = readOnly ev" "depth ev2 = depth ev"
      using R_trans [OF r7 [OF that]] by (auto simp: world_def)
    obtain ret' e' c' ev3 where st: "store_code W a x = ((ret', e'), c', ev3)" by (metis prod.collapse)
    then have e3: "R True s1 (statedb ev3)" "readOnly ev3 = readOnly ev" "depth ev3 = depth ev"
      using e2 R_trans [OF e2(1) R_setters(2)] by (auto simp: store_code_def x split: if_splits prod.splits bool.splits)
    have fin: "world True ev ev3" using R_trans [OF R4 R_trans [OF s1(1) e3(1)]] e3 by (simp add: world_def)
    have "world True ev (ev3\<lparr>statedb := s\<rparr>)" if "RevertToSnapshot i (statedb ev3) = Inr s" for s
      using R_trans [OF R4 R_rollback [OF snap e3(1) that]] e3 by (simp add: world_def)
    then show ?thesis using fin
      by (cases "RevertToSnapshot i (statedb ev3)") (auto simp: Inr conclude_create_def st Let_def)
  qed simp
  have "R True (statedb ev) (Transfer ?H ?c a v s3)" if can using R_trans [OF R4 R_trans [OF s1(1) r7 [OF that]]] .
  with body s0(1) R4 show ?thesis
    unfolding vm_create_def Let_def can prod.case t1 t2_def [symmetric] t3 t4 snap s2_def [symmetric] s3_def [symmetric]
    by (auto simp: world_def)
qed

text \<open>
  The instructions.  \<open>goes ev\<close> is what holds after a part of the loop that started with \<open>ev\<close>; it does not depend
  on the return data or the program counter.
\<close>

definition fine :: "frame \<Rightarrow> EVM \<Rightarrow> bool" where
  "fine fr ev \<longleftrightarrow> (strict \<longrightarrow> safe (statedb ev) \<and> value_ok (contract fr) \<and> (\<forall>x \<in> set (stk fr). 0 \<le> x))"

definition goes :: "EVM \<Rightarrow> frame \<Rightarrow> EVM \<Rightarrow> bool" where
  "goes ev0 fr ev \<longleftrightarrow> world (may_write W (readOnly ev0)) ev0 ev \<and> fine fr ev"

lemma goes_upd [simp]:
  "goes ev0 fr (ev\<lparr>returnData := d\<rparr>) = goes ev0 fr ev" "goes ev0 (fr\<lparr>pc := p\<rparr>) ev = goes ev0 fr ev"
  "goes ev0 (fr\<lparr>mem := m\<rparr>) ev = goes ev0 fr ev"
  by (simp_all add: goes_def fine_def world_def)

lemma goes_gas [simp]: "goes ev0 (fr\<lparr>contract := (contract fr)\<lparr>ctGas := g\<rparr>\<rparr>) ev = goes ev0 fr ev"
  by (simp add: goes_def fine_def value_ok_def)

lemma goes_world: "goes ev0 fr ev \<Longrightarrow> world w ev ev' \<Longrightarrow> (w \<Longrightarrow> may_write W (readOnly ev)) \<Longrightarrow> goes ev0 fr ev'"
proof -
  assume g: "goes ev0 fr ev" and w: "world w ev ev'" and r: "w \<Longrightarrow> may_write W (readOnly ev)"
  have ro: "readOnly ev = readOnly ev0" using g by (simp add: goes_def world_def)
  have "world (may_write W (readOnly ev0)) ev ev'" using world_weaken [OF w] r ro by auto
  then have "world (may_write W (readOnly ev0)) ev0 ev'" using g world_trans by (auto simp: goes_def)
  moreover have "R w (statedb ev) (statedb ev')" using w by (simp add: world_def)
  then have "strict \<Longrightarrow> safe (statedb ev')" using g safe_R unfolding goes_def fine_def by blast
  ultimately show ?thesis using g by (simp add: goes_def fine_def)
qed

lemma outcome_goes_after_call:
  assumes c: "call_world w ev r" and w: "w \<Longrightarrow> may_write W (readOnly ev)" and g: "goes ev0 fr ev"
  shows "outcome_on (\<lambda>_. True) (goes ev0) (res_bind r (after_call fr i n))"
proof (cases r)
  case (Inr x)
  obtain ret left e ev' where x: "x = ((ret, left, e), ev')" by (metis prod.collapse)
  then have "goes ev0 fr ev'" using c Inr by (intro goes_world [OF g _ w]) auto
  then show ?thesis unfolding goes_def fine_def
    by (auto simp: Inr x after_call_def add_gas_def value_ok_def intro!: outcome_bind)
qed simp

lemma outcome_goes_after_create:
  assumes c: "call_world True ev r" and w: "may_write W (readOnly ev)" and g: "goes ev0 fr ev"
  shows "outcome_on (\<lambda>_. True) (goes ev0) (res_bind r (\<lambda>r. after_create fr (b r) r))"
proof (cases r)
  case (Inr x)
  obtain ret a left e ev' where x: "x = ((ret, a, left, e), ev')" by (metis prod.collapse)
  then have "goes ev0 fr ev'" using c Inr w by (intro goes_world [OF g, where w = True]) auto
  then show ?thesis unfolding goes_def fine_def
    by (auto simp: Inr x after_create_def add_gas_def value_ok_def)
qed simp

lemma goesD:
  assumes "goes ev0 fr ev"
  shows "strict \<Longrightarrow> safe (statedb ev)" "strict \<Longrightarrow> value_ok (contract fr)" "strict \<Longrightarrow> x \<in> set (stk fr) \<Longrightarrow> 0 \<le> x"
  using assms unfolding goes_def fine_def by simp_all

lemma goes_stk: "goes ev0 fr ev \<Longrightarrow> set st \<subseteq> set (stk fr) \<Longrightarrow> goes ev0 (fr\<lparr>stk := st\<rparr>) ev"
  by (auto simp: goes_def fine_def)

lemma goes_UseGas: "goes ev0 fr ev \<Longrightarrow> goes ev0 (fr\<lparr>contract := snd (UseGas g (contract fr))\<rparr>) ev"
  by (simp add: goes_def fine_def value_ok_def UseGas_def)

lemma U256_zero: "U256 x \<noteq> 0 \<Longrightarrow> x \<noteq> 0"
  by (auto simp: U256_def)

lemma call_instructions_go:
  assumes run: "runs run" and g: "goes ev0 fr ev"
  shows "7 \<le> length (stk fr) \<Longrightarrow> (stk fr ! 2 \<noteq> 0 \<Longrightarrow> may_write W (readOnly ev)) \<Longrightarrow>
      outcome_on (\<lambda>_. True) (goes ev0) (opCall run W fr ev)"
    and "7 \<le> length (stk fr) \<Longrightarrow> outcome_on (\<lambda>_. True) (goes ev0) (opCallCode run W fr ev)"
    and "6 \<le> length (stk fr) \<Longrightarrow> outcome_on (\<lambda>_. True) (goes ev0) (opDelegateCall run W fr ev)"
    and "6 \<le> length (stk fr) \<Longrightarrow> outcome_on (\<lambda>_. True) (goes ev0) (opStaticCall run W fr ev)"
proof -
  let ?w = "may_write W (readOnly ev)"
  note safe = goesD(1) [OF g]
  {
    assume seven: "7 \<le> length (stk fr)"
    then obtain c d v e f x y st where st: "stk fr = c # d # v # e # f # x # y # st" using stack_cases(1) by blast
    have g': "goes ev0 (fr\<lparr>stk := st\<rparr>) ev" by (rule goes_stk [OF g]) (auto simp: st)
    show "outcome_on (\<lambda>_. True) (goes ev0) (opCall run W fr ev)" if v: "stk fr ! 2 \<noteq> 0 \<Longrightarrow> ?w"
      unfolding opCall_def st list.case Let_def
      by (rule outcome_bind, simp, rule outcome_goes_after_call [OF call_world_Call [OF run, where w = ?w] _ g'])
        (use safe v in \<open>auto simp: st U256_zero\<close>)
    show "outcome_on (\<lambda>_. True) (goes ev0) (opCallCode run W fr ev)"
      unfolding opCallCode_def st list.case Let_def
      by (rule outcome_bind, simp, rule outcome_goes_after_call [OF call_world_CallCode [OF run, where w = ?w] _ g'])
        (use safe in auto)
  }
  {
    assume six: "6 \<le> length (stk fr)"
    then obtain c d e f x y st where st: "stk fr = c # d # e # f # x # y # st" using stack_cases(2) by blast
    have g': "goes ev0 (fr\<lparr>stk := st\<rparr>) ev" by (rule goes_stk [OF g]) (auto simp: st)
    show "outcome_on (\<lambda>_. True) (goes ev0) (opDelegateCall run W fr ev)"
      unfolding opDelegateCall_def st list.case Let_def
      by (rule outcome_bind, simp, rule outcome_goes_after_call [OF call_world_DelegateCall [OF run, where w = ?w] _ g'])
        (use safe goesD(2) [OF g] in auto)
    show "outcome_on (\<lambda>_. True) (goes ev0) (opStaticCall run W fr ev)"
      unfolding opStaticCall_def st list.case Let_def
      by (rule outcome_bind, simp, rule outcome_goes_after_call [OF call_world_StaticCall [OF run, where w = ?w] _ g'])
        (use safe in \<open>auto simp: may_write_def\<close>)
  }
qed

lemma create_world_Create:
  assumes "runs run" "strict \<Longrightarrow> safe (statedb ev)" "strict \<Longrightarrow> 0 \<le> v"
  shows "call_world True ev (vm_Create W run caller code gas v ev)"
proof -
  obtain n s where n: "GetNonce (ref_Address caller) (statedb ev) = (n, s)" by fastforce
  then have R: "R True (statedb ev) s" using R_query [OF assms(2)] query_states(2) by (metis snd_conv)
  then have "strict \<Longrightarrow> safe s" using safe_R assms(2) by blast
  then have c: "call_world True (ev\<lparr>statedb := s\<rparr>)
      (vm_create W run caller code 0 gas v (CreateAddress (vmKeccak W) (ref_Address caller) n) (ev\<lparr>statedb := s\<rparr>))"
    using create_world [OF assms(1), of "ev\<lparr>statedb := s\<rparr>"] assms(3) by simp
  have "world True ev (ev\<lparr>statedb := s\<rparr>)" using R by (simp add: world_def)
  then show ?thesis using c world_trans
    by (auto simp: vm_Create_def n call_world_def split: sum.splits)
qed

lemma create_instructions_go:
  assumes run: "runs run" and g: "goes ev0 fr ev" and w: "may_write W (readOnly ev)"
  shows "3 \<le> length (stk fr) \<Longrightarrow> outcome_on (\<lambda>_. True) (goes ev0) (opCreate run W fr ev)"
    and "4 \<le> length (stk fr) \<Longrightarrow> outcome_on (\<lambda>_. True) (goes ev0) (opCreate2 run W fr ev)"
proof -
  note safe = goesD(1) [OF g]
  show "outcome_on (\<lambda>_. True) (goes ev0) (opCreate run W fr ev)" if three: "3 \<le> length (stk fr)"
  proof -
    obtain v off sz st where st: "stk fr = v # off # sz # st" using stack_cases(4) [OF three] by blast
    have g': "goes ev0 (fr\<lparr>stk := st, contract := snd (UseGas n (contract fr))\<rparr>) ev" for n
      using goes_UseGas [OF goes_stk [OF g, of st]] st by auto
    have v: "strict \<Longrightarrow> 0 \<le> v" using goesD(3) [OF g] by (simp add: st)
    show ?thesis unfolding opCreate_def st list.case Let_def
      by (rule outcome_bind, simp, rule outcome_goes_after_create [OF create_world_Create [OF run safe v] w])
        (use g' in simp_all)
  qed
  show "outcome_on (\<lambda>_. True) (goes ev0) (opCreate2 run W fr ev)" if four: "4 \<le> length (stk fr)"
  proof -
    obtain v off sz sa st where st: "stk fr = v # off # sz # sa # st" using stack_cases(3) [OF four] by blast
    have g': "goes ev0 (fr\<lparr>stk := st, contract := snd (UseGas n (contract fr))\<rparr>) ev" for n
      using goes_UseGas [OF goes_stk [OF g, of st]] st by auto
    have v: "strict \<Longrightarrow> 0 \<le> v" using goesD(3) [OF g] by (simp add: st)
    show ?thesis unfolding opCreate2_def vm_Create2_def st list.case Let_def
      by (rule outcome_bind, simp, rule outcome_goes_after_create [OF create_world [OF run safe v] w])
        (use g' in simp_all)
  qed
qed

lemma effect_goes:
  assumes e: "effect w n k W ex" and n: "n \<le> length (stk fr)" and w: "w \<Longrightarrow> may_write W (readOnly ev)" and g: "goes ev0 fr ev"
  shows "outcome_on (\<lambda>_. True) (goes ev0) (ex W fr ev)"
proof (rule outcome_weaken [OF e [unfolded effect_def, rule_format, OF n]])
  fix fr' ev'
  assume k: "kept w (int k - int n) W fr ev fr' ev'"
  have "vm_ops (vmH W) w (statedb ev) (statedb ev')" using k by (simp add: kept_def)
  then have "R w (statedb ev) (statedb ev')" by (rule R_ops) (rule goesD(1) [OF g])
  then have "world w ev ev'" using k by (simp add: world_def kept_def same_regs_def)
  then have g': "goes ev0 fr ev'" by (rule goes_world [OF g _ w])
  have "nonneg_env W fr ev" if strict
    using that goesD [OF g] safe_price safe_balance by (auto simp: nonneg_env_def value_ok_def)
  then have "\<forall>x \<in> set (stk fr'). 0 \<le> x" if strict using k that by (simp add: kept_def)
  moreover have "ctValue (contract fr') = ctValue (contract fr)"
    using k unfolding kept_def same_contract_def by (metis Contract.select_convs(9) Contract.surjective Contract.update_convs(3))
  ultimately show "goes ev0 fr' ev'" using g' by (auto simp: goes_def fine_def value_ok_def)
qed simp

lemma gas_goes:
  assumes s: "gsafe w W (mem fr, ev) (m, ev')" and w: "w \<Longrightarrow> may_write W (readOnly ev)" and g: "goes ev0 fr ev"
  shows "goes ev0 (fr\<lparr>mem := m\<rparr>) ev'"
proof -
  have "R w (statedb ev) (statedb ev')" by (rule R_ops) (use s goesD(1) [OF g] in \<open>simp_all add: gsafe_def\<close>)
  then have "world w ev ev'" using s by (simp add: world_def gsafe_def)
  then show ?thesis by (simp add: goes_world [OF g _ w])
qed

text \<open>A round of the main loop, and the loop.\<close>

lemma runs_Run:
  assumes "\<And>fr ev r c ev'. fine fr ev \<Longrightarrow> loop fr ev = Inr (r, c, ev') \<Longrightarrow> world (may_write W (readOnly ev)) ev ev'"
  shows "runs (vm_Run loop)"
  unfolding runs_def
proof (intro allI impI)
  fix c :: Contract and i ro and ev :: EVM and r c' ev'
  assume safe: "strict \<longrightarrow> safe (statedb ev) \<and> value_ok c" and run: "vm_Run loop c i ro ev = Inr (r, c', ev')"
  let ?p = "ro \<and> \<not> readOnly ev" and ?fr = "\<lparr>pc = 0, contract = c\<lparr>ctInput := i\<rparr>, mem = NewMemory, stk = []\<rparr>"
  let ?ev = "ev\<lparr>depth := depth ev + 1, readOnly := readOnly ev \<or> ?p, returnData := []\<rparr>"
  obtain ev2 where m: "(if ctCode c = [] then Inr (([], None), c, ?ev) else loop ?fr ?ev) = Inr (r, c', ev2)"
    and ev': "ev' = ev2\<lparr>depth := depth ev2 - 1, readOnly := (if ?p then False else readOnly ev2)\<rparr>"
    using run unfolding vm_Run_def Let_def by (auto simp: res_bind_eq_Inr_iff)
  have "fine ?fr ?ev" using safe unfolding fine_def by (simp add: value_ok_def)
  then have "world (may_write W (readOnly ev \<or> ?p)) ?ev ev2" using assms [of ?fr ?ev] m by (auto split: if_splits)
  moreover have "readOnly ev \<or> ?p \<longleftrightarrow> readOnly ev \<or> ro" by blast
  ultimately show "world (may_write W (readOnly ev \<or> ro)) ev ev'" by (auto simp: world_def ev')
qed

lemma step_go:
  assumes op: "map_of (instructionSet W) c = Some operation" and val: "validateStack operation (stk fr) = None"
    and enf: "enforceRestrictions W c operation (stk fr) ev = Inr None" and W: "fuel_free W" and run: "runs run" and f: "fine fr ev"
  shows "gwp (gasCost operation W (contract fr) (stk fr) ms) (\<lambda>(m, ev'). goes ev (fr\<lparr>mem := m\<rparr>) ev')
    (\<lambda>cost (m, ev'). goes ev (fr\<lparr>mem := m\<rparr>) ev' \<and>
       outcome_on (\<lambda>_. True) (goes ev) (execute operation run W
         (fr\<lparr>contract := (contract fr)\<lparr>ctGas := ctGas (contract fr) - cost\<rparr>, mem := (if ms > 0 then mem_Resize ms m else m)\<rparr>) ev')) (mem fr, ev)"
proof -
  have g: "goes ev fr ev" using f by (simp add: goes_def)
  have n: "minStack operation \<le> length (stk fr)" using validateStack_None [OF val] by simp
  note w = enforce_writes [OF enf]
  let ?fr = "\<lambda>cost m. fr\<lparr>contract := (contract fr)\<lparr>ctGas := ctGas (contract fr) - cost\<rparr>, mem := (if ms > 0 then mem_Resize ms m else m)\<rparr>"
  let ?ex = "\<lambda>cost m ev'. outcome_on (\<lambda>_. True) (goes ev) (execute operation run W (?fr cost m) ev')"
  have fr: "goes ev (?fr cost m) ev'" if "goes ev (fr\<lparr>mem := m\<rparr>) ev'" for cost m ev'
    using that unfolding goes_def fine_def by (simp add: value_ok_def)
  have ro: "readOnly ev' = readOnly ev" if "gsafe b W (mem fr, ev) (m, ev')" for b m ev' using that by (simp add: gsafe_def)
  have G: ?thesis if lo: "gas_effect b lo W (gasCost operation)" "b \<Longrightarrow> may_write W (readOnly ev)"
    and ex: "\<And>cost m ev'. goes ev (?fr cost m) ev' \<Longrightarrow> readOnly ev' = readOnly ev \<Longrightarrow> ?ex cost m ev'" for b lo
    by (rule gwp_mono [OF lo(1) [unfolded gas_effect_def, rule_format]])
      (use gas_goes [OF _ lo(2) g] ex fr ro in fastforce)+
  have C: ?thesis if lo: "call_gas_effect W extra (gasCost operation)"
    and ex: "\<And>cost m ev'. goes ev (?fr cost m) ev' \<Longrightarrow> readOnly ev' = readOnly ev \<Longrightarrow> ?ex cost m ev'" for extra
    by (rule gwp_mono [OF lo [unfolded call_gas_effect_def, rule_format]])
      (use gas_goes [where w = False, OF _ _ g] ex fr ro in fastforce)+
  show ?thesis
  proof (cases rule: instruction_cases [OF op W])
    case 1
    then obtain ex lo where ex: "execute operation = (\<lambda>run. ex)" "effect (writes operation) (minStack operation) (pushes operation) W ex"
      and lo: "gas_effect (writes operation) lo W (gasCost operation)" unfolding plain_def by blast
    show ?thesis by (rule G [OF lo w(1)]) (use effect_goes [OF ex(2)] n w(1) in \<open>auto simp: ex(1)\<close>)
  next
    case 2
    then consider "operation = (call_op opCreate gasCreate 3 memoryCreate)\<lparr>writes := True\<rparr>"
      | "operation = (call_op opCreate2 gasCreate2 4 memoryCreate2)\<lparr>writes := True\<rparr>"
      | "c = CALL" "operation = call_op opCall gasCall 7 memoryCall"
      | "operation = call_op opCallCode gasCallCode 7 memoryCall"
      | "operation = call_op opDelegateCall gasDelegateCall 6 memoryDelegateCall"
      | "operation = call_op opStaticCall gasStaticCall 6 memoryStaticCall"
      by (auto simp: call_table_def)
    then show ?thesis
    proof cases
      case 1 then show ?thesis using n w(1) create_instructions_go(1) [OF run]
        by (intro G [of True 32000]) (simp_all add: gas_memory)
    next
      case 2 then show ?thesis using n w(1) create_instructions_go(2) [OF run]
        by (intro G [of True 32000]) (simp_all add: gas_memory)
    next
      case 3 then show ?thesis using n w(2)
        by (intro C [of stipend]) (auto simp: gas_call intro!: call_instructions_go(1) [OF run])
    next
      case 4 then show ?thesis using n call_instructions_go(2) [OF run]
        by (intro C [of stipend]) (simp_all add: gas_callcode)
    next
      case 5 then show ?thesis using n call_instructions_go(3) [OF run]
        by (intro C [of "\<lambda>_. 0"]) (simp_all add: gas_delegatecall)
    next
      case 6 then show ?thesis using n call_instructions_go(4) [OF run]
        by (intro C [of "\<lambda>_. 0"]) (simp_all add: gas_delegatecall)
    qed
  qed
qed

lemma step_goes:
  assumes W: "fuel_free W" and run: "runs run" and f: "fine fr ev"
  shows "turn (\<lambda>_. True) (goes ev) (goes ev) (step run W fr ev)"
proof (rule turn_step)
  show "goes ev fr ev" using f by (simp add: goes_def)
  fix c operation ms
  assume op: "map_of (instructionSet W) c = Some operation" "validateStack operation (stk fr) = None"
    "enforceRestrictions W c operation (stk fr) ev = Inr None"
  show "gwp (gasCost operation W (contract fr) (stk fr) ms) (\<lambda>(m, ev'). goes ev (fr\<lparr>mem := m\<rparr>) ev')
      (\<lambda>cost (m, ev'). goes ev (fr\<lparr>mem := m\<rparr>) ev' \<and> (cost \<le> ctGas (contract fr) \<longrightarrow>
         turn (\<lambda>_. True) (goes ev) (goes ev) (perform run W operation
           (fr\<lparr>contract := (contract fr)\<lparr>ctGas := ctGas (contract fr) - cost\<rparr>, mem := (if ms > 0 then mem_Resize ms m else m)\<rparr>) ev')))
      (mem fr, ev)"
    by (rule gwp_mono [OF step_go [OF op W run f]]) (auto intro: turn_perform [where Q = "goes ev"])
qed simp

lemma interp_goes:
  assumes W: "fuel_free W"
  shows "fine fr ev \<Longrightarrow> interp fuel W fr ev = Inr (r, c, ev') \<Longrightarrow> world (may_write W (readOnly ev)) ev ev'"
proof (induction fuel arbitrary: fr ev r c ev')
  case (Suc fuel)
  have run: "runs (vm_Run (interp fuel W))" by (rule runs_Run [OF Suc.IH])
  obtain x fr1 ev1 where st: "step (vm_Run (interp fuel W)) W fr ev = Inr (x, fr1, ev1)"
    and k: "(case x of Inl res \<Rightarrow> Inr (res, contract fr1, ev1) | Inr _ \<Rightarrow> interp fuel W fr1 ev1) = Inr (r, c, ev')"
    using Suc.prems(2) by (auto simp: res_bind_eq_Inr_iff)
  have g: "goes ev fr1 ev1"
    using step_goes [OF W run Suc.prems(1)] by (auto simp: st turn_def split: sum.splits)
  show ?case
  proof (cases x)
    case (Inl res)
    with k g show ?thesis by (simp add: goes_def)
  next
    case (Inr u)
    then have "world (may_write W (readOnly ev1)) ev1 ev'" using Suc.IH [of fr1 ev1] g k by (simp add: goes_def)
    with g show ?thesis using world_trans by (auto simp: goes_def world_def)
  qed
qed simp

theorem runs_fuel: "fuel_free W \<Longrightarrow> runs (Run fuel W)"
  unfolding Run_def by (rule runs_Run [OF interp_goes])

end

end
