(* ===== verification/EVM_Safety.thy ===== *)
theory EVM_Safety
  imports EVM_World
begin

text \<open>
  Three relations that every call respects, as interpretations of \<open>vm_relation\<close>: the journeys, which make a
  failed call undo what it did; what a static call may leave behind; and the states without new money.
\<close>

section \<open>Journeys\<close>

lemma good_inv: "good s \<Longrightarrow> sdb_inv s"
  by (simp add: good_def)

lemma journey_query: "journey H s (snd (getStateObject a s))"
  by (rule journey_op) (rule sdb_op.intros)

lemma journey_vm_op: "vm_op H w s t \<Longrightarrow> journey H s t"
proof -
  assume "vm_op H w s t"
  then show "journey H s t"
  proof cases
    case (destruct a b)
    have "journey H s (snd (GetBalance a s))" unfolding query_states by (rule journey_query)
    moreover have "journey H u (snd (Suicide a (AddBalance H b x u)))" for u x
      by (rule journey_trans [OF journey_op journey_op]) (rule sdb_op.intros)+
    ultimately show ?thesis unfolding destruct(1) by (rule journey_trans)
  qed (auto intro: journey_op sdb_op.intros)
qed

lemma journey_transfer: "journey H s (Transfer H a b v s)"
  unfolding Transfer_def by (auto intro: journey_op journey_trans sdb_op.intros)

lemma journey_missing: "Exist a s = (False, t) \<Longrightarrow> journey H s (CreateAccount H a t)"
  using query_states(5) [of a s] journey_query [of H s a] by (auto intro: journey_trans journey_op sdb_op.intros)

lemma journey_setters:
  "journey H s (SetNonce H a n s)" "journey H s (SetCode H a c s)" "journey H s (CreateAccount H a s)"
  by (auto intro: journey_op sdb_op.intros)

lemma journey_back: "Snapshot s = (i, t) \<Longrightarrow> journey H t u \<Longrightarrow> RevertToSnapshot i u = Inr x \<Longrightarrow> journey H s x"
proof -
  assume a: "Snapshot s = (i, t)" "journey H t u" "RevertToSnapshot i u = Inr x"
  show "journey H s x"
  proof (cases "good s")
    case True
    then show ?thesis using journey_rollback [OF a(1,2) True] a(3) by auto
  qed (simp add: journey_def)
qed

interpretation vmj: vm_relation W "\<lambda>_. journey (vmH W)" False "\<lambda>_. True" "\<lambda>_ _ _. True" for W
  by unfold_locales
    (auto simp: journey_setters journey_transfer journey_missing journey_snapshot
      intro: journey_trans journey_vm_op journey_back)

section \<open>Static calls\<close>

definition unwritten :: "hashing \<Rightarrow> bool \<Rightarrow> StateDB \<Rightarrow> StateDB \<Rightarrow> bool" where
  "unwritten H w s t \<longleftrightarrow> journey H s t \<and> (\<not> w \<longrightarrow> good s \<longrightarrow> quiet H s t)"

lemma unwritten_trans: "unwritten H w s t \<Longrightarrow> unwritten H w t u \<Longrightarrow> unwritten H w s u"
  unfolding unwritten_def by (meson journey_trans journey_good quiet_trans)

lemma unwritten_op: "vm_op H w s t \<Longrightarrow> unwritten H w s t"
  unfolding unwritten_def
proof (intro conjI impI)
  assume v: "vm_op H w s t" and w: "\<not> w" and g: "good s"
  from v show "quiet H s t"
    by cases (use w g in \<open>auto intro: quiet_abs quiet_AddPreimage simp: abs_getStateObject abs_GetState abs_GetCode good_inv\<close>)
qed (rule journey_vm_op)

lemma unwritten_transfer:
  assumes "v \<noteq> 0 \<Longrightarrow> w"
  shows "unwritten H w s (Transfer H a b v s)"
  unfolding unwritten_def
proof (intro conjI impI)
  assume "\<not> w" and g: "good s"
  with assms have "v = 0" by blast
  have "sdb_inv (SubBalance H a 0 s)" using records_inv [OF records_SubBalance [OF good_inv [OF g]]] .
  with g \<open>v = 0\<close> show "quiet H s (Transfer H a b v s)"
    unfolding Transfer_def by (auto intro: quiet_trans quiet_sub_zero quiet_add_zero good_inv)
qed (rule journey_transfer)

lemma unwritten_missing: "Exist a s = (False, t) \<Longrightarrow> unwritten H w s (CreateAccount H a t)"
  unfolding unwritten_def
proof (intro conjI impI)
  assume e: "Exist a s = (False, t)" and g: "good s"
  then have "getStateObject a s = (None, t)" by (auto simp: Exist_def split: prod.splits)
  with g show "quiet H s (CreateAccount H a t)" by (auto intro: quiet_CreateAccount good_inv)
qed (rule journey_missing)

lemma unwritten_snapshot: "unwritten H w s (snd (Snapshot s))"
  unfolding unwritten_def by (auto simp: journey_snapshot intro!: quiet_abs) (simp add: Snapshot_def abs_def acct_view_def base_view_def fun_eq_iff)

lemma unwritten_back:
  "Snapshot s = (i, t) \<Longrightarrow> unwritten H w t u \<Longrightarrow> RevertToSnapshot i u = Inr x \<Longrightarrow> unwritten H w s x"
  unfolding unwritten_def using journey_rollback journey_back by (metis Inr_inject quiet_abs)

lemma unwritten_simple:
  "unwritten H w s s" "unwritten H w s t \<Longrightarrow> unwritten H True s t" "unwritten H True s t = journey H s t"
  by (simp_all add: unwritten_def)

interpretation vms: vm_relation W "unwritten (vmH W)" False "\<lambda>_. True" "\<lambda>_ _ _. True" for W
  by unfold_locales
    (auto simp: unwritten_transfer unwritten_missing unwritten_snapshot unwritten_simple journey_setters
      intro: unwritten_trans unwritten_op unwritten_back unwritten_simple(2) [unfolded unwritten_simple(3)])

section \<open>Money\<close>

definition frugal :: "hashing \<Rightarrow> bool \<Rightarrow> StateDB \<Rightarrow> StateDB \<Rightarrow> bool" where
  "frugal H priced s t \<longleftrightarrow> journey H s t \<and> (priced \<longrightarrow> good s \<longrightarrow> thrifty H s t)"

definition sound :: "hashing \<Rightarrow> StateDB \<Rightarrow> bool" where
  "sound H s \<longleftrightarrow> good s \<and> solvent H s"

lemma frugal_trans: "frugal H p s t \<Longrightarrow> frugal H p t u \<Longrightarrow> frugal H p s u"
  unfolding frugal_def by (meson journey_trans journey_good thrifty_trans)

lemma frugal_same: "journey H s t \<Longrightarrow> (good s \<Longrightarrow> balance H t = balance H s) \<Longrightarrow> frugal H p s t"
  by (simp add: frugal_def thrifty_balance)

lemma frugal_op: "vm_op H w s t \<Longrightarrow> frugal H p s t"
  unfolding frugal_def
proof (intro conjI impI)
  assume v: "vm_op H w s t" and g: "good s"
  note inv = good_inv [OF g]
  from v show "thrifty H s t"
    by cases (auto intro!: thrifty_balance thrifty_destruct [OF inv] intro: balance_abs balance_SubRefund
        simp: abs_GetState [OF inv] abs_GetCode [OF inv] balance_SetState [OF inv])
qed (rule journey_vm_op)

lemma frugal_setters:
  "frugal H p s (SetNonce H a n s)" "frugal H p s (SetCode H a c s)" "frugal H p s (CreateAccount H a s)"
  by (auto intro!: frugal_same journey_setters balance_SetNonce balance_SetCode balance_CreateAccount good_inv)

lemma frugal_missing: "Exist a s = (False, t) \<Longrightarrow> frugal H p s (CreateAccount H a t)"
  using query_states(5) [of a s] frugal_setters(3) [of H p t a] frugal_op [OF vm_op.query, of H p s a]
  by (auto intro: frugal_trans)

lemma frugal_transfer:
  assumes "p \<Longrightarrow> 0 \<le> v \<and> v \<le> balance H s a"
  shows "frugal H p s (Transfer H a b v s)"
  unfolding frugal_def using assms journey_transfer
  by (auto simp: Transfer_def intro: thrifty_transfer good_inv)

lemma frugal_snapshot: "frugal H p s (snd (Snapshot s))"
  by (auto intro!: frugal_same journey_snapshot balance_abs)
    (simp add: Snapshot_def abs_def acct_view_def base_view_def fun_eq_iff)

lemma frugal_back:
  "Snapshot s = (i, t) \<Longrightarrow> frugal H p t u \<Longrightarrow> RevertToSnapshot i u = Inr x \<Longrightarrow> frugal H p s x"
  unfolding frugal_def using journey_rollback journey_back by (metis Inr_inject thrifty_balance balance_abs)

lemma sound_frugal: "sound H s \<Longrightarrow> frugal H True s t \<Longrightarrow> sound H t"
  unfolding sound_def frugal_def thrifty_def using journey_good by blast

lemma balance_CanTransfer:
  assumes "good s" "CanTransfer a v s = (True, t)"
  shows "good t \<and> v \<le> balance H t a"
proof -
  have t: "t = snd (GetBalance a s)" "v \<le> fst (GetBalance a s)"
    using assms(2) by (auto simp: CanTransfer_def split: prod.splits)
  then have "good t" using journey_good [OF journey_query assms(1)] query_states(1) by metis
  then show ?thesis
    using t GetBalance_eq(1) [OF good_inv [OF assms(1)], of a H]
      balance_abs [OF GetBalance_eq(2) [OF good_inv [OF assms(1)], of H a]] by simp
qed

lemma funded_kept:
  "good s \<and> v \<le> balance H s a \<Longrightarrow> good (snd (getStateObject b s)) \<and> v \<le> balance H (snd (getStateObject b s)) a"
  "good s \<and> v \<le> balance H s a \<Longrightarrow> good (snd (Snapshot s)) \<and> v \<le> balance H (snd (Snapshot s)) a"
  "good s \<and> v \<le> balance H s a \<Longrightarrow> good (SetNonce H b n s) \<and> v \<le> balance H (SetNonce H b n s) a"
  "good s \<and> v \<le> balance H s a \<Longrightarrow> good (CreateAccount H b s) \<and> v \<le> balance H (CreateAccount H b s) a"
proof -
  assume g: "good s \<and> v \<le> balance H s a"
  show "good (snd (getStateObject b s)) \<and> v \<le> balance H (snd (getStateObject b s)) a"
    using g journey_good [OF journey_query] by simp
  have "balance H (snd (Snapshot s)) = balance H s"
    by (rule balance_abs) (simp add: Snapshot_def abs_def acct_view_def base_view_def fun_eq_iff)
  then show "good (snd (Snapshot s)) \<and> v \<le> balance H (snd (Snapshot s)) a"
    using g journey_good [OF journey_snapshot] by simp
  show "good (SetNonce H b n s) \<and> v \<le> balance H (SetNonce H b n s) a"
    "good (CreateAccount H b s) \<and> v \<le> balance H (CreateAccount H b s) a"
    using g journey_good [OF journey_setters(1)] journey_good [OF journey_setters(3)]
    by (simp_all add: balance_SetNonce balance_CreateAccount good_inv)
qed

lemma sound_balance: "sound H s \<Longrightarrow> 0 \<le> fst (GetBalance a s)"
  by (simp add: sound_def solvent_def GetBalance_eq(1) [where H = H] good_inv)

interpretation vmm: vm_relation W "\<lambda>_. frugal (vmH W) (0 \<le> vmGasPrice W)" "0 \<le> vmGasPrice W" "sound (vmH W)"
    "\<lambda>a v s. good s \<and> v \<le> balance (vmH W) s a" for W
proof unfold_locales
  show "frugal (vmH W) (0 \<le> vmGasPrice W) s s" for s by (simp add: frugal_same)
  show "0 \<le> vmGasPrice W \<Longrightarrow> sound (vmH W) s \<Longrightarrow> frugal (vmH W) (0 \<le> vmGasPrice W) s t \<Longrightarrow> sound (vmH W) t" for s t
    by (auto intro: sound_frugal)
  show "sound (vmH W) s \<Longrightarrow> CanTransfer a v s = (True, t) \<Longrightarrow> good t \<and> v \<le> balance (vmH W) t a" for s t a v
    by (rule balance_CanTransfer) (simp_all add: sound_def)
qed ((erule funded_kept) | blast intro: frugal_trans frugal_op frugal_setters frugal_missing frugal_transfer frugal_snapshot
    frugal_back sound_balance)+

section \<open>What a call does\<close>

lemma enter_undone:
  assumes W: "fuel_free W" and snap: "Snapshot s0 = (i, s1)" and j: "journey (vmH W) s1 s2" and g: "good s0"
    and r: "enter W (Run fuel W) caller a c input ro i (ev\<lparr>statedb := s2\<rparr>) = Inr ((ret, left, Some e), ev')"
  shows "abs (vmH W) (statedb ev') = abs (vmH W) s0 \<and> good (statedb ev') \<and> (e \<noteq> errExecutionReverted \<longrightarrow> left = 0)"
proof -
  obtain ret1 e1 c2 ev2 where k: "conclude i ((ret1, e1), c2, ev2) = Inr ((ret, left, Some e), ev')"
    and w: "vmj.world W True (ev\<lparr>statedb := s2\<rparr>) ev2"
    by (rule vmj.enter_run [OF vmj.runs_fuel [OF W] _ _ r, where w = True]) auto
  have "journey (vmH W) s2 (statedb ev2)" using w by (simp add: vmj.world_def)
  with j have j: "journey (vmH W) s1 (statedb ev2)" by (rule journey_trans)
  obtain v where v: "RevertToSnapshot i (statedb ev2) = Inr v" "abs (vmH W) v = abs (vmH W) s0" "journey (vmH W) s0 v"
    using journey_rollback [OF snap j g] by blast
  with k have "ev' = ev2\<lparr>statedb := v\<rparr>" "e \<noteq> errExecutionReverted \<longrightarrow> left = 0"
    by (auto simp: conclude_def split: option.splits)
  with v journey_good [OF v(3) g] show ?thesis by simp
qed

lemma getStateObject_again: "getStateObject a s = (r, t) \<Longrightarrow> getStateObject a t = (r, t)"
proof (cases "stateObjects s a")
  case None
  then show "getStateObject a s = (r, t) \<Longrightarrow> getStateObject a t = (r, t)"
    by (cases "load_account (strie s) a") (auto simp: getStateObject_def Let_def setStateObject_def newObject_def)
next
  case (Some obj)
  then have "snd (getStateObject a s) = s" by (simp add: getStateObject_def)
  then show "getStateObject a s = (r, t) \<Longrightarrow> getStateObject a t = (r, t)" by simp
qed

lemma GetNonce_again: "GetNonce a s = (n, t) \<Longrightarrow> GetNonce a t = (n, t)"
proof -
  obtain r u where g: "getStateObject a s = (r, u)" by fastforce
  with getStateObject_again [OF g] show "GetNonce a s = (n, t) \<Longrightarrow> GetNonce a t = (n, t)"
    by (cases r) (auto simp: GetNonce_def)
qed

text \<open>The four kinds of call.\<close>

definition call_results :: "machine \<Rightarrow> runner \<Rightarrow> ContractRef \<Rightarrow> address \<Rightarrow> bytes \<Rightarrow> u64 \<Rightarrow> int \<Rightarrow> EVM \<Rightarrow> call_result list" where
  "call_results W run caller a input gas v ev =
     [vm_Call W run caller a input gas v ev, vm_CallCode W run caller a input gas v ev,
      vm_DelegateCall W run caller a input gas ev, vm_StaticCall W run caller a input gas ev]"

lemma good_query: "good s \<Longrightarrow> good (snd (getStateObject a s))"
  by (rule journey_good [OF journey_query])

text \<open>A state in which account 1 has five coins and account 7 has a contract, and what a call in it answers.\<close>

definition sample_with :: "bytes \<Rightarrow> EVM" where
  "sample_with code = sample_EVM\<lparr>statedb := SetBalance sample_hashing 1 5 (SetCode sample_hashing 7 (Some code) sample_state)\<rparr>"

definition verdict :: "call_result \<Rightarrow> (bytes \<times> u64 \<times> vm_error option) option" where
  "verdict r = (case r of Inl _ \<Rightarrow> None | Inr (x, ev) \<Rightarrow> Some x)"

lemma verdict_Some: "verdict r = Some x \<Longrightarrow> \<exists>ev'. r = Inr (x, ev')"
  by (auto simp: verdict_def split: sum.splits)

lemma sample_with_ok:
  "good (statedb (sample_with code))" "solvent sample_hashing (statedb (sample_with code))"
  "total_supply sample_hashing (statedb (sample_with code)) = 5"
proof -
  let ?s = "SetCode sample_hashing 7 (Some code) sample_state"
  have g0: "good sample_state" by (simp add: good_def sdb_inv_def revs_ok_def sample_state_def)
  then have g1: "good ?s" using journey_good [OF journey_setters(2)] by blast
  then show "good (statedb (sample_with code))"
    using journey_good [OF journey_op [OF sdb_op.intros(3)]] by (simp add: sample_with_def)
  have "balance sample_hashing sample_state = (\<lambda>_. 0)"
    by (simp add: balance_def acct_view_def base_view_def load_account_def sample_state_def fun_eq_iff)
  then have b: "balance sample_hashing (statedb (sample_with code)) = (\<lambda>_. 0)(1 := 5)"
    using good_inv [OF g0] good_inv [OF g1] by (simp add: sample_with_def balance_SetBalance balance_SetCode)
  show "solvent sample_hashing (statedb (sample_with code))" by (simp add: solvent_def b)
  show "total_supply sample_hashing (statedb (sample_with code)) = 5" by (simp add: total_supply_def b supply_upd del: fun_upd_apply)
qed

lemma sample_machine_sel [simp]: "vmH sample_machine = sample_hashing" "IsByzantium sample_machine" "IsHomestead sample_machine"
  "vmGasPrice sample_machine = 1"
  by (simp add: sample_machine_def, code_simp, code_simp, simp add: sample_machine_def)

text \<open>
  C8. A call, of any of the four kinds, that reports an error leaves the account state as seen from outside the
  way it was; and unless it was reverted by the contract, or refused before it began, it has used up its gas.
\<close>

theorem failed_calls_undone:
  assumes W: "fuel_free W" and g: "good (statedb ev)"
    and r: "Inr ((ret, left, Some e), ev') \<in> set (call_results W (Run fuel W) caller a input gas v ev)"
  shows "abs (vmH W) (statedb ev') = abs (vmH W) (statedb ev) \<and> good (statedb ev') \<and>
    (e \<in> {errExecutionReverted, ErrDepth, ErrInsufficientBalance} \<or> left = 0)"
proof -
  let ?H = "vmH W" and ?c = "ref_Address caller" and ?run = "Run fuel W"
  obtain can s0 where can: "CanTransfer ?c v (statedb ev) = (can, s0)" by fastforce
  have s0: "good s0" "abs ?H s0 = abs ?H (statedb ev)"
    using CanTransfer_state [OF can] good_query [OF g] by (simp_all add: abs_getStateObject)
  obtain i s1 where snap: "Snapshot s0 = (i, s1)" by fastforce
  obtain j t1 where snap': "Snapshot (statedb ev) = (j, t1)" by fastforce
  obtain exist s2 where ex: "Exist a s1 = (exist, s2)" by fastforce
  have s2: "journey ?H s1 s2" using Exist_state [OF ex] journey_query by simp
  define s3 where "s3 = (if \<not> exist then CreateAccount ?H a s2 else s2)"
  have s4: "journey ?H s1 (Transfer ?H ?c a v s3)"
    using journey_trans [OF s2 journey_trans [OF _ journey_transfer]] journey_setters(3) by (simp add: s3_def)
  from r consider "vm_Call W ?run caller a input gas v ev = Inr ((ret, left, Some e), ev')"
    | "vm_CallCode W ?run caller a input gas v ev = Inr ((ret, left, Some e), ev')"
    | "vm_DelegateCall W ?run caller a input gas ev = Inr ((ret, left, Some e), ev')"
    | "vm_StaticCall W ?run caller a input gas ev = Inr ((ret, left, Some e), ev')"
    by (auto simp: call_results_def)
  then show ?thesis
  proof cases
    case 1
    then show ?thesis
      using enter_undone [OF W snap s4 s0(1)] g s0 unfolding vm_Call_def Let_def can prod.case snap ex s3_def [symmetric]
      by (auto split: if_splits)
  next
    case 2
    then show ?thesis
      using enter_undone [OF W snap journey_refl s0(1)] g s0 unfolding vm_CallCode_def Let_def can prod.case snap
      by (auto split: if_splits)
  next
    case 3
    then show ?thesis
      using enter_undone [OF W snap' journey_refl g] g unfolding vm_DelegateCall_def Let_def prod.case snap'
      by (auto split: if_splits simp: res_bind_eq_Inr_iff)
  next
    case 4
    then show ?thesis
      using enter_undone [OF W snap' journey_refl g] g unfolding vm_StaticCall_def Let_def prod.case snap'
      by (auto split: if_splits)
  qed
qed

theorem failed_calls_undone_witness:
  "\<exists>ev'. vm_Call sample_machine (Run 3 sample_machine) (AccountRef 1) 7 [] 30000 3 (sample_with [0xfe])
      = Inr (([], 0, Some (InvalidOpcode 0xfe)), ev') \<and>
    abs sample_hashing (statedb ev') = abs sample_hashing (statedb (sample_with [0xfe]))"
proof -
  have "verdict (vm_Call sample_machine (Run 3 sample_machine) (AccountRef 1) 7 [] 30000 3 (sample_with [0xfe]))
      = Some ([], 0, Some (InvalidOpcode 0xfe))" by code_simp
  then obtain ev' where r: "vm_Call sample_machine (Run 3 sample_machine) (AccountRef 1) 7 [] 30000 3 (sample_with [0xfe])
      = Inr (([], 0, Some (InvalidOpcode 0xfe)), ev')" by (blast dest: verdict_Some)
  then show ?thesis
    using failed_calls_undone [OF fuel_free_sample sample_with_ok(1), of "[]" 0 "InvalidOpcode 0xfe" ev' 3 "AccountRef 1" 7 "[]" 30000 3]
    by (simp add: call_results_def)
qed

text \<open>
  C9. A static call changes nothing that the state shows: balances, nonces, code, storage, refunds and logs stay
  as they were.  All it may leave behind is an account without anything in it.
\<close>

theorem StaticCall_quiet:
  assumes W: "fuel_free W" and g: "good (statedb ev)" and b: "IsByzantium W"
    and r: "vm_StaticCall W (Run fuel W) caller a input gas ev = Inr (x, ev')"
  shows "quiet (vmH W) (statedb ev) (statedb ev')"
proof -
  have "vms.call_world W False ev (vm_StaticCall W (Run fuel W) caller a input gas ev)"
    by (rule vms.call_world_StaticCall [OF vms.runs_fuel [OF W]]) (simp_all add: may_write_def b)
  with g show ?thesis by (simp add: r vms.world_def unwritten_def)
qed

theorem StaticCall_quiet_witness:
  "\<exists>ev'. vm_StaticCall sample_machine (Run 3 sample_machine) (AccountRef 1) 7 [] 30000 (sample_with [0x30, 0x30, 0x55])
      = Inr (([], 0, Some errWriteProtection), ev') \<and>
    quiet sample_hashing (statedb (sample_with [0x30, 0x30, 0x55])) (statedb ev')"
proof -
  have "verdict (vm_StaticCall sample_machine (Run 3 sample_machine) (AccountRef 1) 7 [] 30000 (sample_with [0x30, 0x30, 0x55]))
      = Some ([], 0, Some errWriteProtection)" by code_simp
  then show ?thesis
    using StaticCall_quiet [OF fuel_free_sample sample_with_ok(1)] by (fastforce dest!: verdict_Some)
qed

text \<open>
  C5. Calls create no money: where nobody owes anything and the price and the value are not negative, nobody owes
  anything afterwards and the sum of all balances has not grown.
\<close>

theorem Call_creates_no_money:
  assumes W: "fuel_free W" and price: "0 \<le> vmGasPrice W" and v: "0 \<le> v"
    and s: "good (statedb ev)" "solvent (vmH W) (statedb ev)"
    and r: "vm_Call W (Run fuel W) caller a input gas v ev = Inr (x, ev')"
  shows "solvent (vmH W) (statedb ev') \<and> total_supply (vmH W) (statedb ev') \<le> total_supply (vmH W) (statedb ev)"
proof -
  have "vmm.call_world W True ev (vm_Call W (Run fuel W) caller a input gas v ev)"
    by (rule vmm.call_world_Call [OF vmm.runs_fuel [OF W]]) (simp_all add: v s sound_def)
  then have "frugal (vmH W) (0 \<le> vmGasPrice W) (statedb ev) (statedb ev')" by (simp add: r vmm.world_def)
  with price s show ?thesis by (auto simp: frugal_def thrifty_def)
qed

text \<open>Account 7 hands its money to itself and is gone.\<close>

theorem Call_creates_no_money_witness:
  "\<exists>ev'. vm_Call sample_machine (Run 2 sample_machine) (AccountRef 1) 7 [] 30000 0 (sample_with [0x30, 0xff])
      = Inr (([], 24998, None), ev') \<and>
    solvent sample_hashing (statedb ev') \<and> total_supply sample_hashing (statedb ev') \<le> 5"
proof -
  have "verdict (vm_Call sample_machine (Run 2 sample_machine) (AccountRef 1) 7 [] 30000 0 (sample_with [0x30, 0xff]))
      = Some ([], 24998, None)" by code_simp
  then obtain ev' where r: "vm_Call sample_machine (Run 2 sample_machine) (AccountRef 1) 7 [] 30000 0 (sample_with [0x30, 0xff])
      = Inr (([], 24998, None), ev')" by (blast dest: verdict_Some)
  then show ?thesis
    using Call_creates_no_money [OF fuel_free_sample _ _ sample_with_ok(1) _ r] sample_with_ok(2,3) by simp
qed

text \<open>
  C21. A creation that reports an error leaves the state as it was, except that the creator's nonce has been
  raised unless the creation was refused before it began.  Before the homestead rules the exception is a
  contract whose code could not be paid for: it stays, without code.
\<close>

theorem failed_create_undone:
  assumes W: "fuel_free W" and g: "good (statedb ev)" and hs: "IsHomestead W"
    and n: "GetNonce (ref_Address caller) (statedb ev) = (n, s)"
    and r: "vm_create W (Run fuel W) caller code h gas v a ev = Inr ((ret, addr, left, Some e), ev')"
  shows "abs (vmH W) (statedb ev') = abs (vmH W) (statedb ev) \<and> e \<in> {ErrDepth, ErrInsufficientBalance} \<or>
    abs (vmH W) (statedb ev') = abs (vmH W) (SetNonce (vmH W) (ref_Address caller) (n + 1) s)"
proof -
  let ?c = "ref_Address caller" and ?H = "vmH W"
  obtain can where can: "CanTransfer ?c v (statedb ev) = (can, s)"
    using CanTransfer_state [OF prod.collapse [symmetric]] n query_states(2) by (metis prod.collapse snd_conv)
  have gs: "good s" "abs ?H s = abs ?H (statedb ev)"
    using CanTransfer_state [OF can] good_query [OF g] by (simp_all add: abs_getStateObject)
  have n1: "GetNonce ?c s = (n, s)" using GetNonce_again [OF n] .
  define t2 where "t2 = SetNonce ?H ?c (n + 1) s"
  obtain ch t3 where t3: "GetCodeHash a t2 = (ch, t3)" by fastforce
  obtain n' t4 where t4: "GetNonce a t3 = (n', t4)" by fastforce
  have q: "t3 = snd (getStateObject a t2)" "t4 = snd (getStateObject a t3)"
    by (metis query_states(3) t3 snd_conv, metis query_states(2) t4 snd_conv)
  have g4: "good t4" using journey_good [OF journey_setters(1) gs(1)] good_query by (simp add: q t2_def)
  have a4: "abs ?H t4 = abs ?H t2" by (simp add: q abs_getStateObject)
  obtain i s1 where snap: "Snapshot t4 = (i, s1)" by fastforce
  define s2 where "s2 = CreateAccount ?H a s1"
  define s3 where "s3 = (if IsEIP158 W then SetNonce ?H a 1 s2 else s2)"
  have j3: "journey ?H s1 (Transfer ?H ?c a v s3)"
  proof -
    have "journey ?H s1 s2" unfolding s2_def by (rule journey_setters)
    moreover have "journey ?H s2 s3" using journey_setters(1) by (simp add: s3_def)
    ultimately show ?thesis using journey_trans journey_transfer by blast
  qed
  let ?C = "SetCallCode a h code (NewContract caller a (Some v) gas)" and ?ev = "ev\<lparr>statedb := Transfer ?H ?c a v s3\<rparr>"
  have body: "abs ?H (statedb ev') = abs ?H t2" if k: "res_bind (vm_run W (Run fuel W) ?C [] False (share_jumpdests caller ?ev))
      (\<lambda>r. conclude_create W a i (store_code W a r)) = Inr ((ret, addr, left, Some e), ev')"
  proof -
    obtain ret1 e1 c1 ev1 where x: "vm_run W (Run fuel W) ?C [] False (share_jumpdests caller ?ev) = Inr ((ret1, e1), c1, ev1)"
      and k1: "conclude_create W a i (store_code W a ((ret1, e1), c1, ev1)) = Inr ((ret, addr, left, Some e), ev')"
      using k by (auto simp: res_bind_eq_Inr_iff)
    have "vmj.world W (may_write W (readOnly (share_jumpdests caller ?ev) \<or> False)) (share_jumpdests caller ?ev) ev1"
      by (rule vmj.runsD [OF vmj.runs_vm_run [OF vmj.runs_fuel [OF W]] x]) simp
    then have j1: "journey ?H s1 (statedb ev1)" using journey_trans [OF j3] by (simp add: vmj.world_def)
    obtain ret2 e2 c2 ev2 where st: "store_code W a ((ret1, e1), c1, ev1) = ((ret2, e2), c2, ev2)" by (metis prod.collapse)
    have j2: "journey ?H s1 (statedb ev2)"
      using st j1 journey_trans [OF j1 journey_setters(2)] by (auto simp: store_code_def split: if_splits prod.splits bool.splits)
    obtain u where u: "RevertToSnapshot i (statedb ev2) = Inr u" "abs ?H u = abs ?H t4"
      using journey_rollback [OF snap j2 g4] by blast
    with k1 hs have "ev' = ev2\<lparr>statedb := u\<rparr>"
      by (auto simp: conclude_create_def st Let_def split: if_splits)
    with u a4 show ?thesis by simp
  qed
  show ?thesis
    using r body gs a4 unfolding vm_create_def Let_def can prod.case n1 t2_def [symmetric] t3 t4 snap s2_def [symmetric] s3_def [symmetric]
    by (auto split: if_splits)
qed

theorem failed_create_undone_witness:
  "\<exists>ev'. vm_create sample_machine (Run 1 sample_machine) (AccountRef 1) [0xfe] 0 30 3 7 (sample_with [0xfe])
      = Inr (([], 0, 0, Some ErrContractAddressCollision), ev') \<and>
    abs sample_hashing (statedb ev') =
      abs sample_hashing (case GetNonce 1 (statedb (sample_with [0xfe])) of (n, s) \<Rightarrow> SetNonce sample_hashing 1 (n + 1) s)"
proof -
  let ?r = "vm_create sample_machine (Run 1 sample_machine) (AccountRef 1) [0xfe] 0 30 3 7 (sample_with [0xfe])"
  have "(case ?r of Inl _ \<Rightarrow> None | Inr (x, _) \<Rightarrow> Some x) = Some ([], 0, 0, Some ErrContractAddressCollision)" by code_simp
  then obtain ev' where r: "?r = Inr (([], 0, 0, Some ErrContractAddressCollision), ev')" by (auto split: sum.splits)
  obtain n s where n: "GetNonce 1 (statedb (sample_with [0xfe])) = (n, s)" by fastforce
  show ?thesis
    using failed_create_undone [OF fuel_free_sample sample_with_ok(1) _ _ r, of n s] r n by simp
qed

end
