(* ===== verification/EVM_Precompiles.thy ===== *)
theory EVM_Precompiles
  imports EVM_World Block_Types
begin

text \<open>
  The precompiled contracts: \<open>src/sdag/core/vm/contracts.go\<close>.  The hash functions, the recovery of public keys
  and the arithmetic of the curve \<open>bn256\<close> are arguments; the parsing of the inputs, the gas and the modular
  exponentiation are modelled.
\<close>

section \<open>Parameters\<close>

record ('g1, 'g2) crypto =
  sha256 :: "bytes \<Rightarrow> bytes"
  ripemd160 :: "bytes \<Rightarrow> bytes"
  crKeccak :: "bytes \<Rightarrow> hash"
  recoverPubkey :: "bytes \<Rightarrow> bytes \<Rightarrow> bytes option"
  g1Unmarshal :: "bytes \<Rightarrow> string + 'g1"
  g2Unmarshal :: "bytes \<Rightarrow> string + 'g2"
  g1Marshal :: "'g1 \<Rightarrow> bytes"
  g1Add :: "'g1 \<Rightarrow> 'g1 \<Rightarrow> 'g1"
  g1Mult :: "'g1 \<Rightarrow> int \<Rightarrow> 'g1"
  PairingCheck :: "'g1 list \<Rightarrow> 'g2 list \<Rightarrow> bool"

abbreviation (input) EcrecoverGas :: u64 where "EcrecoverGas \<equiv> 3000"
abbreviation (input) Sha256BaseGas :: u64 where "Sha256BaseGas \<equiv> 60"
abbreviation (input) Sha256PerWordGas :: u64 where "Sha256PerWordGas \<equiv> 12"
abbreviation (input) Ripemd160BaseGas :: u64 where "Ripemd160BaseGas \<equiv> 600"
abbreviation (input) Ripemd160PerWordGas :: u64 where "Ripemd160PerWordGas \<equiv> 120"
abbreviation (input) IdentityBaseGas :: u64 where "IdentityBaseGas \<equiv> 15"
abbreviation (input) IdentityPerWordGas :: u64 where "IdentityPerWordGas \<equiv> 3"
abbreviation (input) ModExpQuadCoeffDiv :: int where "ModExpQuadCoeffDiv \<equiv> 20"
abbreviation (input) Bn256AddGas :: u64 where "Bn256AddGas \<equiv> 500"
abbreviation (input) Bn256ScalarMulGas :: u64 where "Bn256ScalarMulGas \<equiv> 40000"
abbreviation (input) Bn256PairingBaseGas :: u64 where "Bn256PairingBaseGas \<equiv> 100000"
abbreviation (input) Bn256PairingPerPointGas :: u64 where "Bn256PairingPerPointGas \<equiv> 80000"

section \<open>Signatures and hashes\<close>

text \<open>A signature that is not valid is answered with no data and no error.\<close>

definition ecrecover_Run :: "('g1, 'g2) crypto \<Rightarrow> bytes \<Rightarrow> err + (vm_error + bytes)" where
  "ecrecover_Run K input =
     (res_bind (RightPadBytes input 128) (\<lambda>input.
      res_bind (subslice 64 96 input) (\<lambda>rb. res_bind (subslice 96 128 input) (\<lambda>sb.
      res_bind (subslice 32 63 input) (\<lambda>pad. res_bind (subslice 0 32 input) (\<lambda>h.
        let v = input ! 63 - 27 in
        if \<not> allZero pad \<or> \<not> ValidateSignatureValues v (set_bytes rb) (set_bytes sb) False then Inr (Inr [])
        else (case recoverPubkey K h (rb @ sb @ [v]) of
                None \<Rightarrow> Inr (Inr [])
              | Some [] \<Rightarrow> Inl Panic
              | Some (_ # key) \<Rightarrow> res_bind (LeftPadBytes (drop 12 (hash_bytes (crKeccak K key))) 32) (\<lambda>a. Inr (Inr a)))))))))"

definition ecrecover_contract :: "('g1, 'g2) crypto \<Rightarrow> precompiled" where
  "ecrecover_contract K = \<lparr>RequiredGas = (\<lambda>input. Inr EcrecoverGas), pcRun = ecrecover_Run K\<rparr>"

text \<open>\<open>uint64(len(input)+31)/32\<close> times the price of a word, and a base price.\<close>

definition per_word_gas :: "u64 \<Rightarrow> u64 \<Rightarrow> bytes \<Rightarrow> u64" where
  "per_word_gas word basic input = word_of_nat (length input + 31) div 32 * word + basic"

definition sha256hash_contract :: "('g1, 'g2) crypto \<Rightarrow> precompiled" where
  "sha256hash_contract K =
     \<lparr>RequiredGas = (\<lambda>input. Inr (per_word_gas Sha256PerWordGas Sha256BaseGas input)), pcRun = (\<lambda>input. Inr (Inr (sha256 K input)))\<rparr>"

definition ripemd160hash_contract :: "('g1, 'g2) crypto \<Rightarrow> precompiled" where
  "ripemd160hash_contract K =
     \<lparr>RequiredGas = (\<lambda>input. Inr (per_word_gas Ripemd160PerWordGas Ripemd160BaseGas input)),
      pcRun = (\<lambda>input. res_bind (LeftPadBytes (ripemd160 K input) 32) (\<lambda>h. Inr (Inr h)))\<rparr>"

definition dataCopy_contract :: precompiled where
  "dataCopy_contract =
     \<lparr>RequiredGas = (\<lambda>input. Inr (per_word_gas IdentityPerWordGas IdentityBaseGas input)), pcRun = (\<lambda>input. Inr (Inr input))\<rparr>"

section \<open>Modular exponentiation\<close>

text \<open>The three lengths at the front, and what follows them.\<close>

definition modexp_lengths :: "bytes \<Rightarrow> err + int \<times> int \<times> int" where
  "modexp_lengths input =
     res_bind (getData input 0 32) (\<lambda>b. res_bind (getData input 32 32) (\<lambda>e. res_bind (getData input 64 32) (\<lambda>m.
       Inr (set_bytes b, set_bytes e, set_bytes m))))"

definition modexp_rest :: "bytes \<Rightarrow> bytes" where
  "modexp_rest input = (if length input > 96 then drop 96 input else [])"

definition mult_complexity :: "int \<Rightarrow> int" where
  "mult_complexity x =
     (if x \<le> 64 then x * x
      else if x \<le> 1024 then (x * x) div 4 + (96 * x - 3072)
      else (x * x) div 16 + (480 * x - 199680))"

definition adjusted_exponent :: "int \<Rightarrow> int \<Rightarrow> int" where
  "adjusted_exponent expLen expHead =
     (if expLen > 32 then 8 * (expLen - 32) else 0) + (if BitLen expHead > 0 then int (BitLen expHead) - 1 else 0)"

definition bigModExp_RequiredGas :: "bytes \<Rightarrow> err + u64" where
  "bigModExp_RequiredGas input =
     res_bind (modexp_lengths input) (\<lambda>(baseLen, expLen, modLen).
       let input = modexp_rest input in
       res_bind
         (if int (length input) \<le> baseLen then Inr 0
          else if expLen > 32 then res_bind (getData input (big_Uint64 baseLen) 32) (\<lambda>d. Inr (set_bytes d))
          else res_bind (getData input (big_Uint64 baseLen) (big_Uint64 expLen)) (\<lambda>d. Inr (set_bytes d)))
         (\<lambda>expHead.
            let gas = mult_complexity (BigMax modLen baseLen) * BigMax (adjusted_exponent expLen expHead) 1 div ModExpQuadCoeffDiv
            in Inr (if BitLen gas > 64 then - 1 else big_Uint64 gas)))"

definition bigModExp_Run :: "bytes \<Rightarrow> err + (vm_error + bytes)" where
  "bigModExp_Run input =
     res_bind (modexp_lengths input) (\<lambda>(baseLen, expLen, modLen).
       let baseLen = big_Uint64 baseLen; expLen = big_Uint64 expLen; modLen = big_Uint64 modLen;
           input = modexp_rest input in
       if baseLen = 0 \<and> modLen = 0 then Inr (Inr [])
       else
         res_bind (getData input 0 baseLen) (\<lambda>b. res_bind (getData input baseLen expLen) (\<lambda>e.
         res_bind (getData input (baseLen + expLen) modLen) (\<lambda>m.
           if BitLen (set_bytes m) = 0 then res_bind (LeftPadBytes [] (sint modLen)) (\<lambda>r. Inr (Inr r))
           else res_bind (LeftPadBytes (be_min (nat (set_bytes b ^ nat (set_bytes e) mod set_bytes m))) (sint modLen))
                  (\<lambda>r. Inr (Inr r))))))"

definition bigModExp_contract :: precompiled where
  "bigModExp_contract = \<lparr>RequiredGas = bigModExp_RequiredGas, pcRun = bigModExp_Run\<rparr>"

section \<open>The curve\<close>

text \<open>An error of the curve's decoder is the error of the contract.\<close>

definition try_point :: "string + 'a \<Rightarrow> ('a \<Rightarrow> err + (vm_error + bytes)) \<Rightarrow> err + (vm_error + bytes)" where
  "try_point r f = (case r of Inl e \<Rightarrow> Inr (Inl (PrecompileErr e)) | Inr p \<Rightarrow> f p)"

definition bn256Add_contract :: "('g1, 'g2) crypto \<Rightarrow> precompiled" where
  "bn256Add_contract K =
     \<lparr>RequiredGas = (\<lambda>input. Inr Bn256AddGas),
      pcRun = (\<lambda>input.
        res_bind (getData input 0 64) (\<lambda>a. try_point (g1Unmarshal K a) (\<lambda>x.
        res_bind (getData input 64 64) (\<lambda>b. try_point (g1Unmarshal K b) (\<lambda>y.
          Inr (Inr (g1Marshal K (g1Add K x y))))))))\<rparr>"

definition bn256ScalarMul_contract :: "('g1, 'g2) crypto \<Rightarrow> precompiled" where
  "bn256ScalarMul_contract K =
     \<lparr>RequiredGas = (\<lambda>input. Inr Bn256ScalarMulGas),
      pcRun = (\<lambda>input.
        res_bind (getData input 0 64) (\<lambda>a. try_point (g1Unmarshal K a) (\<lambda>p.
        res_bind (getData input 64 32) (\<lambda>s. Inr (Inr (g1Marshal K (g1Mult K p (set_bytes s))))))))\<rparr>"

definition true32Byte :: bytes where "true32Byte = replicate 31 0 @ [1]"
definition false32Byte :: bytes where "false32Byte = replicate 32 0"

text \<open>The loop over the pairs of points, from byte \<open>i\<close> on.\<close>

function pairing_points :: "('g1, 'g2) crypto \<Rightarrow> bytes \<Rightarrow> nat \<Rightarrow> 'g1 list \<Rightarrow> 'g2 list \<Rightarrow> err + (string + 'g1 list \<times> 'g2 list)" where
  "pairing_points K input i cs ts =
     (if i < length input then
        res_bind (subslice i (i + 64) input) (\<lambda>a.
          case g1Unmarshal K a of
            Inl e \<Rightarrow> Inr (Inl e)
          | Inr c \<Rightarrow>
              res_bind (subslice (i + 64) (i + 192) input) (\<lambda>b.
                case g2Unmarshal K b of
                  Inl e \<Rightarrow> Inr (Inl e)
                | Inr t \<Rightarrow> pairing_points K input (i + 192) (cs @ [c]) (ts @ [t])))
      else Inr (Inr (cs, ts)))"
  by auto
termination by (relation "measure (\<lambda>(K, input, i, cs, ts). length input - i)") auto

definition bn256Pairing_Run :: "('g1, 'g2) crypto \<Rightarrow> bytes \<Rightarrow> err + (vm_error + bytes)" where
  "bn256Pairing_Run K input =
     (if length input mod 192 > 0 then Inr (Inl (PrecompileErr ''bad elliptic curve pairing size''))
      else res_bind (pairing_points K input 0 [] []) (\<lambda>r.
        try_point r (\<lambda>(cs, ts). Inr (Inr (if PairingCheck K cs ts then true32Byte else false32Byte)))))"

definition bn256Pairing_contract :: "('g1, 'g2) crypto \<Rightarrow> precompiled" where
  "bn256Pairing_contract K =
     \<lparr>RequiredGas = (\<lambda>input. Inr (Bn256PairingBaseGas + word_of_nat (length input div 192) * Bn256PairingPerPointGas)),
      pcRun = bn256Pairing_Run K\<rparr>"

section \<open>The tables\<close>

definition PrecompiledContractsHomestead :: "('g1, 'g2) crypto \<Rightarrow> address \<Rightarrow> precompiled option" where
  "PrecompiledContractsHomestead K =
     map_of [(1, ecrecover_contract K), (2, sha256hash_contract K), (3, ripemd160hash_contract K), (4, dataCopy_contract)]"

definition PrecompiledContractsByzantium :: "('g1, 'g2) crypto \<Rightarrow> address \<Rightarrow> precompiled option" where
  "PrecompiledContractsByzantium K =
     map_of [(1, ecrecover_contract K), (2, sha256hash_contract K), (3, ripemd160hash_contract K), (4, dataCopy_contract),
       (5, bigModExp_contract), (6, bn256Add_contract K), (7, bn256ScalarMul_contract K), (8, bn256Pairing_contract K)]"

text \<open>The choice \<open>Call\<close> and \<open>run\<close> make, by the rules of the block.\<close>

definition active_precompiles :: "('g1, 'g2) crypto \<Rightarrow> ChainConfig \<Rightarrow> int \<Rightarrow> address \<Rightarrow> precompiled option" where
  "active_precompiles K config number =
     (if isForked (ByzantiumBlock config) number then PrecompiledContractsByzantium K else PrecompiledContractsHomestead K)"


section \<open>Reading the input\<close>

lemma sint_small: "unat (x :: u64) < 2 ^ 63 \<Longrightarrow> sint x = int (unat x)"
proof -
  assume "unat x < 2 ^ 63"
  then have "int (unat x) < int (2 ^ 63)" by (simp only: of_nat_less_iff)
  then have "uint x < 2 ^ 63" by simp
  moreover have "- (2 ^ 63) \<le> uint x" by (rule order_trans [OF _ uint_ge_0]) simp
  ultimately have "signed_take_bit 63 (uint x) = uint x" by (rule signed_take_bit_int_eq_self [rotated])
  then show ?thesis by (simp add: sint_uint)
qed

lemma getData_eq:
  assumes "length data < 2 ^ 63" and "unat sz \<le> 2 ^ 48"
  shows "getData data start sz = Inr (take (unat sz) (drop (unat start) data @ replicate (unat sz) 0))"
proof -
  let ?len = "word_of_nat (length data) :: u64"
  define n where "n = unat sz"
  have len: "unat ?len = length data" using assms(1) by (simp add: unsigned_of_nat take_bit_nat_eq_self)
  have s: "sint sz = int n" using assms(2) by (simp add: n_def sint_small)
  define a where "a = (if start > ?len then ?len else start)"
  have a: "unat a = min (unat start) (length data)" by (auto simp: a_def len word_less_nat_alt min_def)
  have e: "unat (a + sz) = unat a + n" using assms by (simp add: a n_def unat_word_ariths)
  define b where "b = (if a + sz > ?len then ?len else a + sz)"
  have b: "unat b = min (unat a + n) (length data)" by (auto simp: b_def len e word_less_nat_alt min_def)
  have "getData data start sz = RightPadBytes (take (unat b - unat a) (drop (unat a) data)) (int n)"
    unfolding getData_def Let_def a_def [symmetric] b_def [symmetric] subslice_def s by (simp add: a b)
  also have "\<dots> = Inr (take n (drop (unat start) data @ replicate n 0))"
    using assms(2) by (subst RightPad_eq) (auto simp: n_def [symmetric] a b min_def)
  finally show ?thesis by (simp only: n_def)
qed

lemma unat_big_Uint64: "0 \<le> x \<Longrightarrow> x < 2 ^ 64 \<Longrightarrow> unat (big_Uint64 x) = nat x"
  by (simp add: big_Uint64_def unsigned_of_int take_bit_int_eq_self)

text \<open>An input as a contract builds it: the three lengths in a word each, then the numbers.\<close>

definition modexp_input :: "bytes \<Rightarrow> bytes \<Rightarrow> bytes \<Rightarrow> bytes" where
  "modexp_input B E M = be_fixed 32 (length B) @ be_fixed 32 (length E) @ be_fixed 32 (length M) @ B @ E @ M"

lemma modexp_input_lengths:
  assumes "length B < 2 ^ 31" "length E < 2 ^ 31" "length M < 2 ^ 31"
  shows "modexp_lengths (modexp_input B E M) = Inr (int (length B), int (length E), int (length M))"
    and "modexp_rest (modexp_input B E M) = B @ E @ M"
proof -
  have l: "length (modexp_input B E M) < 2 ^ 63" using assms by (simp add: modexp_input_def)
  have v: "be_val (be_fixed 32 n) = n" if "n < 2 ^ 31" for n :: nat using that by (simp add: be_val_be_fixed)
  show "modexp_lengths (modexp_input B E M) = Inr (int (length B), int (length E), int (length M))"
    using assms by (simp add: modexp_lengths_def getData_eq [OF l]) (simp add: modexp_input_def set_bytes_def v)
  show "modexp_rest (modexp_input B E M) = B @ E @ M"
    by (auto simp: modexp_rest_def modexp_input_def)
qed

lemma be_val_leading_zeros: "be_val (replicate n 0 @ b) = be_val b"
  by (induction n) (simp_all add: be_val_def)

lemma LeftPad_be_min: "n < 256 ^ k \<Longrightarrow> k \<le> 2 ^ 48 \<Longrightarrow> LeftPadBytes (be_min n) (int k) = Inr (be_fixed k n)"
proof -
  assume n: "n < 256 ^ k" and k: "k \<le> 2 ^ 48"
  then have l: "length (be_min n) \<le> k" by (simp add: length_be_min_le_iff)
  let ?p = "replicate (k - length (be_min n)) 0 @ be_min n"
  have "LeftPadBytes (be_min n) (int k) = Inr ?p" using k by (simp add: LeftPad_eq)
  moreover have "be_val ?p = n" by (simp add: be_val_leading_zeros)
  moreover have "length ?p = k" using l by simp
  ultimately show ?thesis by (metis be_fixed_be_val)
qed

lemma LeftPad_empty: "k \<le> 2 ^ 48 \<Longrightarrow> LeftPadBytes [] (int k) = Inr (be_fixed k 0)"
  using LeftPad_be_min [of 0 k] by simp

text \<open>
  C27. On an input as a contract builds it, the modular exponentiation answers with the base to the power of the
  exponent modulo the modulus, in as many bytes as the modulus has; a modulus of zero gives zero.
\<close>

theorem bigModExp_correct:
  assumes "length B < 2 ^ 31" "length E < 2 ^ 31" "length M < 2 ^ 31"
  shows "bigModExp_Run (modexp_input B E M) =
    Inr (Inr (be_fixed (length M) (if be_val M = 0 then 0 else be_val B ^ be_val E mod be_val M)))"
proof (cases "B = [] \<and> M = []")
  case True
  then show ?thesis using assms by (simp add: bigModExp_Run_def modexp_input_lengths big_Uint64_def)
next
  case False
  have l: "length (B @ E @ M) < 2 ^ 63" using assms by simp
  have u: "unat (big_Uint64 (int n)) = n" if "n < 2 ^ 33" for n :: nat using that by (simp add: unat_big_Uint64)
  have z: "big_Uint64 (int n) = 0 \<longleftrightarrow> n = 0" if "n < 2 ^ 31" for n :: nat
    using u [of n] that by (auto simp: unat_eq_zero [symmetric])
  have s: "sint (big_Uint64 (int (length M))) = int (length M)"
    using u [of "length M"] assms(3) by (simp add: sint_small)
  have e: "unat (big_Uint64 (int (length B)) + big_Uint64 (int (length E))) = length B + length E"
    using u assms by (simp add: unat_word_ariths)
  have num: "nat (int (be_val B) ^ be_val E mod int (be_val M)) = be_val B ^ be_val E mod be_val M"
    by (simp add: nat_int zmod_int [symmetric] flip: of_nat_power)
  have small: "be_val B ^ be_val E mod be_val M < 256 ^ length M" if "be_val M \<noteq> 0"
    using that be_val_less [of M] by (meson less_trans mod_less_divisor neq0_conv)
  show ?thesis
    using False assms
    by (simp add: bigModExp_Run_def modexp_input_lengths Let_def z getData_eq [OF l] u e s BitLen_0 set_bytes_def
        LeftPad_empty num LeftPad_be_min small)
qed

theorem bigModExp_correct_witness:
  "bigModExp_Run (modexp_input [3] [4] [0, 50]) = Inr (Inr [0, 31])"
  using bigModExp_correct [of "[3]" "[4]" "[0, 50]"] by (simp add: be_val_def be_fixed_numeral)

lemma mult_complexity_square: "0 \<le> x \<Longrightarrow> x * x \<le> 16 * mult_complexity x + 15 \<and> (0 < x \<longrightarrow> 0 < mult_complexity x)"
proof -
  assume x: "0 \<le> x"
  have "0 \<le> x * x" by simp
  then have d: "x * x \<le> 16 * (x * x div 16) + 15" "x * x \<le> 4 * (x * x div 4) + 3" "0 \<le> x * x div 4" "0 \<le> x * x div 16"
    by presburger+
  show ?thesis using x d by (auto simp: mult_complexity_def)
qed

lemma modexp_lengths_nonneg: "modexp_lengths input = Inr (b, e, m) \<Longrightarrow> 0 \<le> b \<and> 0 \<le> e \<and> 0 \<le> m"
  by (auto simp: modexp_lengths_def res_bind_eq_Inr_iff)

text \<open>What the price says about the lengths: the numbers before the division by 20.\<close>

lemma modexp_price:
  assumes l: "modexp_lengths input = Inr (b, e, m)" and g: "bigModExp_RequiredGas input = Inr g" "g \<noteq> - 1"
  obtains a where "1 \<le> a" "8 * (e - 32) \<le> a" "mult_complexity (BigMax m b) * a \<le> 20 * uint g + 19"
    "0 \<le> mult_complexity (BigMax m b)"
proof -
  obtain h where gas: "g = (if BitLen (mult_complexity (BigMax m b) * BigMax (adjusted_exponent e h) 1 div 20) > 64 then - 1
      else big_Uint64 (mult_complexity (BigMax m b) * BigMax (adjusted_exponent e h) 1 div 20))"
    using g(1) unfolding bigModExp_RequiredGas_def l by (auto simp: Let_def res_bind_eq_Inr_iff)
  let ?a = "BigMax (adjusted_exponent e h) 1" and ?c = "mult_complexity (BigMax m b)"
  have nn: "0 \<le> BigMax m b" using modexp_lengths_nonneg [OF l] by (simp add: BigMax_def)
  have c: "0 \<le> ?c" using mult_complexity_square [OF nn] by (cases "BigMax m b = 0") (auto simp: mult_complexity_def)
  have a: "1 \<le> ?a" "8 * (e - 32) \<le> ?a" by (auto simp: BigMax_def adjusted_exponent_def)
  have "0 \<le> ?c * ?a" using c a by simp
  then have q: "0 \<le> ?c * ?a div 20" "?c * ?a \<le> 20 * (?c * ?a div 20) + 19" by presburger+
  have "?c * ?a div 20 < 2 ^ 64" "g = big_Uint64 (?c * ?a div 20)"
    using gas g(2) q(1) BitLen_le_iff [of "?c * ?a div 20" 64] by (auto split: if_splits)
  then have "uint g = ?c * ?a div 20" using q(1) by (simp add: big_Uint64_def uint_word_of_int_eq take_bit_int_eq_self)
  with q(2) a c that show ?thesis by metis
qed

text \<open>
  The price of a modular exponentiation bounds what it answers and reads: with the gas \<open>g\<close>, short of the
  largest number there is, the squares of the lengths of the modulus and of the base are at most \<open>320 (g + 1)\<close>.
\<close>

theorem bigModExp_gas_bounds:
  assumes "modexp_lengths input = Inr (b, e, m)" "bigModExp_RequiredGas input = Inr g" "g \<noteq> - 1"
  shows "m * m \<le> 320 * (uint g + 1) \<and> b * b \<le> 320 * (uint g + 1)"
proof -
  obtain a where a: "1 \<le> a" "mult_complexity (BigMax m b) * a \<le> 20 * uint g + 19" "0 \<le> mult_complexity (BigMax m b)"
    using modexp_price [OF assms] by blast
  have nn: "0 \<le> b" "0 \<le> m" using modexp_lengths_nonneg [OF assms(1)] by simp_all
  have "mult_complexity (BigMax m b) \<le> mult_complexity (BigMax m b) * a" using mult_left_mono [OF a(1,3)] by simp
  then have "mult_complexity (BigMax m b) \<le> 20 * uint g + 19" using a(2) by (rule order_trans)
  moreover have "c \<le> 20 * u + 19 \<Longrightarrow> 16 * c + 15 \<le> 320 * (u + 1)" for c u :: int by simp
  ultimately have c: "16 * mult_complexity (BigMax m b) + 15 \<le> 320 * (uint g + 1)" by blast
  let ?x = "BigMax m b"
  have "0 \<le> ?x" "m \<le> ?x" "b \<le> ?x" using nn by (auto simp: BigMax_def)
  then have "m * m \<le> ?x * ?x" "b * b \<le> ?x * ?x" "?x * ?x \<le> 16 * mult_complexity ?x + 15"
    using nn mult_complexity_square by (auto intro: mult_mono)
  with c show ?thesis by linarith
qed

theorem bigModExp_gas_bounds_witness:
  "bigModExp_RequiredGas (modexp_input [3] [4] [0, 50]) = Inr 0 \<and> 2 * 2 \<le> 320 * (uint (0 :: u64) + 1)"
proof -
  have g: "bigModExp_RequiredGas (modexp_input [3] [4] [0, 50]) = Inr 0" by code_simp
  moreover have "modexp_lengths (modexp_input [3] [4] [0, 50]) = Inr (1, 1, 2)"
    using modexp_input_lengths(1) [of "[3]" "[4]" "[0, 50]"] by simp
  ultimately show ?thesis using bigModExp_gas_bounds [of "modexp_input [3] [4] [0, 50]" 1 1 2 0] by simp
qed

section \<open>No panic\<close>

declare pairing_points.simps [simp del]

lemma unat_less_uint: "unat (x :: u64) < 2 ^ 46 \<Longrightarrow> uint x < 2 ^ 46"
proof -
  assume "unat x < 2 ^ 46"
  then have "int (unat x) < int (2 ^ 46)" by (simp only: of_nat_less_iff)
  then show ?thesis by simp
qed

lemma pairing_points_total:
  "length input = 192 * n \<Longrightarrow> i = 192 * k \<Longrightarrow> \<exists>r. pairing_points K input i cs ts = Inr r"
proof (induction K input i cs ts arbitrary: k rule: pairing_points.induct)
  case (1 K input i cs ts)
  show ?case
  proof (cases "i < length input")
    case True
    then have "i + 192 \<le> length input" using "1.prems" by simp
    moreover have "i + 192 = 192 * (k + 1)" using "1.prems"(2) by simp
    moreover have "subslice i (i + 64) input = Inr (take 64 (drop i input))"
      "subslice (i + 64) (i + 192) input = Inr (take 128 (drop (i + 64) input))" using calculation(1) by (simp_all add: subslice_def)
    ultimately show ?thesis using True "1.IH" [OF True _ _ _ _ "1.prems"(1), where k = "k + 1"]
      by (subst pairing_points.simps) (cases "g1Unmarshal K (take 64 (drop i input))";
        cases "g2Unmarshal K (take 128 (drop (i + 64) input))"; simp)
  qed (subst pairing_points.simps, simp)
qed

lemma ecrecover_total: "(\<forall>h s. recoverPubkey K h s \<noteq> Some []) \<Longrightarrow> \<exists>r. ecrecover_Run K input = Inr r"
  by (auto simp: ecrecover_Run_def Let_def subslice_def RightPad_eq LeftPad_eq split: option.split list.split)

lemma bigModExp_total:
  assumes g: "bigModExp_RequiredGas input = Inr g" "unat g < 2 ^ 46" and len: "length input < 2 ^ 60"
  shows "\<exists>r. bigModExp_Run input = Inr r"
proof -
  obtain b e m where l: "modexp_lengths input = Inr (b, e, m)"
    using g(1) unfolding bigModExp_RequiredGas_def by (cases "modexp_lengths input") auto
  have "g \<noteq> - 1" using g(2) by auto
  then obtain a where a: "1 \<le> a" "8 * (e - 32) \<le> a" "mult_complexity (BigMax m b) * a \<le> 20 * uint g + 19"
    "0 \<le> mult_complexity (BigMax m b)" using modexp_price [OF l g(1)] by metis
  have nn: "0 \<le> b" "0 \<le> e" "0 \<le> m" using modexp_lengths_nonneg [OF l] by simp_all
  have G: "uint g < 2 ^ 46" using g(2) by (rule unat_less_uint)
  show ?thesis
  proof (cases "b = 0 \<and> m = 0")
    case True
    then show ?thesis by (simp add: bigModExp_Run_def l big_Uint64_def)
  next
    case False
    have sq: "m * m \<le> 320 * (uint g + 1)" "b * b \<le> 320 * (uint g + 1)"
      using bigModExp_gas_bounds [OF l g(1) \<open>g \<noteq> - 1\<close>] by simp_all
    have small: "x < 2 ^ 48" if "x * x \<le> 320 * (uint g + 1)" "0 \<le> x" for x :: int
    proof (rule ccontr)
      assume "\<not> x < 2 ^ 48"
      then have "2 ^ 48 * 2 ^ 48 \<le> x * x" by (intro mult_mono) auto
      with that(1) G show False by simp
    qed
    have "0 < BigMax m b" using False nn by (auto simp: BigMax_def)
    then have "1 \<le> mult_complexity (BigMax m b)" using mult_complexity_square [of "BigMax m b"] by linarith
    then have "1 * a \<le> mult_complexity (BigMax m b) * a" using a(1) by (intro mult_right_mono) simp_all
    then have "a \<le> 20 * uint g + 19" using a(3) by simp
    moreover have "8 * (x - 32) \<le> y \<Longrightarrow> y \<le> 20 * u + 19 \<Longrightarrow> u < 2 ^ 46 \<Longrightarrow> x < 2 ^ 48" for x y u :: int by simp
    ultimately have e: "e < 2 ^ 48" using a(2) G by blast
    have rest: "length (modexp_rest input) < 2 ^ 63" using len by (simp add: modexp_rest_def less_imp_diff_less)
    have u: "unat (big_Uint64 x) \<le> 2 ^ 48" if "0 \<le> x" "x < 2 ^ 48" for x :: int
      using that by (simp add: unat_big_Uint64 nat_le_iff)
    note fits = u [OF nn(1) small [OF sq(2) nn(1)]] u [OF nn(3) small [OF sq(1) nn(3)]] u [OF nn(2) e]
    have "int (unat (big_Uint64 m)) \<le> int (2 ^ 48)" using fits(2) by (simp only: of_nat_le_iff)
    then have "sint (big_Uint64 m) \<le> 2 ^ 48" using fits(2) by (subst sint_small) simp_all
    then have "LeftPadBytes c (sint (big_Uint64 m)) = Inr (replicate (nat (sint (big_Uint64 m)) - length c) 0 @ c)" for c
      by (rule LeftPad_eq)
    then show ?thesis using fits by (simp add: bigModExp_Run_def l Let_def getData_eq [OF rest])
  qed
qed

text \<open>
  C28. A precompiled contract whose price is below \<open>2 ^ 46\<close> does not panic, on whatever input shorter than
  \<open>2 ^ 60\<close> bytes, provided the library that recovers public keys never answers with an empty one.  The bound is
  that of the runtime: a dearer modular exponentiation can ask for more than the \<open>2 ^ 48\<close> bytes it can allocate.
\<close>

theorem precompiles_total:
  assumes p: "active_precompiles K config number a = Some p" and key: "\<forall>h s. recoverPubkey K h s \<noteq> Some []"
    and len: "length input < 2 ^ 60" and g: "RequiredGas p input = Inr g" "unat g < 2 ^ 46"
  shows "\<exists>r. pcRun p input = Inr r"
proof -
  have d: "\<exists>d. getData input x n = Inr d" if "unat n \<le> 2 ^ 48" for x n
    using getData_eq [of input n x] len that by simp
  have "\<exists>r. pcRun (bn256Add_contract K) input = Inr r" "\<exists>r. pcRun (bn256ScalarMul_contract K) input = Inr r"
    using d [of 64 0] d [of 64 64] d [of 32 64]
    by (auto simp: bn256Add_contract_def bn256ScalarMul_contract_def try_point_def split: sum.split)
  moreover have "\<exists>r. pcRun (bn256Pairing_contract K) input = Inr r"
    using pairing_points_total [of input "length input div 192" 0 0 K "[]" "[]"]
    by (auto simp: bn256Pairing_contract_def bn256Pairing_Run_def try_point_def split: sum.split prod.split)
  moreover have "\<exists>r. pcRun (ecrecover_contract K) input = Inr r" using ecrecover_total [OF key] by (simp add: ecrecover_contract_def)
  ultimately show ?thesis using p g bigModExp_total [OF _ _ len]
    by (auto simp: active_precompiles_def PrecompiledContractsHomestead_def PrecompiledContractsByzantium_def
        sha256hash_contract_def ripemd160hash_contract_def dataCopy_contract_def bigModExp_contract_def LeftPad_eq split: if_splits)
qed

text \<open>Hash functions and a curve for the examples: the curve has one point.\<close>

definition sample_crypto :: "(unit, unit) crypto" where
  "sample_crypto = \<lparr>sha256 = (\<lambda>b. replicate 32 0), ripemd160 = (\<lambda>b. replicate 20 0), crKeccak = (\<lambda>b. word_of_nat (length b)),
     recoverPubkey = (\<lambda>h s. Some (4 # h @ h)), g1Unmarshal = (\<lambda>b. Inr ()), g2Unmarshal = (\<lambda>b. Inr ()),
     g1Marshal = (\<lambda>_. replicate 64 0), g1Add = (\<lambda>_ _. ()), g1Mult = (\<lambda>_ _. ()), PairingCheck = (\<lambda>_ _. True)\<rparr>"

theorem precompiles_total_witness:
  "\<exists>r. bn256Pairing_Run sample_crypto (replicate 384 7) = Inr r"
proof -
  have "active_precompiles sample_crypto MainnetChainConfig 1 8 = Some (bn256Pairing_contract sample_crypto)"
    by (simp add: active_precompiles_def PrecompiledContractsByzantium_def isForked_def MainnetChainConfig_def)
  then show ?thesis
    using precompiles_total [of sample_crypto MainnetChainConfig 1 8 "bn256Pairing_contract sample_crypto" "replicate 384 7" 260000]
    by (simp add: sample_crypto_def bn256Pairing_contract_def)
qed

text \<open>A machine with these contracts only stops for lack of fuel when its fuel is spent.\<close>

lemma pairing_points_no_fuel: "pairing_points K input i cs ts \<noteq> Inl NoFuel"
proof (induction K input i cs ts rule: pairing_points.induct)
  case (1 K input i cs ts)
  then show ?case
    by (subst pairing_points.simps) (auto simp: res_bind_no_fuel split: sum.split)
qed

lemma getData_no_fuel [simp]: "getData d x n \<noteq> Inl NoFuel"
  by (simp add: getData_def Let_def res_bind_no_fuel)

lemma modexp_no_fuel: "bigModExp_RequiredGas input \<noteq> Inl NoFuel" "bigModExp_Run input \<noteq> Inl NoFuel"
  by (auto simp: bigModExp_RequiredGas_def bigModExp_Run_def modexp_lengths_def res_bind_no_fuel Let_def split: if_splits)

lemma try_point_no_fuel: "try_point r f = Inl NoFuel \<longleftrightarrow> (\<exists>p. r = Inr p \<and> f p = Inl NoFuel)"
  by (simp add: try_point_def split: sum.split)

lemma ecrecover_no_fuel: "ecrecover_Run K input \<noteq> Inl NoFuel"
  by (auto simp: ecrecover_Run_def Let_def res_bind_no_fuel split: option.splits list.splits)

lemma precompiles_no_fuel:
  "active_precompiles K config number a = Some p \<Longrightarrow> RequiredGas p i \<noteq> Inl NoFuel \<and> pcRun p i \<noteq> Inl NoFuel"
  using pairing_points_no_fuel [of K i 0 "[]" "[]"]
  by (auto simp: active_precompiles_def PrecompiledContractsHomestead_def PrecompiledContractsByzantium_def
      sha256hash_contract_def ripemd160hash_contract_def dataCopy_contract_def bigModExp_contract_def ecrecover_contract_def
      ecrecover_no_fuel bn256Add_contract_def bn256ScalarMul_contract_def bn256Pairing_contract_def bn256Pairing_Run_def
      try_point_no_fuel Let_def res_bind_no_fuel modexp_no_fuel split: if_splits)

end
