(* ===== verification/Core_Bloom.thy ===== *)
theory Core_Bloom
  imports Block_Interface RLP_Raw Sample_Store
begin

text \<open>
  The bloom filter over logs: \<open>src/sdag/core/types/bloom9.go\<close>.  Keccak is an argument.  A \<open>Bloom\<close> is the
  2048-bit word its 256 bytes spell; the code computes on \<open>big.Int\<close>, which are nonnegative here.
\<close>

section \<open>The filter\<close>

definition BytesToBloom :: "bytes \<Rightarrow> err + 2048 word" where
  "BytesToBloom b = (if length b > 256 then Inl Panic else Inr (word_of_nat (be_val b)))"

abbreviation Bloom_Big :: "2048 word \<Rightarrow> int" where "Bloom_Big b \<equiv> uint b"

text \<open>Three times eleven bits of the hash name the bits of an entry.\<close>

definition bloom_bit :: "bytes \<Rightarrow> nat \<Rightarrow> nat" where
  "bloom_bit h i = (unat (h ! (i + 1)) + unat (h ! i) * 2 ^ 8) mod 2048"

definition bloom9 :: "(bytes \<Rightarrow> hash) \<Rightarrow> bytes \<Rightarrow> int" where
  "bloom9 K b =
     (let h = hash_bytes (K b) in foldl (\<lambda>r i. r OR push_bit (bloom_bit h i) 1) 0 [0, 2, 4])"

definition LogsBloom :: "(bytes \<Rightarrow> hash) \<Rightarrow> Log list \<Rightarrow> int" where
  "LogsBloom K logs =
     foldl (\<lambda>bin l. foldl (\<lambda>bin t. bin OR bloom9 K (hash_bytes t)) (bin OR bloom9 K (address_bytes (logAddress l))) (Topics l))
       0 logs"

definition CreateBloom :: "(bytes \<Rightarrow> hash) \<Rightarrow> Receipt list \<Rightarrow> err + 2048 word" where
  "CreateBloom K receipts =
     BytesToBloom (be_min (nat (foldl (\<lambda>bin r. bin OR LogsBloom K (Logs r)) 0 receipts)))"

definition Bloom_Add :: "(bytes \<Rightarrow> hash) \<Rightarrow> int \<Rightarrow> 2048 word \<Rightarrow> err + 2048 word" where
  "Bloom_Add K d b = BytesToBloom (be_min (nat (uint b OR bloom9 K (be_min (nat \<bar>d\<bar>)))))"

definition BloomLookup :: "(bytes \<Rightarrow> hash) \<Rightarrow> 2048 word \<Rightarrow> bytes \<Rightarrow> bool" where
  "BloomLookup K bin topic = (Bloom_Big bin AND bloom9 K topic = bloom9 K topic)"

definition Bloom_Test :: "(bytes \<Rightarrow> hash) \<Rightarrow> 2048 word \<Rightarrow> int \<Rightarrow> bool" where
  "Bloom_Test K b test = BloomLookup K b (be_min (nat \<bar>test\<bar>))"

definition Bloom_TestBytes :: "(bytes \<Rightarrow> hash) \<Rightarrow> 2048 word \<Rightarrow> bytes \<Rightarrow> bool" where
  "Bloom_TestBytes K b test = Bloom_Test K b (int (be_val test))"

section \<open>No entry is missed\<close>

text \<open>Sets of bits below 2048, ordered by inclusion.\<close>

definition bits_in :: "int \<Rightarrow> int \<Rightarrow> bool" where
  "bits_in x y \<longleftrightarrow> y AND x = x"

lemma bits_in_iff: "bits_in x y \<longleftrightarrow> (\<forall>n. bit x n \<longrightarrow> bit y n)"
  by (auto simp: bits_in_def bit_eq_iff bit_and_iff)

lemma bits_in_or [simp]: "bits_in x (x OR y)" "bits_in y (x OR y)"
  by (simp_all add: bits_in_iff bit_or_iff)

lemma bits_in_trans: "bits_in x y \<Longrightarrow> bits_in y z \<Longrightarrow> bits_in x z"
  by (simp add: bits_in_iff)

definition bloom_range :: "int \<Rightarrow> bool" where
  "bloom_range x \<longleftrightarrow> take_bit 2048 x = x"

lemma bloom_range_or: "bloom_range x \<Longrightarrow> bloom_range y \<Longrightarrow> bloom_range (x OR y)"
  by (simp add: bloom_range_def take_bit_or)

lemma bloom_range_0 [simp]: "bloom_range 0"
  by (simp add: bloom_range_def)

lemma bloom_range_iff: "bloom_range x \<longleftrightarrow> 0 \<le> x \<and> x < 2 ^ 2048"
  by (simp only: bloom_range_def take_bit_int_eq_self_iff)

lemma bloom_range_bloom9: "bloom_range (bloom9 K b)"
proof -
  have "bloom_range (push_bit (bloom_bit h i) 1)" for h i
  proof -
    have "bloom_bit h i < 2048" by (simp add: bloom_bit_def)
    then have "(2 :: int) ^ bloom_bit h i < 2 ^ 2048" by (rule power_strict_increasing) simp
    then show ?thesis unfolding bloom_range_iff by (simp only: push_bit_eq_mult mult_1) simp
  qed
  then show ?thesis by (simp add: bloom9_def Let_def bloom_range_or)
qed

lemma foldl_or_range: "bloom_range x \<Longrightarrow> (\<And>y. bloom_range (f y)) \<Longrightarrow> bloom_range (foldl (\<lambda>r y. r OR f y) x ys)"
  by (induction ys arbitrary: x) (simp_all add: bloom_range_or)

lemma foldl_or_grow: "bits_in x (foldl (\<lambda>r y. r OR f y) x ys)"
  by (induction ys arbitrary: x) (auto simp: bits_in_iff bit_or_iff)

lemma foldl_or_in: "y \<in> set ys \<Longrightarrow> bits_in (f y) (foldl (\<lambda>r y. r OR f y) x ys)"
proof (induction ys arbitrary: x)
  case (Cons z zs)
  have "bits_in (f z) (foldl (\<lambda>r y. r OR f y) (x OR f z) zs)"
    using bits_in_or(2) foldl_or_grow by (rule bits_in_trans)
  with Cons show ?case by auto
qed simp

text \<open>The bits of one log, so that both loops are of the same form.\<close>

definition log_bits :: "(bytes \<Rightarrow> hash) \<Rightarrow> Log \<Rightarrow> int" where
  "log_bits K l = foldl (\<lambda>bin t. bin OR bloom9 K (hash_bytes t)) (bloom9 K (address_bytes (logAddress l))) (Topics l)"

lemma foldl_or_start: "foldl (\<lambda>r y. r OR f y) (x OR z) ys = x OR foldl (\<lambda>r y. r OR f y) z (ys :: 'a list)" for x z :: int
  by (induction ys arbitrary: z) (simp_all add: or.assoc)

lemma LogsBloom_eq: "LogsBloom K logs = foldl (\<lambda>bin l. bin OR log_bits K l) 0 logs"
  by (simp add: LogsBloom_def log_bits_def foldl_or_start)

lemma log_bits_in:
  "bits_in (bloom9 K (address_bytes (logAddress l))) (log_bits K l)"
  "t \<in> set (Topics l) \<Longrightarrow> bits_in (bloom9 K (hash_bytes t)) (log_bits K l)"
  unfolding log_bits_def by (rule foldl_or_grow) (rule foldl_or_in [where f = "\<lambda>t. bloom9 K (hash_bytes t)"])

lemma log_bits_range: "bloom_range (log_bits K l)"
  unfolding log_bits_def by (intro foldl_or_range bloom_range_bloom9)

lemma LogsBloom_range: "bloom_range (LogsBloom K logs)"
  unfolding LogsBloom_eq by (intro foldl_or_range log_bits_range bloom_range_0)

lemma BytesToBloom_int: "bloom_range x \<Longrightarrow> BytesToBloom (be_min (nat x)) = Inr (word_of_int x)"
proof -
  assume x: "bloom_range x"
  have "(2 :: int) ^ (8 * 256) = (2 ^ 8) ^ 256" by (rule power_mult)
  then have "(256 :: int) ^ 256 = 2 ^ 2048" by simp
  then have "nat x < 256 ^ 256" using x unfolding bloom_range_iff by (metis nat_less_iff of_nat_numeral of_nat_power)
  then have "length (be_min (nat x)) \<le> 256" unfolding length_be_min_le_iff .
  moreover have "(word_of_nat (nat x) :: 2048 word) = word_of_int x" using x unfolding bloom_range_iff by (metis of_nat_nat of_int_of_nat_eq)
  ultimately show ?thesis by (simp add: BytesToBloom_def)
qed

lemma uint_bloom: "bloom_range x \<Longrightarrow> uint (word_of_int x :: 2048 word) = x"
  by (simp add: bloom_range_def uint_word_of_int_eq)

text \<open>
  C30. The filter of a list of receipts exists, and finds the address and every topic of every log in them.
\<close>

theorem CreateBloom_finds:
  "\<exists>b. CreateBloom K receipts = Inr b \<and>
     (\<forall>r \<in> set receipts. \<forall>l \<in> set (Logs r). BloomLookup K b (address_bytes (logAddress l)) \<and>
        (\<forall>t \<in> set (Topics l). BloomLookup K b (hash_bytes t)))"
proof -
  let ?x = "foldl (\<lambda>bin r. bin OR LogsBloom K (Logs r)) 0 receipts"
  have x: "bloom_range ?x" by (intro foldl_or_range LogsBloom_range bloom_range_0)
  then have b: "CreateBloom K receipts = Inr (word_of_int ?x)" by (simp add: CreateBloom_def BytesToBloom_int)
  have "BloomLookup K (word_of_int ?x) topic" if "r \<in> set receipts" "l \<in> set (Logs r)" "bits_in (bloom9 K topic) (log_bits K l)" for r l topic
  proof -
    have "bits_in (log_bits K l) (LogsBloom K (Logs r))" unfolding LogsBloom_eq by (rule foldl_or_in) (rule that(2))
    moreover have "bits_in (LogsBloom K (Logs r)) ?x" by (rule foldl_or_in) (rule that(1))
    ultimately have "bits_in (bloom9 K topic) ?x" using that(3) bits_in_trans by blast
    then show ?thesis by (simp add: BloomLookup_def uint_bloom [OF x] bits_in_def)
  qed
  with b log_bits_in show ?thesis by blast
qed

text \<open>A hash whose first bytes tell the length of what was hashed, and a receipt with one log of account 7.\<close>

definition sample_keccak :: "bytes \<Rightarrow> hash" where
  "sample_keccak b = push_bit 240 (word_of_nat (length b))"

definition sample_receipt :: Receipt where
  "sample_receipt =
     \<lparr>PostState = [], rcStatus = 1, CumulativeGasUsed = 0, Bloom = 0,
      Logs = [\<lparr>logAddress = 7, Topics = [9], logData = [], logBlockNumber = 0, logTxHash = 0, logTxIndex = 0,
               logBlockHash = 0, logIndex = 0, Removed = False\<rparr>],
      rcTxHash = 0, ContractAddress = 0, GasUsed = 0, rcIndex = 0\<rparr>"

theorem CreateBloom_finds_witness:
  "\<exists>b. CreateBloom sample_keccak [sample_receipt] = Inr b \<and>
     BloomLookup sample_keccak b (address_bytes 7) \<and> BloomLookup sample_keccak b (hash_bytes 9)"
  using CreateBloom_finds [of sample_keccak "[sample_receipt]"] by (auto simp: sample_receipt_def)

text \<open>
  \<open>Test\<close> and \<open>TestBytes\<close> go through a \<open>big.Int\<close> and lose the leading zeros that \<open>LogsBloom\<close> hashes: they look
  up another entry for an address or a topic that starts with a zero byte.
\<close>

lemma Bloom_TestBytes_trims: "Bloom_TestBytes K b test = BloomLookup K b (be_min (be_val test))"
  by (simp add: Bloom_TestBytes_def Bloom_Test_def)

text \<open>Adding a number: it is found afterwards, with everything that was found before.\<close>

lemma Bloom_Add_finds:
  "\<exists>b'. Bloom_Add K d b = Inr b' \<and> Bloom_Test K b' d \<and> (\<forall>x. Bloom_Test K b x \<longrightarrow> Bloom_Test K b' x)"
proof -
  let ?x = "uint b OR bloom9 K (be_min (nat \<bar>d\<bar>))"
  have "bloom_range (uint b)" using unsigned_less [of b, where ?'a = int] unfolding bloom_range_iff by simp
  then have x: "bloom_range ?x" by (intro bloom_range_or bloom_range_bloom9)
  then have "Bloom_Add K d b = Inr (word_of_int ?x)" by (simp add: Bloom_Add_def BytesToBloom_int)
  moreover have "bits_in (bloom9 K y) ?x" if "bits_in (bloom9 K y) (uint b)" for y
    using bits_in_trans [OF that bits_in_or(1)] .
  ultimately show ?thesis
    by (auto simp: Bloom_Test_def BloomLookup_def uint_bloom [OF x] simp flip: bits_in_def)
qed

end
