(* ===== verification/Core_Transition.thy ===== *)
theory Core_Transition
  imports EVM_Safety EVM_Precompiles Core_Bloom Accounting
begin

text \<open>
  Applying a contract transaction: \<open>src/sdag/core/state_transition.go\<close>, \<open>state_processor.go\<close>, \<open>gaspool.go\<close>,
  \<open>evm.go\<close> and the message of \<open>types/contract.go\<close>.  \<open>ApplyTransaction\<close> is what the accounting of the main
  chain calls for a block with a payload; its argument \<open>apply_tx\<close> is instantiated here.
\<close>

section \<open>Gas pools\<close>

definition AddGas :: "u64 \<Rightarrow> u64 \<Rightarrow> err + u64" where
  "AddGas amount gp = (if gp > - 1 - amount then Inl Panic else Inr (gp + amount))"

definition SubGas :: "u64 \<Rightarrow> u64 \<Rightarrow> (err option) \<times> u64" where
  "SubGas amount gp = (if gp < amount then (Some (Msg ''gas limit reached''), gp) else (None, gp - amount))"

section \<open>Intrinsic gas\<close>

abbreviation (input) TxGasContractCreation :: u64 where "TxGasContractCreation \<equiv> 53000"
abbreviation (input) TxDataNonZeroGas :: u64 where "TxDataNonZeroGas \<equiv> 68"
abbreviation (input) TxDataZeroGas :: u64 where "TxDataZeroGas \<equiv> 4"

definition count_nonzero :: "bytes \<Rightarrow> u64" where
  "count_nonzero data = foldl (\<lambda>nz b. if b \<noteq> 0 then nz + 1 else nz) 0 data"

definition IntrinsicGas :: "bytes \<Rightarrow> bool \<Rightarrow> bool \<Rightarrow> u64 \<times> vm_error option" where
  "IntrinsicGas data contractCreation homestead =
     (let gas = (if contractCreation \<and> homestead then TxGasContractCreation else TxGas) in
      if length data > 0 then
        (let nz = count_nonzero data in
         if (- 1 - gas) div TxDataNonZeroGas < nz then (0, Some ErrOutOfGas)
         else
           (let gas = gas + nz * TxDataNonZeroGas; z = word_of_nat (length data) - nz in
            if (- 1 - gas) div TxDataZeroGas < z then (0, Some ErrOutOfGas)
            else (gas + z * TxDataZeroGas, None)))
      else (gas, None))"

section \<open>The state transition\<close>

record StateTransition =
  stGp :: u64
  stMsg :: Message
  stGas :: u64
  stInitialGas :: u64
  stEVM :: EVM

definition NewStateTransition :: "EVM \<Rightarrow> Message \<Rightarrow> u64 \<Rightarrow> StateTransition" where
  "NewStateTransition ev msg gp = \<lparr>stGp = gp, stMsg = msg, stGas = 0, stInitialGas = 0, stEVM = ev\<rparr>"

definition useGas :: "u64 \<Rightarrow> StateTransition \<Rightarrow> vm_error option \<times> StateTransition" where
  "useGas amount st = (if stGas st < amount then (Some ErrOutOfGas, st) else (None, st\<lparr>stGas := stGas st - amount\<rparr>))"

definition gasUsed :: "StateTransition \<Rightarrow> u64" where
  "gasUsed st = stInitialGas st - stGas st"

definition st_state :: "StateTransition \<Rightarrow> StateDB" where
  "st_state st = statedb (stEVM st)"

definition set_state :: "StateDB \<Rightarrow> StateTransition \<Rightarrow> StateTransition" where
  "set_state s st = st\<lparr>stEVM := (stEVM st)\<lparr>statedb := s\<rparr>\<rparr>"

text \<open>\<open>preCheck\<close>, \<open>buyGas\<close> and \<open>refundGas\<close> are compiled but their calls are commented out.\<close>

definition buyGas :: "hashing \<Rightarrow> StateTransition \<Rightarrow> err option \<times> StateTransition" where
  "buyGas H st =
     (let msg = stMsg st; mgval = int (unat (msg_gasLimit msg)) * msg_gasPrice msg;
          (bal, s) = GetBalance (msg_from msg) (st_state st); st = set_state s st in
      if bal < mgval then (Some (Msg ''insufficient balance to pay for gas''), st)
      else (case SubGas (msg_gasLimit msg) (stGp st) of
              (Some e, _) \<Rightarrow> (Some e, st)
            | (None, gp) \<Rightarrow>
                (None, set_state (SubBalance H (msg_from msg) mgval (st_state st))
                   (st\<lparr>stGp := gp, stGas := stGas st + msg_gasLimit msg, stInitialGas := msg_gasLimit msg\<rparr>))))"

definition preCheck :: "hashing \<Rightarrow> StateTransition \<Rightarrow> err option \<times> StateTransition" where
  "preCheck H st =
     (let msg = stMsg st in
      if msg_checkNonce msg then
        (case GetNonce (msg_from msg) (st_state st) of
           (n, s) \<Rightarrow>
             (let st = set_state s st in
              if n < msg_nonce msg then (Some (Msg ''nonce too high''), st)
              else if n > msg_nonce msg then (Some (Msg ''nonce too low''), st)
              else buyGas H st))
      else buyGas H st)"

definition refundGas :: "hashing \<Rightarrow> StateTransition \<Rightarrow> err + StateTransition" where
  "refundGas H st =
     (let half = gasUsed st div 2;
          back = (if half > refund (st_state st) then refund (st_state st) else half);
          st = st\<lparr>stGas := stGas st + back\<rparr>;
          remaining = int (unat (stGas st)) * msg_gasPrice (stMsg st);
          st = set_state (AddBalance H (msg_from (stMsg st)) remaining (st_state st)) st
      in res_bind (AddGas (stGas st) (stGp st)) (\<lambda>gp. Inr (st\<lparr>stGp := gp\<rparr>)))"

text \<open>The result is the data, the gas used, whether the execution failed, and an error.\<close>

type_synonym transition_result = "err + (bytes \<times> u64 \<times> bool \<times> vm_error option) \<times> StateTransition"

text \<open>Running the message: a creation, or a call after raising the sender's nonce.\<close>

definition run_message :: "machine \<Rightarrow> runner \<Rightarrow> StateTransition \<Rightarrow> err + (bytes \<times> u64 \<times> vm_error option) \<times> EVM" where
  "run_message W run st =
     (let msg = stMsg st; sender = AccountRef (msg_from msg) in
      case msg_to msg of
        None \<Rightarrow>
          res_bind (vm_Create W run sender (msg_data msg) (stGas st) (msg_amount msg) (stEVM st))
            (\<lambda>((ret, _, gas, e), ev). Inr ((ret, gas, e), ev))
      | Some a \<Rightarrow>
          (case GetNonce (msg_from msg) (st_state st) of
             (n, s) \<Rightarrow>
               vm_Call W run sender a (msg_data msg) (stGas st) (msg_amount msg)
                 ((stEVM st)\<lparr>statedb := SetNonce (vmH W) (msg_from msg) (n + 1) s\<rparr>)))"

definition TransitionDb :: "machine \<Rightarrow> runner \<Rightarrow> StateTransition \<Rightarrow> transition_result" where
  "TransitionDb W run st =
     (let st = st\<lparr>stGas := stGp st, stInitialGas := stGp st\<rparr>; msg = stMsg st in
      case IntrinsicGas (msg_data msg) (msg_to msg = None) (IsHomestead W) of
        (_, Some e) \<Rightarrow> Inr (([], 0, False, Some e), st)
      | (gas, None) \<Rightarrow>
          (case useGas gas st of
             (Some e, st) \<Rightarrow> Inr (([], 0, False, Some e), st)
           | (None, st) \<Rightarrow>
               res_bind (run_message W run st) (\<lambda>((ret, gas, vmerr), ev).
                 let st = st\<lparr>stGas := gas, stEVM := ev\<rparr> in
                 if vmerr = Some ErrInsufficientBalance then Inr (([], 0, False, vmerr), st)
                 else Inr ((ret, gasUsed st, vmerr \<noteq> None, None), st))))"

definition ApplyMessage :: "machine \<Rightarrow> runner \<Rightarrow> EVM \<Rightarrow> Message \<Rightarrow> u64 \<Rightarrow> transition_result" where
  "ApplyMessage W run ev msg gp = TransitionDb W run (NewStateTransition ev msg gp)"

section \<open>The context\<close>

text \<open>
  What stays the same for every transaction: the rules, the switches of \<open>vm.Config\<close>, the hash functions, the
  precompiled contracts, and the order in which Go happens to range over the dirty accounts of a state.
\<close>

record vm_setup =
  suConfig :: ChainConfig
  suNoRecursion :: bool
  suPreimages :: bool
  suHash :: hashing
  suKeccak :: "bytes \<Rightarrow> hash"
  suPrecompiles :: "ChainConfig \<Rightarrow> int \<Rightarrow> address \<Rightarrow> precompiled option"
  suOrder :: "StateDB \<Rightarrow> address list"

text \<open>\<open>chain\<close> is \<open>GetMainBlock\<close> of the chain context, which may panic.\<close>

definition GetHashFn_of :: "env \<Rightarrow> (u64 \<Rightarrow> err + Block option) \<Rightarrow> u64 \<Rightarrow> err + hash" where
  "GetHashFn_of E chain n =
     res_bind (chain n) (\<lambda>b. case b of Some b \<Rightarrow> Inr (fst (GetHash E b)) | None \<Rightarrow> Inr 0)"

definition NewEVMContext :: "env \<Rightarrow> vm_setup \<Rightarrow> (u64 \<Rightarrow> err + Block option) \<Rightarrow> Message \<Rightarrow> TxBlock \<Rightarrow> address \<Rightarrow> machine" where
  "NewEVMContext E U chain msg tx author =
     (let number = int (unat (ConfirmItsNumber (txInfo tx))) in
      \<lparr>GetHashFn = GetHashFn_of E chain, Origin = msg_from msg, vmGasPrice = msg_gasPrice msg, Coinbase = author,
       vmGasLimit = GasLimit (txHeader tx), BlockNumber = number, vmTime = int (unat (BTime (txHeader tx))),
       Difficulty = fst (TxBlock_GetDiff E tx), chainConfig = suConfig U, NoRecursion = suNoRecursion U,
       EnablePreimageRecording = suPreimages U, vmH = suHash U, vmKeccak = suKeccak U,
       precompiles = suPrecompiles U (suConfig U) number\<rparr>)"

definition NewEVM :: "StateDB \<Rightarrow> EVM" where
  "NewEVM s = \<lparr>statedb = s, depth = 0, callGasTemp = 0, readOnly = False, returnData = [], jumpdests = Map.empty\<rparr>"

section \<open>Applying a transaction\<close>

text \<open>The texts of the two errors a transition reports; the others stay inside the virtual machine.\<close>

fun core_error :: "vm_error \<Rightarrow> err" where
  "core_error ErrOutOfGas = Msg ''out of gas''"
| "core_error ErrInsufficientBalance = Msg ''insufficient balance for transfer''"
| "core_error _ = Msg ''vm error''"

definition GetLogs :: "hash \<Rightarrow> StateDB \<Rightarrow> Log list" where
  "GetLogs h s = (case logs s h of None \<Rightarrow> [] | Some ls \<Rightarrow> ls)"

text \<open>The pending changes are moved to the trie, with its root in the receipt before the byzantium rules.\<close>

definition settle :: "machine \<Rightarrow> vm_setup \<Rightarrow> StateDB \<Rightarrow> err + bytes \<times> StateDB" where
  "settle W U s =
     (if IsByzantium W then res_bind (Finalise (vmH W) (suOrder U s) True s) (\<lambda>s. Inr ([], s))
      else res_bind (IntermediateRoot (vmH W) (suOrder U s) (IsEIP158 W) s) (\<lambda>(root, s). Inr (hash_bytes root, s)))"

definition make_receipt :: "env \<Rightarrow> machine \<Rightarrow> Message \<Rightarrow> TxBlock \<Rightarrow> u64 \<Rightarrow> bytes \<Rightarrow> bool \<Rightarrow> u64 \<Rightarrow> u64 \<Rightarrow> StateDB \<Rightarrow> err + Receipt" where
  "make_receipt E W msg tx n root failed usedGas gas s =
     (let h = fst (TxBlock_GetHash E tx);
          r = (NewReceipt root failed usedGas)\<lparr>rcTxHash := h, GasUsed := gas\<rparr>;
          r = (if msg_to msg = None then r\<lparr>ContractAddress := CreateAddress (vmKeccak W) (msg_from msg) n\<rparr> else r);
          r = r\<lparr>Logs := GetLogs h s\<rparr>
      in res_bind (CreateBloom (vmKeccak W) [r]) (\<lambda>b. Inr (r\<lparr>Bloom := b\<rparr>)))"

definition ApplyTransaction ::
    "nat \<Rightarrow> env \<Rightarrow> vm_setup \<Rightarrow> (u64 \<Rightarrow> err + Block option) \<Rightarrow> u64 \<Rightarrow> apply_tx" where
  "ApplyTransaction fuel E U chain usedGas author gp tx s =
     (case TxBlock_AsMessage E tx of
        ((Some e, _), _) \<Rightarrow> Inr ((None, 0, Some e), s)
      | ((None, msg), tx) \<Rightarrow>
          (let (n, s) = GetNonce (msg_from msg) s;
               W = NewEVMContext E U chain msg tx author
           in res_bind (ApplyMessage W (Run fuel W) (NewEVM s) msg gp) (\<lambda>((_, gas, failed, e), st).
                case e of
                  Some e \<Rightarrow> Inr ((None, 0, Some (core_error e)), st_state st)
                | None \<Rightarrow>
                    res_bind (settle W U (st_state st)) (\<lambda>(root, s).
                      res_bind (make_receipt E W msg tx n root failed (usedGas + gas) gas s) (\<lambda>r.
                        Inr ((Some r, gas, None), s))))))"

text \<open>As the accounting calls it, with the main chain as the context and a counter that starts at zero.\<close>

definition contract_apply :: "nat \<Rightarrow> env \<Rightarrow> vm_setup \<Rightarrow> (u64 \<Rightarrow> err + Block option) \<Rightarrow> apply_tx" where
  "contract_apply fuel E U chain = ApplyTransaction fuel E U chain 0"

section \<open>Settling creates no money\<close>

definition addressed :: "StateDB \<Rightarrow> bool" where
  "addressed s \<longleftrightarrow> (\<forall>a obj. stateObjects s a = Some obj \<longrightarrow> soAddress obj = a)"

lemma good_addressed: "good s \<Longrightarrow> addressed s"
  by (simp add: good_def sdb_inv_def addressed_def)

lemma updateRoot_sel:
  "soAddress (updateRoot H st obj) = soAddress obj" "deleted (updateRoot H st obj) = deleted obj"
  "Balance (soData (updateRoot H st obj)) = Balance (soData obj)"
  by (simp_all add: updateRoot_def updateTrie_def getTrie_def Let_def split: option.split)

lemma balance_objects:
  "balance H s a = (case stateObjects s a of
     Some obj \<Rightarrow> if deleted obj then 0 else Balance (soData obj)
   | None \<Rightarrow> (case load_account (strie s) a of None \<Rightarrow> 0 | Some d \<Rightarrow> Balance d))"
  by (simp add: balance_def acct_view_def base_view_def obj_view_def newObject_def split: option.split)

lemma finalise_step_settles:
  assumes ad: "addressed s" and f: "finalise_step H d a s = Inr t"
  shows "addressed t \<and> logs t = logs s \<and> (\<forall>x. balance H t x = balance H s x \<or> balance H t x = 0)"
proof (cases "stateObjects s a")
  case (Some obj)
  then have sa: "soAddress obj = a" using ad by (simp add: addressed_def)
  have ld: "load_account ((strie s)(a := v)) x = load_account (strie s) x" if "x \<noteq> a" for x v
    using that by (simp add: load_account_def)
  show ?thesis
  proof (cases "suicided obj \<or> d \<and> so_empty H obj")
    case True
    with f Some have t: "t = (deleteStateObject obj s)\<lparr>stateObjectsDirty := insert a (stateObjectsDirty (deleteStateObject obj s))\<rparr>"
      by (simp add: finalise_step_def)
    show ?thesis using ad sa
      by (auto simp: t deleteStateObject_def setStateObject_def addressed_def balance_objects ld split: option.split)
  next
    case False
    define obj' where "obj' = updateRoot H (db s) obj"
    with f Some False obtain bs where t: "t = s\<lparr>stateObjects := (stateObjects s)(soAddress obj' \<mapsto> obj'),
        strie := (strie s)(soAddress obj' \<mapsto> bs), stateObjectsDirty := insert a (stateObjectsDirty t)\<rparr>"
      by (auto simp: finalise_step_def Let_def updateStateObject_def setStateObject_def res_bind_eq_Inr_iff)
    show ?thesis using ad sa Some
      by (subst (1 2 3 4) t) (auto simp: addressed_def balance_objects ld obj'_def updateRoot_sel split: option.split)
  qed
qed (use ad f in \<open>simp add: finalise_step_def\<close>)

lemma fold_finalise_settles:
  "addressed s \<Longrightarrow> fold_res (finalise_step H d) order s = Inr t \<Longrightarrow>
   addressed t \<and> logs t = logs s \<and> (\<forall>x. balance H t x = balance H s x \<or> balance H t x = 0)"
proof (induction order arbitrary: s)
  case (Cons a order)
  then obtain u where u: "finalise_step H d a s = Inr u" "fold_res (finalise_step H d) order u = Inr t"
    by (auto simp: res_bind_eq_Inr_iff)
  from finalise_step_settles [OF Cons.prems(1) u(1)] Cons.IH [OF _ u(2)] show ?case by metis
qed simp

lemma settle_thrifty:
  assumes "good s" "settle W U s = Inr (root, t)"
  shows "thrifty (vmH W) s t" and "logs t = logs s"
proof -
  obtain d u where f: "fold_res (finalise_step (vmH W) d) (suOrder U s) s = Inr u" and t: "t = clearJournalAndRefund u"
    using assms(2) by (auto simp: settle_def Finalise_def IntermediateRoot_def res_bind_eq_Inr_iff split: if_splits)
  have b: "balance (vmH W) t = balance (vmH W) u"
    by (simp add: fun_eq_iff balance_objects t clearJournalAndRefund_def newJournal_def split: option.split)
  have l: "logs t = logs u" by (simp add: t clearJournalAndRefund_def newJournal_def)
  note s = fold_finalise_settles [OF good_addressed [OF assms(1)] f]
  show "logs t = logs s" using s l by simp
  have "balance (vmH W) t x \<le> balance (vmH W) s x \<and> 0 \<le> balance (vmH W) t x" if "solvent (vmH W) s" for x
    using s that unfolding b solvent_def by (metis order_refl)
  then show "thrifty (vmH W) s t"
    by (auto simp: thrifty_def solvent_def total_supply_def intro: sum_mono)
qed

lemma settle_no_fuel: "settle W U s \<noteq> Inl NoFuel"
proof -
  have "fold_res (finalise_step H d) order s \<noteq> Inl NoFuel" for H d order s
  proof (induction order arbitrary: s)
    case (Cons a order)
    then show ?case
      by (auto simp: res_bind_no_fuel finalise_step_def Let_def updateStateObject_def account_bytes_def split: option.splits if_splits sum.splits)
  qed simp
  then show ?thesis by (auto simp: settle_def Finalise_def IntermediateRoot_def res_bind_no_fuel split: if_splits)
qed


section \<open>Intrinsic gas\<close>

lemma count_nonzero_eq: "count_nonzero data = word_of_nat (length (filter (\<lambda>b. b \<noteq> 0) data))"
proof -
  have "foldl (\<lambda>nz b. if b \<noteq> 0 then nz + 1 else nz) n data = n + word_of_nat (length (filter (\<lambda>b. b \<noteq> 0) data))" for n :: u64
    by (induction data arbitrary: n) simp_all
  then show ?thesis by (simp add: count_nonzero_def)
qed

lemma room_iff:
  fixes g k n :: u64
  assumes "k \<noteq> 0"
  shows "(- 1 - g) div k < n \<longleftrightarrow> 2 ^ 64 \<le> unat g + unat n * unat k"
proof -
  have k: "0 < unat k" using assms by (simp add: unat_gt_0)
  have lt: "unat g < 2 ^ 64" by (rule order_less_le_trans [OF u64_unat_less]) simp
  have "unat g \<le> 18446744073709551615" using u64_unat_less [of g] by linarith
  then have "unat (- 1 - g) = 2 ^ 64 - 1 - unat g" by (simp add: unat_sub_if')
  then have "(- 1 - g) div k < n \<longleftrightarrow> (2 ^ 64 - 1 - unat g) div unat k < unat n" by (simp add: word_less_nat_alt unat_div)
  also have "\<dots> \<longleftrightarrow> 2 ^ 64 - 1 - unat g < unat n * unat k" using k by (simp add: div_less_iff_less_mult)
  also have "\<dots> \<longleftrightarrow> 2 ^ 64 \<le> unat g + unat n * unat k" using lt by linarith
  finally show ?thesis .
qed

definition intrinsic_price :: "bytes \<Rightarrow> bool \<Rightarrow> bool \<Rightarrow> nat" where
  "intrinsic_price data creation homestead =
     (if creation \<and> homestead then 53000 else 21000) +
     68 * length (filter (\<lambda>b. b \<noteq> 0) data) + 4 * length (filter (\<lambda>b. b = 0) data)"

text \<open>
  C29. The intrinsic gas is the base price and the price of every byte, added without wrapping around: the two
  checks refuse exactly the data whose price does not fit 64 bits.
\<close>

theorem IntrinsicGas_exact:
  assumes "length data < 2 ^ 63"
  shows "IntrinsicGas data creation homestead =
    (if intrinsic_price data creation homestead < 2 ^ 64
     then (word_of_nat (intrinsic_price data creation homestead), None) else (0, Some ErrOutOfGas))"
proof -
  define price where "price = intrinsic_price data creation homestead"
  let ?nz = "length (filter (\<lambda>b. b \<noteq> 0) data)" and ?z = "length (filter (\<lambda>b. b = 0) data)"
  have split: "?nz + ?z = length data" using sum_length_filter_compl [of "\<lambda>b. b \<noteq> 0" data] by simp
  define g where "g = (if creation \<and> homestead then 53000 else 21000 :: u64)"
  define gn where "gn = (if creation \<and> homestead then 53000 else 21000 :: nat)"
  have g: "unat g = gn" "gn \<le> 53000" by (simp_all add: g_def gn_def)
  have nz: "unat (word_of_nat ?nz :: u64) = ?nz" using assms split by (simp add: unsigned_of_nat take_bit_nat_eq_self)
  have z: "word_of_nat (length data) - word_of_nat ?nz = (word_of_nat ?z :: u64)" by (simp flip: split)
  have uz: "unat (word_of_nat ?z :: u64) = ?z" using assms split by (simp add: unsigned_of_nat take_bit_nat_eq_self)
  have price: "price = gn + 68 * ?nz + 4 * ?z" by (simp add: price_def intrinsic_price_def gn_def)
  have "IntrinsicGas data creation homestead = (if price < 2 ^ 64 then (word_of_nat price, None) else (0, Some ErrOutOfGas))"
  proof (cases "data = []")
    case True
    then show ?thesis by (simp add: IntrinsicGas_def price g_def gn_def)
  next
    case False
    show ?thesis
    proof (cases "2 ^ 64 \<le> gn + ?nz * 68")
      case True
      then show ?thesis using False
        by (simp add: IntrinsicGas_def count_nonzero_eq room_iff g nz price flip: g_def)
    next
      case nowrap: False
      let ?g1 = "g + word_of_nat ?nz * 68"
      have g1: "unat ?g1 = gn + ?nz * 68" using nowrap by (simp add: unat_word_ariths g nz)
      have eq: "IntrinsicGas data creation homestead =
          (if 2 ^ 64 \<le> unat ?g1 + ?z * 4 then (0, Some ErrOutOfGas) else (?g1 + word_of_nat ?z * 4, None))"
        using False nowrap by (simp add: IntrinsicGas_def count_nonzero_eq room_iff g nz z uz flip: g_def)
      have "g = word_of_nat gn" by (simp add: g_def gn_def)
      then have sum: "?g1 + word_of_nat ?z * 4 = word_of_nat price" by (simp add: price algebra_simps)
      have limit: "2 ^ 64 \<le> gn + ?nz * 68 + ?z * 4 \<longleftrightarrow> \<not> price < 2 ^ 64" by (simp add: price mult.commute not_less)
      show ?thesis unfolding eq g1 sum limit by simp
    qed
  qed
  then show ?thesis by (simp add: price_def)
qed

theorem IntrinsicGas_exact_witness: "IntrinsicGas [0, 1, 2] True True = (53140, None)"
  using IntrinsicGas_exact [of "[0, 1, 2]" True True] by (simp add: intrinsic_price_def)


end
