(* ===== verification/Core_Apply.thy ===== *)
theory Core_Apply
  imports Core_Transition
begin

text \<open>
  What applying a transaction may do: it ends, it charges between the intrinsic gas and the gas pool, and it
  creates no money.
\<close>

section \<open>Running the message\<close>

lemma CreateBloom_no_fuel: "CreateBloom K rs \<noteq> Inl NoFuel"
  by (simp add: CreateBloom_def BytesToBloom_def)

lemma run_message_pays:
  assumes W: "fuel_free W" and fuel: "unat (stGas st) < fuel"
  shows "case run_message W (Run fuel W) st of Inl e \<Rightarrow> e \<noteq> NoFuel | Inr ((ret, gas, e), ev) \<Rightarrow> gas \<le> stGas st"
proof (cases "msg_to (stMsg st)")
  case None
  show ?thesis
    using creates_pay(1) [OF runs_below_fuel [OF W] W fuel, of "AccountRef (msg_from (stMsg st))" "msg_data (stMsg st)" "msg_amount (stMsg st)" "stEVM st"]
    by (auto simp: run_message_def Let_def None create_pays_def split: sum.splits)
next
  case (Some a)
  obtain n s where n: "GetNonce (msg_from (stMsg st)) (st_state st) = (n, s)" by fastforce
  show ?thesis
    using calls_pay(1) [OF runs_below_fuel [OF W] W fuel, of "AccountRef (msg_from (stMsg st))" a "msg_data (stMsg st)" "msg_amount (stMsg st)"
        "(stEVM st)\<lparr>statedb := SetNonce (vmH W) (msg_from (stMsg st)) (n + 1) s\<rparr>"]
    by (auto simp: run_message_def Let_def Some n call_pays_def split: sum.splits)
qed

lemma run_message_frugal:
  assumes W: "fuel_free W" and price: "0 \<le> vmGasPrice W" and v: "0 \<le> msg_amount (stMsg st)"
    and s: "sound (vmH W) (st_state st)" and r: "run_message W (Run fuel W) st = Inr (x, ev)"
  shows "frugal (vmH W) True (st_state st) (statedb ev)"
proof (cases "msg_to (stMsg st)")
  case None
  have "vmm.call_world W True (stEVM st)
      (vm_Create W (Run fuel W) (AccountRef (msg_from (stMsg st))) (msg_data (stMsg st)) (stGas st) (msg_amount (stMsg st)) (stEVM st))"
    by (rule vmm.create_world_Create [OF vmm.runs_fuel [OF W]]) (use s v in \<open>simp_all add: st_state_def\<close>)
  then show ?thesis
    using r price unfolding vmm.call_world_def vmm.world_def
    by (auto simp: run_message_def Let_def None st_state_def res_bind_eq_Inr_iff)
next
  case (Some a)
  obtain n s0 where n: "GetNonce (msg_from (stMsg st)) (st_state st) = (n, s0)" by fastforce
  let ?s1 = "SetNonce (vmH W) (msg_from (stMsg st)) (n + 1) s0"
  have s0: "s0 = snd (getStateObject (msg_from (stMsg st)) (st_state st))" using n query_states(2) by (metis snd_conv)
  have f: "frugal (vmH W) True (st_state st) ?s1"
    unfolding s0 by (rule frugal_trans [OF frugal_op [OF vm_op.query] frugal_setters(1)])
  have "vmm.call_world W True ((stEVM st)\<lparr>statedb := ?s1\<rparr>)
      (vm_Call W (Run fuel W) (AccountRef (msg_from (stMsg st))) a (msg_data (stMsg st)) (stGas st) (msg_amount (stMsg st))
        ((stEVM st)\<lparr>statedb := ?s1\<rparr>))"
    by (rule vmm.call_world_Call [OF vmm.runs_fuel [OF W]]) (use sound_frugal [OF s f] v in simp_all)
  then have "frugal (vmH W) True ?s1 (statedb ev)"
    using r price unfolding vmm.call_world_def vmm.world_def by (auto simp: run_message_def Let_def Some n)
  with f show ?thesis by (rule frugal_trans)
qed

section \<open>The transition\<close>

lemma useGas_cases: "useGas g st = (e, st') \<Longrightarrow>
    (if e = None then g \<le> stGas st \<and> st' = st\<lparr>stGas := stGas st - g\<rparr> else st' = st)"
  by (auto simp: useGas_def split: if_splits)

lemma TransitionDb_pays:
  assumes W: "fuel_free W" and fuel: "unat (stGp st) < fuel"
    and ig: "IntrinsicGas (msg_data (stMsg st)) (msg_to (stMsg st) = None) (IsHomestead W) = (ig, ie)"
  shows "case TransitionDb W (Run fuel W) st of
      Inl e \<Rightarrow> e \<noteq> NoFuel
    | Inr ((ret, gas, failed, e), st') \<Rightarrow> (if e = None then ig \<le> gas else gas = 0) \<and> gas \<le> stGp st"
proof (cases ie)
  case None
  let ?st = "st\<lparr>stGas := stGp st, stInitialGas := stGp st\<rparr>"
  obtain e1 st1 where u: "useGas ig ?st = (e1, st1)" by fastforce
  show ?thesis
  proof (cases e1)
    case e1: None
    with useGas_cases [OF u] have st1: "ig \<le> stGp st" "st1 = ?st\<lparr>stGas := stGp st - ig\<rparr>" by simp_all
    have le: "stGp st - ig \<le> stGp st" using st1(1) by (simp add: word_le_nat_alt unat_sub)
    with fuel st1 have "unat (stGas st1) < fuel" by (simp add: word_le_nat_alt)
    note p = run_message_pays [OF W this]
    show ?thesis
    proof (cases "run_message W (Run fuel W) st1")
      case (Inr x)
      obtain ret left e ev where x: "x = ((ret, left, e), ev)" by (metis prod.collapse)
      with p Inr st1 have left: "left \<le> stGp st - ig" by simp
      then have "ig \<le> stGp st - left" "stGp st - left \<le> stGp st"
        using st1(1) le by (simp_all add: word_le_nat_alt unat_sub)
      moreover have "stInitialGas st1 = stGp st" by (simp add: st1(2))
      ultimately show ?thesis by (simp add: TransitionDb_def Let_def ig None u e1 Inr x gasUsed_def)
    qed (use p in \<open>simp add: TransitionDb_def Let_def ig None u e1\<close>)
  qed (simp add: TransitionDb_def Let_def ig None u)
qed (simp add: TransitionDb_def Let_def ig)

lemma TransitionDb_frugal:
  assumes W: "fuel_free W" and price: "0 \<le> vmGasPrice W" and v: "0 \<le> msg_amount (stMsg st)"
    and s: "sound (vmH W) (st_state st)" and r: "TransitionDb W (Run fuel W) st = Inr (x, st')"
  shows "frugal (vmH W) True (st_state st) (st_state st')"
proof -
  have run: "frugal (vmH W) True (st_state st) (statedb ev)"
    if "run_message W (Run fuel W) (st\<lparr>stInitialGas := g, stGas := g'\<rparr>) = Inr (y, ev)" for g g' y ev
    using run_message_frugal [OF W price _ _ that] v s by (simp add: st_state_def)
  have same: "frugal (vmH W) True (st_state st) (st_state st)" by (simp add: frugal_same)
  show ?thesis
    using r same unfolding TransitionDb_def Let_def
    by (auto simp: res_bind_eq_Inr_iff st_state_def dest!: run [unfolded st_state_def] useGas_cases split: prod.splits option.splits if_splits)
qed

section \<open>The transaction\<close>

lemma TxBlock_GetSender_keeps: "TxBlock_GetSender E tx = (r, tx') \<Longrightarrow> Payload tx' = Payload tx \<and> txHeader tx' = txHeader tx"
  by (auto simp: TxBlock_GetSender_def split: option.splits sum.splits)

lemma AsMessage_sel:
  "TxBlock_AsMessage E tx = ((e, msg), tx') \<Longrightarrow> msg_data msg = Payload tx \<and> msg_gasPrice msg = GasPrice (txHeader tx) \<and>
     msg_amount msg = (case Outs tx of [] \<Rightarrow> 0 | out # _ \<Rightarrow> Amount out)"
  by (auto simp: TxBlock_AsMessage_def Let_def dest: TxBlock_GetSender_keeps split: sum.splits list.splits prod.splits)

lemma NewEVMContext_sel [simp]:
  "vmH (NewEVMContext E U chain msg tx author) = suHash U"
  "vmGasPrice (NewEVMContext E U chain msg tx author) = msg_gasPrice msg"
  by (simp_all add: NewEVMContext_def Let_def)

definition setup_ok :: "vm_setup \<Rightarrow> (u64 \<Rightarrow> err + Block option) \<Rightarrow> bool" where
  "setup_ok U chain \<longleftrightarrow> (\<forall>n. chain n \<noteq> Inl NoFuel) \<and>
     (\<forall>c n a p i. suPrecompiles U c n a = Some p \<longrightarrow> RequiredGas p i \<noteq> Inl NoFuel \<and> pcRun p i \<noteq> Inl NoFuel)"

lemma fuel_free_context: "setup_ok U chain \<Longrightarrow> fuel_free (NewEVMContext E U chain msg tx author)"
  by (auto simp: fuel_free_def setup_ok_def NewEVMContext_def GetHashFn_of_def Let_def res_bind_no_fuel split: option.splits)

text \<open>What a run of \<open>ApplyTransaction\<close> that returns went through.\<close>

lemma ApplyTransaction_cases:
  assumes r: "ApplyTransaction fuel E U chain usedGas author gp tx s = Inr ((r, gas, e), t)"
  obtains msg e' tx' where "TxBlock_AsMessage E tx = ((Some e', msg), tx')" "r = None" "gas = 0" "e \<noteq> None" "t = s"
  | msg tx' n s0 W ret gas' failed e' st where "TxBlock_AsMessage E tx = ((None, msg), tx')" "GetNonce (msg_from msg) s = (n, s0)"
      "W = NewEVMContext E U chain msg tx' author"
      "TransitionDb W (Run fuel W) (NewStateTransition (NewEVM s0) msg gp) = Inr ((ret, gas', failed, Some e'), st)"
      "r = None" "gas = 0" "e \<noteq> None" "t = st_state st"
  | msg tx' n s0 W ret failed st root rc where "TxBlock_AsMessage E tx = ((None, msg), tx')" "GetNonce (msg_from msg) s = (n, s0)"
      "W = NewEVMContext E U chain msg tx' author"
      "TransitionDb W (Run fuel W) (NewStateTransition (NewEVM s0) msg gp) = Inr ((ret, gas, failed, None), st)"
      "settle W U (st_state st) = Inr (root, t)" "make_receipt E W msg tx' n root failed (usedGas + gas) gas t = Inr rc"
      "r = Some rc" "e = None"
  using r unfolding ApplyTransaction_def ApplyMessage_def Let_def
  by (auto simp: res_bind_eq_Inr_iff split: prod.splits option.splits)

lemma make_receipt_gas:
  "make_receipt E W msg tx n root failed used gas s = Inr r \<Longrightarrow> GasUsed r = gas \<and> CumulativeGasUsed r = used \<and>
     rcStatus r = (if failed then 0 else 1)"
  by (auto simp: make_receipt_def Let_def NewReceipt_def res_bind_eq_Inr_iff)

lemma make_receipt_no_fuel: "make_receipt E W msg tx n root failed used gas s \<noteq> Inl NoFuel"
  by (simp add: make_receipt_def Let_def res_bind_no_fuel CreateBloom_no_fuel)

lemma ApplyTransaction_no_fuel:
  assumes ok: "setup_ok U chain" and fuel: "unat gp < fuel"
  shows "ApplyTransaction fuel E U chain usedGas author gp tx s \<noteq> Inl NoFuel"
proof -
  have "TransitionDb W (Run fuel W) (NewStateTransition (NewEVM s0) msg gp) \<noteq> Inl NoFuel"
    if "W = NewEVMContext E U chain msg tx' author" for W s0 msg tx'
  proof -
    let ?st = "NewStateTransition (NewEVM s0) msg gp"
    obtain ig ie where "IntrinsicGas (msg_data (stMsg ?st)) (msg_to (stMsg ?st) = None) (IsHomestead W) = (ig, ie)" by fastforce
    from TransitionDb_pays [OF _ _ this] fuel_free_context [OF ok] fuel that show ?thesis
      by (fastforce simp: NewStateTransition_def)
  qed
  then show ?thesis
    unfolding ApplyTransaction_def ApplyMessage_def Let_def
    by (auto simp: res_bind_no_fuel settle_no_fuel make_receipt_no_fuel split: prod.splits option.splits)
qed

lemma run_message_below:
  "runner_below run run' \<Longrightarrow> below (run_message W run st) (run_message W run' st)"
  unfolding run_message_def Let_def by (intro below_intros below_bind below_refl below_calls below_creates)

lemma TransitionDb_below: "runner_below run run' \<Longrightarrow> below (TransitionDb W run st) (TransitionDb W run' st)"
  unfolding TransitionDb_def Let_def by (intro below_intros below_bind below_refl run_message_below)

lemma ApplyTransaction_below:
  assumes "setup_ok U chain" "fuel \<le> fuel'"
  shows "below (ApplyTransaction fuel E U chain usedGas author gp tx s) (ApplyTransaction fuel' E U chain usedGas author gp tx s)"
  unfolding ApplyTransaction_def ApplyMessage_def Let_def
  by (intro below_intros below_bind below_refl TransitionDb_below runner_below_fuel fuel_free_context assms)

text \<open>
  C7. A contract transaction ends: where the fuel of the model is above the gas pool and the precompiled
  contracts and the chain answer, applying it returns or panics, whatever more fuel there is.  What it charges is never above the pool; a
  transaction with a receipt is charged at least its intrinsic gas, which the receipt records; one with an
  error has no receipt and costs nothing.
\<close>

theorem ApplyTransaction_charges:
  assumes ok: "setup_ok U chain" and fuel: "unat gp < fuel"
    and msg: "TxBlock_AsMessage E tx = ((me, msg), tx')" and W: "W = NewEVMContext E U chain msg tx' author"
  shows "(\<forall>k. ApplyTransaction (fuel + k) E U chain usedGas author gp tx s = ApplyTransaction fuel E U chain usedGas author gp tx s) \<and>
    (case ApplyTransaction fuel E U chain usedGas author gp tx s of
      Inl e \<Rightarrow> e \<noteq> NoFuel
    | Inr ((None, gas, e), t) \<Rightarrow> gas = 0 \<and> e \<noteq> None
    | Inr ((Some r, gas, e), t) \<Rightarrow> e = None \<and> gas \<le> gp \<and> fst (IntrinsicGas (Payload tx) (msg_to msg = None) (IsHomestead W)) \<le> gas \<and>
        GasUsed r = gas \<and> CumulativeGasUsed r = usedGas + gas)"
proof (rule conjI)
  show "\<forall>k. ApplyTransaction (fuel + k) E U chain usedGas author gp tx s = ApplyTransaction fuel E U chain usedGas author gp tx s"
    using ApplyTransaction_below [OF ok] ApplyTransaction_no_fuel [OF ok fuel] unfolding below_def by (metis le_add1)
next
  show "case ApplyTransaction fuel E U chain usedGas author gp tx s of
      Inl e \<Rightarrow> e \<noteq> NoFuel
    | Inr ((None, gas, e), t) \<Rightarrow> gas = 0 \<and> e \<noteq> None
    | Inr ((Some r, gas, e), t) \<Rightarrow> e = None \<and> gas \<le> gp \<and> fst (IntrinsicGas (Payload tx) (msg_to msg = None) (IsHomestead W)) \<le> gas \<and>
        GasUsed r = gas \<and> CumulativeGasUsed r = usedGas + gas"
  proof (cases "ApplyTransaction fuel E U chain usedGas author gp tx s")
    case (Inl e)
    then show ?thesis using ApplyTransaction_no_fuel [OF ok fuel] by force
  next
    case (Inr x)
    obtain r gas e t where x: "x = ((r, gas, e), t)" by (metis prod.collapse)
    show ?thesis
    proof (rule ApplyTransaction_cases [OF Inr [unfolded x]])
      fix m tx0 n s0 V ret failed st root rc
      assume m: "TxBlock_AsMessage E tx = ((None, m), tx0)" and V: "V = NewEVMContext E U chain m tx0 author"
        and tr: "TransitionDb V (Run fuel V) (NewStateTransition (NewEVM s0) m gp) = Inr ((ret, gas, failed, None), st)"
        and rc: "make_receipt E V m tx0 n root failed (usedGas + gas) gas t = Inr rc" and r: "r = Some rc" "e = None"
      have mV: "m = msg" "V = W" using m V msg W by simp_all
      let ?st = "NewStateTransition (NewEVM s0) m gp"
      obtain ig ie where ig: "IntrinsicGas (Payload tx) (msg_to msg = None) (IsHomestead W) = (ig, ie)" by fastforce
      have "IntrinsicGas (msg_data (stMsg ?st)) (msg_to (stMsg ?st) = None) (IsHomestead V) = (ig, ie)"
        using ig AsMessage_sel [OF msg] mV by (simp add: NewStateTransition_def)
      from TransitionDb_pays [OF _ _ this, of fuel] fuel_free_context [OF ok] fuel tr V
      have "ig \<le> gas \<and> gas \<le> gp" by (fastforce simp: NewStateTransition_def)
      with ig make_receipt_gas [OF rc] r show ?thesis by (simp add: Inr x)
    qed (simp_all add: Inr x)
  qed
qed

text \<open>
  C6. A contract transaction creates no money: where nobody owes anything and its price and amounts are not
  negative, nobody owes anything afterwards, and the sum of all balances has not grown.
\<close>

theorem ApplyTransaction_creates_no_money:
  assumes ok: "setup_ok U chain" and price: "0 \<le> GasPrice (txHeader tx)" and amounts: "\<forall>out \<in> set (Outs tx). 0 \<le> Amount out"
    and s: "good s" "solvent (suHash U) s"
    and r: "ApplyTransaction fuel E U chain usedGas author gp tx s = Inr (x, t)"
  shows "solvent (suHash U) t \<and> total_supply (suHash U) t \<le> total_supply (suHash U) s"
proof -
  obtain rcpt gas e where x: "x = (rcpt, gas, e)" by (metis prod.collapse)
  have tr: "good (st_state st) \<and> thrifty (suHash U) s (st_state st)"
    if m: "TxBlock_AsMessage E tx = ((e', m), tx0)" and n: "GetNonce (msg_from m) s = (n, s0)" and V: "V = NewEVMContext E U chain m tx0 author"
      and y: "TransitionDb V (Run fuel V) (NewStateTransition (NewEVM s0) m gp) = Inr (y, st)" for m e' tx0 n s0 V y st
  proof -
    let ?st = "NewStateTransition (NewEVM s0) m gp"
    have s0: "s0 = snd (getStateObject (msg_from m) s)" using n query_states(2) by (metis snd_conv)
    have f: "frugal (suHash U) True s s0" unfolding s0 by (rule frugal_op [OF vm_op.query])
    have "sound (suHash U) s0" using sound_frugal [OF _ f] s by (simp add: sound_def)
    moreover have "0 \<le> msg_amount m" using AsMessage_sel [OF m] amounts by (auto split: list.splits)
    moreover have "0 \<le> vmGasPrice V" using AsMessage_sel [OF m] price by (simp add: V)
    ultimately have "frugal (suHash U) True s0 (st_state st)"
      using TransitionDb_frugal [OF fuel_free_context [OF ok] _ _ _ y [unfolded V]]
      by (simp add: V NewStateTransition_def NewEVM_def st_state_def)
    then have "frugal (suHash U) True s (st_state st)" by (rule frugal_trans [OF f])
    then show ?thesis using s journey_good by (auto simp: frugal_def)
  qed
  show ?thesis
  proof (rule ApplyTransaction_cases [OF r [unfolded x]])
    fix m tx0 n s0 V ret failed st root rc
    assume a: "TxBlock_AsMessage E tx = ((None, m), tx0)" "GetNonce (msg_from m) s = (n, s0)" "V = NewEVMContext E U chain m tx0 author"
        "TransitionDb V (Run fuel V) (NewStateTransition (NewEVM s0) m gp) = Inr ((ret, gas, failed, None), st)"
      and st: "settle V U (st_state st) = Inr (root, t)"
    have "thrifty (suHash U) s t"
      using thrifty_trans settle_thrifty(1) [OF _ st] tr [OF a] by (simp add: a(3)) blast
    with s show ?thesis by (simp add: thrifty_def)
  next
    fix m tx0 n s0 V ret gas' failed e' st
    assume a: "TxBlock_AsMessage E tx = ((None, m), tx0)" "GetNonce (msg_from m) s = (n, s0)" "V = NewEVMContext E U chain m tx0 author"
        "TransitionDb V (Run fuel V) (NewStateTransition (NewEVM s0) m gp) = Inr ((ret, gas', failed, Some e'), st)"
      and t: "t = st_state st"
    from tr [OF a] s show ?thesis by (simp add: t thrifty_def)
  qed (use s in simp)
qed

text \<open>Account 1 sends three of its five coins to the contract at 7, which does nothing.\<close>

definition paying_tx :: TxBlock where
  "paying_tx = \<lparr>txHeader = \<lparr>BType = 1, BTime = 4000, GasPrice = 1, GasLimit = 30000\<rparr>, txLinks = [5], AccountNonce = 0,
     Outs = [\<lparr>Receiver = 7, Amount = 3\<rparr>], Payload = [1], txV = 27, txR = 1, txS = 1, txSender = Some 1,
     txInfo = zeroInfo, txHash = Some 9\<rparr>"

definition sample_setup :: vm_setup where
  "sample_setup = \<lparr>suConfig = MainnetChainConfig, suNoRecursion = False, suPreimages = False, suHash = sample_hashing,
     suKeccak = (\<lambda>b. word_of_nat (length b)), suPrecompiles = (\<lambda>_ _. Map.empty), suOrder = (\<lambda>_. [1, 7])\<rparr>"

lemma sample_setup_ok: "setup_ok sample_setup (\<lambda>_. Inr None)" "suHash sample_setup = sample_hashing"
  by (simp_all add: setup_ok_def sample_setup_def)

definition paying_message :: Message where
  "paying_message = \<lparr>msg_to = Some 7, msg_from = 1, msg_nonce = 0, msg_amount = 3, msg_gasLimit = 30000, msg_gasPrice = 1,
     msg_data = [1], msg_checkNonce = False\<rparr>"

lemma sample_message: "TxBlock_AsMessage E paying_tx = ((None, paying_message), paying_tx)"
  by (simp add: TxBlock_AsMessage_def paying_message_def paying_tx_def TxBlock_GetSender_def)

definition sample_context :: machine where
  "sample_context = NewEVMContext sample_env sample_setup (\<lambda>_. Inr None) paying_message paying_tx 2"

lemma CreateBloom_total: "\<exists>b. CreateBloom K rs = Inr b"
proof -
  have "bloom_range (foldl (\<lambda>bin r. bin OR LogsBloom K (Logs r)) 0 rs)" by (intro foldl_or_range LogsBloom_range bloom_range_0)
  then show ?thesis by (simp add: CreateBloom_def BytesToBloom_int)
qed

lemma make_receipt_total: "\<exists>r. make_receipt E W msg tx n root failed used gas s = Inr r"
proof -
  have "\<exists>r'. res_bind (CreateBloom K [r]) (\<lambda>b. Inr (f b)) = Inr r'" for K r and f :: "2048 word \<Rightarrow> Receipt"
    using CreateBloom_total [of K "[r]"] by auto
  then show ?thesis unfolding make_receipt_def Let_def by (auto split: if_split)
qed

abbreviation sample_apply :: "nat \<Rightarrow> err + (Receipt option \<times> u64 \<times> err option) \<times> StateDB" where
  "sample_apply fuel \<equiv> ApplyTransaction fuel sample_env sample_setup (\<lambda>_. Inr None) 0 2 30000 paying_tx (statedb (sample_with [0]))"

definition outcome_of :: "machine \<Rightarrow> vm_setup \<Rightarrow> transition_result \<Rightarrow> (bytes \<times> u64 \<times> bool \<times> vm_error option \<times> bytes option) option" where
  "outcome_of W U r =
     (case r of
        Inl _ \<Rightarrow> None
      | Inr ((ret, gas, failed, e), st) \<Rightarrow>
          Some (ret, gas, failed, e, (case settle W U (st_state st) of Inl _ \<Rightarrow> None | Inr (root, s) \<Rightarrow> Some root)))"

lemma sample_outcome:
  "outcome_of sample_context sample_setup (TransitionDb sample_context (Run 2 sample_context)
     (NewStateTransition (NewEVM (snd (GetNonce 1 (statedb (sample_with [0]))))) paying_message 30000))
   = Some ([], 21068, False, None, Some [])"
  by code_simp

lemma sample_applied: "\<exists>r t. sample_apply (2 + k) = Inr ((Some r, 21068, None), t)"
proof -
  let ?msg = paying_message and ?s = "statedb (sample_with [0])"
  obtain n s0 where n: "GetNonce 1 ?s = (n, s0)" by fastforce
  obtain st where tr: "TransitionDb sample_context (Run 2 sample_context) (NewStateTransition (NewEVM s0) ?msg 30000) = Inr (([], 21068, False, None), st)"
    and "case settle sample_context sample_setup (st_state st) of Inl _ \<Rightarrow> False | Inr _ \<Rightarrow> True"
    using sample_outcome unfolding n outcome_of_def by (auto split: sum.splits prod.splits)
  then obtain root t where st: "settle sample_context sample_setup (st_state st) = Inr (root, t)" by (auto split: sum.splits)
  obtain r where r: "make_receipt sample_env sample_context ?msg paying_tx n root False (0 + 21068) 21068 t = Inr r"
    using make_receipt_total by blast
  have "msg_from ?msg = 1" by (simp add: paying_message_def)
  then have "sample_apply 2 = Inr ((Some r, 21068, None), t)"
    unfolding ApplyTransaction_def sample_message prod.case option.case Let_def ApplyMessage_def sample_context_def [symmetric]
    by (simp only: n tr st r prod.case option.case res_bind_simps)
  then have "\<exists>r t. sample_apply 2 = Inr ((Some r, 21068, None), t)" by blast
  then show ?thesis
    using ApplyTransaction_below [OF sample_setup_ok(1), of 2 "2 + k" sample_env 0 2 30000 paying_tx "statedb (sample_with [0])"]
    by (auto simp: below_def)
qed

theorem ApplyTransaction_charges_witness:
  "\<exists>r t. sample_apply 30001 = Inr ((Some r, 21068, None), t) \<and> GasUsed r = 21068"
proof -
  obtain r t where r: "sample_apply 30001 = Inr ((Some r, 21068, None), t)" using sample_applied [of 29999] by auto
  have "unat (30000 :: u64) < 30001" by simp
  from ApplyTransaction_charges [OF sample_setup_ok(1) this sample_message refl, of sample_env 0 2 "statedb (sample_with [0])"] r
  show ?thesis by auto
qed

theorem ApplyTransaction_creates_no_money_witness:
  "\<exists>x t. sample_apply 2 = Inr (x, t) \<and> solvent sample_hashing t \<and> total_supply sample_hashing t \<le> 5"
proof -
  obtain x t where r: "sample_apply 2 = Inr (x, t)" using sample_applied [of 0] by auto
  have "0 \<le> GasPrice (txHeader paying_tx)" "\<forall>out \<in> set (Outs paying_tx). 0 \<le> Amount out" by (simp_all add: paying_tx_def)
  from ApplyTransaction_creates_no_money [OF sample_setup_ok(1) this sample_with_ok(1) _ r] sample_with_ok(2,3) [of "[0]"] r
  show ?thesis unfolding sample_setup_ok(2) by (intro exI [of _ x] exI [of _ t]) simp
qed

end
