(* ===== verification/Unique_List.thy ===== *)
theory Unique_List
  imports Chain_Utils "HOL-Library.AList"
begin

text \<open>
  The list without repetitions that holds the unverified blocks: \<open>src/devbase/common/container/uniquelist.go\<close>.
  It is a doubly linked list whose cells live in a map from the elements to their neighbours; the map is an
  association list with one entry for every key.  What it represents is a list of distinct elements.
\<close>

section \<open>The operations\<close>

record 'e Value =
  valPrev :: "'e option"
  valNext :: "'e option"

record 'e UniqueList =
  ulHead :: "'e option"
  ulTail :: "'e option"
  container :: "('e \<times> 'e Value) list"
  ulMaxSize :: int

record 'e Iterator =
  itrElem :: 'e
  itrCur :: "'e Value option"

definition NewUniqueList :: "int \<Rightarrow> 'e UniqueList" where
  "NewUniqueList n = \<lparr>ulHead = None, ulTail = None, container = [], ulMaxSize = n\<rparr>"

definition ul_Len :: "'e UniqueList \<Rightarrow> int" where
  "ul_Len l = int (length (container l))"

definition IsExist :: "'e \<Rightarrow> 'e UniqueList \<Rightarrow> bool" where
  "IsExist e l = (map_of (container l) e \<noteq> None)"

text \<open>Writing a field of the cell of \<open>k\<close>; a missing cell is a nil pointer.\<close>

definition set_cell :: "'e \<Rightarrow> ('e Value \<Rightarrow> 'e Value) \<Rightarrow> 'e UniqueList \<Rightarrow> err + 'e UniqueList" where
  "set_cell k f l =
     (case map_of (container l) k of
        None \<Rightarrow> Inl Panic
      | Some v \<Rightarrow> Inr (l\<lparr>container := AList.update k (f v) (container l)\<rparr>))"

definition Push :: "'e \<Rightarrow> 'e UniqueList \<Rightarrow> err + err option \<times> 'e UniqueList" where
  "Push e l =
     (if ul_Len l \<ge> ulMaxSize l then Inr (Some (Msg ''exceeded container size limit''), l)
      else if IsExist e l then Inr (Some (Msg ''the element has already exist''), l)
      else (case ulHead l of
              None \<Rightarrow>
                Inr (None, l\<lparr>ulHead := Some e, ulTail := Some e,
                             container := AList.update e \<lparr>valPrev = None, valNext = None\<rparr> (container l)\<rparr>)
            | Some _ \<Rightarrow>
                (case ulTail l of
                   None \<Rightarrow> Inl Panic
                 | Some t \<Rightarrow>
                     res_bind (set_cell t (\<lambda>v. v\<lparr>valNext := Some e\<rparr>) l) (\<lambda>l.
                       Inr (None, l\<lparr>ulTail := Some e,
                                    container := AList.update e \<lparr>valPrev = Some t, valNext = None\<rparr> (container l)\<rparr>)))))"

definition ul_Remove :: "'e \<Rightarrow> 'e UniqueList \<Rightarrow> err + 'e UniqueList" where
  "ul_Remove e l =
     (case map_of (container l) e of
        None \<Rightarrow> Inr l
      | Some val \<Rightarrow>
          res_bind
            (if ulHead l = Some e then
               (if length (container l) = 1 then Inr (l\<lparr>ulHead := None, ulTail := None\<rparr>)
                else (let l = l\<lparr>ulHead := valNext val\<rparr> in
                      case valNext val of
                        None \<Rightarrow> Inr l
                      | Some n \<Rightarrow> set_cell n (\<lambda>v. v\<lparr>valPrev := None\<rparr>) l))
             else
               (case valPrev val of
                  None \<Rightarrow> Inl Panic
                | Some p \<Rightarrow>
                    res_bind (set_cell p (\<lambda>v. v\<lparr>valNext := valNext val\<rparr>) l) (\<lambda>l.
                      res_bind
                        (case valNext val of
                           None \<Rightarrow> Inr l
                         | Some n \<Rightarrow> set_cell n (\<lambda>v. v\<lparr>valPrev := valPrev val\<rparr>) l)
                        (\<lambda>l. Inr (if ulTail l = Some e then l\<lparr>ulTail := valPrev val\<rparr> else l)))))
            (\<lambda>l. Inr (l\<lparr>container := AList.delete e (container l)\<rparr>)))"

definition cursor_at :: "'e option \<Rightarrow> 'e UniqueList \<Rightarrow> 'e Iterator option" where
  "cursor_at p l =
     (case p of
        None \<Rightarrow> None
      | Some h \<Rightarrow> (case map_of (container l) h of None \<Rightarrow> None | Some v \<Rightarrow> Some \<lparr>itrElem = h, itrCur = Some v\<rparr>))"

definition Front :: "'e UniqueList \<Rightarrow> 'e Iterator option" where
  "Front l = cursor_at (ulHead l) l"

definition End :: "'e UniqueList \<Rightarrow> 'e Iterator option" where
  "End l = cursor_at (ulTail l) l"

definition Next :: "'e Iterator \<Rightarrow> 'e UniqueList \<Rightarrow> 'e Iterator option" where
  "Next itr l =
     (case itrCur itr of
        None \<Rightarrow> None
      | Some v \<Rightarrow> (case valNext v of
                    None \<Rightarrow> None
                  | Some n \<Rightarrow> Some \<lparr>itrElem = n, itrCur = map_of (container l) n\<rparr>))"

text \<open>
  \<open>HasNext\<close> looks the cell up under the address of the cell instead of its element, which is no key, and
  reads a field of the nil pointer it finds; \<open>Equal\<close> reads the element of a nil argument.
\<close>

definition HasNext :: "'e Iterator \<Rightarrow> err + bool" where
  "HasNext itr = (if itrCur itr \<noteq> None then Inl Panic else Inr False)"

definition itr_Equal :: "'e Iterator \<Rightarrow> 'e Iterator option \<Rightarrow> err + bool" where
  "itr_Equal itr other = (case other of None \<Rightarrow> Inl Panic | Some it' \<Rightarrow> Inr (itrElem itr = itrElem it'))"

text \<open>The loop \<open>for itr := Front(); itr != nil && i < number; itr = itr.Next()\<close>.\<close>

primrec take_from :: "nat \<Rightarrow> 'e Iterator option \<Rightarrow> 'e UniqueList \<Rightarrow> 'e list" where
  "take_from 0 itr l = []"
| "take_from (Suc n) itr l = (case itr of None \<Rightarrow> [] | Some it \<Rightarrow> itrElem it # take_from n (Next it l) l)"

section \<open>What it represents\<close>

text \<open>The cells of a segment that follows \<open>p\<close> and precedes \<open>n\<close>.\<close>

definition first_of :: "'e list \<Rightarrow> 'e option \<Rightarrow> 'e option" where
  "first_of xs n = (case xs of [] \<Rightarrow> n | x # _ \<Rightarrow> Some x)"

definition last_of :: "'e option \<Rightarrow> 'e list \<Rightarrow> 'e option" where
  "last_of p xs = (if xs = [] then p else Some (last xs))"

primrec cells :: "'e option \<Rightarrow> 'e list \<Rightarrow> 'e option \<Rightarrow> 'e \<rightharpoonup> 'e Value" where
  "cells p [] n = Map.empty"
| "cells p (x # xs) n = (cells (Some x) xs n)(x \<mapsto> \<lparr>valPrev = p, valNext = first_of xs n\<rparr>)"

definition holds :: "'e UniqueList \<Rightarrow> 'e list \<Rightarrow> bool" where
  "holds l xs \<longleftrightarrow> distinct xs \<and> distinct (map fst (container l)) \<and> map_of (container l) = cells None xs None \<and>
     ulHead l = first_of xs None \<and> ulTail l = last_of None xs"

lemma first_of_simps [simp]: "first_of [] n = n" "first_of (x # xs) n = Some x"
  by (simp_all add: first_of_def)

lemma first_of_append: "first_of (xs @ ys) n = first_of xs (first_of ys n)"
  by (cases xs) simp_all

lemma last_of_simps [simp]: "last_of p [] = p" "last_of p (x # xs) = last_of (Some x) xs" "last_of p (xs @ [x]) = Some x"
  by (auto simp: last_of_def)

lemma dom_cells [simp]: "dom (cells p xs n) = set xs"
  by (induction xs arbitrary: p) auto

lemma cells_outside [simp]: "cells p xs n x = None \<longleftrightarrow> x \<notin> set xs"
  using dom_cells [of p xs n] by blast

lemma cells_outside' [simp]: "None = cells p xs n x \<longleftrightarrow> x \<notin> set xs"
  by (subst eq_commute) simp

lemma cells_inside: "cells p xs n x = Some v \<Longrightarrow> x \<in> set xs"
  using cells_outside [of p xs n x] by auto

lemma cells_append: "distinct (xs @ ys) \<Longrightarrow> cells p (xs @ ys) n = cells (last_of p xs) ys n ++ cells p xs (first_of ys n)"
  by (induction xs arbitrary: p) (auto simp: first_of_append fun_eq_iff map_add_def split: option.split)

text \<open>Changing what precedes or follows a segment writes one cell.\<close>

lemma cells_prev: "x \<notin> set xs \<Longrightarrow> cells p (x # xs) n = (cells p' (x # xs) n)(x \<mapsto> \<lparr>valPrev = p, valNext = first_of xs n\<rparr>)"
  by auto

lemma cells_next: "distinct (xs @ [x]) \<Longrightarrow> cells p (xs @ [x]) n = (cells p (xs @ [x]) n')(x \<mapsto> \<lparr>valPrev = last_of p xs, valNext = n\<rparr>)"
  by (auto simp: cells_append fun_eq_iff map_add_def dest: cells_inside split: option.split)

lemma holds_length: "holds l xs \<Longrightarrow> length (container l) = length xs"
proof -
  assume h: "holds l xs"
  then have "set (map fst (container l)) = set xs" by (metis dom_cells dom_map_of_conv_image_fst holds_def set_map)
  then show ?thesis using h distinct_card unfolding holds_def by (metis length_map)
qed

lemma holds_empty: "holds (NewUniqueList n) []"
  by (simp add: holds_def NewUniqueList_def)

lemma holds_IsExist: "holds l xs \<Longrightarrow> IsExist e l \<longleftrightarrow> e \<in> set xs"
  by (simp add: holds_def IsExist_def)

lemma set_cell_eq: "map_of (container l) k = Some v \<Longrightarrow> set_cell k f l = Inr (l\<lparr>container := AList.update k (f v) (container l)\<rparr>)"
  by (simp add: set_cell_def)

lemma holds_Push:
  assumes h: "holds l xs" and room: "int (length xs) < ulMaxSize l" and new: "e \<notin> set xs"
  shows "\<exists>l'. Push e l = Inr (None, l') \<and> holds l' (xs @ [e]) \<and> ulMaxSize l' = ulMaxSize l"
proof -
  have pre: "\<not> ulMaxSize l \<le> ul_Len l" "\<not> IsExist e l"
    using room new by (simp_all add: ul_Len_def holds_length [OF h] holds_IsExist [OF h])
  show ?thesis
  proof (cases xs rule: rev_cases)
    case Nil
    then show ?thesis using h pre by (simp add: Push_def holds_def update_conv' distinct_update)
  next
    case (snoc ys t)
    have d: "distinct (ys @ [t])" using h snoc by (simp add: holds_def)
    have m: "map_of (container l) = cells None (ys @ [t]) None" "ulHead l \<noteq> None" "ulTail l = Some t"
      using h by (auto simp: holds_def snoc first_of_append) (cases ys; simp)
    have t: "map_of (container l) t = Some \<lparr>valPrev = last_of None ys, valNext = None\<rparr>"
      using fun_cong [OF cells_next [OF d, of None None None], of t] by (simp add: m)
    have "cells None (xs @ [e]) None = (cells None (ys @ [t]) (Some e))(e \<mapsto> \<lparr>valPrev = Some t, valNext = None\<rparr>)"
      using d new by (subst cells_append) (auto simp: snoc fun_eq_iff map_add_def dest: cells_inside split: option.split)
    also have "cells None (ys @ [t]) (Some e) = (cells None (ys @ [t]) None)(t \<mapsto> \<lparr>valPrev = last_of None ys, valNext = Some e\<rparr>)"
      by (rule cells_next [OF d])
    finally show ?thesis
      using pre m(2,3) h new
      by (auto simp: Push_def set_cell_eq [OF t] holds_def update_conv' distinct_update m(1) snoc first_of_append last_of_def fun_eq_iff)
  qed
qed

lemma holds_cell: "holds l (xs @ e # ys) \<Longrightarrow> map_of (container l) e = Some \<lparr>valPrev = last_of None xs, valNext = first_of ys None\<rparr>"
  by (auto simp: holds_def cells_append map_add_def split: option.split dest: cells_inside)

lemma holds_Remove_first:
  assumes h: "holds l (e # ys)"
  shows "\<exists>l'. ul_Remove e l = Inr l' \<and> holds l' ys \<and> ulMaxSize l' = ulMaxSize l"
proof -
  have d: "distinct (e # ys)" and dc: "distinct (map fst (container l))" and hd: "ulHead l = Some e"
    and m: "map_of (container l) = cells None (e # ys) None" and tl: "ulTail l = last_of None (e # ys)"
    using h by (simp_all add: holds_def)
  have e: "map_of (container l) e = Some \<lparr>valPrev = None, valNext = first_of ys None\<rparr>" by (simp add: m)
  show ?thesis
  proof (cases ys)
    case Nil
    have "ul_Remove e l = Inr (l\<lparr>ulHead := None, ulTail := None, container := AList.delete e (container l)\<rparr>)"
      using holds_length [OF h] by (simp add: ul_Remove_def e hd Nil)
    moreover have "map_of (AList.delete e (container l)) = Map.empty" unfolding delete_conv' by (simp add: m Nil)
    then have "AList.delete e (container l) = []" by simp
    ultimately show ?thesis by (simp add: holds_def Nil)
  next
    case (Cons b bs)
    have b: "map_of (container l) b = Some \<lparr>valPrev = Some e, valNext = first_of bs None\<rparr>"
      using d by (auto simp: m Cons)
    have "((map_of (container l))(b \<mapsto> \<lparr>valPrev = None, valNext = first_of bs None\<rparr>))(e := None) = cells None ys None"
      using d by (auto simp: m Cons fun_eq_iff)
    moreover have "ul_Remove e l = Inr (l\<lparr>ulHead := Some b, container :=
        AList.delete e (AList.update b \<lparr>valPrev = None, valNext = first_of bs None\<rparr> (container l))\<rparr>)"
      using holds_length [OF h] by (simp add: ul_Remove_def e hd Cons set_cell_def b)
    ultimately show ?thesis using d dc tl
      by (simp add: holds_def delete_conv' update_conv' distinct_delete distinct_update Cons)
  qed
qed

lemma holds_Remove_later:
  assumes h: "holds l ((as @ [a]) @ e # ys)"
  shows "\<exists>l'. ul_Remove e l = Inr l' \<and> holds l' ((as @ [a]) @ ys) \<and> ulMaxSize l' = ulMaxSize l"
proof -
  have d: "distinct ((as @ [a]) @ e # ys)" and dc: "distinct (map fst (container l))" using h by (simp_all add: holds_def)
  note e = holds_cell [OF h]
  have a: "map_of (container l) a = Some \<lparr>valPrev = last_of None as, valNext = Some e\<rparr>"
    using holds_cell [of l as a "e # ys"] h by simp
  have hd: "ulHead l \<noteq> Some e" "ulHead l = first_of ((as @ [a]) @ ys) None" using h d by (auto simp: holds_def first_of_append) (cases as; simp)+
  have left: "cells None (as @ [a]) (first_of ys None) =
      (cells None (as @ [a]) (Some e))(a \<mapsto> \<lparr>valPrev = last_of None as, valNext = first_of ys None\<rparr>)"
    using d by (intro cells_next) simp
  have m: "map_of (container l) = cells (Some a) (e # ys) None ++ cells None (as @ [a]) (Some e)"
    using h cells_append [OF d] by (simp add: holds_def)
  show ?thesis
  proof (cases ys)
    case Nil
    have "((map_of (container l))(a \<mapsto> \<lparr>valPrev = last_of None as, valNext = None\<rparr>))(e := None) = cells None (as @ [a]) None"
      using d left by (auto simp: m Nil fun_eq_iff map_add_def split: option.split dest: cells_inside)
    moreover have "ulTail l = Some e" using h by (simp add: holds_def Nil last_of_def)
    then have "ul_Remove e l = Inr (l\<lparr>ulTail := Some a, container :=
        AList.delete e (AList.update a \<lparr>valPrev = last_of None as, valNext = None\<rparr> (container l))\<rparr>)"
      by (simp add: ul_Remove_def set_cell_def e a hd(1) Nil)
    ultimately show ?thesis using d dc hd(2) by (simp add: holds_def delete_conv' update_conv' distinct_delete distinct_update Nil)
  next
    case (Cons b bs)
    have b: "map_of (container l) b = Some \<lparr>valPrev = Some e, valNext = first_of bs None\<rparr>"
      using holds_cell [of l "as @ [a, e]" b bs] h by (simp add: Cons last_of_def)
    have "((map_of (container l))(a \<mapsto> \<lparr>valPrev = last_of None as, valNext = Some b\<rparr>, b \<mapsto> \<lparr>valPrev = Some a, valNext = first_of bs None\<rparr>))(e := None)
        = cells None ((as @ [a]) @ ys) None"
      using d left cells_append [of "as @ [a]" ys None None]
      by (auto simp: m Cons fun_eq_iff map_add_def split: option.split dest: cells_inside)
    moreover have "a \<noteq> b" "ulTail l = last_of None (b # bs)" "last_of None (b # bs) \<noteq> Some e"
      using d h by (auto simp: Cons holds_def last_of_def split: if_splits)
    then have "ul_Remove e l = Inr (l\<lparr>container := AList.delete e (AList.update b \<lparr>valPrev = Some a, valNext = first_of bs None\<rparr>
        (AList.update a \<lparr>valPrev = last_of None as, valNext = Some b\<rparr> (container l)))\<rparr>)"
      by (simp add: ul_Remove_def set_cell_def e a b hd(1) Cons update_conv' del: last_of_simps(2))
    ultimately show ?thesis using d dc hd(2) \<open>ulTail l = _\<close>
      by (simp add: holds_def delete_conv' update_conv' distinct_delete distinct_update Cons) (simp add: last_of_def)
  qed
qed

lemma holds_Remove:
  assumes h: "holds l xs"
  shows "\<exists>l'. ul_Remove e l = Inr l' \<and> holds l' (remove1 e xs) \<and> ulMaxSize l' = ulMaxSize l"
proof (cases "e \<in> set xs")
  case True
  then obtain as bs where xs: "xs = as @ e # bs" "e \<notin> set as" by (metis split_list_first)
  then have r: "remove1 e xs = as @ bs" by (simp add: remove1_append)
  show ?thesis
  proof (cases as rule: rev_cases)
    case Nil
    with holds_Remove_first [of l e bs] h xs r show ?thesis by simp
  next
    case (snoc as' a)
    with holds_Remove_later [of l as' a e bs] h xs r show ?thesis by simp
  qed
next
  case False
  then have "map_of (container l) e = None" using h by (simp add: holds_def)
  with h False show ?thesis by (simp add: ul_Remove_def remove1_idem)
qed

lemma holds_take_from:
  assumes h: "holds l (xs @ ys)"
  shows "take_from n (cursor_at (first_of ys None) l) l = take n ys"
  using h
proof (induction n arbitrary: xs ys)
  case (Suc n)
  show ?case
  proof (cases ys)
    case (Cons y zs)
    have c: "map_of (container l) y = Some \<lparr>valPrev = last_of None xs, valNext = first_of zs None\<rparr>"
      using holds_cell [of l xs y zs] Suc.prems by (simp add: Cons)
    have n: "Next \<lparr>itrElem = y, itrCur = map_of (container l) y\<rparr> l = cursor_at (first_of zs None) l"
    proof (cases zs)
      case (Cons z ws)
      then have "map_of (container l) z \<noteq> None" using Suc.prems \<open>ys = y # zs\<close> by (simp add: holds_def)
      with c Cons show ?thesis by (auto simp: Next_def cursor_at_def)
    qed (simp add: Next_def c cursor_at_def)
    have "holds l ((xs @ [y]) @ zs)" using Suc.prems by (simp add: Cons)
    from Suc.IH [OF this] n c show ?thesis by (simp add: Cons) (simp add: cursor_at_def)
  qed (simp add: cursor_at_def)
qed simp

lemma holds_Push_refused:
  assumes h: "holds l xs" and full: "ulMaxSize l \<le> int (length xs) \<or> e \<in> set xs"
  shows "\<exists>e'. Push e l = Inr (Some e', l)"
  using full holds_length [OF h] holds_IsExist [OF h] by (auto simp: Push_def ul_Len_def)

section \<open>Any sequence of operations\<close>

datatype 'e ul_op = DoPush 'e | DoRemove 'e

fun run_op :: "'e ul_op \<Rightarrow> 'e UniqueList \<Rightarrow> err + 'e UniqueList" where
  "run_op (DoPush e) l = res_bind (Push e l) (\<lambda>(_, l). Inr l)"
| "run_op (DoRemove e) l = ul_Remove e l"

fun spec_op :: "int \<Rightarrow> 'e ul_op \<Rightarrow> 'e list \<Rightarrow> 'e list" where
  "spec_op n (DoPush e) xs = (if n \<le> int (length xs) \<or> e \<in> set xs then xs else xs @ [e])"
| "spec_op n (DoRemove e) xs = remove1 e xs"

lemma run_op_refines:
  assumes "holds l xs" "ulMaxSize l = n"
  shows "\<exists>l'. run_op c l = Inr l' \<and> holds l' (spec_op n c xs) \<and> ulMaxSize l' = n"
proof (cases c)
  case (DoPush e)
  then show ?thesis using holds_Push [OF assms(1), of e] holds_Push_refused [OF assms(1), of e] assms by fastforce
next
  case (DoRemove e)
  then show ?thesis using holds_Remove [OF assms(1), of e] assms(2) by auto
qed

lemma run_ops_refine:
  "holds l xs \<Longrightarrow> ulMaxSize l = n \<Longrightarrow> \<exists>l'. fold_res run_op cs l = Inr l' \<and> holds l' (fold (spec_op n) cs xs)"
proof (induction cs arbitrary: l xs)
  case (Cons c cs)
  from run_op_refines [OF Cons.prems, of c] obtain l' where "run_op c l = Inr l'" "holds l' (spec_op n c xs)" "ulMaxSize l' = n"
    by blast
  with Cons.IH [of l' "spec_op n c xs"] show ?case by simp
qed simp

text \<open>
  C13. Whatever is pushed and removed in whatever order, no operation meets a nil pointer, and walking the list
  from its front finds the elements of the reference list: distinct, in the order of their arrival, refused when
  the list is full or the element is there.
\<close>

theorem UniqueList_refines:
  "\<exists>l. fold_res run_op cs (NewUniqueList n) = Inr l \<and> (\<forall>k. take_from k (Front l) l = take k (fold (spec_op n) cs []))"
proof -
  have "ulMaxSize (NewUniqueList n) = n" by (simp add: NewUniqueList_def)
  then obtain l where l: "fold_res run_op cs (NewUniqueList n) = Inr l" "holds l (fold (spec_op n) cs [])"
    using run_ops_refine [OF holds_empty] by blast
  have "take_from k (Front l) l = take k (fold (spec_op n) cs [])" for k
    using holds_take_from [of l "[]"] l(2) by (simp add: Front_def holds_def)
  with l(1) show ?thesis by blast
qed

text \<open>Asking an iterator whether there is more panics, wherever it stands.\<close>

lemma HasNext_panics: "Front l = Some itr \<Longrightarrow> HasNext itr = Inl Panic"
  by (auto simp: Front_def cursor_at_def HasNext_def split: option.splits)

end
