(* ===== verification/Pool.thy ===== *)
theory Pool
  imports Main_Confirm Unique_List
begin

text \<open>
  The block pool: \<open>src/sdag/manager/block_pool.go\<close>.  Blocks whose links are all stored are added to the graph;
  the others wait in an orphan graph until the blocks they lack arrive.  The pool's goroutines hand blocks to
  \<open>AddBlock\<close>; each operation that holds a lock is one definition here.  What the code writes to its log as an
  error is kept in the state, as are the events it posts and the two channels of the list of unverified blocks.
  \<open>AddBlock\<close> is one undisturbed call; the points where the code gives way to other goroutines are the two parts of
  \<open>linkCheckAndSave\<close> (\<open>check_links\<close>, then \<open>link_act\<close>) and the channels.  The channels have no bound here: in the
  code a full one (1000 and 2000 hashes) makes the sender wait, which delays it and changes nothing else.
\<close>

section \<open>The state\<close>

record IsolatedBlock =
  isoLinks :: "hash list"
  isoLinkIt :: "hash list"
  isoTime :: "32 word"
  isoRLP :: bytes

record lackBlock =
  lackLinkIt :: "hash list"
  lackTime :: int
  lackMinTime :: u64

text \<open>The message to the centre; numbers and hashes are kept as such, not as text.\<close>

record MQBlockInfo =
  biBlockHash :: hash
  biTransferDate :: u64
  biAmount :: "int list"
  biGasLimit :: u64
  biGasPrice :: int
  biSenderAddr :: address
  biReceiverAddr :: "address list"
  biIsMiner :: bool
  biDifficulty :: int
  biCumulativeDiff :: "int option"

datatype pool_event =
    RelayBlocksEvent "Block list"
  | GetIsolateBlocksEvent "hash list"
  | GetNetworkNewBlocksEvent "hash list"

datatype pool_error =
    MissingIsolated hash
  | LinkNotFound hash
  | CumulativeDiffFailed hash
  | UnserializeFailed hash

record BlockPool =
  mainChainI :: MainChain
  IsolatedBlockMap :: "hash \<rightharpoonup> IsolatedBlock"
  lackBlockMap :: "hash \<rightharpoonup> lackBlock"
  MaxSyncTime :: u64
  unverifiedAddChan :: "hash list"
  unverifiedDelChan :: "hash list"
  unverifiedBlocks :: "hash UniqueList"
  posted :: "pool_event list"
  published :: "MQBlockInfo list option"   \<comment> \<open>\<open>None\<close> is the nil queue\<close>
  errors :: "pool_error list"

abbreviation pool_db :: "BlockPool \<Rightarrow> Database" where
  "pool_db p \<equiv> mcDB (mainChainI p)"

definition report :: "pool_error \<Rightarrow> BlockPool \<Rightarrow> BlockPool" where
  "report e p = p\<lparr>errors := errors p @ [e]\<rparr>"

section \<open>The list of unverified blocks\<close>

definition addUnverifiedBlock :: "hash \<Rightarrow> BlockPool \<Rightarrow> BlockPool" where
  "addUnverifiedBlock h p = p\<lparr>unverifiedAddChan := unverifiedAddChan p @ [h]\<rparr>"

definition deleteUnverifiedBlock :: "hash \<Rightarrow> BlockPool \<Rightarrow> BlockPool" where
  "deleteUnverifiedBlock h p = p\<lparr>unverifiedDelChan := unverifiedDelChan p @ [h]\<rparr>"

definition deleteUnverifiedBlocks :: "hash list \<Rightarrow> BlockPool \<Rightarrow> BlockPool" where
  "deleteUnverifiedBlocks hs p = fold deleteUnverifiedBlock hs p"

text \<open>
  The goroutine of \<open>loop\<close> takes from whichever channel has something: a step of it is a choice.  The error of
  \<open>Push\<close> is not looked at.
\<close>

definition take_add :: "BlockPool \<Rightarrow> err + BlockPool" where
  "take_add p =
     (case unverifiedAddChan p of
        [] \<Rightarrow> Inr p
      | h # hs \<Rightarrow> res_bind (Push h (unverifiedBlocks p)) (\<lambda>(_, l).
          Inr (p\<lparr>unverifiedAddChan := hs, unverifiedBlocks := l\<rparr>)))"

definition take_del :: "BlockPool \<Rightarrow> err + BlockPool" where
  "take_del p =
     (case unverifiedDelChan p of
        [] \<Rightarrow> Inr p
      | h # hs \<Rightarrow> res_bind (ul_Remove h (unverifiedBlocks p)) (\<lambda>l.
          Inr (p\<lparr>unverifiedDelChan := hs, unverifiedBlocks := l\<rparr>)))"

inductive loop_step :: "BlockPool \<Rightarrow> BlockPool \<Rightarrow> bool" where
  add: "unverifiedAddChan p \<noteq> [] \<Longrightarrow> take_add p = Inr q \<Longrightarrow> loop_step p q"
| del: "unverifiedDelChan p \<noteq> [] \<Longrightarrow> take_del p = Inr q \<Longrightarrow> loop_step p q"

definition SelectUnverifiedBlock :: "nat \<Rightarrow> BlockPool \<Rightarrow> hash list" where
  "SelectUnverifiedBlock n p = take_from n (Front (unverifiedBlocks p)) (unverifiedBlocks p)"

section \<open>Saving a block\<close>

text \<open>The writes of \<open>WriteBlock\<close> up to the first one that fails; the caller ignores the error.\<close>

definition try_write :: "(Database \<Rightarrow> err + Database) \<Rightarrow> (Database \<Rightarrow> Database) \<Rightarrow> Database \<Rightarrow> Database" where
  "try_write w k D = (case w D of Inl _ \<Rightarrow> D | Inr D' \<Rightarrow> k D')"

definition write_block :: "env \<Rightarrow> Block \<Rightarrow> Database \<Rightarrow> Database" where
  "write_block E b D =
     (let h = fst (GetHash E b); (key, D) = blockKey E (GetMainTime (GetTime b)) D in
      try_write (Put key (hash_bytes h))
        (try_write (Put (hash_bytes h) (GetRlp b))
          (try_write (WriteBlockMutableInfo h (GetMutableInfo b)) id)) D)"

definition sendBlockInfoToCenter :: "env \<Rightarrow> Block \<Rightarrow> BlockPool \<Rightarrow> BlockPool" where
  "sendBlockInfoToCenter E b p =
     (case published p of
        None \<Rightarrow> p
      | Some sent \<Rightarrow>
          p\<lparr>published := Some (sent @ [
            \<lparr>biBlockHash = fst (GetHash E b), biTransferDate = GetTime b, biAmount = map Amount (GetOuts b),
             biGasLimit = GetGasLimit b, biGasPrice = GetGasPrice b,
             biSenderAddr = (case fst (GetSender E b) of Inl _ \<Rightarrow> 0 | Inr a \<Rightarrow> a),
             biReceiverAddr = map Receiver (GetOuts b), biIsMiner = (GetType b = BlockTypeMiner),
             biDifficulty = fst (GetDiff E b), biCumulativeDiff = GetCumulativeDiff b\<rparr>])\<rparr>)"

definition saveBlock :: "env \<Rightarrow> Block \<Rightarrow> BlockPool \<Rightarrow> BlockPool" where
  "saveBlock E b p =
     sendBlockInfoToCenter E b
       (addUnverifiedBlock (fst (GetHash E b))
         (p\<lparr>mainChainI := (mainChainI p)\<lparr>mcDB := write_block E b (pool_db p)\<rparr>\<rparr>))"

text \<open>
  Adding a block whose links are all there: \<open>ComputeCumulativeDiff\<close> under the lock, saving, and the tail.  The
  result tells whether it went well; an error of \<open>ComputeCumulativeDiff\<close> ends it, a panic ends everything.
\<close>

definition attach :: "env \<Rightarrow> Block \<Rightarrow> BlockPool \<Rightarrow> err + (err option \<times> Block) \<times> BlockPool" where
  "attach E b p =
     (let p = deleteUnverifiedBlocks (GetLinks b) p in
      case ComputeCumulativeDiff E (pool_db p) b of
        Inl e \<Rightarrow> if e = Panic then Inl Panic else Inr ((Some e, b), p)
      | Inr (hasUpdate, b) \<Rightarrow>
          (let p = saveBlock E b p in
           if hasUpdate
           then res_bind (UpdateTail E b (mainChainI p)) (\<lambda>mc. Inr ((None, b), p\<lparr>mainChainI := mc\<rparr>))
           else Inr ((None, b), p)))"

section \<open>The orphan graph\<close>

text \<open>One missing link of a new isolated block: its parent waits in the graph, or is lacking.\<close>

definition note_link :: "int \<Rightarrow> hash \<Rightarrow> u64 \<Rightarrow> hash \<Rightarrow> BlockPool \<Rightarrow> BlockPool" where
  "note_link clock isolated t link p =
     (case IsolatedBlockMap p link of
        Some v \<Rightarrow> p\<lparr>IsolatedBlockMap := (IsolatedBlockMap p)(link \<mapsto> v\<lparr>isoLinkIt := isoLinkIt v @ [isolated]\<rparr>)\<rparr>
      | None \<Rightarrow>
          (case lackBlockMap p link of
             Some v \<Rightarrow>
               p\<lparr>lackBlockMap := (lackBlockMap p)(link \<mapsto>
                   v\<lparr>lackLinkIt := lackLinkIt v @ [isolated],
                     lackMinTime := (if lackMinTime v > t then t else lackMinTime v)\<rparr>)\<rparr>
           | None \<Rightarrow>
               p\<lparr>lackBlockMap := (lackBlockMap p)(link \<mapsto>
                   \<lparr>lackLinkIt = [isolated], lackTime = clock, lackMinTime = t\<rparr>)\<rparr>))"

definition addIsolatedBlock :: "env \<Rightarrow> int \<Rightarrow> Block \<Rightarrow> hash list \<Rightarrow> BlockPool \<Rightarrow> bool \<times> BlockPool" where
  "addIsolatedBlock E clock b links p =
     (let isolated = fst (GetHash E b) in
      case IsolatedBlockMap p isolated of
        Some _ \<Rightarrow> (False, p)
      | None \<Rightarrow>
          (let needMe = (case lackBlockMap p isolated of None \<Rightarrow> [] | Some v \<Rightarrow> lackLinkIt v);
               new = \<lparr>isoLinks = links, isoLinkIt = needMe, isoTime = word_of_int clock, isoRLP = GetRlp b\<rparr>;
               p = p\<lparr>lackBlockMap := (lackBlockMap p)(isolated := None),
                     IsolatedBlockMap := (IsolatedBlockMap p)(isolated \<mapsto> new)\<rparr>
           in (True, fold (note_link clock isolated (GetTime b)) links p)))"

text \<open>
  \<open>deleteIsolatedBlock\<close> goes through the descendants by layers.  \<open>release\<close> is the body for one descendant \<open>h\<close>
  of the block \<open>parent\<close>: it loses the link, and when it was the last one the descendant is added and its own
  descendants belong to the next layer.
\<close>

type_synonym layer = "(hash \<times> hash list) list"

definition release :: "env \<Rightarrow> hash \<Rightarrow> hash \<Rightarrow> BlockPool \<times> layer \<Rightarrow> err + BlockPool \<times> layer" where
  "release E parent h = (\<lambda>(p, nextLayer).
     case IsolatedBlockMap p h of
       None \<Rightarrow> Inr (report (MissingIsolated h) p, nextLayer)
     | Some isolated \<Rightarrow>
         (let links = filter (\<lambda>l. l \<noteq> parent) (isoLinks isolated);
              p = (if links = isoLinks isolated then report (LinkNotFound h) p else p) in
          if links \<noteq> [] then
            Inr (p\<lparr>IsolatedBlockMap := (IsolatedBlockMap p)(h \<mapsto> isolated\<lparr>isoLinks := links\<rparr>)\<rparr>, nextLayer)
          else
            (let p = p\<lparr>IsolatedBlockMap := (IsolatedBlockMap p)(h := None)\<rparr> in
             case BlockDecode E (isoRLP isolated) of
               Inl e \<Rightarrow> if e = Panic then Inl Panic else Inr (report (UnserializeFailed h) p, nextLayer)
             | Inr b \<Rightarrow>
                 res_bind (attach E b p) (\<lambda>((e, b), p).
                   if e = None then Inr (p, nextLayer @ [(fst (GetHash E b), isoLinkIt isolated)])
                   else Inr (report (CumulativeDiffFailed h) p, nextLayer)))))"

definition release_layer :: "env \<Rightarrow> layer \<Rightarrow> BlockPool \<Rightarrow> err + BlockPool \<times> layer" where
  "release_layer E current p =
     fold_res (\<lambda>(parent, linkIt). fold_res (release E parent) linkIt) current (p, [])"

primrec release_loop :: "nat \<Rightarrow> env \<Rightarrow> layer \<Rightarrow> BlockPool \<Rightarrow> err + BlockPool" where
  "release_loop 0 E current p = (if current = [] then Inr p else Inl NoFuel)"
| "release_loop (Suc fuel) E current p =
     (if current = [] then Inr p
      else res_bind (release_layer E current p) (\<lambda>(p, nextLayer). release_loop fuel E nextLayer p))"

definition deleteIsolatedBlock :: "nat \<Rightarrow> env \<Rightarrow> Block \<Rightarrow> BlockPool \<Rightarrow> err + BlockPool" where
  "deleteIsolatedBlock fuel E b p =
     (let h = fst (GetHash E b) in
      case lackBlockMap p h of
        None \<Rightarrow> Inr p
      | Some v \<Rightarrow> release_loop fuel E [(h, lackLinkIt v)] (p\<lparr>lackBlockMap := (lackBlockMap p)(h := None)\<rparr>))"

section \<open>Adding a block\<close>

definition updateSyncTime :: "u64 \<Rightarrow> BlockPool \<Rightarrow> BlockPool" where
  "updateSyncTime t p = (if MaxSyncTime p < t then p\<lparr>MaxSyncTime := t\<rparr> else p)"

text \<open>The links that are not stored; a stored one must not be younger than the block.\<close>

definition check_links :: "env \<Rightarrow> Database \<Rightarrow> u64 \<Rightarrow> hash list \<Rightarrow> err + hash list" where
  "check_links E D t links =
     fold_res (\<lambda>h lacks. res_bind (ReadBlock E D h) (\<lambda>ob.
       case ob of
         Some b \<Rightarrow> if GetTime b > t then Inl (Msg ''links time error'') else Inr lacks
       | None \<Rightarrow> Inr (lacks @ [h]))) links []"

text \<open>
  What follows the check, given the links it found lacking.  The code holds no lock between the two, so another
  goroutine may add blocks in the meantime: \<open>link_act\<close> takes the pool as it is by then.
\<close>

definition link_act ::
    "nat \<Rightarrow> env \<Rightarrow> int \<Rightarrow> Block \<Rightarrow> bool \<Rightarrow> bool \<Rightarrow> hash list \<Rightarrow> BlockPool \<Rightarrow> err + (bool \<times> err option) \<times> BlockPool" where
  "link_act fuel E clock b isRelay isSync lacks p =
     (let p = (if isSync then updateSyncTime (GetTime b) p else p) in
      if lacks \<noteq> [] then Inr ((True, None), snd (addIsolatedBlock E clock b lacks p))
      else
        res_bind (attach E b p) (\<lambda>((e, b), p).
          if e \<noteq> None then Inr ((False, e), p)
          else
            res_bind (deleteIsolatedBlock fuel E b p) (\<lambda>p.
              Inr ((False, None), if isRelay then p\<lparr>posted := posted p @ [RelayBlocksEvent [b]]\<rparr> else p))))"

definition linkCheckAndSave ::
    "nat \<Rightarrow> env \<Rightarrow> int \<Rightarrow> Block \<Rightarrow> bool \<Rightarrow> bool \<Rightarrow> BlockPool \<Rightarrow> err + (bool \<times> err option) \<times> BlockPool" where
  "linkCheckAndSave fuel E clock b isRelay isSync p =
     (case check_links E (pool_db p) (GetTime b) (GetLinks b) of
        Inl e \<Rightarrow> if e = Panic then Inl Panic else Inr ((False, Some e), p)
      | Inr lacks \<Rightarrow> link_act fuel E clock b isRelay isSync lacks p)"

lemmas linkCheckAndSave_unfold = linkCheckAndSave_def [unfolded link_act_def]

definition AddBlock :: "nat \<Rightarrow> env \<Rightarrow> int \<Rightarrow> Block \<Rightarrow> bool \<Rightarrow> bool \<Rightarrow> BlockPool \<Rightarrow> err + err option \<times> BlockPool" where
  "AddBlock fuel E clock b isRelay isSync p =
     (if HasBlock (pool_db p) (fst (GetHash E b)) then
        res_bind (deleteIsolatedBlock fuel E b p) (\<lambda>p. Inr (Some (Msg ''the block has been added''), p))
      else
        res_bind (linkCheckAndSave fuel E clock b isRelay isSync p) (\<lambda>((_, e), p). Inr (e, p)))"

section \<open>Announcements and requests\<close>

definition on_announce :: "hash \<Rightarrow> BlockPool \<Rightarrow> BlockPool" where
  "on_announce h p = (if HasBlock (pool_db p) h then p else p\<lparr>posted := posted p @ [GetNetworkNewBlocksEvent [h]]\<rparr>)"

text \<open>
  One round of \<open>TimedRequestForIsolatedBlocks\<close>: lacking blocks that are stored by now are released, the others
  are requested unless the synchronisation is about to bring them.  \<open>order\<close> is the order in which Go ranges over
  the lacking blocks.
\<close>

definition SDAGSYNC_SYNCING :: int where "SDAGSYNC_SYNCING = 2"

definition sort_lacking :: "env \<Rightarrow> int \<Rightarrow> hash list \<Rightarrow> BlockPool \<Rightarrow> err + hash list \<times> Block list" where
  "sort_lacking E syncStatus order p =
     fold_res (\<lambda>h (lacks, blocks).
       case lackBlockMap p h of
         None \<Rightarrow> Inr (lacks, blocks)
       | Some v \<Rightarrow>
           res_bind (if HasBlock (pool_db p) h then ReadBlock E (pool_db p) h else Inr None) (\<lambda>ob.
             case ob of
               Some b \<Rightarrow> Inr (lacks, blocks @ [b])
             | None \<Rightarrow>
                 if syncStatus = SDAGSYNC_SYNCING \<and> GetMainTime (lackMinTime v) \<ge> GetMainTime (MaxSyncTime p)
                 then Inr (lacks, blocks) else Inr (lacks @ [h], blocks))) order ([], [])"

definition timed_request :: "nat \<Rightarrow> env \<Rightarrow> int \<Rightarrow> hash list \<Rightarrow> BlockPool \<Rightarrow> err + BlockPool" where
  "timed_request fuel E syncStatus order p =
     res_bind (sort_lacking E syncStatus order p) (\<lambda>(lacks, blocks).
       fold_res (deleteIsolatedBlock fuel E) blocks
         (if lacks \<noteq> [] then p\<lparr>posted := posted p @ [GetIsolateBlocksEvent lacks]\<rparr> else p))"

end
