(* ===== verification/Pool_Graph.thy ===== *)
theory Pool_Graph
  imports Pool Chain_Tail
begin

text \<open>
  The orphan graph of the block pool: what is kept of it by every operation, that releasing the descendants of a
  block ends, and which blocks it releases.
\<close>

section \<open>Hashes survive\<close>

lemma GetHash_same_hash: "hash_coherent E b \<Longrightarrow> block_hash E (snd (GetHash E b)) = block_hash E b"
  by (simp add: block_hash_def GetHash_coherent)

lemma adopt_link_hash:
  assumes "hash_coherent E b"
  shows "hash_coherent E (adopt_link E info b)" "block_hash E (adopt_link E info b) = block_hash E b"
  using assms
  by (simp_all add: adopt_link_def Let_def SetMaxLink_def SetCumulativeDiff_def SetStatus_def GetHash_coherent GetHash_same_hash)

lemma GetDiff_hash:
  assumes "hash_coherent E b"
  shows "hash_coherent E (snd (GetDiff E b))" "block_hash E (snd (GetDiff E b)) = block_hash E b"
  using assms
  by (cases b; auto simp: TxBlock_GetDiff_def MinerBlock_GetDiff_def GenesisBlock_GetDiff_def TxBlock_GetHash_def
      MinerBlock_GetHash_def GenesisBlock_GetHash_def block_hash_def Let_def split: option.splits)+

lemma ComputeCumulativeDiff_hash:
  assumes "hash_coherent E b" "ComputeCumulativeDiff E D b = Inr (upd, b')"
  shows "hash_coherent E b'" "block_hash E b' = block_hash E b"
  using assms(2) adopt_link_hash GetDiff_hash [OF assms(1)] assms(1)
  by (auto simp: ComputeCumulativeDiff_def res_bind_eq_Inr_iff split: if_splits)

definition rlp_of :: "env \<Rightarrow> hash \<Rightarrow> bytes \<Rightarrow> bool" where
  "rlp_of E h rlp \<longleftrightarrow> (\<forall>b. BlockDecode E rlp = Inr b \<longrightarrow> hash_coherent E b \<and> block_hash E b = h)"

lemma rlp_of_GetRlp:
  assumes "good_block b" "small_block b" "hash_coherent E b"
  shows "rlp_of E (block_hash E b) (GetRlp b)"
  unfolding rlp_of_def BlockDecode_GetRlp_eq [OF assms(1,2)]
  using Validation_keeps [of E "norm_block b"] by (auto simp: block_hash_def split: prod.splits option.splits)

section \<open>What the operations leave alone\<close>

abbreviation orphan_fields :: "BlockPool \<Rightarrow> (hash \<rightharpoonup> IsolatedBlock) \<times> (hash \<rightharpoonup> lackBlock)" where
  "orphan_fields p \<equiv> (IsolatedBlockMap p, lackBlockMap p)"

lemma fold_deleteUnverified: "fold deleteUnverifiedBlock hs p = p\<lparr>unverifiedDelChan := unverifiedDelChan p @ hs\<rparr>"
  by (induction hs arbitrary: p) (simp_all add: deleteUnverifiedBlock_def)

lemma saveBlock_keeps:
  "IsolatedBlockMap (saveBlock E b p) = IsolatedBlockMap p" "lackBlockMap (saveBlock E b p) = lackBlockMap p"
  "errors (saveBlock E b p) = errors p" "unverifiedAddChan (saveBlock E b p) = unverifiedAddChan p @ [fst (GetHash E b)]"
  by (simp_all add: saveBlock_def sendBlockInfoToCenter_def addUnverifiedBlock_def split: option.split)

lemma attach_keeps:
  assumes "attach E b p = Inr ((e, b'), p')"
  shows "IsolatedBlockMap p' = IsolatedBlockMap p" "lackBlockMap p' = lackBlockMap p" "errors p' = errors p"
    "unverifiedAddChan p' = unverifiedAddChan p @ (if e = None then [fst (GetHash E b')] else [])"
  using assms
  by (auto simp: attach_def Let_def deleteUnverifiedBlocks_def fold_deleteUnverified saveBlock_keeps res_bind_eq_Inr_iff
      split: sum.splits prod.splits if_splits)

lemma attach_hash:
  "hash_coherent E b \<Longrightarrow> attach E b p = Inr ((None, b'), p') \<Longrightarrow> fst (GetHash E b') = block_hash E b"
  using ComputeCumulativeDiff_hash [of E b]
  by (auto simp: attach_def Let_def res_bind_eq_Inr_iff GetHash_coherent split: sum.splits prod.splits if_splits)

lemma res_bind_eq_Inl_iff: "res_bind m f = Inl e \<longleftrightarrow> m = Inl e \<or> (\<exists>x. m = Inr x \<and> f x = Inl e)"
  by (cases m) auto

lemma attach_no_fuel: "attach E b p \<noteq> Inl NoFuel"
  by (auto simp: attach_def Let_def UpdateTail_def tail_check_def res_bind_eq_Inl_iff split: sum.splits option.splits prod.splits)

section \<open>Releasing ends\<close>

lemma release_shrinks:
  assumes "release E l h (p, next) = Inr (p', next')" "finite (dom (IsolatedBlockMap p))"
  shows "finite (dom (IsolatedBlockMap p')) \<and>
    card (dom (IsolatedBlockMap p')) + length next' \<le> card (dom (IsolatedBlockMap p)) + length next"
proof (cases "IsolatedBlockMap p h")
  case None
  with assms show ?thesis by (auto simp: release_def report_def)
next
  case (Some i)
  then have "h \<in> dom (IsolatedBlockMap p)" by blast
  then have "card (dom (IsolatedBlockMap p) - {h}) < card (dom (IsolatedBlockMap p))"
    using assms(2) by (intro psubset_card_mono) auto
  moreover have "dom ((IsolatedBlockMap p)(h := None)) = dom (IsolatedBlockMap p) - {h}"
    "dom ((IsolatedBlockMap p)(h \<mapsto> x)) = dom (IsolatedBlockMap p)" for x using Some by auto
  ultimately show ?thesis using assms Some
    by (auto simp: release_def Let_def report_def res_bind_eq_Inr_iff dest!: attach_keeps(1) split: if_splits sum.splits option.splits
        simp del: dom_fun_upd fun_upd_apply)
qed

lemma fold_release_shrinks:
  assumes "fold_res (release E l) hs (p, next) = Inr (p', next')" "finite (dom (IsolatedBlockMap p))"
  shows "finite (dom (IsolatedBlockMap p')) \<and>
    card (dom (IsolatedBlockMap p')) + length next' \<le> card (dom (IsolatedBlockMap p)) + length next"
  using assms
proof (induction hs arbitrary: p "next")
  case (Cons h hs)
  obtain q m where q: "release E l h (p, next) = Inr (q, m)" "fold_res (release E l) hs (q, m) = Inr (p', next')"
    using Cons.prems(1) by (auto simp: res_bind_eq_Inr_iff)
  from release_shrinks [OF q(1) Cons.prems(2)] Cons.IH [OF q(2)] show ?case by simp
qed simp

lemma release_layer_shrinks:
  assumes "release_layer E current p = Inr (p', next')" "finite (dom (IsolatedBlockMap p))"
  shows "finite (dom (IsolatedBlockMap p')) \<and> card (dom (IsolatedBlockMap p')) + length next' \<le> card (dom (IsolatedBlockMap p))"
proof -
  have "fold_res (\<lambda>(parent, linkIt). fold_res (release E parent) linkIt) current (p, m) = Inr (p', next') \<Longrightarrow>
      finite (dom (IsolatedBlockMap p)) \<Longrightarrow> finite (dom (IsolatedBlockMap p')) \<and>
      card (dom (IsolatedBlockMap p')) + length next' \<le> card (dom (IsolatedBlockMap p)) + length m" for p m
  proof (induction current arbitrary: p m)
    case (Cons c current)
    obtain q n where q: "fold_res (release E (fst c)) (snd c) (p, m) = Inr (q, n)"
      "fold_res (\<lambda>(parent, linkIt). fold_res (release E parent) linkIt) current (q, n) = Inr (p', next')"
      using Cons.prems(1) by (auto simp: res_bind_eq_Inr_iff split: prod.splits)
    from fold_release_shrinks [OF q(1) Cons.prems(2)] Cons.IH [OF q(2)] show ?case by simp
  qed simp
  from this [of p "[]"] assms show ?thesis by (simp add: release_layer_def)
qed

lemma release_layer_no_fuel: "release_layer E current p \<noteq> Inl NoFuel"
proof -
  have one: "release E l h x \<noteq> Inl NoFuel" for l h x
    by (auto simp: release_def Let_def res_bind_eq_Inl_iff attach_no_fuel split: prod.splits option.splits sum.splits)
  have "fold_res (release E l) hs x \<noteq> Inl NoFuel" for l hs x
    by (induction hs arbitrary: x) (auto simp: res_bind_eq_Inl_iff one)
  then have "fold_res (\<lambda>(parent, linkIt). fold_res (release E parent) linkIt) current x \<noteq> Inl NoFuel" for x
    by (induction current arbitrary: x) (auto simp: res_bind_eq_Inl_iff split: prod.splits)
  then show ?thesis by (simp add: release_layer_def)
qed

lemma release_loop_ends:
  "finite (dom (IsolatedBlockMap p)) \<Longrightarrow> card (dom (IsolatedBlockMap p)) < fuel \<Longrightarrow> release_loop fuel E current p \<noteq> Inl NoFuel"
proof (induction fuel arbitrary: current p)
  case (Suc fuel)
  have "release_loop fuel E m q \<noteq> Inl NoFuel" if q: "release_layer E current p = Inr (q, m)" for q m
  proof (cases "m = []")
    case True
    then show ?thesis by (cases fuel) simp_all
  next
    case False
    then have "1 \<le> length m" by (cases m) simp_all
    with release_layer_shrinks [OF q Suc.prems(1)] Suc.prems(2) Suc.IH [of q m] show ?thesis by simp
  qed
  then show ?case by (auto simp: res_bind_eq_Inl_iff release_layer_no_fuel)
qed simp

lemma deleteIsolatedBlock_ends:
  "finite (dom (IsolatedBlockMap p)) \<Longrightarrow> card (dom (IsolatedBlockMap p)) < fuel \<Longrightarrow> deleteIsolatedBlock fuel E b p \<noteq> Inl NoFuel"
  using release_loop_ends by (auto simp: deleteIsolatedBlock_def Let_def split: option.split)

lemma check_links_no_fuel: "check_links E D t links = Inl e \<Longrightarrow> e = Panic \<or> (\<exists>m. e = Msg m)"
proof -
  have "fold_res (\<lambda>h lacks. res_bind (ReadBlock E D h) (\<lambda>ob. case ob of
         Some b \<Rightarrow> if GetTime b > t then Inl (Msg ''links time error'') else Inr lacks
       | None \<Rightarrow> Inr (lacks @ [h]))) links acc = Inl e \<Longrightarrow> e = Panic \<or> (\<exists>m. e = Msg m)" for acc
    by (induction links arbitrary: acc)
      (auto simp: res_bind_eq_Inl_iff ReadBlock_def Let_def split: if_splits option.splits sum.splits)
  then show "check_links E D t links = Inl e \<Longrightarrow> e = Panic \<or> (\<exists>m. e = Msg m)" by (simp add: check_links_def)
qed

text \<open>
  C14. Adding a block ends.  Where the fuel of the model is above the number of isolated blocks, \<open>AddBlock\<close>
  returns or panics, whatever the orphan graph looks like: every layer of descendants takes its blocks out of it.
\<close>

theorem AddBlock_terminates:
  assumes "finite (dom (IsolatedBlockMap p))" "card (dom (IsolatedBlockMap p)) < fuel"
  shows "AddBlock fuel E clock b isRelay isSync p \<noteq> Inl NoFuel"
proof -
  have "deleteIsolatedBlock fuel E b' q \<noteq> Inl NoFuel" if "IsolatedBlockMap q = IsolatedBlockMap p" for b' q
    using deleteIsolatedBlock_ends assms that by simp
  moreover have "IsolatedBlockMap (updateSyncTime t q) = IsolatedBlockMap q" for t q by (simp add: updateSyncTime_def)
  ultimately show ?thesis
    by (auto simp: AddBlock_def linkCheckAndSave_unfold Let_def res_bind_eq_Inl_iff attach_no_fuel
        dest: attach_keeps(1) split: sum.splits if_splits)
qed

end
