(* ===== verification/Pool_Release.thy ===== *)
theory Pool_Release
  imports Pool_Graph
begin

text \<open>
  What the orphan graph of the block pool promises: a block waits under each of its missing links and nowhere
  else; adding a block keeps that, and releases exactly the blocks that lacked nothing else.
\<close>

section \<open>The invariant\<close>

definition waiting :: "BlockPool \<Rightarrow> hash \<Rightarrow> hash set" where
  "waiting p l =
     (case IsolatedBlockMap p l of
        Some i \<Rightarrow> set (isoLinkIt i)
      | None \<Rightarrow> (case lackBlockMap p l of Some k \<Rightarrow> set (lackLinkIt k) | None \<Rightarrow> {}))"

definition links_of :: "BlockPool \<Rightarrow> hash \<Rightarrow> hash set" where
  "links_of p h = (case IsolatedBlockMap p h of Some i \<Rightarrow> set (isoLinks i) | None \<Rightarrow> {})"

text \<open>The layers hold blocks that have left the graph, with the descendants still to be told.\<close>

definition pending :: "layer \<Rightarrow> hash \<Rightarrow> hash set" where
  "pending ls l = (\<Union>(k, hs) \<in> set ls. if k = l then set hs else {})"

definition waits :: "layer \<Rightarrow> BlockPool \<Rightarrow> hash \<Rightarrow> hash set" where
  "waits ls p l = waiting p l \<union> pending ls l"

definition graph_ok :: "env \<Rightarrow> layer \<Rightarrow> BlockPool \<Rightarrow> bool" where
  "graph_ok E ls p \<longleftrightarrow>
     finite (dom (IsolatedBlockMap p)) \<and> dom (IsolatedBlockMap p) \<inter> dom (lackBlockMap p) = {} \<and>
     distinct (map fst ls) \<and>
     (\<forall>(l, hs) \<in> set ls. distinct hs \<and> IsolatedBlockMap p l = None \<and> lackBlockMap p l = None) \<and>
     (\<forall>h i. IsolatedBlockMap p h = Some i \<longrightarrow> isoLinks i \<noteq> [] \<and> distinct (isoLinkIt i) \<and> rlp_of E h (isoRLP i)) \<and>
     (\<forall>l k. lackBlockMap p l = Some k \<longrightarrow> distinct (lackLinkIt k)) \<and>
     (\<forall>l h. h \<in> waits ls p l \<longleftrightarrow> l \<in> links_of p h)"

text \<open>A block is dropped when it has left the graph and could not be added.\<close>

fun is_drop :: "pool_error \<Rightarrow> bool" where
  "is_drop (CumulativeDiffFailed h) = True"
| "is_drop (UnserializeFailed h) = True"
| "is_drop _ = False"

definition drops :: "BlockPool \<Rightarrow> pool_error list" where
  "drops p = filter is_drop (errors p)"

lemma pending_simps [simp]:
  "pending [] l = {}" "pending ((k, hs) # ls) l = (if k = l then set hs else {}) \<union> pending ls l"
  "pending (ls @ ms) l = pending ls l \<union> pending ms l"
  by (auto simp: pending_def)

lemma pending_key: "h \<in> pending ls l \<Longrightarrow> l \<in> fst ` set ls"
  by (auto simp: pending_def image_iff split: if_splits) force

section \<open>One descendant\<close>

lemma graph_okD:
  assumes "graph_ok E ls p"
  shows "(l, hs) \<in> set ls \<Longrightarrow> distinct hs \<and> IsolatedBlockMap p l = None \<and> lackBlockMap p l = None"
    and "IsolatedBlockMap p h = Some i \<Longrightarrow> isoLinks i \<noteq> [] \<and> distinct (isoLinkIt i) \<and> rlp_of E h (isoRLP i)"
    and "h \<in> waits ls p l \<longleftrightarrow> l \<in> links_of p h"
    and "IsolatedBlockMap p h = Some i \<Longrightarrow> lackBlockMap p h = None"
  using assms unfolding graph_ok_def by (auto simp: disjoint_iff dom_def)

lemma release_cases:
  assumes g: "graph_ok E ((l, h # hs) # ls) p" and r: "release E l h (p, next) = Inr (p', next')" and d: "drops p' = drops p"
  obtains i where "IsolatedBlockMap p h = Some i" "l \<in> set (isoLinks i)" "lackBlockMap p' = lackBlockMap p" "errors p' = errors p"
    "filter (\<lambda>x. x \<noteq> l) (isoLinks i) \<noteq> []" "next' = next" "unverifiedAddChan p' = unverifiedAddChan p"
    "IsolatedBlockMap p' = (IsolatedBlockMap p)(h \<mapsto> i\<lparr>isoLinks := filter (\<lambda>x. x \<noteq> l) (isoLinks i)\<rparr>)"
  | i where "IsolatedBlockMap p h = Some i" "lackBlockMap p' = lackBlockMap p" "errors p' = errors p"
    "set (isoLinks i) = {l}" "next' = next @ [(h, isoLinkIt i)]" "unverifiedAddChan p' = unverifiedAddChan p @ [h]"
    "IsolatedBlockMap p' = (IsolatedBlockMap p)(h := None)"
proof -
  have "h \<in> waits ((l, h # hs) # ls) p l" by (simp add: waits_def)
  then have "l \<in> links_of p h" using graph_okD(3) [OF g] by blast
  then obtain i where i: "IsolatedBlockMap p h = Some i" "l \<in> set (isoLinks i)"
    by (auto simp: links_of_def split: option.splits)
  let ?links = "filter (\<lambda>x. x \<noteq> l) (isoLinks i)"
  have found: "?links \<noteq> isoLinks i" using i(2) by (auto simp: filter_id_conv)
  show ?thesis
  proof (cases "?links = []")
    case False
    then have "release E l h (p, next) = Inr (p\<lparr>IsolatedBlockMap := (IsolatedBlockMap p)(h \<mapsto> i\<lparr>isoLinks := ?links\<rparr>)\<rparr>, next)"
      by (simp only: release_def Let_def i(1) found prod.case option.case if_False if_True not_False_eq_True)
    with r have q: "p' = p\<lparr>IsolatedBlockMap := (IsolatedBlockMap p)(h \<mapsto> i\<lparr>isoLinks := ?links\<rparr>)\<rparr>" "next' = next" by simp_all
    show ?thesis by (rule that(1) [OF i _ _ False q(2)]) (simp_all add: q(1))
  next
    case True
    then have "\<forall>x \<in> set (isoLinks i). x = l" by (simp add: filter_empty_conv)
    then have l: "set (isoLinks i) = {l}" using i(2) by blast
    let ?q = "p\<lparr>IsolatedBlockMap := (IsolatedBlockMap p)(h := None)\<rparr>"
    have "?links \<noteq> isoLinks i \<and> ?links = []" using found True by blast
    then obtain b e b' p1 where b: "BlockDecode E (isoRLP i) = Inr b" and a: "attach E b ?q = Inr ((e, b'), p1)"
      and fin: "e = None \<Longrightarrow> p' = p1 \<and> next' = next @ [(fst (GetHash E b'), isoLinkIt i)]"
        "e \<noteq> None \<Longrightarrow> p' = report (CumulativeDiffFailed h) p1"
      using r i d
      by (auto simp: release_def Let_def res_bind_eq_Inr_iff drops_def report_def split: sum.splits if_splits)
    have e: "e = None"
    proof (rule ccontr)
      assume "e \<noteq> None"
      with fin(2) attach_keeps(3) [OF a] d show False by (simp add: drops_def report_def)
    qed
    have "rlp_of E h (isoRLP i)" using graph_okD(2) [OF g i(1)] by blast
    then have "fst (GetHash E b') = h" using attach_hash [OF _ a [unfolded e]] b by (auto simp: rlp_of_def)
    with fin(1) [OF e] attach_keeps [OF a] e l i show ?thesis using that(2) [of i] by simp
  qed
qed

lemma waiting_links: "IsolatedBlockMap q = (IsolatedBlockMap p)(h \<mapsto> i\<lparr>isoLinks := x\<rparr>) \<Longrightarrow> IsolatedBlockMap p h = Some i \<Longrightarrow>
    lackBlockMap q = lackBlockMap p \<Longrightarrow> waiting q = waiting p"
  by (rule ext) (simp add: waiting_def split: option.split)

text \<open>The edge between the block and its descendant goes, on both sides.\<close>

lemma release_edge:
  assumes g: "graph_ok E ((l, h # hs) # cur @ next) p" and r: "release E l h (p, next) = Inr (p', next')" and d: "drops p' = drops p"
  shows "waits ((l, hs) # cur @ next') p' = (waits ((l, h # hs) # cur @ next) p)(l := waits ((l, h # hs) # cur @ next) p l - {h})"
    and "links_of p' = (links_of p)(h := links_of p h - {l})"
proof -
  have dl: "h \<notin> set hs" "distinct hs" and l: "IsolatedBlockMap p l = None" "lackBlockMap p l = None"
    using graph_okD(1) [OF g, of l "h # hs"] by auto
  have "l \<notin> fst ` set (cur @ next)" using g by (auto simp: graph_ok_def)
  then have pl: "pending cur l = {}" "pending next l = {}" using pending_key by fastforce+
  have wl: "waiting p l = {}" by (simp add: waiting_def l)
  show "waits ((l, hs) # cur @ next') p' = (waits ((l, h # hs) # cur @ next) p)(l := waits ((l, h # hs) # cur @ next) p l - {h})
      " (is ?W) and "links_of p' = (links_of p)(h := links_of p h - {l})" (is ?L)
  proof -
    have "?W \<and> ?L"
    proof (rule release_cases [OF g r d])
      fix i
      assume i: "IsolatedBlockMap p h = Some i" "lackBlockMap p' = lackBlockMap p" "next' = next"
        and i': "IsolatedBlockMap p' = (IsolatedBlockMap p)(h \<mapsto> i\<lparr>isoLinks := filter (\<lambda>x. x \<noteq> l) (isoLinks i)\<rparr>)"
      have "waiting p' = waiting p" by (rule waiting_links [OF i' i(1,2)])
      then show ?thesis using dl pl wl i(1,3) by (auto simp: waits_def fun_eq_iff links_of_def i' split: option.split)
    next
      fix i
      assume i: "IsolatedBlockMap p h = Some i" "lackBlockMap p' = lackBlockMap p" "set (isoLinks i) = {l}"
          "next' = next @ [(h, isoLinkIt i)]" and i': "IsolatedBlockMap p' = (IsolatedBlockMap p)(h := None)"
      have hl: "h \<noteq> l" using i(1) l by auto
      have "lackBlockMap p h = None" using graph_okD(4) [OF g i(1)] .
      then have "waiting p' = (waiting p)(h := {})" "waiting p h = set (isoLinkIt i)"
        by (simp_all add: waiting_def fun_eq_iff i i' split: option.split)
      then show ?thesis using dl pl wl i(1,3,4) hl by (auto simp: waits_def fun_eq_iff links_of_def i' split: option.split)
    qed
    then show ?W ?L by blast+
  qed
qed

lemma release_ok:
  assumes g: "graph_ok E ((l, h # hs) # cur @ next) p" and r: "release E l h (p, next) = Inr (p', next')" and d: "drops p' = drops p"
  shows "graph_ok E ((l, hs) # cur @ next') p'"
proof -
  note edge = release_edge [OF g r d]
  have exact: "k \<in> waits ((l, hs) # cur @ next') p' x \<longleftrightarrow> x \<in> links_of p' k" for k x
    using graph_okD(3) [OF g, of k x] by (auto simp: edge)
  note old = g [unfolded graph_ok_def]
  show ?thesis
  proof (rule release_cases [OF g r d])
    fix i
    assume i: "IsolatedBlockMap p h = Some i" "lackBlockMap p' = lackBlockMap p" "next' = next" "filter (\<lambda>x. x \<noteq> l) (isoLinks i) \<noteq> []"
      and i': "IsolatedBlockMap p' = (IsolatedBlockMap p)(h \<mapsto> i\<lparr>isoLinks := filter (\<lambda>x. x \<noteq> l) (isoLinks i)\<rparr>)"
    have dom: "dom (IsolatedBlockMap p') = dom (IsolatedBlockMap p)" using i(1) by (auto simp: i')
    have "IsolatedBlockMap p' x = None \<longleftrightarrow> IsolatedBlockMap p x = None" for x using i(1) by (simp add: i')
    moreover have "isoLinks j \<noteq> [] \<and> distinct (isoLinkIt j) \<and> rlp_of E x (isoRLP j)" if "IsolatedBlockMap p' x = Some j" for x j
      using that graph_okD(2) [OF g, of x j] graph_okD(2) [OF g i(1)] i(4) by (auto simp: i' split: if_splits)
    ultimately show ?thesis
      using old exact unfolding graph_ok_def dom i(2,3) by auto
  next
    fix i
    assume i: "IsolatedBlockMap p h = Some i" "lackBlockMap p' = lackBlockMap p" "next' = next @ [(h, isoLinkIt i)]"
      and i': "IsolatedBlockMap p' = (IsolatedBlockMap p)(h := None)"
    have sub: "IsolatedBlockMap p' x = Some j \<Longrightarrow> IsolatedBlockMap p x = Some j" for x j by (auto simp: i' split: if_splits)
    have "IsolatedBlockMap p k = None" if "k \<in> fst ` set ((l, h # hs) # cur @ next)" for k
      using that graph_okD(1) [OF g] by fastforce
    then have "h \<notin> fst ` set ((l, h # hs) # cur @ next)" using i(1) by (metis option.distinct(1))
    then have "distinct (map fst ((l, hs) # cur @ next'))" using old by (auto simp: i(3))
    moreover have "distinct ks \<and> IsolatedBlockMap p' k = None \<and> lackBlockMap p' k = None" if "(k, ks) \<in> set ((l, hs) # cur @ next')" for k ks
    proof -
      have "distinct hs \<and> IsolatedBlockMap p l = None \<and> lackBlockMap p l = None" using graph_okD(1) [OF g, of l "h # hs"] by simp
      moreover have "distinct ks \<and> IsolatedBlockMap p k = None \<and> lackBlockMap p k = None" if "(k, ks) \<in> set (cur @ next)"
        using that graph_okD(1) [OF g, of k ks] by simp
      ultimately show ?thesis using that graph_okD(2,4) [OF g i(1)] by (auto simp: i' i(2,3))
    qed
    moreover have "finite (dom (IsolatedBlockMap p'))" "dom (IsolatedBlockMap p') \<inter> dom (lackBlockMap p') = {}"
      using old by (auto simp: i' i(2))
    moreover have "isoLinks j \<noteq> [] \<and> distinct (isoLinkIt j) \<and> rlp_of E x (isoRLP j)" if "IsolatedBlockMap p' x = Some j" for x j
      using graph_okD(2) [OF g sub [OF that]] .
    moreover have "distinct (lackLinkIt k)" if "lackBlockMap p' x = Some k" for x k using that old by (auto simp: i(2))
    ultimately show ?thesis using exact unfolding graph_ok_def by blast
  qed
qed

section \<open>What has gone\<close>

text \<open>The blocks that lack nothing but \<open>b\<close> and blocks that lack nothing else.\<close>

inductive released :: "BlockPool \<Rightarrow> hash \<Rightarrow> hash \<Rightarrow> bool" for p b where
  "IsolatedBlockMap p h = Some i \<Longrightarrow> (\<And>l. l \<in> set (isoLinks i) \<Longrightarrow> l = b \<or> released p b l) \<Longrightarrow> released p b h"

definition gone :: "BlockPool \<Rightarrow> BlockPool \<Rightarrow> hash set" where
  "gone p0 p = dom (IsolatedBlockMap p0) - dom (IsolatedBlockMap p)"

definition track :: "BlockPool \<Rightarrow> hash \<Rightarrow> layer \<Rightarrow> BlockPool \<Rightarrow> bool" where
  "track p0 b ls p \<longleftrightarrow>
     (\<forall>h i. IsolatedBlockMap p h = Some i \<longrightarrow>
        (\<exists>i0. IsolatedBlockMap p0 h = Some i0 \<and> set (isoLinks i) \<subseteq> set (isoLinks i0) \<and>
           set (isoLinks i0) - set (isoLinks i) \<subseteq> insert b (gone p0 p))) \<and>
     lackBlockMap p = (lackBlockMap p0)(b := None) \<and>
     (\<exists>rel. unverifiedAddChan p = unverifiedAddChan p0 @ rel \<and> distinct rel \<and> set rel = gone p0 p) \<and>
     (\<forall>h \<in> gone p0 p. released p0 b h) \<and>
     fst ` set ls \<subseteq> insert b (gone p0 p)"

lemma track_links:
  assumes "track p0 b ls p" "IsolatedBlockMap p h = Some i"
  obtains i0 where "IsolatedBlockMap p0 h = Some i0" "set (isoLinks i) \<subseteq> set (isoLinks i0)"
    "set (isoLinks i0) - set (isoLinks i) \<subseteq> insert b (gone p0 p)"
  using assms unfolding track_def by blast

lemma release_track:
  assumes g: "graph_ok E ((l, h # hs) # cur @ next) p" and r: "release E l h (p, next) = Inr (p', next')" and d: "drops p' = drops p"
    and t: "track p0 b ((l, h # hs) # cur @ next) p"
  shows "track p0 b ((l, hs) # cur @ next') p'"
proof (rule release_cases [OF g r d])
  fix i
  assume i: "IsolatedBlockMap p h = Some i" "lackBlockMap p' = lackBlockMap p" "next' = next" "unverifiedAddChan p' = unverifiedAddChan p"
    and i': "IsolatedBlockMap p' = (IsolatedBlockMap p)(h \<mapsto> i\<lparr>isoLinks := filter (\<lambda>x. x \<noteq> l) (isoLinks i)\<rparr>)"
  have gone: "gone p0 p' = gone p0 p" using i(1) by (auto simp: gone_def i')
  have l: "l \<in> insert b (gone p0 p)" using t by (simp add: track_def)
  obtain i0 where i0: "IsolatedBlockMap p0 h = Some i0" "set (isoLinks i) \<subseteq> set (isoLinks i0)"
    "set (isoLinks i0) - set (isoLinks i) \<subseteq> insert b (gone p0 p)" by (rule track_links [OF t i(1)])
  have "\<exists>j0. IsolatedBlockMap p0 k = Some j0 \<and> set (isoLinks j) \<subseteq> set (isoLinks j0) \<and>
      set (isoLinks j0) - set (isoLinks j) \<subseteq> insert b (gone p0 p')" if "IsolatedBlockMap p' k = Some j" for k j
  proof (cases "k = h")
    case True
    then have "set (isoLinks j) = set (isoLinks i) - {l}" using that by (auto simp: i')
    with i0 l True show ?thesis by (auto simp: gone)
  next
    case False
    then have "IsolatedBlockMap p k = Some j" using that by (simp add: i')
    then show ?thesis unfolding gone by (rule track_links [OF t]) blast
  qed
  then show ?thesis using t unfolding track_def gone i(2,3,4) by simp
next
  fix i
  assume i: "IsolatedBlockMap p h = Some i" "lackBlockMap p' = lackBlockMap p" "set (isoLinks i) = {l}"
      "next' = next @ [(h, isoLinkIt i)]" "unverifiedAddChan p' = unverifiedAddChan p @ [h]"
    and i': "IsolatedBlockMap p' = (IsolatedBlockMap p)(h := None)"
  obtain i0 where i0: "IsolatedBlockMap p0 h = Some i0" "set (isoLinks i0) - set (isoLinks i) \<subseteq> insert b (gone p0 p)"
    by (rule track_links [OF t i(1)])
  have new: "gone p0 p' = insert h (gone p0 p)" "h \<notin> gone p0 p" using i(1) i0(1) by (auto simp: gone_def i')
  obtain rel where rel: "unverifiedAddChan p = unverifiedAddChan p0 @ rel" "distinct rel" "set rel = gone p0 p"
    using t by (auto simp: track_def)
  have l: "l \<in> insert b (gone p0 p)" using t by (simp add: track_def)
  then have "set (isoLinks i0) \<subseteq> insert b (gone p0 p)" using i0(2) i(3) by auto
  then have rh: "released p0 b h" using i0(1) t by (intro released.intros) (auto simp: track_def)
  have links: "\<exists>j0. IsolatedBlockMap p0 k = Some j0 \<and> set (isoLinks j) \<subseteq> set (isoLinks j0) \<and>
      set (isoLinks j0) - set (isoLinks j) \<subseteq> insert b (gone p0 p')" if "IsolatedBlockMap p' k = Some j" for k j
  proof -
    have "IsolatedBlockMap p k = Some j" using that by (auto simp: i' split: if_splits)
    then show ?thesis unfolding new(1) by (rule track_links [OF t]) blast
  qed
  have rel': "unverifiedAddChan p' = unverifiedAddChan p0 @ (rel @ [h])" "distinct (rel @ [h])" "set (rel @ [h]) = gone p0 p'"
    using rel new i(5) by auto
  have old: "lackBlockMap p' = (lackBlockMap p0)(b := None)" "\<forall>h \<in> gone p0 p. released p0 b h"
      "fst ` set ((l, h # hs) # cur @ next) \<subseteq> insert b (gone p0 p)"
    using t i(2) unfolding track_def by simp_all
  then have keys: "fst ` set ((l, hs) # cur @ next') \<subseteq> insert b (gone p0 p')" unfolding new(1) i(4) by auto
  have all: "\<forall>h \<in> gone p0 p'. released p0 b h" using rh old(2) unfolding new(1) by simp
  show ?thesis unfolding track_def using links rel' old(1) keys all by blast
qed

section \<open>The layers\<close>

lemma no_growth: "\<exists>xs. a = b @ xs \<Longrightarrow> \<exists>ys. c = a @ ys \<Longrightarrow> c = b \<Longrightarrow> a = b \<and> c = a"
  by auto

lemma drops_release: "release E l h (p, next) = Inr (p', next') \<Longrightarrow> \<exists>xs. drops p' = drops p @ xs"
  by (auto simp: release_def Let_def res_bind_eq_Inr_iff drops_def report_def dest: attach_keeps(3)
      split: option.splits sum.splits if_splits)

lemma drops_fold: "fold_res (release E l) hs (p, next) = Inr (p', next') \<Longrightarrow> \<exists>xs. drops p' = drops p @ xs"
proof (induction hs arbitrary: p "next")
  case (Cons h hs)
  obtain q m where q: "release E l h (p, next) = Inr (q, m)" "fold_res (release E l) hs (q, m) = Inr (p', next')"
    using Cons.prems by (auto simp: res_bind_eq_Inr_iff)
  from drops_release [OF q(1)] Cons.IH [OF q(2)] show ?case by auto
qed simp

lemma graph_ok_told: "graph_ok E ((l, []) # ls) p \<Longrightarrow> graph_ok E ls p"
proof -
  have "waits ((l, []) # ls) p = waits ls p" by (simp add: waits_def fun_eq_iff)
  then show "graph_ok E ((l, []) # ls) p \<Longrightarrow> graph_ok E ls p" by (simp add: graph_ok_def)
qed

lemma track_told: "track p0 b ((l, []) # ls) p \<Longrightarrow> track p0 b ls p"
  by (auto simp: track_def)

lemma release_all:
  "graph_ok E ((l, hs) # cur @ next) p \<Longrightarrow> track p0 b ((l, hs) # cur @ next) p \<Longrightarrow>
   fold_res (release E l) hs (p, next) = Inr (p', next') \<Longrightarrow> drops p' = drops p \<Longrightarrow>
   graph_ok E (cur @ next') p' \<and> track p0 b (cur @ next') p'"
proof (induction hs arbitrary: p "next")
  case Nil
  from Nil.prems(3) have "p' = p" "next' = next" by simp_all
  with graph_ok_told [OF Nil.prems(1)] track_told [OF Nil.prems(2)] show ?case by simp
next
  case (Cons h hs)
  obtain q m where q: "release E l h (p, next) = Inr (q, m)" "fold_res (release E l) hs (q, m) = Inr (p', next')"
    using Cons.prems(3) by (auto simp: res_bind_eq_Inr_iff)
  have d: "drops q = drops p" "drops p' = drops q" using no_growth [OF drops_release [OF q(1)] drops_fold [OF q(2)] Cons.prems(4)] by simp_all
  show ?case
    using Cons.IH [OF release_ok [OF Cons.prems(1) q(1) d(1)] release_track [OF Cons.prems(1) q(1) d(1) Cons.prems(2)] q(2) d(2)] .
qed

abbreviation tell :: "env \<Rightarrow> layer \<Rightarrow> BlockPool \<times> layer \<Rightarrow> err + BlockPool \<times> layer" where
  "tell E current \<equiv> fold_res (\<lambda>(parent, linkIt). fold_res (release E parent) linkIt) current"

lemma drops_tell: "tell E current (p, next) = Inr (p', next') \<Longrightarrow> \<exists>xs. drops p' = drops p @ xs"
proof (induction current arbitrary: p "next")
  case (Cons c current)
  obtain q m where q: "fold_res (release E (fst c)) (snd c) (p, next) = Inr (q, m)" "tell E current (q, m) = Inr (p', next')"
    using Cons.prems by (auto simp: res_bind_eq_Inr_iff split: prod.splits)
  from drops_fold [OF q(1)] Cons.IH [OF q(2)] show ?case by auto
qed simp

lemma tell_ok:
  "graph_ok E (current @ next) p \<Longrightarrow> track p0 b (current @ next) p \<Longrightarrow> tell E current (p, next) = Inr (p', next') \<Longrightarrow>
   drops p' = drops p \<Longrightarrow> graph_ok E next' p' \<and> track p0 b next' p'"
proof (induction current arbitrary: p "next")
  case (Cons c current)
  obtain l hs where c: "c = (l, hs)" by fastforce
  obtain q m where q: "fold_res (release E l) hs (p, next) = Inr (q, m)" "tell E current (q, m) = Inr (p', next')"
    using Cons.prems(3) by (auto simp: res_bind_eq_Inr_iff c)
  have d: "drops q = drops p" "drops p' = drops q" using no_growth [OF drops_fold [OF q(1)] drops_tell [OF q(2)] Cons.prems(4)] by simp_all
  have "graph_ok E (current @ m) q \<and> track p0 b (current @ m) q"
    using release_all [OF _ _ q(1) d(1)] Cons.prems(1,2) by (simp add: c)
  with Cons.IH [OF _ _ q(2) d(2)] show ?case by blast
qed simp

lemma drops_loop: "release_loop fuel E current p = Inr p' \<Longrightarrow> \<exists>xs. drops p' = drops p @ xs"
proof (induction fuel arbitrary: current p)
  case (Suc fuel)
  show ?case
  proof (cases "current = []")
    case False
    with Suc.prems obtain q m where q: "tell E current (p, []) = Inr (q, m)" "release_loop fuel E m q = Inr p'"
      by (auto simp: res_bind_eq_Inr_iff release_layer_def)
    from drops_tell [OF q(1)] Suc.IH [OF q(2)] show ?thesis by auto
  qed (use Suc.prems in simp)
qed (simp split: if_splits)

lemma loop_ok:
  "graph_ok E current p \<Longrightarrow> track p0 b current p \<Longrightarrow> release_loop fuel E current p = Inr p' \<Longrightarrow> drops p' = drops p \<Longrightarrow>
   graph_ok E [] p' \<and> track p0 b [] p'"
proof (induction fuel arbitrary: current p)
  case (Suc fuel)
  show ?case
  proof (cases "current = []")
    case False
    with Suc.prems(3) obtain q m where q: "tell E current (p, []) = Inr (q, m)" "release_loop fuel E m q = Inr p'"
      by (auto simp: res_bind_eq_Inr_iff release_layer_def)
    have d: "drops q = drops p" "drops p' = drops q" using no_growth [OF drops_tell [OF q(1)] drops_loop [OF q(2)] Suc.prems(4)] by simp_all
    have "graph_ok E m q \<and> track p0 b m q" using tell_ok [OF _ _ q(1) d(1)] Suc.prems(1,2) by simp
    with Suc.IH [OF _ _ q(2) d(2)] show ?thesis by blast
  qed (use Suc.prems in simp)
qed (simp split: if_splits)

section \<open>Releasing\<close>

lemma gone_refl [simp]: "IsolatedBlockMap q = IsolatedBlockMap p \<Longrightarrow> gone p q = {}"
  by (simp add: gone_def)

lemma deleteIsolatedBlock_ok:
  assumes g: "graph_ok E [] p" and r: "deleteIsolatedBlock fuel E b p = Inr p'" and d: "drops p' = drops p"
    and lack: "lackBlockMap p (fst (GetHash E b)) = Some v"
  shows "graph_ok E [] p' \<and> track p (fst (GetHash E b)) [] p'"
proof -
  let ?h = "fst (GetHash E b)"
  let ?q = "p\<lparr>lackBlockMap := (lackBlockMap p)(?h := None)\<rparr>"
  have r: "release_loop fuel E [(?h, lackLinkIt v)] ?q = Inr p'" using r by (simp add: deleteIsolatedBlock_def lack Let_def)
  have iso: "IsolatedBlockMap p ?h = None" using graph_okD(4) [OF g] lack by (cases "IsolatedBlockMap p ?h") auto
  have w: "waits [(?h, lackLinkIt v)] ?q = waits [] p" "links_of ?q = links_of p"
    using lack iso by (auto simp: waits_def waiting_def links_of_def fun_eq_iff split: option.split)
  have "graph_ok E [(?h, lackLinkIt v)] ?q"
    using g lack iso unfolding graph_ok_def w by auto
  moreover have "track p ?h [(?h, lackLinkIt v)] ?q" by (auto simp: track_def)
  ultimately show ?thesis using loop_ok r d by (simp add: drops_def)
qed

text \<open>
  C12. A stored block releases exactly what it should.  From an orphan graph in order, and when no block is
  dropped, \<open>deleteIsolatedBlock\<close> adds the isolated blocks that lacked nothing but this block and blocks that are
  released with it, each once; every other isolated block stays and lacks what it lacked before less the
  released ones; and the graph is in order again.
\<close>

theorem deleteIsolatedBlock_releases:
  assumes "graph_ok E [] p" "deleteIsolatedBlock fuel E b p = Inr p'" "drops p' = drops p"
    and "fst (GetHash E b) = h" "lackBlockMap p h \<noteq> None"
  shows "graph_ok E [] p' \<and> lackBlockMap p' = (lackBlockMap p)(h := None) \<and>
    (\<exists>rel. unverifiedAddChan p' = unverifiedAddChan p @ rel \<and> distinct rel \<and> set rel = {x. released p h x}) \<and>
    dom (IsolatedBlockMap p') = dom (IsolatedBlockMap p) - {x. released p h x} \<and>
    (\<forall>x. links_of p' x = (if released p h x then {} else links_of p x - insert h {y. released p h y}))"
proof -
  obtain v where v: "lackBlockMap p (fst (GetHash E b)) = Some v" using assms(4,5) by auto
  have g: "graph_ok E [] p'" and t: "track p h [] p'" using deleteIsolatedBlock_ok [OF assms(1-3) v] assms(4) by auto
  have lack: "lackBlockMap p' = (lackBlockMap p)(h := None)" using t by (simp add: track_def)
  have none: "l \<notin> links_of p' x" if "l \<in> insert h (gone p p')" for l x
  proof -
    have "IsolatedBlockMap p' h = None"
      using t graph_okD(4) [OF assms(1), of h] assms(5) by (cases "IsolatedBlockMap p' h") (auto elim: track_links)
    moreover have "IsolatedBlockMap p' l = None \<and> lackBlockMap p l = None" if "l \<in> gone p p'"
      using that graph_okD(4) [OF assms(1)] by (auto simp: gone_def)
    ultimately have "waiting p' l = {}" using that by (auto simp: waiting_def lack split: option.split)
    then show ?thesis using graph_okD(3) [OF g, of x l] by (simp add: waits_def)
  qed
  have sub: "released p h x" if "x \<in> gone p p'" for x using t that by (simp add: track_def)
  have "x \<in> gone p p'" if "released p h x" for x
    using that
  proof induction
    case (1 x i)
    show ?case
    proof (rule ccontr)
      assume "x \<notin> gone p p'"
      then obtain j where j: "IsolatedBlockMap p' x = Some j" using 1(1) by (auto simp: gone_def)
      then obtain l where l: "l \<in> set (isoLinks j)" using graph_okD(2) [OF g j] by (cases "isoLinks j") auto
      from track_links [OF t j] 1(1) l have "l \<in> set (isoLinks i)" by auto
      then have "l \<in> insert h (gone p p')" using 1(2) by blast
      then show False using none [of l x] l j by (simp add: links_of_def)
    qed
  qed
  with sub have gone: "gone p p' = {x. released p h x}" by blast
  have subset: "dom (IsolatedBlockMap p') \<subseteq> dom (IsolatedBlockMap p)" using track_links [OF t] by blast
  then have dom: "dom (IsolatedBlockMap p') = dom (IsolatedBlockMap p) - {x. released p h x}"
    unfolding gone [symmetric] by (auto simp: gone_def)
  have "links_of p' x = (if released p h x then {} else links_of p x - insert h {y. released p h y})" for x
  proof (cases "IsolatedBlockMap p' x")
    case None
    then show ?thesis using dom by (auto simp: links_of_def split: option.split)
  next
    case (Some j)
    obtain i where i: "IsolatedBlockMap p x = Some i" "set (isoLinks j) \<subseteq> set (isoLinks i)"
      "set (isoLinks i) - set (isoLinks j) \<subseteq> insert h (gone p p')" by (rule track_links [OF t Some])
    have "\<not> released p h x" using Some dom by blast
    moreover have "set (isoLinks j) \<inter> insert h (gone p p') = {}" using none [of _ x] Some by (auto simp: links_of_def)
    ultimately show ?thesis using i gone by (auto simp: links_of_def Some)
  qed
  moreover have "\<exists>rel. unverifiedAddChan p' = unverifiedAddChan p @ rel \<and> distinct rel \<and> set rel = {x. released p h x}"
    using t unfolding track_def gone by blast
  ultimately show ?thesis using g lack dom by blast
qed

section \<open>Adding\<close>

lemma graph_ok_cong:
  assumes "IsolatedBlockMap q = IsolatedBlockMap p" "lackBlockMap q = lackBlockMap p"
  shows "graph_ok E ls q = graph_ok E ls p"
  unfolding graph_ok_def waits_def waiting_def links_of_def assms ..

definition lists_ok :: "env \<Rightarrow> BlockPool \<Rightarrow> bool" where
  "lists_ok E p \<longleftrightarrow>
     finite (dom (IsolatedBlockMap p)) \<and> (\<forall>l i. IsolatedBlockMap p l = Some i \<longrightarrow> lackBlockMap p l = None) \<and>
     (\<forall>h i. IsolatedBlockMap p h = Some i \<longrightarrow> isoLinks i \<noteq> [] \<and> distinct (isoLinkIt i) \<and> rlp_of E h (isoRLP i)) \<and>
     (\<forall>l k. lackBlockMap p l = Some k \<longrightarrow> distinct (lackLinkIt k))"

lemma graph_ok_lists: "graph_ok E [] p \<longleftrightarrow> lists_ok E p \<and> (\<forall>l h. h \<in> waiting p l \<longleftrightarrow> l \<in> links_of p h)"
  by (auto simp: graph_ok_def lists_ok_def waits_def disjoint_iff dom_def)

lemma note_link_ok:
  assumes "lists_ok E p" "h \<notin> waiting p l"
  shows "lists_ok E (note_link c h t l p)" "waiting (note_link c h t l p) = (waiting p)(l := insert h (waiting p l))"
    "links_of (note_link c h t l p) = links_of p"
proof -
  have "lists_ok E (note_link c h t l p) \<and> waiting (note_link c h t l p) = (waiting p)(l := insert h (waiting p l)) \<and>
      links_of (note_link c h t l p) = links_of p"
  proof (cases "IsolatedBlockMap p l")
    case (Some i)
    have "dom ((IsolatedBlockMap p)(l \<mapsto> x)) = dom (IsolatedBlockMap p)" for x using Some by auto
    then have "lists_ok E (note_link c h t l p)"
      using assms Some unfolding lists_ok_def by (auto simp: note_link_def waiting_def split: if_splits simp del: dom_fun_upd)
    then show ?thesis using Some
      by (auto simp: note_link_def waiting_def links_of_def fun_eq_iff split: option.split)
  next
    case None
    show ?thesis
    proof (cases "lackBlockMap p l")
      case l: None
      have "lists_ok E (note_link c h t l p)"
        using assms None l unfolding lists_ok_def by (auto simp: note_link_def split: if_splits)
      then show ?thesis using None l by (auto simp: note_link_def waiting_def links_of_def fun_eq_iff split: option.split)
    next
      case (Some k)
      have "lists_ok E (note_link c h t l p)"
        using assms None Some unfolding lists_ok_def by (auto simp: note_link_def waiting_def split: if_splits)
      then show ?thesis using None Some by (auto simp: note_link_def waiting_def links_of_def fun_eq_iff split: option.split)
    qed
  qed
  then show "lists_ok E (note_link c h t l p)" "waiting (note_link c h t l p) = (waiting p)(l := insert h (waiting p l))"
    "links_of (note_link c h t l p) = links_of p" by blast+
qed

lemma note_links_ok:
  "lists_ok E p \<Longrightarrow> distinct links \<Longrightarrow> (\<And>l. l \<in> set links \<Longrightarrow> h \<notin> waiting p l) \<Longrightarrow>
   lists_ok E (fold (note_link c h t) links p) \<and>
   waiting (fold (note_link c h t) links p) = (\<lambda>l. if l \<in> set links then insert h (waiting p l) else waiting p l) \<and>
   links_of (fold (note_link c h t) links p) = links_of p"
proof (induction links arbitrary: p)
  case (Cons l links)
  note n = note_link_ok [OF Cons.prems(1), of h l c t]
  have hl: "h \<notin> waiting p l" using Cons.prems(3) by simp
  have "lists_ok E (fold (note_link c h t) links (note_link c h t l p)) \<and>
      waiting (fold (note_link c h t) links (note_link c h t l p)) =
        (\<lambda>x. if x \<in> set links then insert h (waiting (note_link c h t l p) x) else waiting (note_link c h t l p) x) \<and>
      links_of (fold (note_link c h t) links (note_link c h t l p)) = links_of (note_link c h t l p)"
    using Cons.prems by (intro Cons.IH n(1) [OF hl]) (auto simp: n(2) [OF hl])
  then show ?case using n(2,3) [OF hl] Cons.prems(2) by (auto simp: fun_eq_iff)
qed simp

lemma addIsolatedBlock_ok:
  assumes g: "graph_ok E [] p" and b: "good_block b" "small_block b" "hash_coherent E b" and l: "distinct links" "links \<noteq> []"
  shows "graph_ok E [] (snd (addIsolatedBlock E c b links p))"
proof (cases "IsolatedBlockMap p (fst (GetHash E b))")
  case (Some i)
  with g show ?thesis by (simp add: addIsolatedBlock_def Let_def)
next
  case None
  define h where "h = fst (GetHash E b)"
  define needMe where "needMe = (case lackBlockMap p h of None \<Rightarrow> [] | Some v \<Rightarrow> lackLinkIt v)"
  define new where "new = \<lparr>isoLinks = links, isoLinkIt = needMe, isoTime = word_of_int c, isoRLP = GetRlp b\<rparr>"
  define q where "q = p\<lparr>lackBlockMap := (lackBlockMap p)(h := None), IsolatedBlockMap := (IsolatedBlockMap p)(h \<mapsto> new)\<rparr>"
  have res: "snd (addIsolatedBlock E c b links p) = fold (note_link c h (GetTime b)) links q"
    using None by (simp add: addIsolatedBlock_def Let_def h_def q_def new_def needMe_def)
  have iso: "IsolatedBlockMap p h = None" using None by (simp add: h_def)
  have gl: "lists_ok E p" "\<And>l x. x \<in> waiting p l \<longleftrightarrow> l \<in> links_of p x" using g by (auto simp: graph_ok_lists)
  have "h = block_hash E b" using GetHash_coherent(1) [OF b(3)] by (simp add: h_def)
  then have "rlp_of E h (GetRlp b)" using rlp_of_GetRlp [OF b] by simp
  moreover have "distinct needMe" using gl(1) by (auto simp: needMe_def lists_ok_def split: option.split)
  ultimately have q: "lists_ok E q" using gl(1) l(2) unfolding lists_ok_def by (auto simp: q_def new_def split: if_splits)
  have wq: "waiting q = waiting p" using iso by (auto simp: waiting_def q_def new_def needMe_def fun_eq_iff split: option.split)
  have lq: "links_of q = (links_of p)(h := set links)" by (auto simp: links_of_def q_def new_def fun_eq_iff)
  have hw: "h \<notin> waiting p x" for x using gl(2) [of h x] iso by (simp add: links_of_def)
  have "lists_ok E (fold (note_link c h (GetTime b)) links q) \<and>
      waiting (fold (note_link c h (GetTime b)) links q) = (\<lambda>x. if x \<in> set links then insert h (waiting p x) else waiting p x) \<and>
      links_of (fold (note_link c h (GetTime b)) links q) = (links_of p)(h := set links)"
    using note_links_ok [OF q l(1), of h c "GetTime b", unfolded wq lq] hw by blast
  moreover have "x \<in> (if l \<in> set links then insert h (waiting p l) else waiting p l) \<longleftrightarrow> l \<in> ((links_of p)(h := set links)) x" for l x
    using gl(2) [of x l] hw [of l] by auto
  ultimately show ?thesis unfolding res graph_ok_lists by simp
qed

lemma check_links_lacks:
  assumes "check_links E D t links = Inr lacks" "distinct links"
  shows "distinct lacks \<and> set lacks \<subseteq> set links"
proof -
  have "fold_res (\<lambda>h lacks. res_bind (ReadBlock E D h) (\<lambda>ob. case ob of
         Some b \<Rightarrow> if GetTime b > t then Inl (Msg ''links time error'') else Inr lacks
       | None \<Rightarrow> Inr (lacks @ [h]))) links acc = Inr lacks \<Longrightarrow> distinct (acc @ links) \<Longrightarrow>
      distinct lacks \<and> set lacks \<subseteq> set acc \<union> set links" for acc
  proof (induction links arbitrary: acc)
    case (Cons h hs)
    then consider "fold_res (\<lambda>h lacks. res_bind (ReadBlock E D h) (\<lambda>ob. case ob of
         Some b \<Rightarrow> if GetTime b > t then Inl (Msg ''links time error'') else Inr lacks
       | None \<Rightarrow> Inr (lacks @ [h]))) hs acc = Inr lacks" | "fold_res (\<lambda>h lacks. res_bind (ReadBlock E D h) (\<lambda>ob. case ob of
         Some b \<Rightarrow> if GetTime b > t then Inl (Msg ''links time error'') else Inr lacks
       | None \<Rightarrow> Inr (lacks @ [h]))) hs (acc @ [h]) = Inr lacks"
      by (auto simp: res_bind_eq_Inr_iff split: option.splits if_splits)
    then show ?case
    proof cases
      case 1
      with Cons.IH [OF 1] Cons.prems(2) show ?thesis by auto
    next
      case 2
      with Cons.IH [OF 2] Cons.prems(2) show ?thesis by auto
    qed
  qed simp
  from this [of "[]"] assms show ?thesis by (simp add: check_links_def)
qed

text \<open>
  C11. The orphan graph stays in order.  Whatever valid block is offered, new or known, complete or not: unless
  a block is dropped, afterwards every isolated block waits, once, under exactly the links it lacks, no isolated
  block lacks nothing, and no block is at the same time isolated and lacking.
\<close>

theorem AddBlock_keeps_graph:
  assumes g: "graph_ok E [] p" and b: "good_block b" "small_block b" "hash_coherent E b" "distinct (GetLinks b)"
    and r: "AddBlock fuel E clock b isRelay isSync p = Inr (e, p')" and d: "drops p' = drops p"
  shows "graph_ok E [] p'"
proof -
  have del: "graph_ok E [] y" if "graph_ok E [] x" "deleteIsolatedBlock fuel E c x = Inr y" "drops y = drops x" for c x y
  proof (cases "lackBlockMap x (fst (GetHash E c))")
    case None
    with that show ?thesis by (simp add: deleteIsolatedBlock_def Let_def)
  next
    case (Some v)
    then show ?thesis using deleteIsolatedBlock_ok [OF that] by blast
  qed
  show ?thesis
  proof (cases "HasBlock (pool_db p) (fst (GetHash E b))")
    case True
    with r have "deleteIsolatedBlock fuel E b p = Inr p'" by (auto simp: AddBlock_def res_bind_eq_Inr_iff)
    with del g d show ?thesis by blast
  next
    case False
    define q where "q = (if isSync then updateSyncTime (GetTime b) p else p)"
    have q: "graph_ok E [] q" "drops q = drops p"
      using g graph_ok_cong [of q p] by (auto simp: q_def updateSyncTime_def drops_def)
    from False r obtain iso where save: "linkCheckAndSave fuel E clock b isRelay isSync p = Inr ((iso, e), p')"
      by (auto simp: AddBlock_def res_bind_eq_Inr_iff)
    show ?thesis
    proof (cases "check_links E (pool_db p) (GetTime b) (GetLinks b)")
      case (Inl x)
      with save g show ?thesis by (auto simp: linkCheckAndSave_unfold split: if_splits)
    next
      case (Inr lacks)
      show ?thesis
      proof (cases "lacks = []")
        case False
        with save Inr have "p' = snd (addIsolatedBlock E clock b lacks q)" by (simp add: linkCheckAndSave_unfold Let_def q_def)
        with addIsolatedBlock_ok [OF q(1) b(1-3)] check_links_lacks [OF Inr b(4)] False show ?thesis by simp
      next
        case True
        with save Inr obtain e1 b1 p1 where a: "attach E b q = Inr ((e1, b1), p1)"
          and k: "(if e1 \<noteq> None then Inr ((False, e1), p1) else res_bind (deleteIsolatedBlock fuel E b1 p1) (\<lambda>p.
              Inr ((False, None), if isRelay then p\<lparr>posted := posted p @ [RelayBlocksEvent [b1]]\<rparr> else p))) = Inr ((iso, e), p')"
          by (auto simp: linkCheckAndSave_unfold Let_def q_def res_bind_eq_Inr_iff)
        have p1: "graph_ok E [] p1" "drops p1 = drops p"
          using attach_keeps [OF a] q graph_ok_cong [of p1 q] by (auto simp: drops_def)
        show ?thesis
        proof (cases "e1 = None")
          case False
          with k p1 show ?thesis by simp
        next
          case True
          with k obtain y where y: "deleteIsolatedBlock fuel E b1 p1 = Inr y"
            "p' = (if isRelay then y\<lparr>posted := posted y @ [RelayBlocksEvent [b1]]\<rparr> else y)" by (auto simp: res_bind_eq_Inr_iff)
          then have "drops y = drops p1" using d p1(2) by (auto simp: drops_def split: if_splits)
          with del [OF p1(1) y(1)] have "graph_ok E [] y" .
          then show ?thesis using graph_ok_cong [of p' y] y(2) by auto
        qed
      qed
    qed
  qed
qed

text \<open>A pool whose store has the genesis block, in which the miner block of the samples waits for it.\<close>

definition waiting_pool :: BlockPool where
  "waiting_pool = \<lparr>mainChainI = sample_chain\<lparr>mcDB := sample_store\<rparr>,
     IsolatedBlockMap = [sample_h \<mapsto> \<lparr>isoLinks = [5], isoLinkIt = [], isoTime = 0, isoRLP = GetRlp sample_main\<rparr>],
     lackBlockMap = [5 \<mapsto> \<lparr>lackLinkIt = [sample_h], lackTime = 0, lackMinTime = 4000\<rparr>],
     MaxSyncTime = 0, unverifiedAddChan = [], unverifiedDelChan = [], unverifiedBlocks = NewUniqueList 150000,
     posted = [], published = None, errors = []\<rparr>"

lemma waiting_pool_ok: "graph_ok late_env [] waiting_pool"
proof -
  have "rlp_of late_env sample_h (GetRlp sample_main)" by (rule rlp_of_GetRlp [OF sample_main_ok(1) sample_main_small sample_main_ok(2)])
  then show ?thesis using sample_main_hash
    by (auto simp: graph_ok_lists lists_ok_def waiting_pool_def waiting_def links_of_def split: option.splits if_splits)
qed

lemma sample_main_diff: "\<exists>upd b. ComputeCumulativeDiff late_env sample_store sample_main' = Inr (upd, b) \<and> GetCumulativeDiff b \<noteq> None"
proof -
  let ?g = "SetMutableInfo (norm_info zeroInfo) sample_genesis"
  have l: "load_block late_env sample_store 5 = Inr ?g"
    using sample_main_hash by (simp add: load_block_def sample_store_reads)
  have links: "GetLinks sample_main' = [5]" by (simp add: sample_mbrec_def)
  have t: "\<not> IsTheSameTimeSlice (GetTime sample_main') (GetTime ?g)"
    by (simp add: sample_mbrec_def sample_genesis_def GetTime_def IsTheSameTimeSlice_def GetMainTime_def)
  have g: "GetCumulativeDiff ?g = Some 0" "GetStatus ?g = 0" by (simp_all add: GetCumulativeDiff_def GetStatus_def norm_info_def zeroInfo_def)
  obtain x where "single_link late_env sample_store (GetTime sample_main') (fst (GetDiff late_env sample_main')) 5 = Inr x"
    using t by (simp add: single_link_def l g del: GetDiff.simps)
  then show ?thesis unfolding ComputeCumulativeDiff_def links by simp
qed

lemma waiting_pool_run: "\<exists>p'. deleteIsolatedBlock 2 late_env sample_genesis waiting_pool = Inr p' \<and> drops p' = drops waiting_pool"
proof -
  define iso where "iso = \<lparr>isoLinks = [5 :: hash], isoLinkIt = [] :: hash list, isoTime = 0 :: 32 word, isoRLP = GetRlp sample_main\<rparr>"
  define q where "q = waiting_pool\<lparr>lackBlockMap := (lackBlockMap waiting_pool)(5 := None)\<rparr>"
  define q' where "q' = q\<lparr>IsolatedBlockMap := (IsolatedBlockMap q)(sample_h := None)\<rparr>"
  have dec: "BlockDecode late_env (GetRlp sample_main) = Inr sample_main'"
    using sample_main_valid by (simp add: BlockDecode_GetRlp_eq [OF sample_main_ok(1) sample_main_small])
  obtain upd b where c: "ComputeCumulativeDiff late_env sample_store sample_main' = Inr (upd, b)" "GetCumulativeDiff b \<noteq> None"
    using sample_main_diff by blast
  have "\<exists>p1. attach late_env sample_main' q' = Inr ((None, b), p1)"
    using c by (auto simp: attach_def Let_def deleteUnverifiedBlocks_def fold_deleteUnverified q'_def q_def waiting_pool_def
        saveBlock_def sendBlockInfoToCenter_def addUnverifiedBlock_def UpdateTail_def tail_check_def sample_chain_def)
  then obtain p1 where a: "attach late_env sample_main' q' = Inr ((None, b), p1)" by blast
  have "IsolatedBlockMap q sample_h = Some iso" by (simp add: q_def waiting_pool_def iso_def)
  then have "release late_env 5 sample_h (q, []) = Inr (p1, [(fst (GetHash late_env b), [])])"
    using a dec by (simp add: release_def Let_def iso_def q'_def)
  then have "release_loop 2 late_env [(5, [sample_h])] q = Inr p1"
    by (simp add: numeral_2_eq_2 release_layer_def)
  then have "deleteIsolatedBlock 2 late_env sample_genesis waiting_pool = Inr p1"
    using sample_hashes(2) by (simp add: deleteIsolatedBlock_def Let_def waiting_pool_def q_def del: GetHash.simps)
  moreover have "drops p1 = drops waiting_pool" using attach_keeps(3) [OF a] by (simp add: drops_def q'_def q_def)
  ultimately show ?thesis by blast
qed

theorem deleteIsolatedBlock_releases_witness:
  "\<exists>p'. deleteIsolatedBlock 2 late_env sample_genesis waiting_pool = Inr p' \<and>
     IsolatedBlockMap p' = Map.empty \<and> unverifiedAddChan p' = [sample_h]"
proof -
  obtain p' where p': "deleteIsolatedBlock 2 late_env sample_genesis waiting_pool = Inr p'" "drops p' = drops waiting_pool"
    using waiting_pool_run by blast
  have lack: "lackBlockMap waiting_pool 5 \<noteq> None" by (simp add: waiting_pool_def)
  have rel: "{x. released waiting_pool 5 x} = {sample_h}"
  proof -
    have "released waiting_pool 5 sample_h" by (rule released.intros) (auto simp: waiting_pool_def)
    moreover have "released waiting_pool 5 x \<Longrightarrow> x = sample_h" for x
      by (erule released.cases) (auto simp: waiting_pool_def split: if_splits)
    ultimately show ?thesis by blast
  qed
  from deleteIsolatedBlock_releases [OF waiting_pool_ok p' sample_hashes(2) lack]
  obtain xs where xs: "unverifiedAddChan p' = unverifiedAddChan waiting_pool @ xs" "distinct xs" "set xs = {sample_h}"
    and dom: "dom (IsolatedBlockMap p') = {}" unfolding rel by (auto simp: waiting_pool_def)
  have "xs = [sample_h]" using xs(2,3) by (cases xs; cases "tl xs") auto
  with xs(1) p'(1) dom show ?thesis by (auto simp: waiting_pool_def)
qed

text \<open>A pool with an empty store, which has not seen a block.\<close>

definition new_pool :: BlockPool where
  "new_pool = waiting_pool\<lparr>mainChainI := sample_chain\<lparr>mcDB := empty_db\<rparr>, IsolatedBlockMap := Map.empty, lackBlockMap := Map.empty\<rparr>"

theorem AddBlock_terminates_witness: "AddBlock 1 late_env 0 sample_main True False new_pool \<noteq> Inl NoFuel"
  using AddBlock_terminates [of new_pool 1] by (simp add: new_pool_def)

theorem AddBlock_keeps_graph_witness:
  "\<exists>p'. AddBlock 1 late_env 0 sample_main True False new_pool = Inr (None, p') \<and> graph_ok late_env [] p' \<and>
     lackBlockMap p' 5 \<noteq> None"
proof -
  have g: "graph_ok late_env [] new_pool"
    by (auto simp: graph_ok_lists lists_ok_def new_pool_def waiting_def links_of_def)
  have links: "GetLinks sample_main = [5]" by (simp add: sample_main_def sample_mbrec_def)
  have db: "pool_db new_pool = empty_db" by (simp add: new_pool_def)
  have "ReadBlock late_env empty_db 5 = Inr None" by (simp add: ReadBlock_def ReadBlockRlp_def Get_def empty_db_def)
  then have c: "check_links late_env empty_db (GetTime sample_main) [5] = Inr [5]" by (simp add: check_links_def)
  have h: "\<not> HasBlock empty_db (fst (GetHash late_env sample_main))" by (simp add: HasBlock_def Has_def empty_db_def)
  obtain p' where p': "p' = snd (addIsolatedBlock late_env 0 sample_main [5] new_pool)" by simp
  then have r: "AddBlock 1 late_env 0 sample_main True False new_pool = Inr (None, p')"
    using h c by (simp add: AddBlock_def linkCheckAndSave_unfold links db Let_def)
  have e: "errors p' = errors new_pool" "lackBlockMap p' 5 \<noteq> None"
    using GetHash_coherent(1) [OF sample_main_ok(2), of late_env] sample_main_hash
    by (simp_all add: p' addIsolatedBlock_def Let_def note_link_def new_pool_def)
  have "distinct (GetLinks sample_main)" by (simp add: links)
  from AddBlock_keeps_graph [OF g sample_main_ok(1) sample_main_small sample_main_ok(2) this r] e r show ?thesis
    by (auto simp: drops_def)
qed

end
