(* ===== verification/Pool_Loss.thy ===== *)
theory Pool_Loss
  imports Pool_Release
begin

text \<open>
  Two ways in which the block pool loses something: the descendants of a block that could not be added wait for
  ever, and the two channels of the list of unverified blocks overtake each other.
\<close>

section \<open>Stranded blocks\<close>

definition stranded :: "layer \<Rightarrow> hash \<Rightarrow> hash \<Rightarrow> BlockPool \<Rightarrow> bool" where
  "stranded ls c h p \<longleftrightarrow> h \<in> links_of p c \<and> c \<notin> waits ls p h"

definition rlps_ok :: "env \<Rightarrow> BlockPool \<Rightarrow> bool" where
  "rlps_ok E p \<longleftrightarrow> (\<forall>h i. IsolatedBlockMap p h = Some i \<longrightarrow> rlp_of E h (isoRLP i) \<and> lackBlockMap p h = None)"

lemma stranded_isolated: "stranded ls c h p \<Longrightarrow> \<exists>i. IsolatedBlockMap p c = Some i \<and> h \<in> set (isoLinks i)"
  by (auto simp: stranded_def links_of_def split: option.splits)

text \<open>Every block that is saved is announced on the channel of unverified blocks: \<open>c\<close> was not among those saved since.\<close>

definition spared :: "hash \<Rightarrow> BlockPool \<Rightarrow> BlockPool \<Rightarrow> bool" where
  "spared c p p' \<longleftrightarrow> (\<exists>xs. unverifiedAddChan p' = unverifiedAddChan p @ xs \<and> c \<notin> set xs)"

lemma spared_refl [simp]: "unverifiedAddChan p' = unverifiedAddChan p \<Longrightarrow> spared c p p'"
  by (simp add: spared_def)

lemma spared_trans [trans]: "spared c p q \<Longrightarrow> spared c q r \<Longrightarrow> spared c p r"
  by (fastforce simp: spared_def)

text \<open>What a release does to the orphan graph, well or not.\<close>

lemma release_effect:
  assumes r: "release E l x (p, next) = Inr (p', next')" and ok: "rlps_ok E p"
  shows "lackBlockMap p' = lackBlockMap p \<and>
    (IsolatedBlockMap p' = IsolatedBlockMap p \<and> next' = next \<and> unverifiedAddChan p' = unverifiedAddChan p \<or>
     (\<exists>i. IsolatedBlockMap p x = Some i \<and>
       (let links = filter (\<lambda>y. y \<noteq> l) (isoLinks i) in
        links \<noteq> [] \<and> IsolatedBlockMap p' = (IsolatedBlockMap p)(x \<mapsto> i\<lparr>isoLinks := links\<rparr>) \<and> next' = next \<and>
          unverifiedAddChan p' = unverifiedAddChan p \<or>
        links = [] \<and> IsolatedBlockMap p' = (IsolatedBlockMap p)(x := None) \<and>
          (next' = next \<and> unverifiedAddChan p' = unverifiedAddChan p \<or>
           next' = next @ [(x, isoLinkIt i)] \<and> unverifiedAddChan p' = unverifiedAddChan p @ [x]))))"
proof (cases "IsolatedBlockMap p x")
  case None
  with r show ?thesis by (auto simp: release_def report_def)
next
  case (Some i)
  let ?links = "filter (\<lambda>y. y \<noteq> l) (isoLinks i)"
  show ?thesis
  proof (cases "?links = []")
    case False
    then have "IsolatedBlockMap p' = (IsolatedBlockMap p)(x \<mapsto> i\<lparr>isoLinks := ?links\<rparr>) \<and> next' = next \<and>
        lackBlockMap p' = lackBlockMap p \<and> unverifiedAddChan p' = unverifiedAddChan p"
      using r by (auto simp: release_def Let_def Some report_def)
    then show ?thesis using False Some by (simp add: Let_def)
  next
    case True
    define q where "q = (if ?links = isoLinks i then report (LinkNotFound x) p else p)\<lparr>IsolatedBlockMap := (IsolatedBlockMap p)(x := None)\<rparr>"
    have q: "IsolatedBlockMap q = (IsolatedBlockMap p)(x := None)" "lackBlockMap q = lackBlockMap p"
        "unverifiedAddChan q = unverifiedAddChan p"
      by (simp_all add: q_def report_def)
    have q_eq: "(if ?links = isoLinks i then report (LinkNotFound x) p else p)\<lparr>IsolatedBlockMap :=
        (IsolatedBlockMap (if ?links = isoLinks i then report (LinkNotFound x) p else p))(x := None)\<rparr> = q"
      by (simp add: q_def report_def)
    have "lackBlockMap p' = lackBlockMap p \<and> IsolatedBlockMap p' = (IsolatedBlockMap p)(x := None) \<and>
        (next' = next \<and> unverifiedAddChan p' = unverifiedAddChan p \<or>
         next' = next @ [(x, isoLinkIt i)] \<and> unverifiedAddChan p' = unverifiedAddChan p @ [x])"
    proof (cases "BlockDecode E (isoRLP i)")
      case (Inl e)
      with r show ?thesis unfolding release_def Let_def prod.case Some option.case q_eq using True q
        by (auto simp: report_def split: if_splits)
    next
      case (Inr b)
      with r have "res_bind (attach E b q) (\<lambda>((e, b), p).
          if e = None then Inr (p, next @ [(fst (GetHash E b), isoLinkIt i)]) else Inr (report (CumulativeDiffFailed x) p, next)) = Inr (p', next')"
        unfolding release_def Let_def prod.case Some option.case q_eq using True by simp
      then obtain y where y: "attach E b q = Inr y" "(\<lambda>((e, b), p).
          if e = None then Inr (p, next @ [(fst (GetHash E b), isoLinkIt i)]) else Inr (report (CumulativeDiffFailed x) p, next)) y = (Inr (p', next') :: err + BlockPool \<times> layer)"
        by (rule res_bind_eq_InrE)
      obtain e b' p1 where "y = ((e, b'), p1)" by (metis prod.collapse)
      with y have a: "attach E b q = Inr ((e, b'), p1)"
        and k: "(if e = None then Inr (p1, next @ [(fst (GetHash E b'), isoLinkIt i)]) else Inr (report (CumulativeDiffFailed x) p1, next))
           = (Inr (p', next') :: err + BlockPool \<times> layer)" by simp_all
      have "fst (GetHash E b') = x" if "e = None"
        using attach_hash [OF _ a [unfolded that]] Inr ok Some by (auto simp: rlps_ok_def rlp_of_def)
      then show ?thesis using k attach_keeps [OF a] q by (auto simp: report_def split: if_splits)
    qed
    then show ?thesis using True Some by (auto simp: Let_def)
  qed
qed

lemma release_rlps: "release E l x (p, next) = Inr (p', next') \<Longrightarrow> rlps_ok E p \<Longrightarrow> rlps_ok E p'"
  by (drule (1) release_effect) (auto simp: rlps_ok_def Let_def split: if_splits)

lemma release_stranded:
  assumes r: "release E l x (p, next) = Inr (p', next')" and ok: "rlps_ok E p" and s: "stranded ((l, x # xs) # cur @ next) c h p"
  shows "stranded ((l, xs) # cur @ next') c h p' \<and> spared c p p'"
proof -
  obtain ic where ic: "IsolatedBlockMap p c = Some ic" "h \<in> set (isoLinks ic)" using stranded_isolated [OF s] by blast
  have n: "c \<notin> waiting p h" "c \<notin> pending ((l, x # xs) # cur @ next) h" using s by (simp_all add: stranded_def waits_def)
  have kept: "h \<in> set (filter (\<lambda>y. y \<noteq> l) (isoLinks ic))" if "x = c" using n(2) ic(2) that by auto
  note eff = release_effect [OF r ok]
  have lack: "lackBlockMap p' = lackBlockMap p" using eff by blast
  consider "IsolatedBlockMap p' = IsolatedBlockMap p" "next' = next" "unverifiedAddChan p' = unverifiedAddChan p"
    | i where "IsolatedBlockMap p x = Some i" "IsolatedBlockMap p' = (IsolatedBlockMap p)(x \<mapsto> i\<lparr>isoLinks := filter (\<lambda>y. y \<noteq> l) (isoLinks i)\<rparr>)" "next' = next"
        "unverifiedAddChan p' = unverifiedAddChan p"
    | i where "IsolatedBlockMap p x = Some i" "filter (\<lambda>y. y \<noteq> l) (isoLinks i) = []" "IsolatedBlockMap p' = (IsolatedBlockMap p)(x := None)"
        "next' = next \<or> next' = next @ [(x, isoLinkIt i)]"
        "unverifiedAddChan p' = unverifiedAddChan p \<or> unverifiedAddChan p' = unverifiedAddChan p @ [x]"
    using eff unfolding Let_def by blast
  then show ?thesis
  proof cases
    case 1
    then have "waiting p' h = waiting p h" "links_of p' c = links_of p c" using lack by (simp_all add: waiting_def links_of_def split: option.split)
    then show ?thesis using s n(2) by (auto simp: stranded_def waits_def 1(2,3) split: if_splits)
  next
    case 2
    then have "waiting p' h = waiting p h" using lack by (auto simp: waiting_def split: option.split)
    moreover have "h \<in> links_of p' c" using 2 ic kept by (auto simp: links_of_def)
    ultimately show ?thesis using n by (auto simp: stranded_def waits_def 2(3,4) split: if_splits)
  next
    case 3
    have "x \<noteq> c"
    proof
      assume "x = c"
      then have "filter (\<lambda>y. y \<noteq> l) (isoLinks ic) \<noteq> []" using kept by (metis length_pos_if_in_set less_numeral_extra(3) list.size(3))
      with 3(1,2) ic(1) \<open>x = c\<close> show False by simp
    qed
    then have "h \<in> links_of p' c" using ic by (simp add: links_of_def 3(3))
    moreover have "x = h \<Longrightarrow> c \<notin> set (isoLinkIt i)" using n(1) 3(1) by (auto simp: waiting_def)
    moreover have "c \<notin> waiting p' h" using n(1) ok 3(1) lack by (auto simp: waiting_def 3(3) rlps_ok_def split: option.splits)
    moreover have "spared c p p'" using 3(5) \<open>x \<noteq> c\<close> by (auto simp: spared_def)
    ultimately show ?thesis using n 3(4) by (auto simp: stranded_def waits_def split: if_splits)
  qed
qed

lemma release_list_stranded:
  "fold_res (release E l) xs (p, next) = Inr (p', next') \<Longrightarrow> rlps_ok E p \<Longrightarrow> stranded ((l, xs) # cur @ next) c h p \<Longrightarrow>
   rlps_ok E p' \<and> stranded (cur @ next') c h p' \<and> spared c p p'"
proof (induction xs arbitrary: p "next")
  case Nil
  then show ?case by (auto simp: stranded_def waits_def)
next
  case (Cons x xs)
  obtain q m where q: "release E l x (p, next) = Inr (q, m)" "fold_res (release E l) xs (q, m) = Inr (p', next')"
    using Cons.prems(1) by (auto simp: res_bind_eq_Inr_iff)
  note step = release_stranded [OF q(1) Cons.prems(2,3)]
  show ?case using Cons.IH [OF q(2) release_rlps [OF q(1) Cons.prems(2)] conjunct1 [OF step]] step spared_trans by blast
qed

lemma tell_stranded:
  "tell E current (p, next) = Inr (p', next') \<Longrightarrow> rlps_ok E p \<Longrightarrow> stranded (current @ next) c h p \<Longrightarrow>
   rlps_ok E p' \<and> stranded next' c h p' \<and> spared c p p'"
proof (induction current arbitrary: p "next")
  case (Cons k current)
  obtain q m where q: "fold_res (release E (fst k)) (snd k) (p, next) = Inr (q, m)" "tell E current (q, m) = Inr (p', next')"
    using Cons.prems(1) by (auto simp: res_bind_eq_Inr_iff split: prod.splits)
  have "rlps_ok E q \<and> stranded (current @ m) c h q \<and> spared c p q"
    using release_list_stranded [OF q(1) Cons.prems(2), of current c h] Cons.prems(3) by simp
  with Cons.IH [OF q(2)] spared_trans show ?case by blast
qed simp

lemma loop_stranded:
  "release_loop fuel E current p = Inr p' \<Longrightarrow> rlps_ok E p \<Longrightarrow> stranded current c h p \<Longrightarrow>
   rlps_ok E p' \<and> stranded [] c h p' \<and> spared c p p'"
proof (induction fuel arbitrary: current p)
  case (Suc fuel)
  show ?case
  proof (cases "current = []")
    case False
    with Suc.prems(1) obtain q m where q: "tell E current (p, []) = Inr (q, m)" "release_loop fuel E m q = Inr p'"
      by (auto simp: res_bind_eq_Inr_iff release_layer_def)
    have "rlps_ok E q \<and> stranded m c h q \<and> spared c p q" using tell_stranded [OF q(1) Suc.prems(2)] Suc.prems(3) by simp
    with Suc.IH [OF q(2)] spared_trans show ?thesis by blast
  qed (use Suc.prems in simp)
qed (auto split: if_splits)

lemma delete_stranded:
  assumes r: "deleteIsolatedBlock fuel E b p = Inr p'" and ok: "rlps_ok E p" and s: "stranded [] c h p"
  shows "rlps_ok E p' \<and> stranded [] c h p' \<and> spared c p p'"
proof (cases "lackBlockMap p (fst (GetHash E b))")
  case None
  with r ok s show ?thesis by (simp add: deleteIsolatedBlock_def Let_def)
next
  case (Some v)
  let ?h = "fst (GetHash E b)"
  let ?q = "p\<lparr>lackBlockMap := (lackBlockMap p)(?h := None)\<rparr>"
  have "IsolatedBlockMap p ?h = None" using ok Some by (cases "IsolatedBlockMap p ?h") (auto simp: rlps_ok_def)
  then have "stranded [(?h, lackLinkIt v)] c h ?q"
    using s Some by (auto simp: stranded_def waits_def waiting_def links_of_def split: option.splits if_splits)
  moreover have "rlps_ok E ?q" using ok by (auto simp: rlps_ok_def)
  moreover have "release_loop fuel E [(?h, lackLinkIt v)] ?q = Inr p'" using r by (simp add: deleteIsolatedBlock_def Some Let_def)
  moreover have "spared c p ?q" by simp
  ultimately show ?thesis using loop_stranded spared_trans by blast
qed

section \<open>Adding does not help\<close>

lemma note_link_stranded:
  assumes "rlps_ok E p" "stranded [] c h p" "x \<noteq> c"
  shows "rlps_ok E (note_link k x t l p) \<and> stranded [] c h (note_link k x t l p)"
  using assms
  by (auto simp: rlps_ok_def stranded_def waits_def waiting_def links_of_def note_link_def split: option.splits if_splits)

lemma note_links_stranded:
  "rlps_ok E p \<Longrightarrow> stranded [] c h p \<Longrightarrow> x \<noteq> c \<Longrightarrow>
   rlps_ok E (fold (note_link k x t) links p) \<and> stranded [] c h (fold (note_link k x t) links p)"
  by (induction links arbitrary: p) (simp_all add: note_link_stranded)

lemma addIsolatedBlock_stranded:
  assumes ok: "rlps_ok E p" and s: "stranded [] c h p" and b: "good_block b" "small_block b" "hash_coherent E b"
  shows "rlps_ok E (snd (addIsolatedBlock E k b links p)) \<and> stranded [] c h (snd (addIsolatedBlock E k b links p))"
proof (cases "IsolatedBlockMap p (fst (GetHash E b))")
  case (Some i)
  with ok s show ?thesis by (simp add: addIsolatedBlock_def Let_def)
next
  case None
  define x where "x = fst (GetHash E b)"
  define new where "new = \<lparr>isoLinks = links, isoLinkIt = (case lackBlockMap p x of None \<Rightarrow> [] | Some v \<Rightarrow> lackLinkIt v),
    isoTime = word_of_int k, isoRLP = GetRlp b\<rparr>"
  define q where "q = p\<lparr>lackBlockMap := (lackBlockMap p)(x := None), IsolatedBlockMap := (IsolatedBlockMap p)(x \<mapsto> new)\<rparr>"
  have res: "snd (addIsolatedBlock E k b links p) = fold (note_link k x (GetTime b)) links q"
    using None by (simp add: addIsolatedBlock_def Let_def x_def q_def new_def)
  have xc: "x \<noteq> c" using None stranded_isolated [OF s] by (auto simp: x_def)
  have "rlp_of E x (GetRlp b)" using rlp_of_GetRlp [OF b] GetHash_coherent(1) [OF b(3)] by (simp add: x_def)
  then have q: "rlps_ok E q" using ok by (auto simp: rlps_ok_def q_def new_def)
  have "stranded [] c h q" using s xc None [folded x_def]
    by (auto simp: stranded_def waits_def waiting_def links_of_def q_def new_def split: option.splits if_splits)
  with q xc show ?thesis unfolding res by (intro note_links_stranded)
qed

lemma rlps_ok_cong:
  assumes "IsolatedBlockMap q = IsolatedBlockMap p" "lackBlockMap q = lackBlockMap p"
  shows "rlps_ok E q = rlps_ok E p" "stranded ls c h q = stranded ls c h p"
  unfolding rlps_ok_def stranded_def waits_def waiting_def links_of_def assms by (rule refl)+

text \<open>A block that could not be added takes what it knew of its descendants with it.\<close>

lemma dropped_strands:
  assumes g: "graph_ok E ((l, x # xs) # cur @ next) p" and r: "release E l x (p, next) = Inr (p', next')"
    and d: "drops p' \<noteq> drops p" and c: "x \<in> links_of p c" "c \<noteq> x"
  shows "stranded ((l, xs) # cur @ next') c x p'"
proof -
  obtain i where i: "IsolatedBlockMap p x = Some i"
    using r d by (cases "IsolatedBlockMap p x") (auto simp: release_def report_def drops_def)
  have eff: "IsolatedBlockMap p' = (IsolatedBlockMap p)(x := None)" "next' = next" "lackBlockMap p' = lackBlockMap p"
    using r d i
    by (auto simp: release_def Let_def report_def drops_def res_bind_eq_Inr_iff dest: attach_keeps(1-3) split: sum.splits if_splits)
  have "x \<notin> fst ` set ((l, xs) # cur @ next)"
    using graph_okD(1) [OF g] i by fastforce
  then have "pending ((l, xs) # cur @ next) x = {}" using pending_key by fastforce
  moreover have "waiting p' x = {}" using graph_okD(4) [OF g i] by (simp add: waiting_def eff)
  moreover have "x \<in> links_of p' c" using c by (simp add: links_of_def eff)
  ultimately show ?thesis by (simp add: stranded_def waits_def eff(2))
qed

lemma note_links_channel [simp]: "unverifiedAddChan (fold (note_link k x t) links p) = unverifiedAddChan p"
proof -
  have "unverifiedAddChan (note_link k x t l p) = unverifiedAddChan p" for l p by (simp add: note_link_def split: option.split)
  then show ?thesis by (induction links arbitrary: p) simp_all
qed

lemma addIsolatedBlock_channel: "unverifiedAddChan (snd (addIsolatedBlock E k b links p)) = unverifiedAddChan p"
  by (simp add: addIsolatedBlock_def Let_def split: option.split)

definition add_all :: "nat \<Rightarrow> env \<Rightarrow> (int \<times> Block \<times> bool \<times> bool) list \<Rightarrow> BlockPool \<Rightarrow> err + BlockPool" where
  "add_all fuel E = fold_res (\<lambda>(clock, b, isRelay, isSync) p. res_bind (AddBlock fuel E clock b isRelay isSync p) (\<lambda>(_, p). Inr p))"

lemma AddBlock_stranded:
  assumes r: "AddBlock fuel E clock b isRelay isSync p = Inr (e, p')" and ok: "rlps_ok E p" and s: "stranded [] c h p"
    and b: "good_block b" "small_block b" "hash_coherent E b"
  shows "rlps_ok E p' \<and> stranded [] c h p' \<and> (fst (GetHash E b) \<noteq> c \<longrightarrow> spared c p p')"
proof (cases "HasBlock (pool_db p) (fst (GetHash E b))")
  case True
  with r have "deleteIsolatedBlock fuel E b p = Inr p'" by (auto simp: AddBlock_def res_bind_eq_Inr_iff)
  with delete_stranded ok s show ?thesis by blast
next
  case False
  define q where "q = (if isSync then updateSyncTime (GetTime b) p else p)"
  have q: "rlps_ok E q" "stranded [] c h q" "unverifiedAddChan q = unverifiedAddChan p"
    using ok s rlps_ok_cong [of q p] by (simp_all add: q_def updateSyncTime_def)
  from False r obtain iso where save: "linkCheckAndSave fuel E clock b isRelay isSync p = Inr ((iso, e), p')"
    by (auto simp: AddBlock_def res_bind_eq_Inr_iff)
  show ?thesis
  proof (cases "check_links E (pool_db p) (GetTime b) (GetLinks b)")
    case (Inl x)
    with save ok s show ?thesis by (auto simp: linkCheckAndSave_unfold split: if_splits)
  next
    case (Inr lacks)
    show ?thesis
    proof (cases "lacks = []")
      case False
      with save Inr have "p' = snd (addIsolatedBlock E clock b lacks q)" by (simp add: linkCheckAndSave_unfold Let_def q_def)
      with addIsolatedBlock_stranded [OF q(1,2) b] q(3) show ?thesis by (simp add: addIsolatedBlock_channel)
    next
      case True
      with save Inr obtain e1 b1 p1 where a: "attach E b q = Inr ((e1, b1), p1)"
        and k: "(if e1 \<noteq> None then Inr ((False, e1), p1) else res_bind (deleteIsolatedBlock fuel E b1 p1) (\<lambda>p.
            Inr ((False, None), if isRelay then p\<lparr>posted := posted p @ [RelayBlocksEvent [b1]]\<rparr> else p))) = (Inr ((iso, e), p') :: err + (bool \<times> err option) \<times> BlockPool)"
        by (auto simp: linkCheckAndSave_unfold Let_def q_def res_bind_eq_Inr_iff)
      have p1: "rlps_ok E p1" "stranded [] c h p1" using attach_keeps [OF a] q rlps_ok_cong [of p1 q] by simp_all
      have sp: "spared c p p1" if "fst (GetHash E b) \<noteq> c"
        using that attach_keeps(4) [OF a] q(3) attach_hash [OF b(3), of q b1 p1] a GetHash_coherent(1) [OF b(3)]
        by (cases e1) (simp_all add: spared_def)
      show ?thesis
      proof (cases "e1 = None")
        case False
        with k p1 sp show ?thesis by simp
      next
        case True
        with k obtain y where y: "deleteIsolatedBlock fuel E b1 p1 = Inr y"
          "p' = (if isRelay then y\<lparr>posted := posted y @ [RelayBlocksEvent [b1]]\<rparr> else y)" by (auto simp: res_bind_eq_Inr_iff)
        note del = delete_stranded [OF y(1) p1]
        have "spared c y p'" using y(2) by simp
        with del sp y(2) show ?thesis using rlps_ok_cong [of p' y] spared_trans by fastforce
      qed
    qed
  qed
qed

text \<open>
  C33. A stranded block waits for ever.  When the block \<open>c\<close> is isolated for lack of \<open>h\<close> but does not wait under
  \<open>h\<close> any more, as after \<open>h\<close> was dropped, then no sequence of \<open>AddBlock\<close>, not even of \<open>h\<close> itself, takes \<open>c\<close> out of
  the orphan graph; and unless the sequence offers \<open>c\<close> itself again, \<open>c\<close> is not among the blocks it saves.
\<close>

theorem stranded_forever:
  assumes "stranded [] c h p" "rlps_ok E p" "\<forall>(clock, b, isRelay, isSync) \<in> set cs. good_block b \<and> small_block b \<and> hash_coherent E b"
    and "add_all fuel E cs p = Inr p'"
  shows "stranded [] c h p' \<and> c \<in> dom (IsolatedBlockMap p') \<and>
    ((\<forall>(clock, b, isRelay, isSync) \<in> set cs. fst (GetHash E b) \<noteq> c) \<longrightarrow>
      (\<exists>xs. unverifiedAddChan p' = unverifiedAddChan p @ xs \<and> c \<notin> set xs))"
proof -
  have "rlps_ok E p' \<and> stranded [] c h p' \<and> ((\<forall>(clock, b, isRelay, isSync) \<in> set cs. fst (GetHash E b) \<noteq> c) \<longrightarrow> spared c p p')"
    using assms unfolding add_all_def
  proof (induction cs arbitrary: p)
    case (Cons x cs)
    obtain clock b isRelay isSync where x: "x = (clock, b, isRelay, isSync)" by (metis prod.collapse)
    obtain e q where q: "AddBlock fuel E clock b isRelay isSync p = Inr (e, q)"
      "fold_res (\<lambda>(clock, b, isRelay, isSync) p. res_bind (AddBlock fuel E clock b isRelay isSync p) (\<lambda>(_, p). Inr p)) cs q = Inr p'"
      using Cons.prems(4) by (auto simp: x res_bind_eq_Inr_iff)
    have step: "rlps_ok E q \<and> stranded [] c h q \<and> (fst (GetHash E b) \<noteq> c \<longrightarrow> spared c p q)"
      using AddBlock_stranded [OF q(1) Cons.prems(2,1)] Cons.prems(3) by (simp add: x)
    have rest: "\<forall>(clock, b, isRelay, isSync) \<in> set cs. good_block b \<and> small_block b \<and> hash_coherent E b" using Cons.prems(3) by simp
    from Cons.IH [OF _ _ rest q(2)] step show ?case unfolding x using spared_trans [of c p q p'] by auto
  qed simp
  then show ?thesis using stranded_isolated unfolding spared_def by blast
qed

text \<open>The miner block of the samples, isolated for lack of block 9, which nobody asks for; the genesis block comes.\<close>

definition stranded_pool :: BlockPool where
  "stranded_pool = new_pool\<lparr>IsolatedBlockMap :=
     [sample_h \<mapsto> \<lparr>isoLinks = [9], isoLinkIt = [], isoTime = 0, isoRLP = GetRlp sample_main\<rparr>]\<rparr>"

theorem stranded_forever_witness:
  "\<exists>p'. add_all 1 late_env [(0, sample_main, True, False)] stranded_pool = Inr p' \<and> sample_h \<in> dom (IsolatedBlockMap p')"
proof -
  have "links_of stranded_pool sample_h = {9}" by (simp add: links_of_def stranded_pool_def)
  moreover have "waits [] stranded_pool 9 = {}"
    by (auto simp: waits_def waiting_def stranded_pool_def new_pool_def split: option.splits if_splits)
  ultimately have s: "stranded [] sample_h 9 stranded_pool" by (simp add: stranded_def)
  have ok: "rlps_ok late_env stranded_pool"
    using rlp_of_GetRlp [OF sample_main_ok(1) sample_main_small sample_main_ok(2), of late_env]
    by (auto simp: rlps_ok_def stranded_pool_def new_pool_def)
  have links: "GetLinks sample_main = [5]" by (simp add: sample_main_def sample_mbrec_def)
  have db: "pool_db stranded_pool = empty_db" by (simp add: stranded_pool_def new_pool_def)
  have "ReadBlock late_env empty_db 5 = Inr None" by (simp add: ReadBlock_def ReadBlockRlp_def Get_def empty_db_def)
  then have "check_links late_env empty_db (GetTime sample_main) [5] = Inr [5]" by (simp add: check_links_def)
  moreover have "\<not> HasBlock empty_db (fst (GetHash late_env sample_main))" by (simp add: HasBlock_def Has_def empty_db_def)
  ultimately obtain p' where r: "add_all 1 late_env [(0, sample_main, True, False)] stranded_pool = Inr p'"
    by (simp add: add_all_def AddBlock_def linkCheckAndSave_unfold links db Let_def)
  have "\<forall>(clock, b, isRelay, isSync) \<in> set [(0 :: int, sample_main, True, False)]. good_block b \<and> small_block b \<and> hash_coherent late_env b"
    using sample_main_ok(1,2) sample_main_small by simp
  from stranded_forever [OF s ok this r] r show ?thesis by blast
qed

section \<open>Checked too early\<close>

text \<open>
  When a link arrives and is added between the check and \<open>addIsolatedBlock\<close>, the block waits for a stored block.
  Only another \<open>AddBlock\<close> of the link or the timed request, which looks lacking blocks up, gets it out.
\<close>

lemma note_links_links [simp]: "links_of (fold (note_link k x t) ls p) y = links_of p y"
proof -
  have "links_of (note_link k x t l p) y = links_of p y" for l p
    by (auto simp: links_of_def note_link_def split: option.split)
  then show ?thesis by (induction ls arbitrary: p) simp_all
qed

lemma addIsolatedBlock_db: "mainChainI (snd (addIsolatedBlock E k b links p)) = mainChainI p"
proof -
  have "mainChainI (note_link k x t l p) = mainChainI p" for x t l p by (simp add: note_link_def split: option.split)
  then have "mainChainI (fold (note_link k x t) ls p) = mainChainI p" for x t ls p by (induction ls arbitrary: p) simp_all
  then show ?thesis by (simp add: addIsolatedBlock_def Let_def split: option.split)
qed

lemma isolated_race:
  assumes "graph_ok E [] p" "good_block b" "small_block b" "hash_coherent E b" "distinct lacks" "fst (GetHash E b) \<notin> set lacks"
    and "IsolatedBlockMap p (fst (GetHash E b)) = None" "h \<in> set lacks" "HasBlock (pool_db p) h"
  shows "\<exists>p'. link_act fuel E clock b isRelay False lacks p = Inr ((True, None), p') \<and>
    fst (GetHash E b) \<in> waiting p' h \<and> HasBlock (pool_db p') h"
proof -
  define p' where "p' = snd (addIsolatedBlock E clock b lacks p)"
  have ne: "lacks \<noteq> []" using assms(8) by auto
  have act: "link_act fuel E clock b isRelay False lacks p = Inr ((True, None), p')" using ne by (simp add: link_act_def p'_def)
  have g: "graph_ok E [] p'" unfolding p'_def using addIsolatedBlock_ok [OF assms(1-4)] assms(5,6) ne by simp
  have "links_of p' (fst (GetHash E b)) = set lacks"
    using assms(7) by (simp add: p'_def addIsolatedBlock_def Let_def) (simp add: links_of_def)
  then have "fst (GetHash E b) \<in> waiting p' h" using g assms(8) by (simp add: graph_ok_lists)
  then show ?thesis using act assms(9) addIsolatedBlock_db [of E clock b lacks p] by (simp add: p'_def)
qed

section \<open>The two channels\<close>

lemma loop_steps: "loop_step p q \<Longrightarrow> loop_step q r \<Longrightarrow> loop_step r s \<Longrightarrow> loop_step\<^sup>*\<^sup>* p s"
  by (meson r_into_rtranclp rtranclp_trans)

text \<open>
  C34. The two channels overtake each other.  A block \<open>x\<close> is saved and then a block \<open>y\<close> that links to it: if the
  goroutine takes the removal of \<open>x\<close> after its arrival, \<open>y\<close> alone joins the unverified blocks; if it takes it
  before, which \<open>select\<close> allows, \<open>x\<close> stays among them though it is linked to.
\<close>

theorem unverified_race:
  assumes l: "holds (unverifiedBlocks p) xs" "x \<notin> set xs" "y \<notin> set xs" "x \<noteq> y" "int (length xs) + 2 \<le> ulMaxSize (unverifiedBlocks p)"
    and p: "unverifiedAddChan p = []" "unverifiedDelChan p = []"
    and q: "q = addUnverifiedBlock y (deleteUnverifiedBlocks [x] (addUnverifiedBlock x p))"
  shows "(\<exists>r. loop_step\<^sup>*\<^sup>* q r \<and> unverifiedAddChan r = [] \<and> unverifiedDelChan r = [] \<and> (\<forall>n. SelectUnverifiedBlock n r = take n (xs @ [y]))) \<and>
    (\<exists>r. loop_step\<^sup>*\<^sup>* q r \<and> unverifiedAddChan r = [] \<and> unverifiedDelChan r = [] \<and> (\<forall>n. SelectUnverifiedBlock n r = take n (xs @ [x, y])))"
proof -
  have q: "q = p\<lparr>unverifiedAddChan := [x, y], unverifiedDelChan := [x]\<rparr>"
    using p by (simp add: q addUnverifiedBlock_def deleteUnverifiedBlocks_def deleteUnverifiedBlock_def)
  let ?l = "unverifiedBlocks p"
  have sel: "SelectUnverifiedBlock n r = take n zs" if "holds (unverifiedBlocks r) zs" for n r zs
    using holds_take_from [of "unverifiedBlocks r" "[]" zs n] that by (simp add: SelectUnverifiedBlock_def Front_def holds_def)
  obtain l1 where l1: "Push x ?l = Inr (None, l1)" "holds l1 (xs @ [x])" "ulMaxSize l1 = ulMaxSize ?l"
    using holds_Push [OF l(1), of x] l by auto
  obtain l2 where l2: "ul_Remove x l1 = Inr l2" "holds l2 xs" "ulMaxSize l2 = ulMaxSize ?l"
    using holds_Remove [OF l1(2), of x] l(2) l1(3) by (auto simp: remove1_append)
  obtain l3 where l3: "Push y l2 = Inr (None, l3)" "holds l3 (xs @ [y])" using holds_Push [OF l2(2), of y] l l2(3) by auto
  obtain m1 where m1: "ul_Remove x ?l = Inr m1" "holds m1 xs" "ulMaxSize m1 = ulMaxSize ?l"
    using holds_Remove [OF l(1), of x] l(2) by (auto simp: remove1_idem)
  obtain m2 where m2: "Push x m1 = Inr (None, m2)" "holds m2 (xs @ [x])" "ulMaxSize m2 = ulMaxSize ?l"
    using holds_Push [OF m1(2), of x] l m1(3) by auto
  obtain m3 where m3: "Push y m2 = Inr (None, m3)" "holds m3 (xs @ [x, y])"
    using holds_Push [OF m2(2), of y] l m2(3) by auto
  have a: "loop_step q (q\<lparr>unverifiedAddChan := [y], unverifiedBlocks := l1\<rparr>)"
    "loop_step (q\<lparr>unverifiedAddChan := [y], unverifiedBlocks := l1\<rparr>) (q\<lparr>unverifiedAddChan := [y], unverifiedDelChan := [], unverifiedBlocks := l2\<rparr>)"
    "loop_step (q\<lparr>unverifiedAddChan := [y], unverifiedDelChan := [], unverifiedBlocks := l2\<rparr>)
       (q\<lparr>unverifiedAddChan := [], unverifiedDelChan := [], unverifiedBlocks := l3\<rparr>)"
    by (rule loop_step.add; simp add: take_add_def q l1 l3; fail | rule loop_step.del; simp add: take_del_def q l2; fail)+
  have b: "loop_step q (q\<lparr>unverifiedDelChan := [], unverifiedBlocks := m1\<rparr>)"
    "loop_step (q\<lparr>unverifiedDelChan := [], unverifiedBlocks := m1\<rparr>) (q\<lparr>unverifiedAddChan := [y], unverifiedDelChan := [], unverifiedBlocks := m2\<rparr>)"
    "loop_step (q\<lparr>unverifiedAddChan := [y], unverifiedDelChan := [], unverifiedBlocks := m2\<rparr>)
       (q\<lparr>unverifiedAddChan := [], unverifiedDelChan := [], unverifiedBlocks := m3\<rparr>)"
    by (rule loop_step.add; simp add: take_add_def q m2 m3; fail | rule loop_step.del; simp add: take_del_def q m1; fail)+
  have "SelectUnverifiedBlock n (q\<lparr>unverifiedAddChan := [], unverifiedDelChan := [], unverifiedBlocks := l3\<rparr>) = take n (xs @ [y])" for n
    using l3(2) by (intro sel) simp
  moreover have "SelectUnverifiedBlock n (q\<lparr>unverifiedAddChan := [], unverifiedDelChan := [], unverifiedBlocks := m3\<rparr>) = take n (xs @ [x, y])" for n
    using m3(2) by (intro sel) simp
  ultimately show ?thesis using loop_steps [OF a] loop_steps [OF b] by fastforce
qed

theorem unverified_race_witness:
  "\<exists>r. loop_step\<^sup>*\<^sup>* (addUnverifiedBlock 8 (deleteUnverifiedBlocks [7] (addUnverifiedBlock 7 new_pool))) r \<and>
     SelectUnverifiedBlock 4 r = [7, 8]"
proof -
  have "holds (unverifiedBlocks new_pool) []" "ulMaxSize (unverifiedBlocks new_pool) = 150000"
    by (simp_all add: new_pool_def waiting_pool_def holds_empty) (simp add: NewUniqueList_def)
  then show ?thesis
    using unverified_race [of new_pool "[]" 7 8] by (fastforce simp: new_pool_def waiting_pool_def)
qed

end
