(* ===== verification/Spec2Isabelle.thy ===== *)
theory Spec2Isabelle
  imports RLP_Canonical Storage State_Undo Chain_Mint Chain_Tail EVM_Alu Core_Apply Pool_Loss
begin

text \<open>
  Verification of the TOS node (\<open>go-tos\<close>): a block-DAG ledger with an Ethereum-style virtual machine.

  \<^bold>\<open>The program and the theories.\<close>  A block comes from the network or from the miner as RLP bytes, is decoded and
  validated, and goes to the block pool.  The pool keeps it as an orphan until its links are stored, then has the
  main chain compute its cumulative difficulty, stores it, and lets the main chain move its tail.  When the tail
  is far enough ahead, the main chain confirms the heaviest chain from the last main block on: each main block
  executes everything it references, once, on the account state, pays the rewards, commits the state and
  publishes it.  A block with a payload is executed by the virtual machine.  All paths are under \<open>src/\<close>.

  \<^item> RLP, \<open>devbase/rlp\<close>.  \<open>RLP_Encode\<close> is \<open>encode.go\<close>: \<open>encbuf\<close> is the buffer with its list heads, \<open>write_val\<close> is
    \<open>makeWriter\<close> on the values \<open>rlp_val\<close> that stand for reflected Go values, \<open>toBytes\<close> merges heads and strings.
    \<open>RLP_Raw\<close> is \<open>raw.go\<close>.  \<open>RLP_Stream\<close> is \<open>decode.go\<close>: \<open>Stream\<close> with its stack of open lists and cached kind, and
    \<open>decode\<close>, which dispatches on a type descriptor as \<open>makeDecoder\<close> does.  \<open>RLP_Canonical\<close> reads the decoder backwards.
  \<^item> Blocks, \<open>sdag/core/types\<close>.  \<open>Block_Types\<close> and \<open>Block_Interface\<close> hold the three kinds of block, receipts, logs and
    main-block records, their codecs, hashes, signatures and accessors; \<open>Block_Wire\<close> has \<open>BlockDecode\<close>, signing and
    validation.  \<open>Chain_Utils\<close> is \<open>devbase/utils\<close> (difficulty, time slices) and the constants of \<open>params\<close>.  \<open>env\<close> carries
    Keccak, key recovery, the clock and the genesis time.
  \<^item> Storage, \<open>sdag/core/storage\<close> over the in-memory database: \<open>Storage\<close>.
  \<^item> Account state, \<open>sdag/core/state\<close>.  \<open>State_Object\<close> has accounts, state objects with the read error they remember, and
    journal entries; \<open>State_DB\<close> the operations of \<open>StateDB\<close>, the undo actions, snapshots, \<open>Finalise\<close> and \<open>Commit\<close>.
    \<open>Undo_Log\<close>, \<open>State_Undo\<close>, \<open>State_Journey\<close>, \<open>State_Balance\<close> and \<open>State_Commit\<close> prove what they promise.
  \<^item> Main chain, \<open>sdag/mainchain\<close>.  \<open>Accounting\<close> is \<open>bestir.go\<close>; \<open>Main_Chain\<close> and \<open>Main_Confirm\<close> are \<open>main_chain.go\<close>:
    tail, search, confirmation, roll-back.  \<open>Chain_Money\<close>, \<open>Chain_Status\<close>, \<open>Chain_Mint\<close>, \<open>Chain_Tail\<close> and \<open>Chain_Rewards\<close>
    hold the theorems, \<open>Sample_Store\<close> a concrete store for their witnesses.
  \<^item> Virtual machine, \<open>sdag/core/vm\<close>, \<open>devbase/common/math\<close>.  \<open>EVM_Math\<close>, \<open>EVM_Arith\<close>, \<open>EVM_State\<close>, \<open>EVM_Ops\<close>, \<open>EVM_Gas\<close>,
    \<open>EVM_Calls\<close> and \<open>EVM_Run\<close> model words, instructions, gas, calls, the instruction tables and the interpreter;
    \<open>EVM_Precompiles\<close> the precompiled contracts; \<open>EVM_Jump\<close>, \<open>EVM_Alu\<close>, \<open>EVM_Effect\<close>, \<open>EVM_World\<close>, \<open>EVM_Safety\<close> and
    \<open>EVM_Halt\<close> hold the theorems.
  \<^item> Transactions, \<open>sdag/core\<close>.  \<open>Core_Bloom\<close>, \<open>Core_Transition\<close> and \<open>Core_Apply\<close> are \<open>bloom9.go\<close>, \<open>state_transition.go\<close>,
    \<open>state_processor.go\<close>, \<open>gaspool.go\<close> and \<open>evm.go\<close>.  \<open>Accounting\<close> takes \<open>ApplyTransaction\<close> as an argument, and
    \<open>contract_apply\<close> is the argument the code passes.
  \<^item> Block pool, \<open>sdag/manager/block_pool.go\<close>.  \<open>Unique_List\<close> is \<open>devbase/common/container/uniquelist.go\<close>, \<open>Pool\<close> the pool
    (\<open>IsolatedBlockMap\<close>, \<open>lackBlockMap\<close>, the two channels of unverified blocks, the announcements);
    \<open>Pool_Graph\<close>, \<open>Pool_Release\<close> and \<open>Pool_Loss\<close> hold the theorems.

  \<^bold>\<open>How code becomes definitions.\<close>  A Go function is a definition of the same name (with a prefix for the receiver where
  names clash) that takes the state it reads and returns the state it wrote.  \<open>err + 'a\<close> is a run that panics or
  returns an error (\<open>Inl\<close>) or a result; where the code keeps the changes made before an error, the error is part of
  the result (\<open>err option\<close>).  Fixed-width integers are words, \<open>*big.Int\<close> is \<open>int\<close>, maps are partial functions; where Go
  ranges over a map the order is an argument.  \<open>make([]byte, n)\<close> panics above \<open>2 ^ 48\<close>, the limit of the runtime on
  64-bit machines; running out of memory below it is not modelled.  Goroutines appear as step relations
  where their order matters: \<open>race_step\<close> for \<open>UpdateTail\<close>, \<open>loop_step\<close> for the unverified blocks, \<open>link_act\<close> after a
  check that was made earlier; channels are lists without a bound, so a sender that blocks is not seen.

  \<^bold>\<open>What the lemmas show.\<close>

  \<^item> \<open>EncodeToBytes\<close> is the textbook encoding, \<open>Split\<close> accepts exactly its heads, decoding inverts it,
    and the decoder accepts nothing else.
  \<^item> Blocks come back from their wire form and from the store.
  \<^item> The journal is an undo log (locale \<open>undo_log\<close>), so reverting restores whatever a client could observe; a
    committed state opens again with the same accounts.
  \<^item> Money: accounting uses the state through the locale \<open>balance_sheet\<close>; confirmation of plain transfers conserves
    the sum of balances and rewards, each main block adds its mining reward.  What may go wrong with contract
    blocks is proved too (\<open>Chain_Rewards\<close>).
  \<^item> Confirmation executes each block once, after its references, and ends; the tail is the heaviest block offered
    sequentially, and a race can lose it.
  \<^item> The machine: the locale \<open>vm_relation\<close> proves by one induction over the interpreter that a relation kept by the basic
    operations is kept by every call; its interpretations give that failed calls are undone, static calls change
    nothing and no call creates money.  Every call ends, instructions are 256-bit arithmetic, jump analysis is right.
  \<^item> The pool: each orphan waits under exactly the links it lacks, a stored block releases exactly those that lacked
    nothing else.  Two ways to lose something, dropped blocks and overtaking channels, are proved as well.

  \<^bold>\<open>Bounds and fuel.\<close>  Recursions without a structural measure take fuel, and running out of it is an error of the
  model only (\<open>NoFuel\<close>, in the decoder \<open>OutOfFuel\<close>).  \<open>singleBlockConfirm\<close> needs more than the rank of the block in the acyclic graph
  (\<open>singleBlockConfirm_terminates\<close>), \<open>release_loop\<close> as much as there are isolated blocks (\<open>AddBlock_terminates\<close>), the
  interpreter more than its gas (\<open>Call_terminates\<close>), \<open>ApplyTransaction\<close> more than the gas pool
  (\<open>ApplyTransaction_charges\<close>), the element loop of the decoder one round per byte.  \<open>length b < 2 ^ 64\<close> and the like say that a slice
  fits an address space.

  \<^bold>\<open>What is not modelled.\<close>  Keccak, SHA-256, RIPEMD-160, secp256k1 and the pairing curve are arguments.  The Merkle trie
  is a finite map with a root-hash function as an argument: a trie is in the store as a whole or not at all, so the
  only read errors are missing roots, missing code and malformed slots, which objects remember as in the code;
  \<open>StateDB.dbErr\<close>, which only damaged tries set and \<open>Commit\<close> never reads, is no field, and writing the trie database
  to disk has no error.  \<open>append(input[64:128], v)\<close> in \<open>ecrecover\<close> overwrites a byte of the caller's slice; no theorem
  depends on it.  Network, RPC, key files, the mining loop, tracing, logging and start-up are outside.
\<close>

end
